(* ===== verification/Prelude.thy ===== *)
theory Prelude
  imports Main "HOL-Library.Word"
begin

text \<open>
  Shared vocabulary of the development: the widths of the machine integers the sources use,
  the collections of rewrite rules the component theories fill, and the generic facts on
  words, lists and iterated steps that several components need.
\<close>

unbundle bit_operations_syntax

section \<open>Machine integers\<close>

type_synonym u8 = "8 word"
type_synonym u16 = "16 word"
type_synonym u32 = "32 word"
type_synonym u64 = "64 word"

text \<open>Collections: reading the fields of a state off an equation of environments; moving updates under output.\<close>

named_theorems env_simps \<open>what equal environments of two machines say about their fields\<close>
named_theorems dbg_simps \<open>updates of the debugger's state commute with output\<close>

section \<open>Words\<close>

lemma unat_lt_2p: "unat (w :: 'a::len word) < 2 ^ LENGTH('a)"
  by (rule unsigned_less)

lemma unat_ucast_mod: "unat (ucast (w :: 'a::len word) :: 'b::len word) = unat w mod 2 ^ LENGTH('b)"
  by (simp add: unsigned_ucast_eq take_bit_eq_mod)

lemma unat_drop_bit: "unat (drop_bit n (w :: 'a::len word)) = unat w div 2 ^ n"
  by (simp add: unat_drop_bit_eq flip: drop_bit_eq_div)

lemma unat_take_bit_mod: "unat (take_bit n (w :: 'a::len word)) = unat w mod 2 ^ n"
proof -
  have "unat (take_bit n w) = take_bit n (unat w)" by (rule unsigned_take_bit_eq)
  then show ?thesis by (simp only: take_bit_eq_mod)
qed

lemma word_eq_of_nat: "unat w = n \<Longrightarrow> w = word_of_nat n"
  by auto

lemma bit_unat_odd: "bit (w :: 'a::len word) n \<longleftrightarrow> odd (unat w div 2 ^ n)"
  using bit_iff_odd [of "unat w" n] by (simp add: bit_unsigned_iff)

lemma unat_u8_lt: "unat (b :: u8) < 256"
  using unat_lt_2p [of b] by simp

lemma unat_u16_lt: "unat (a :: u16) < 65536"
  using unat_lt_2p [of a] by simp

text \<open>A 16-bit value from its two bytes, as the C code writes it (\<open>lo | (hi << 8)\<close>).\<close>

definition le16 :: "u8 \<Rightarrow> u8 \<Rightarrow> u16" where
  "le16 lo hi = ucast lo OR push_bit 8 (ucast hi)"

definition lo8 :: "u16 \<Rightarrow> u8" where
  "lo8 w = ucast w"

definition hi8 :: "u16 \<Rightarrow> u8" where
  "hi8 w = ucast (drop_bit 8 w)"

lemma le16_split [simp]: "le16 (lo8 w) (hi8 w) = w"
  by (rule bit_word_eqI) (auto simp: le16_def lo8_def hi8_def bit_simps)

lemma lo8_le16 [simp]: "lo8 (le16 l h) = l"
  by (rule bit_word_eqI) (auto simp: le16_def lo8_def bit_simps dest: bit_imp_le_length)

lemma hi8_le16 [simp]: "hi8 (le16 l h) = h"
  by (rule bit_word_eqI) (auto simp: le16_def hi8_def bit_simps dest: bit_imp_le_length)

lemma le16_inject [simp]: "le16 l h = le16 l' h' \<longleftrightarrow> l = l' \<and> h = h'"
  by (metis lo8_le16 hi8_le16)

text \<open>A value packed from two bit fields, as the C code writes it: \<open>(a << n) | (b & mask)\<close>.\<close>

lemma disjunctive_pack: "push_bit n a OR take_bit n b = push_bit n a + take_bit n (b :: 'a::len word)"
  by (rule disjunctive_add [symmetric]) (auto simp: bit_simps)

lemma unat_pack:
  fixes a b :: "'a::len word"
  assumes "unat a * 2 ^ n + 2 ^ n \<le> 2 ^ LENGTH('a)"
  shows "unat (push_bit n a OR take_bit n b) = unat a * 2 ^ n + unat b mod 2 ^ n"
proof -
  have lt: "unat b mod 2 ^ n < 2 ^ n" by simp
  have pos: "(0 :: nat) < 2 ^ n" by simp
  have "unat a * 2 ^ n < 2 ^ LENGTH('a)" using assms pos by linarith
  then have a: "unat (push_bit n a) = unat a * 2 ^ n"
    unfolding unsigned_push_bit_eq take_bit_eq_mod by (simp add: push_bit_eq_mult)
  have b: "unat (take_bit n b) = unat b mod 2 ^ n"
    unfolding unsigned_take_bit_eq by (simp add: take_bit_eq_mod)
  have "unat a * 2 ^ n + unat b mod 2 ^ n < 2 ^ LENGTH('a)" using assms lt by linarith
  then show ?thesis
    unfolding disjunctive_pack by (simp add: unat_word_ariths a b)
qed

lemma and_mask_numeral:
  "w AND 3 = take_bit 2 (w :: 'a::len word)" "w AND 7 = take_bit 3 w" "w AND 0x1F = take_bit 5 w"
  "w AND 0x0F = take_bit 4 w" "w AND 0x3FF = take_bit 10 w"
  by (simp_all add: take_bit_eq_mask mask_eq_exp_minus_1)

section \<open>Iterated steps\<close>

lemma funpow_invariant:
  assumes "\<And>s. P s \<Longrightarrow> P (f s)" and "P s"
  shows "P ((f ^^ n) s)"
  using assms(2) by (induction n) (auto intro: assms(1))

lemma funpow_frame:
  assumes "\<And>s. g (f s) = g s"
  shows "g ((f ^^ n) s) = g s"
  by (induction n) (auto simp: assms)

section \<open>Operations on a state\<close>

text \<open>A sequence of operations that may fail, and the state it leads to.\<close>

fun run_ops :: "('op \<Rightarrow> 'c \<Rightarrow> 'c option) \<Rightarrow> 'op list \<Rightarrow> 'c \<Rightarrow> 'c option" where
  "run_ops f [] c = Some c"
| "run_ops f (x # xs) c = (case f x c of None \<Rightarrow> None | Some c \<Rightarrow> run_ops f xs c)"

text \<open>
  Operations of the code that simulate those of a specification: none of them fails in a state that
  represents an abstract one, and the state it leads to represents the abstract result.
\<close>

locale simulation =
  fixes cstep :: "'op \<Rightarrow> 'c \<Rightarrow> 'c option" and astep :: "'op \<Rightarrow> 'a \<Rightarrow> 'a" and rel :: "'c \<Rightarrow> 'a \<Rightarrow> bool"
  assumes step_sim: "rel c a \<Longrightarrow> \<exists>c'. cstep x c = Some c' \<and> rel c' (astep x a)"
begin

lemma run_sim: "rel c a \<Longrightarrow> \<exists>c'. run_ops cstep xs c = Some c' \<and> rel c' (fold astep xs a)"
proof (induction xs arbitrary: c a)
  case (Cons x xs)
  obtain c1 where "cstep x c = Some c1" "rel c1 (astep x a)" using step_sim [OF Cons.prems] by blast
  then show ?case using Cons.IH by auto
qed simp

lemma run_total: "rel c a \<Longrightarrow> run_ops cstep xs c \<noteq> None"
  using run_sim by fastforce

end

text \<open>
  Operations that may be undefined: in a state that satisfies the invariant the code's is defined exactly where
  the specification's is, and the abstraction function maps the one's result to the other's.
\<close>

locale refinement =
  fixes cstep :: "'op \<Rightarrow> 'c \<Rightarrow> 'c option" and astep :: "'op \<Rightarrow> 'a \<Rightarrow> 'a option" and abs :: "'c \<Rightarrow> 'a" and inv :: "'c \<Rightarrow> bool"
  assumes step_abs: "inv c \<Longrightarrow> map_option abs (cstep x c) = astep x (abs c)"
    and step_keeps: "inv c \<Longrightarrow> cstep x c = Some c' \<Longrightarrow> inv c'"
begin

lemma run_abs: "inv c \<Longrightarrow> map_option abs (run_ops cstep xs c) = run_ops astep xs (abs c)"
proof (induction xs arbitrary: c)
  case (Cons x xs)
  show ?case
  proof (cases "cstep x c")
    case None
    then show ?thesis using step_abs [OF Cons.prems, of x] by simp
  next
    case (Some c1)
    then have "astep x (abs c) = Some (abs c1)" using step_abs [OF Cons.prems, of x] by simp
    then show ?thesis using Some Cons.IH [OF step_keeps [OF Cons.prems Some]] by simp
  qed
qed simp

lemma run_keeps: "inv c \<Longrightarrow> run_ops cstep xs c = Some c' \<Longrightarrow> inv c'"
  by (induction xs arbitrary: c) (auto split: option.splits dest: step_keeps)

end

text \<open>A step relation with an invariant.\<close>

locale invariant_system =
  fixes step :: "'s \<Rightarrow> 's \<Rightarrow> bool" and inv :: "'s \<Rightarrow> bool"
  assumes step_inv: "step s s' \<Longrightarrow> inv s \<Longrightarrow> inv s'"
begin

lemma steps_inv: "step\<^sup>*\<^sup>* s s' \<Longrightarrow> inv s \<Longrightarrow> inv s'"
  by (induction rule: rtranclp_induct) (auto intro: step_inv)

end

end
