(* ===== verification/Mmu.thy ===== *)
theory Mmu
  imports Prelude
begin

text \<open>
  The memory management unit, \<^verbatim>\<open>rtl/mmu6502.v\<close>, as \<^verbatim>\<open>rtl/tb.v\<close> instantiates it
  (\<open>PPN_WIDTH = 5\<close>): its registers are a record, its combinational wires are functions of the
  registers and the inputs, and the block clocked by the falling edge of \<open>phi2\<close> is the
  function \<open>mmu_negedge\<close>.
\<close>

section \<open>Registers\<close>

record mmu =
  ppn :: "5 word \<Rightarrow> 5 word"
  w_bits :: u32
  u_bits :: u32
  kernel :: bool
  fault_reg :: bool

section \<open>Address decode and translation\<close>

definition vpn :: "u16 \<Rightarrow> 5 word" where
  "vpn a = ucast (drop_bit 10 a)"

definition page_off :: "u16 \<Rightarrow> 10 word" where
  "page_off a = ucast a"

definition is_ctrl :: "u16 \<Rightarrow> bool" where
  "is_ctrl a \<longleftrightarrow> drop_bit 6 a = 0x202"

definition reg_off :: "u16 \<Rightarrow> 6 word" where
  "reg_off a = ucast a"

definition ram_access :: "u16 \<Rightarrow> bool" where
  "ram_access a \<longleftrightarrow> \<not> bit a 15"

definition ram_addr :: "mmu \<Rightarrow> u16 \<Rightarrow> 15 word" where
  "ram_addr m a = word_cat (if kernel m then vpn a else ppn m (vpn a)) (page_off a)"

section \<open>Faults\<close>

definition fault_u :: "mmu \<Rightarrow> u16 \<Rightarrow> bool" where
  "fault_u m a \<longleftrightarrow> ram_access a \<and> \<not> kernel m \<and> \<not> bit (u_bits m) (unat (vpn a))"

definition fault_w :: "mmu \<Rightarrow> bool \<Rightarrow> u16 \<Rightarrow> bool" where
  "fault_w m rwb a \<longleftrightarrow> ram_access a \<and> \<not> kernel m \<and> \<not> rwb \<and> \<not> bit (w_bits m) (unat (vpn a))"

definition fault_ctrl :: "mmu \<Rightarrow> bool \<Rightarrow> u16 \<Rightarrow> bool" where
  "fault_ctrl m rwb a \<longleftrightarrow> is_ctrl a \<and> \<not> kernel m \<and> \<not> rwb"

definition fault_any :: "mmu \<Rightarrow> bool \<Rightarrow> u16 \<Rightarrow> bool" where
  "fault_any m rwb a \<longleftrightarrow> fault_u m a \<or> fault_w m rwb a \<or> fault_ctrl m rwb a"

section \<open>Control registers\<close>

definition get_byte :: "nat \<Rightarrow> u32 \<Rightarrow> u8" where
  "get_byte k w = ucast (drop_bit (8 * k) w)"

definition set_byte :: "nat \<Rightarrow> u32 \<Rightarrow> u8 \<Rightarrow> u32" where
  "set_byte k w b = (w AND NOT (push_bit (8 * k) (mask 8))) OR push_bit (8 * k) (ucast b)"

definition ctrl_write :: "6 word \<Rightarrow> u8 \<Rightarrow> mmu \<Rightarrow> mmu" where
  "ctrl_write r d m =
     (if \<not> bit r 5 then m\<lparr>ppn := (ppn m)(ucast r := ucast d)\<rparr>
      else if r = 0x20 then m\<lparr>u_bits := set_byte 0 (u_bits m) d\<rparr>
      else if r = 0x21 then m\<lparr>u_bits := set_byte 1 (u_bits m) d\<rparr>
      else if r = 0x22 then m\<lparr>u_bits := set_byte 2 (u_bits m) d\<rparr>
      else if r = 0x23 then m\<lparr>u_bits := set_byte 3 (u_bits m) d\<rparr>
      else if r = 0x24 then m\<lparr>w_bits := set_byte 0 (w_bits m) d\<rparr>
      else if r = 0x25 then m\<lparr>w_bits := set_byte 1 (w_bits m) d\<rparr>
      else if r = 0x26 then m\<lparr>w_bits := set_byte 2 (w_bits m) d\<rparr>
      else if r = 0x27 then m\<lparr>w_bits := set_byte 3 (w_bits m) d\<rparr>
      else if r = 0x28 then m\<lparr>kernel := bit d 0\<rparr>
      else m)"

definition ctrl_rd :: "6 word \<Rightarrow> mmu \<Rightarrow> u8" where
  "ctrl_rd r m =
     (if \<not> bit r 5 then ucast (ppn m (ucast r))
      else if r = 0x20 then get_byte 0 (u_bits m)
      else if r = 0x21 then get_byte 1 (u_bits m)
      else if r = 0x22 then get_byte 2 (u_bits m)
      else if r = 0x23 then get_byte 3 (u_bits m)
      else if r = 0x24 then get_byte 0 (w_bits m)
      else if r = 0x25 then get_byte 1 (w_bits m)
      else if r = 0x26 then get_byte 2 (w_bits m)
      else if r = 0x27 then get_byte 3 (w_bits m)
      else if r = 0x28 then (if kernel m then 1 else 0)
      else 0)"

section \<open>The clocked block\<close>

definition mmu_reset :: mmu where
  "mmu_reset = \<lparr>ppn = (\<lambda>i. i), w_bits = 0xFFFFFFFF, u_bits = 0, kernel = True,
                fault_reg = False\<rparr>"

text \<open>
  One falling edge of \<open>phi2\<close> (or a falling \<open>resetb\<close>): a vector pull or a fault enters
  kernel mode, otherwise a control-register write in kernel mode takes effect; the fault is
  registered by the second always block.
\<close>

definition mmu_negedge :: "bool \<Rightarrow> bool \<Rightarrow> bool \<Rightarrow> u16 \<Rightarrow> u8 \<Rightarrow> mmu \<Rightarrow> mmu" where
  "mmu_negedge resetb rwb vpb a d m =
     (if \<not> resetb then mmu_reset
      else (if \<not> vpb \<or> fault_any m rwb a then m\<lparr>kernel := True\<rparr>
            else if is_ctrl a \<and> \<not> rwb \<and> kernel m then ctrl_write (reg_off a) d m
            else m)\<lparr>fault_reg := fault_any m rwb a\<rparr>)"

definition faultb :: "mmu \<Rightarrow> bool" where
  "faultb m \<longleftrightarrow> \<not> fault_reg m"

section \<open>Facts on decode and translation\<close>

lemma unat_word_cat_5_10:
  "unat (word_cat (p :: 5 word) (q :: 10 word) :: 15 word) = unat p * 1024 + unat q"
proof -
  have p: "unat p < 32" using unat_lt_2p [of p] by simp
  have q: "unat q < 1024" using unat_lt_2p [of q] by simp
  have 1: "unat (push_bit 10 (ucast p) :: 15 word) = unat p * 1024"
    using p by (simp add: push_bit_eq_mult unat_word_ariths unat_ucast_mod)
  show ?thesis
    using p q by (simp add: word_cat_eq unat_word_ariths 1 unat_ucast_mod)
qed

lemma unat_vpn: "unat (vpn a) = unat a div 1024 mod 32"
  by (simp add: vpn_def unat_ucast_mod unat_drop_bit)

lemma unat_page_off: "unat (page_off a) = unat a mod 1024"
  by (simp add: page_off_def unat_ucast_mod)

lemma unat_ram_addr_user:
  "\<not> kernel m \<Longrightarrow> unat (ram_addr m a) = unat (ppn m (vpn a)) * 1024 + unat a mod 1024"
  by (simp add: ram_addr_def unat_word_cat_5_10 unat_page_off)

lemma ram_addr_kernel: "kernel m \<Longrightarrow> ram_addr m a = ucast a"
  by (rule bit_word_eqI) (auto simp: ram_addr_def vpn_def page_off_def bit_simps)

lemma is_ctrl_iff: "is_ctrl a \<longleftrightarrow> 0x8080 \<le> a \<and> a \<le> 0x80BF"
proof -
  have "is_ctrl a \<longleftrightarrow> unat a div 64 = 0x202"
    by (simp add: is_ctrl_def word_unat_eq_iff unat_drop_bit)
  also have "\<dots> \<longleftrightarrow> 0x8080 \<le> unat a \<and> unat a \<le> 0x80BF" by auto
  finally show ?thesis by (simp add: word_le_nat_alt)
qed

lemma ram_access_iff: "ram_access a \<longleftrightarrow> a < 0x8000"
proof -
  have "bit a 15 \<longleftrightarrow> odd (unat a div 32768)"
    using bit_iff_odd [of "unat a" 15] by (simp add: bit_unsigned_iff)
  moreover have "unat a div 32768 < 2"
    by (rule less_mult_imp_div_less) (use unat_u16_lt [of a] in simp)
  then have "odd (unat a div 32768) \<longleftrightarrow> unat a div 32768 \<noteq> 0"
    by (auto simp: less_2_cases_iff)
  ultimately show ?thesis
    by (simp add: ram_access_def word_less_nat_alt div_eq_0_iff)
qed

lemma get_set_byte: "k < 4 \<Longrightarrow> get_byte k (set_byte k w b) = b"
  by (rule bit_word_eqI) (auto simp: get_byte_def set_byte_def bit_simps)

lemma get_set_byte_other: "k < 4 \<Longrightarrow> j < 4 \<Longrightarrow> j \<noteq> k \<Longrightarrow> get_byte j (set_byte k w b) = get_byte j w"
  by (rule bit_word_eqI) (auto simp: get_byte_def set_byte_def bit_simps dest: bit_imp_le_length)

lemma word_cat_vpn_page: "word_cat (vpn a) (page_off a) = (ucast a :: 15 word)"
  by (rule bit_word_eqI) (auto simp: vpn_def page_off_def bit_simps)

lemma ram_vaddr_inject:
  assumes "a < 0x8000" "b < 0x8000" "vpn a = vpn b" "page_off a = page_off b"
  shows "a = b"
proof -
  have lt: "unat a div 1024 < 32" "unat b div 1024 < 32"
    by (rule less_mult_imp_div_less, use assms(1,2) in \<open>simp add: word_less_nat_alt\<close>)+
  have "unat a div 1024 = unat b div 1024"
    using arg_cong [OF assms(3), of unat] lt by (simp add: unat_vpn)
  moreover have "unat a mod 1024 = unat b mod 1024"
    using arg_cong [OF assms(4), of unat] by (simp add: unat_page_off)
  ultimately have "unat a = unat b" by (metis div_mult_mod_eq)
  then show ?thesis by (simp add: word_unat_eq_iff)
qed

lemma fault_any_kernel [simp]: "kernel m \<Longrightarrow> \<not> fault_any m rwb a"
  by (simp add: fault_any_def fault_u_def fault_w_def fault_ctrl_def)

lemma negedge_kernel_read:
  "kernel m \<Longrightarrow> mmu_negedge True True vpb a d m = m\<lparr>fault_reg := False\<rparr>"
  by (cases m) (simp add: mmu_negedge_def)

lemma negedge_kernel_write:
  "kernel m \<Longrightarrow> mmu_negedge True False True a d m =
     (if is_ctrl a then ctrl_write (reg_off a) d m else m)\<lparr>fault_reg := False\<rparr>"
  by (simp add: mmu_negedge_def)

definition ctrl_visible :: "6 word \<Rightarrow> u8 \<Rightarrow> u8" where
  "ctrl_visible r d =
     (if \<not> bit r 5 then d AND mask 5
      else if r < 0x28 then d
      else if r = 0x28 then d AND 1
      else 0)"

lemma unat6_bit5: "bit (r :: 6 word) 5 \<longleftrightarrow> 32 \<le> unat r"
proof -
  have "bit r 5 \<longleftrightarrow> odd (unat r div 32)"
    using bit_iff_odd [of "unat r" 5] by (simp add: bit_unsigned_iff)
  moreover have "unat r < 64" using unat_lt_2p [of r] by simp
  then have "unat r div 32 = (if 32 \<le> unat r then 1 else 0)" by (auto intro: div_nat_eqI)
  ultimately show ?thesis by simp
qed

lemma reg6_cases:
  assumes "bit (r :: 6 word) 5" "r < 0x28"
  shows "r = 0x20 \<or> r = 0x21 \<or> r = 0x22 \<or> r = 0x23 \<or> r = 0x24 \<or> r = 0x25 \<or> r = 0x26 \<or> r = 0x27"
  using assms by (auto simp: unat6_bit5 word_less_nat_alt word_unat_eq_iff)

lemma ucast_5_inject:
  assumes "\<not> bit (r :: 6 word) 5" "\<not> bit r' 5" "(ucast r :: 5 word) = ucast r'"
  shows "r = r'"
proof -
  have "unat r mod 32 = unat r' mod 32"
    using arg_cong [OF assms(3), of unat] by (simp add: unat_ucast_mod)
  then show ?thesis using assms(1,2) by (simp add: unat6_bit5 word_unat_eq_iff)
qed

lemma ucast_ucast_5: "(ucast (ucast d :: 5 word) :: u8) = d AND mask 5"
  by (rule bit_word_eqI) (auto simp: bit_simps)

lemma mask1_bit0: "(if bit (d :: u8) 0 then 1 else 0) = d AND 1"
  by (rule bit_word_eqI) (auto simp: bit_simps intro: gr0I)

lemma ctrl_rd_write: "ctrl_rd r (ctrl_write r d m) = ctrl_visible r d"
proof (cases "bit r 5")
  case False
  then show ?thesis by (simp add: ctrl_rd_def ctrl_write_def ctrl_visible_def ucast_ucast_5)
next
  case b5: True
  consider (low) "r < 0x28" | (mode) "r = 0x28" | (res) "0x28 < r" by fastforce
  then show ?thesis
  proof cases
    case low
    with b5 show ?thesis
      using reg6_cases [OF b5 low]
      by (elim disjE) (simp_all add: ctrl_rd_def ctrl_write_def ctrl_visible_def get_set_byte)
  next
    case mode
    then show ?thesis
      by (simp add: ctrl_rd_def ctrl_write_def ctrl_visible_def flip: mask1_bit0)
  next
    case res
    then have "r \<noteq> 0x20" "r \<noteq> 0x21" "r \<noteq> 0x22" "r \<noteq> 0x23" "r \<noteq> 0x24" "r \<noteq> 0x25"
      "r \<noteq> 0x26" "r \<noteq> 0x27" "r \<noteq> 0x28" "\<not> r < 0x28" by auto
    with b5 show ?thesis by (simp add: ctrl_rd_def ctrl_write_def ctrl_visible_def)
  qed
qed

lemma ctrl_rd_write_other:
  assumes "r \<noteq> r'"
  shows "ctrl_rd r' (ctrl_write r d m) = ctrl_rd r' m"
proof (cases "bit r 5")
  case False
  then show ?thesis
    using assms by (auto simp: ctrl_rd_def ctrl_write_def dest: ucast_5_inject)
next
  case True
  then show ?thesis
    using assms by (auto simp: ctrl_rd_def ctrl_write_def get_set_byte_other)
qed

section \<open>Properties\<close>

lemma ctrl_rd_fault_reg [simp]: "ctrl_rd r (m\<lparr>fault_reg := f\<rparr>) = ctrl_rd r m"
  by (simp add: ctrl_rd_def)

text \<open>
  C13: a cycle in user mode changes nothing in the MMU but the mode and the registered fault:
  kernel mode is entered exactly by a vector pull or by a fault, and the page table and the
  permission bits are out of the user program's reach whatever it puts on the bus.
\<close>

theorem mmu_user_cycle:
  assumes "\<not> kernel m"
  shows "mmu_negedge True rwb vpb a d m =
           m\<lparr>kernel := (\<not> vpb \<or> fault_any m rwb a), fault_reg := fault_any m rwb a\<rparr>"
  using assms by (auto simp: mmu_negedge_def)

theorem mmu_user_cycle_witness:
  "mmu_negedge True False True 0x8080 7 (mmu_reset\<lparr>kernel := False\<rparr>) =
     mmu_reset\<lparr>kernel := True, fault_reg := True\<rparr>"
  using mmu_user_cycle [of "mmu_reset\<lparr>kernel := False\<rparr>" False True "0x8080" 7]
  by (simp add: fault_any_def fault_ctrl_def is_ctrl_def)

text \<open>
  C14: a user-mode RAM access that raises no fault touches a page whose user bit is set, a
  write one whose write bit is set as well, and it goes to the physical page the table maps
  the virtual page to, at the same offset.
\<close>

theorem mmu_user_access:
  assumes "\<not> kernel m" and "ram_access a" and "\<not> fault_any m rwb a"
  shows "bit (u_bits m) (unat (vpn a)) \<and> (rwb \<or> bit (w_bits m) (unat (vpn a))) \<and>
         unat (ram_addr m a) = unat (ppn m (vpn a)) * 1024 + unat a mod 1024"
  using assms by (auto simp: fault_any_def fault_u_def fault_w_def unat_ram_addr_user)

theorem mmu_user_access_witness:
  "unat (ram_addr (mmu_reset\<lparr>kernel := False, u_bits := 2, ppn := (\<lambda>_. 7)\<rparr>) 0x423) = 7 * 1024 + 0x23"
  using mmu_user_access [of "mmu_reset\<lparr>kernel := False, u_bits := 2, ppn := (\<lambda>_. 7)\<rparr>" "0x423" True]
  by (simp add: fault_any_def fault_u_def fault_w_def fault_ctrl_def is_ctrl_def ram_access_def vpn_def)

text \<open>
  In kernel mode a write to a control register is read back (the page numbers on 5 bits,
  the mode on one, the reserved registers as 0) and changes no other control register.
\<close>

theorem mmu_ctrl_roundtrip:
  assumes "kernel m" and "is_ctrl a"
  shows "ctrl_rd r (mmu_negedge True False True a d m) =
           (if r = reg_off a then ctrl_visible r d else ctrl_rd r m)"
  using assms
  by (simp_all add: negedge_kernel_write ctrl_rd_write ctrl_rd_write_other)

theorem mmu_ctrl_roundtrip_witness:
  "ctrl_rd 3 (mmu_negedge True False True 0x8083 0x2A mmu_reset) = 0x0A"
  using mmu_ctrl_roundtrip [of mmu_reset "0x8083" 3 "0x2A"]
  by (simp add: mmu_reset_def is_ctrl_def reg_off_def ctrl_visible_def mask_eq_exp_minus_1)

end
