(* ===== verification/Machine.thy ===== *)
theory Machine
  imports Mmu
begin

text \<open>
  The machine around the CPU, \<^verbatim>\<open>rtl/tb.v\<close>: RAM and ROM, the ACIA, the GPU stream and the
  disk controller, with the bus decode that ties them to the MMU. One bus cycle is the
  falling clock edge (the MMU samples the bus) followed by the rising edge (the memory and
  the devices act). Host files are state: the disk image with its file position, the byte
  streams written to the terminal and to the GPU pipe, and what each poll of the keyboard file
  returns (\<open>rx_src\<close>, an arbitrary function of the poll's number).

  The C code of the kernel fixes which I/O accesses happen and in which order, not how many
  clock cycles lie between them. That number is an arbitrary function \<open>gaps\<close> of the access
  count, so that whatever is proved holds for every timing. \<open>core\<close> forgets the fields that
  depend on the timing.
\<close>

section \<open>State\<close>

record machine =
  mmu :: mmu
  ram :: "15 word \<Rightarrow> u8"
  rom :: "u16 \<Rightarrow> u8"
  acia_rx_data :: u8
  acia_rx_valid :: bool
  acia_tx_ready :: bool
  acia_tx_count :: u16
  disk_lba :: u32
  disk_buf :: "9 word \<Rightarrow> u8"
  disk_dptr :: "9 word"
  disk_busy :: bool
  disk_err :: bool
  disk_img :: "u8 list option"
  disk_pos :: nat
  acia_out :: "u8 list"
  gpu_out :: "u8 list"
  overruns :: "u8 list"
  poll_counter :: nat
  rx_src :: "nat \<Rightarrow> u8 option"
  rx_polls :: nat
  NMI :: bool
  gaps :: "nat \<Rightarrow> nat"
  accs :: nat

section \<open>Disk controller\<close>

text \<open>
  \<open>$fseek\<close> to a signed 32-bit offset (a negative one, bit 31 set, leaves the position alone), then 512
  times \<open>$fgetc\<close>, which returns EOF without moving past the end of the file.
\<close>

definition seek_pos :: "u32 \<Rightarrow> nat \<Rightarrow> nat" where
  "seek_pos off p = (if bit off 31 then p else unat off)"

definition disk_do_read :: "machine \<Rightarrow> machine" where
  "disk_do_read m =
     (case disk_img m of
        None \<Rightarrow> m\<lparr>disk_err := True, disk_busy := False, disk_dptr := 0\<rparr>
      | Some img \<Rightarrow>
          let p = seek_pos (disk_lba m * 512) (disk_pos m) in
          m\<lparr>disk_buf := (\<lambda>i. if p + unat i < length img then img ! (p + unat i) else 0),
             disk_pos := (if p < length img then min (p + 512) (length img) else p),
             disk_err := False, disk_busy := False, disk_dptr := 0\<rparr>)"

definition buf_bytes :: "(9 word \<Rightarrow> u8) \<Rightarrow> u8 list" where
  "buf_bytes b = map (\<lambda>i. b (word_of_nat i)) [0..<512]"

definition put_bytes :: "nat \<Rightarrow> u8 list \<Rightarrow> u8 list \<Rightarrow> u8 list" where
  "put_bytes p bs img =
     take p (img @ replicate (p - length img) 0) @ bs @ drop (p + length bs) img"

definition disk_do_write :: "machine \<Rightarrow> machine" where
  "disk_do_write m =
     (case disk_img m of
        None \<Rightarrow> m\<lparr>disk_err := True, disk_busy := False\<rparr>
      | Some img \<Rightarrow>
          let p = seek_pos (disk_lba m * 512) (disk_pos m) in
          m\<lparr>disk_img := Some (put_bytes p (buf_bytes (disk_buf m)) img),
             disk_pos := p + 512, disk_err := False, disk_busy := False\<rparr>)"

section \<open>Read mux\<close>

definition status_byte :: "bool \<Rightarrow> bool \<Rightarrow> u8" where
  "status_byte b1 b0 = (if b1 then 2 else 0) OR (if b0 then 1 else 0)"

definition disk_status :: "bool \<Rightarrow> bool \<Rightarrow> u8" where
  "disk_status err busy = (if err then 0x80 else 0) OR (if busy then 1 else 0)"

definition read_mux :: "u16 \<Rightarrow> machine \<Rightarrow> u8" where
  "read_mux a m =
     (if \<not> bit a 15 then ram m (ram_addr (mmu m) a)
      else if is_ctrl a then ctrl_rd (reg_off a) (mmu m)
      else if a = 0x8000 then acia_rx_data m
      else if a = 0x8001 then status_byte (acia_tx_ready m) (acia_rx_valid m)
      else if a = 0x8003 then 0x01
      else if a = 0x80E0 then get_byte 0 (disk_lba m)
      else if a = 0x80E1 then get_byte 1 (disk_lba m)
      else if a = 0x80E2 then get_byte 2 (disk_lba m)
      else if a = 0x80E3 then get_byte 3 (disk_lba m)
      else if a = 0x80E5 then disk_status (disk_err m) (disk_busy m)
      else if a = 0x80E6 then disk_buf m (disk_dptr m)
      else if 0x8100 \<le> a then rom m (a - 0x8100)
      else 0xFF)"

section \<open>Blocks clocked by the rising edge\<close>

definition ACIA_TX_CYCLES :: u16 where
  "ACIA_TX_CYCLES = 87"

definition tx_block :: "bool \<Rightarrow> u16 \<Rightarrow> u8 \<Rightarrow> machine \<Rightarrow> machine" where
  "tx_block we a d m =
     (if we \<and> a = 0x8000 then
        m\<lparr>overruns := overruns m @ (if acia_tx_ready m then [] else [d]),
           acia_tx_count := ACIA_TX_CYCLES - 1, acia_tx_ready := False\<rparr>
      else if \<not> acia_tx_ready m then
        (if acia_tx_count m = 0 then m\<lparr>acia_tx_ready := True, acia_tx_count := 0\<rparr>
         else m\<lparr>acia_tx_count := acia_tx_count m - 1\<rparr>)
      else m)"

definition write_block :: "bool \<Rightarrow> u16 \<Rightarrow> u8 \<Rightarrow> machine \<Rightarrow> machine" where
  "write_block we a d m =
     (if \<not> we then m
      else if \<not> bit a 15 then m\<lparr>ram := (ram m)(ram_addr (mmu m) a := d)\<rparr>
      else if a = 0x8000 then m\<lparr>acia_out := acia_out m @ [d]\<rparr>
      else if a = 0x8002 then m\<lparr>gpu_out := gpu_out m @ [d]\<rparr>
      else if a = 0x80E0 then m\<lparr>disk_lba := set_byte 0 (disk_lba m) d\<rparr>
      else if a = 0x80E1 then m\<lparr>disk_lba := set_byte 1 (disk_lba m) d\<rparr>
      else if a = 0x80E2 then m\<lparr>disk_lba := set_byte 2 (disk_lba m) d\<rparr>
      else if a = 0x80E3 then m\<lparr>disk_lba := set_byte 3 (disk_lba m) d\<rparr>
      else if a = 0x80E4 then
        (if d = 0x01 then disk_do_read m
         else if d = 0x02 then disk_do_write m
         else m\<lparr>disk_busy := False\<rparr>)
      else if a = 0x80E6 then m\<lparr>disk_buf := (disk_buf m)(disk_dptr m := d)\<rparr>
      else if a = 0x80E7 then m\<lparr>disk_dptr := 0\<rparr>
      else m)"

definition dptr_block :: "u16 \<Rightarrow> machine \<Rightarrow> machine" where
  "dptr_block a m =
     (if a = 0x80E6 \<and> disk_dptr m < 511 then m\<lparr>disk_dptr := disk_dptr m + 1\<rparr> else m)"

definition rx_block :: "bool \<Rightarrow> u16 \<Rightarrow> machine \<Rightarrow> machine" where
  "rx_block we a m =
     (if \<not> we \<and> a = 0x8000 \<and> acia_rx_valid m then m\<lparr>acia_rx_valid := False\<rparr> else m)"

text \<open>
  The keyboard poll reads \<open>acia_rx_valid\<close> as it was before the edge (\<open>was_valid\<close>), as
  the nonblocking assignments of the other block take effect after it.
\<close>

definition poll_block :: "bool \<Rightarrow> machine \<Rightarrow> machine" where
  "poll_block was_valid m =
     (if 200 \<le> poll_counter m then
        (let m = m\<lparr>poll_counter := 0\<rparr> in
         if was_valid then m
         else (case rx_src m (rx_polls m) of
                 None \<Rightarrow> m\<lparr>rx_polls := Suc (rx_polls m)\<rparr>
               | Some ch \<Rightarrow> m\<lparr>rx_polls := Suc (rx_polls m), acia_rx_data := ch,
                               acia_rx_valid := True\<rparr>))
      else m\<lparr>poll_counter := Suc (poll_counter m)\<rparr>)"

definition posedge :: "bool \<Rightarrow> u16 \<Rightarrow> u8 \<Rightarrow> machine \<Rightarrow> machine" where
  "posedge we a d m =
     poll_block (acia_rx_valid m)
       (rx_block we a (dptr_block a (write_block we a d
         (tx_block we a d (m\<lparr>NMI := \<not> faultb (mmu m)\<rparr>)))))"

text \<open>One bus cycle with the vector-pull line high or low: the byte the CPU samples, the new state.\<close>

definition bus_cycle :: "bool \<Rightarrow> bool \<Rightarrow> u16 \<Rightarrow> u8 \<Rightarrow> machine \<Rightarrow> u8 \<times> machine" where
  "bus_cycle vpb we a d m =
     (let m1 = m\<lparr>mmu := mmu_negedge True (\<not> we) vpb a d (mmu m)\<rparr>
      in (read_mux a m1, posedge we a d m1))"

section \<open>Memory accesses of the kernel's C code\<close>

text \<open>
  Cycles between two accesses are reads outside the I/O window (instruction and stack
  fetches). \<open>mem_read\<close> and \<open>mem_write\<close> are the accesses the C code makes.
\<close>

definition idle :: "machine \<Rightarrow> machine" where
  "idle m = snd (bus_cycle True False 0 0 m)"

definition idles :: "machine \<Rightarrow> machine" where
  "idles m = ((idle ^^ gaps m (accs m)) m)\<lparr>accs := Suc (accs m)\<rparr>"

definition mem_read :: "u16 \<Rightarrow> machine \<Rightarrow> u8 \<times> machine" where
  "mem_read a m = bus_cycle True False a 0 (idles m)"

definition mem_write :: "u16 \<Rightarrow> u8 \<Rightarrow> machine \<Rightarrow> machine" where
  "mem_write a d m = snd (bus_cycle True True a d (idles m))"

section \<open>Power-on state\<close>

text \<open>
  The initial values of the registers and of the MMU after reset; what the RAM and the sector
  buffer hold then, the ROM contents, the host files and the timing are arguments.
\<close>

definition power_on ::
  "(15 word \<Rightarrow> u8) \<Rightarrow> (u16 \<Rightarrow> u8) \<Rightarrow> (9 word \<Rightarrow> u8) \<Rightarrow> u8 list option \<Rightarrow>
   (nat \<Rightarrow> u8 option) \<Rightarrow> (nat \<Rightarrow> nat) \<Rightarrow> machine" where
  "power_on ram0 rom0 buf0 img rx gp =
     \<lparr>mmu = mmu_reset, ram = ram0, rom = rom0, acia_rx_data = 0, acia_rx_valid = False,
      acia_tx_ready = True, acia_tx_count = 0, disk_lba = 0, disk_buf = buf0, disk_dptr = 0,
      disk_busy = False, disk_err = False, disk_img = img, disk_pos = 0, acia_out = [],
      gpu_out = [], overruns = [], poll_counter = 0, rx_src = rx, rx_polls = 0, NMI = False,
      gaps = gp, accs = 0\<rparr>"

lemma power_on_fields [simp]:
  "mmu (power_on r0 ro b0 img rx gp) = mmu_reset" "ram (power_on r0 ro b0 img rx gp) = r0"
  "rom (power_on r0 ro b0 img rx gp) = ro" "disk_img (power_on r0 ro b0 img rx gp) = img"
  "acia_out (power_on r0 ro b0 img rx gp) = []" "gpu_out (power_on r0 ro b0 img rx gp) = []"
  "rx_src (power_on r0 ro b0 img rx gp) = rx" "gaps (power_on r0 ro b0 img rx gp) = gp"
  by (simp_all add: power_on_def)

end
