(* ===== verification/Bus.thy ===== *)
theory Bus
  imports Machine "HOL-Library.Monad_Syntax"
begin

text \<open>
  Accesses of kernel-mode code on the machine, up to timing: \<open>core\<close> is the abstraction that
  drops the fields the clock drives, and every access acts on it as a function of the access
  alone (\<open>rd_spec\<close>, \<open>wr_spec\<close>), whatever number of cycles lies between two accesses.
\<close>

section \<open>The state up to timing\<close>

definition core :: "machine \<Rightarrow> machine" where
  "core m = m\<lparr>mmu := (mmu m)\<lparr>fault_reg := False\<rparr>, acia_rx_data := 0, acia_rx_valid := False,
              acia_tx_ready := True, acia_tx_count := 0, poll_counter := 0, rx_polls := 0,
              NMI := False, accs := 0\<rparr>"

definition kmode :: "machine \<Rightarrow> bool" where
  "kmode m \<longleftrightarrow> kernel (mmu m)"

definition rd_spec :: "u16 \<Rightarrow> machine \<Rightarrow> machine" where
  "rd_spec a m = dptr_block a m"

definition wr_spec :: "u16 \<Rightarrow> u8 \<Rightarrow> machine \<Rightarrow> machine" where
  "wr_spec a d m =
     dptr_block a (write_block True a d
       (if is_ctrl a then m\<lparr>mmu := ctrl_write (reg_off a) d (mmu m)\<rparr> else m))"

lemma core_fields [simp]:
  "ram (core m) = ram m" "rom (core m) = rom m" "disk_lba (core m) = disk_lba m"
  "disk_buf (core m) = disk_buf m" "disk_dptr (core m) = disk_dptr m"
  "disk_busy (core m) = disk_busy m" "disk_err (core m) = disk_err m"
  "disk_img (core m) = disk_img m" "disk_pos (core m) = disk_pos m"
  "acia_out (core m) = acia_out m" "gpu_out (core m) = gpu_out m"
  "overruns (core m) = overruns m" "rx_src (core m) = rx_src m" "gaps (core m) = gaps m"
  "kernel (mmu (core m)) = kernel (mmu m)" "ppn (mmu (core m)) = ppn (mmu m)"
  "u_bits (mmu (core m)) = u_bits (mmu m)" "w_bits (mmu (core m)) = w_bits (mmu m)"
  "ctrl_rd r (mmu (core m)) = ctrl_rd r (mmu m)"
  "ram_addr (mmu (core m)) a = ram_addr (mmu m) a"
  by (simp_all add: core_def ram_addr_def)

lemma core_core [simp]: "core (core m) = core m"
  by (simp add: core_def)

lemma kmode_core [simp]: "kmode (core m) = kmode m"
  by (simp add: kmode_def)

lemma core_kmode: "core m = core m' \<Longrightarrow> kmode m = kmode m'"
  by (metis kmode_core)

text \<open>What the time-driven blocks do is invisible in the core.\<close>

lemma core_tx_block: "\<not> (we \<and> a = 0x8000) \<or> acia_tx_ready m \<Longrightarrow> core (tx_block we a d m) = core m"
  by (auto simp: tx_block_def core_def)

lemma core_poll_block [simp]: "core (poll_block v m) = core m"
  by (auto simp: poll_block_def core_def Let_def split: option.splits)

lemma core_rx_block [simp]: "core (rx_block we a m) = core m"
  by (auto simp: rx_block_def core_def)

lemma core_dptr_block: "core (dptr_block a m) = dptr_block a (core m)"
  by (auto simp: dptr_block_def core_def)

lemma core_disk_do_read: "core (disk_do_read m) = disk_do_read (core m)"
  by (auto simp: disk_do_read_def core_def Let_def split: option.splits)

lemma core_disk_do_write: "core (disk_do_write m) = disk_do_write (core m)"
  by (auto simp: disk_do_write_def core_def Let_def split: option.splits)

lemma core_write_block: "core (write_block we a d m) = write_block we a d (core m)"
proof -
  have ra: "ram_addr ((mmu m)\<lparr>fault_reg := False\<rparr>) a = ram_addr (mmu m) a"
    by (simp add: ram_addr_def)
  consider (cmd) "a = 0x80E4" | (other) "a \<noteq> 0x80E4" by blast
  then show ?thesis
  proof cases
    case cmd
    then show ?thesis
      by (auto simp: write_block_def core_disk_do_read core_disk_do_write) (auto simp: core_def ra)
  next
    case other
    then show ?thesis
      by (auto simp: write_block_def core_def ra)
  qed
qed

lemma core_NMI [simp]: "core (m\<lparr>NMI := b\<rparr>) = core m"
  by (simp add: core_def)

lemma core_accs [simp]: "core (m\<lparr>accs := n\<rparr>) = core m"
  by (simp add: core_def)

lemma core_fault_reg [simp]: "core (m\<lparr>mmu := (mmu m)\<lparr>fault_reg := f\<rparr>\<rparr>) = core m"
  by (simp add: core_def)

lemma core_mmu_fault_reg [simp]: "core (m\<lparr>mmu := x\<lparr>fault_reg := f\<rparr>\<rparr>) = core (m\<lparr>mmu := x\<rparr>)"
  by (simp add: core_def)

lemma core_posedge:
  assumes "\<not> (we \<and> a = 0x8000) \<or> acia_tx_ready m"
  shows "core (posedge we a d m) = dptr_block a (write_block we a d (core m))"
  using assms by (simp add: posedge_def core_dptr_block core_write_block core_tx_block)

section \<open>Accesses in kernel mode\<close>

lemma bus_read_core:
  "kmode m \<Longrightarrow> core (snd (bus_cycle vpb False a d m)) = rd_spec a (core m)"
  by (simp add: bus_cycle_def Let_def core_posedge rd_spec_def kmode_def negedge_kernel_read
      write_block_def)

lemma ctrl_write_fault_reg:
  "ctrl_write r d (m\<lparr>fault_reg := f\<rparr>) = (ctrl_write r d m)\<lparr>fault_reg := f\<rparr>"
  by (simp add: ctrl_write_def)

lemma core_mmu: "core (m\<lparr>mmu := x\<rparr>) = (core m)\<lparr>mmu := x\<lparr>fault_reg := False\<rparr>\<rparr>"
  by (simp add: core_def)

lemma mmu_core: "mmu (core m) = (mmu m)\<lparr>fault_reg := False\<rparr>"
  by (simp add: core_def)

lemma core_mmu_same [simp]: "(core m)\<lparr>mmu := (mmu m)\<lparr>fault_reg := False\<rparr>\<rparr> = core m"
  by (simp add: core_def)

lemma bus_write_core:
  assumes "kmode m" and "a = 0x8000 \<Longrightarrow> acia_tx_ready m"
  shows "core (snd (bus_cycle True True a d m)) = wr_spec a d (core m)"
  using assms
  by (auto simp: bus_cycle_def Let_def core_posedge wr_spec_def kmode_def negedge_kernel_write
      core_mmu mmu_core ctrl_write_fault_reg)

lemma rd_spec_0 [simp]: "rd_spec 0 m = m"
  by (simp add: rd_spec_def dptr_block_def)

lemma core_idle: "kmode m \<Longrightarrow> core (idle m) = core m"
  by (simp add: idle_def bus_read_core)

lemma core_idles: "kmode m \<Longrightarrow> core (idles m) = core m"
proof -
  assume k: "kmode m"
  have "core ((idle ^^ n) m) = core m" for n
  proof (induction n)
    case (Suc n)
    then have "kmode ((idle ^^ n) m)" using k core_kmode by blast
    with Suc show ?case by (simp add: core_idle)
  qed simp
  then show ?thesis by (simp add: idles_def)
qed

lemma kmode_idles [simp]: "kmode m \<Longrightarrow> kmode (idles m)"
  using core_idles core_kmode by blast

lemma mem_read_core: "kmode m \<Longrightarrow> core (snd (mem_read a m)) = rd_spec a (core m)"
  by (simp add: mem_read_def bus_read_core core_idles)

text \<open>The value read at an address that is no ACIA register is a function of the core.\<close>

lemma read_mux_core:
  "a \<noteq> 0x8000 \<Longrightarrow> a \<noteq> 0x8001 \<Longrightarrow> read_mux a (core m) = read_mux a m"
  by (simp add: read_mux_def)

lemma mem_read_val:
  assumes "kmode m" "a \<noteq> 0x8000" "a \<noteq> 0x8001"
  shows "fst (mem_read a m) = read_mux a (core m)"
proof -
  have "fst (mem_read a m) = read_mux a ((idles m)\<lparr>mmu := (mmu (idles m))\<lparr>fault_reg := False\<rparr>\<rparr>)"
    using kmode_idles [OF assms(1)]
    by (simp add: mem_read_def bus_cycle_def Let_def negedge_kernel_read kmode_def)
  also have "\<dots> = read_mux a (core ((idles m)\<lparr>mmu := (mmu (idles m))\<lparr>fault_reg := False\<rparr>\<rparr>))"
    by (rule read_mux_core [OF assms(2,3), symmetric])
  finally show ?thesis using assms(1) by (simp add: core_idles)
qed

lemma mem_write_core:
  assumes "kmode m" "a \<noteq> 0x8000"
  shows "core (mem_write a d m) = wr_spec a d (core m)"
  using assms by (simp add: mem_write_def bus_write_core core_idles)

text \<open>The cases of the bus map.\<close>

lemma bit15_iff: "bit (a :: u16) 15 \<longleftrightarrow> 0x8000 \<le> a"
  using ram_access_iff [of a] by (auto simp: ram_access_def)

lemma bit15_ram [simp]: "a < 0x8000 \<Longrightarrow> \<not> bit (a :: u16) 15"
  by (simp add: bit15_iff)

lemma bit15_io [simp]: "0x8000 \<le> a \<Longrightarrow> bit (a :: u16) 15"
  by (simp add: bit15_iff)

lemma ram_not_io: "a < 0x8000 \<Longrightarrow> 0x8000 \<le> b \<Longrightarrow> a \<noteq> (b :: u16)"
  by auto

lemma is_ctrl_io: "is_ctrl a \<Longrightarrow> 0x8000 \<le> a"
  using order.trans [of "0x8000" "0x8080" a] by (simp add: is_ctrl_iff)

lemma read_mux_ram: "kmode m \<Longrightarrow> a < 0x8000 \<Longrightarrow> read_mux a m = ram m (ucast a)"
  by (simp add: read_mux_def kmode_def ram_addr_kernel)

lemma is_ctrl_ram [simp]: "a < 0x8000 \<Longrightarrow> \<not> is_ctrl a"
  using is_ctrl_io by fastforce

lemma dptr_block_other [simp]: "a \<noteq> 0x80E6 \<Longrightarrow> dptr_block a m = m"
  by (simp add: dptr_block_def)

lemma wr_spec_ram: "kmode m \<Longrightarrow> a < 0x8000 \<Longrightarrow> wr_spec a d m = m\<lparr>ram := (ram m)(ucast a := d)\<rparr>"
  by (simp add: wr_spec_def ram_not_io write_block_def kmode_def ram_addr_kernel)

lemma kmode_rd_spec [simp]: "kmode (rd_spec a m) = kmode m"
  by (simp add: rd_spec_def dptr_block_def kmode_def)

lemma rd_spec_other: "a \<noteq> 0x80E6 \<Longrightarrow> rd_spec a m = m"
  by (simp add: rd_spec_def)

lemma is_ctrl_not_dev:
  assumes "is_ctrl a"
  shows "a \<noteq> 0x8000" "a \<noteq> 0x8001" "a \<noteq> 0x8002" "a \<noteq> 0x80E0" "a \<noteq> 0x80E1" "a \<noteq> 0x80E2"
    "a \<noteq> 0x80E3" "a \<noteq> 0x80E4" "a \<noteq> 0x80E5" "a \<noteq> 0x80E6" "a \<noteq> 0x80E7"
  using assms by (auto simp: is_ctrl_iff)

lemma wr_spec_ctrl:
  "is_ctrl a \<Longrightarrow> wr_spec a d m = m\<lparr>mmu := ctrl_write (reg_off a) d (mmu m)\<rparr>"
  by (simp add: wr_spec_def write_block_def is_ctrl_io is_ctrl_not_dev)

lemma read_mux_ctrl: "is_ctrl a \<Longrightarrow> read_mux a m = ctrl_rd (reg_off a) (mmu m)"
  by (simp add: read_mux_def is_ctrl_io)

section \<open>Running an operation\<close>

text \<open>
  \<open>runs r c\<close>: the operation returned, in a state whose core is \<open>c\<close>; \<open>yields r v c\<close>: it
  returned the value \<open>v\<close> as well. Both compose along the sequencing of the C code.
\<close>

definition runs :: "machine option \<Rightarrow> machine \<Rightarrow> bool" where
  "runs r c \<longleftrightarrow> (\<exists>m. r = Some m \<and> core m = c)"

definition yields :: "('a \<times> machine) option \<Rightarrow> 'a \<Rightarrow> machine \<Rightarrow> bool" where
  "yields r v c \<longleftrightarrow> (\<exists>m. r = Some (v, m) \<and> core m = c)"

lemma runs_Some [simp]: "runs (Some m) c \<longleftrightarrow> core m = c"
  by (simp add: runs_def)

lemma yields_Some [simp]: "yields (Some (v, m)) w c \<longleftrightarrow> v = w \<and> core m = c"
  by (auto simp: yields_def)

lemma runs_bind:
  assumes "runs r c" and "\<And>m. core m = c \<Longrightarrow> runs (f m) d"
  shows "runs (Option.bind r f) d"
  using assms unfolding runs_def by fastforce

lemma runs_bind_yields:
  assumes "runs r c" and "\<And>m. core m = c \<Longrightarrow> yields (f m) v d"
  shows "yields (Option.bind r f) v d"
  using assms unfolding runs_def by fastforce

lemma yields_bind:
  assumes "yields r v c" and "\<And>m. core m = c \<Longrightarrow> yields (f (v, m)) w d"
  shows "yields (Option.bind r f) w d"
  using assms unfolding yields_def by fastforce

lemma yields_bind_runs:
  assumes "yields r v c" and "\<And>m. core m = c \<Longrightarrow> runs (f (v, m)) d"
  shows "runs (Option.bind r f) d"
  using assms unfolding yields_def by fastforce

text \<open>
  An access from a state whose core is \<open>s\<close>: the value read and the core of the next state. The
  ACIA registers are left out, what they hold depends on the timing.
\<close>

lemma mem_read_at:
  assumes "core m = s" "kmode s" "a \<noteq> 0x8000" "a \<noteq> 0x8001"
  obtains m' where "mem_read a m = (read_mux a s, m')" "core m' = rd_spec a s"
proof
  have k: "kmode m" using assms(1,2) kmode_core by blast
  show "mem_read a m = (read_mux a s, snd (mem_read a m))"
    using mem_read_val [OF k assms(3,4)] assms(1) by (metis prod.collapse)
  show "core (snd (mem_read a m)) = rd_spec a s"
    using mem_read_core [OF k] assms(1) by simp
qed

lemma mem_read_ram:
  assumes "core m = s" "kmode s" "a < 0x8000"
  obtains m' where "mem_read a m = (ram s (ucast a), m')" "core m' = s"
  using mem_read_at [OF assms(1,2), of a] assms(2,3)
  by (auto simp: read_mux_ram rd_spec_other ram_not_io)

lemma mem_read_ctrl:
  assumes "core m = s" "kmode s" "is_ctrl a"
  obtains m' where "mem_read a m = (ctrl_rd (reg_off a) (mmu s), m')" "core m' = s"
  using mem_read_at [OF assms(1,2), of a] is_ctrl_not_dev [OF assms(3)] assms(3)
  by (auto simp: read_mux_ctrl rd_spec_other)

lemma mem_write_at:
  assumes "core m = s" "kmode s" "a \<noteq> 0x8000"
  shows "core (mem_write a d m) = wr_spec a d s"
  using mem_write_core [of m a d] assms by (metis kmode_core)

lemma mem_write_ram:
  assumes "core m = s" "kmode s" "a < 0x8000"
  shows "core (mem_write a d m) = s\<lparr>ram := (ram s)(ucast a := d)\<rparr>"
  using mem_write_at [OF assms(1,2), of a d] assms(2,3) by (simp add: wr_spec_ram ram_not_io)

section \<open>Blocks of memory\<close>

definition blit :: "nat \<Rightarrow> u8 list \<Rightarrow> (15 word \<Rightarrow> u8) \<Rightarrow> 15 word \<Rightarrow> u8" where
  "blit p bs r = (\<lambda>a. if p \<le> unat a \<and> unat a < p + length bs then bs ! (unat a - p) else r a)"

definition peek :: "nat \<Rightarrow> nat \<Rightarrow> (15 word \<Rightarrow> u8) \<Rightarrow> u8 list" where
  "peek p n r = map (\<lambda>i. r (word_of_nat (p + i))) [0..<n]"

lemma unat_of_nat_15: "k < 32768 \<Longrightarrow> unat (word_of_nat k :: 15 word) = k"
  by (simp add: unat_of_nat)

lemma blit_Nil [simp]: "blit p [] r = r"
  by (auto simp: blit_def fun_eq_iff)

lemma blit_snoc:
  assumes "p + length bs < 32768"
  shows "blit p (bs @ [b]) r = (blit p bs r)(word_of_nat (p + length bs) := b)"
proof
  fix a :: "15 word"
  have "a = word_of_nat (p + length bs) \<longleftrightarrow> unat a = p + length bs"
    using assms by (metis unat_of_nat_15 word_unat_eq_iff)
  then show "blit p (bs @ [b]) r a = ((blit p bs r)(word_of_nat (p + length bs) := b)) a"
    by (auto simp: blit_def nth_append)
qed

lemma length_peek [simp]: "length (peek p n r) = n"
  by (simp add: peek_def)

lemma peek_Suc: "peek p (Suc n) r = peek p n r @ [r (word_of_nat (p + n))]"
  by (simp add: peek_def)

lemma peek_blit: "p + length bs \<le> 32768 \<Longrightarrow> peek p (length bs) (blit p bs r) = bs"
  by (rule nth_equalityI) (auto simp: peek_def blit_def unat_of_nat_15 simp del: of_nat_add)

lemma peek_blit_other:
  "q + n \<le> 32768 \<Longrightarrow> q + n \<le> p \<or> p + length bs \<le> q \<Longrightarrow> peek q n (blit p bs r) = peek q n r"
  by (auto simp: peek_def blit_def unat_of_nat_15 simp del: of_nat_add)

lemma blit_other: "unat a < p \<or> p + length bs \<le> unat a \<Longrightarrow> blit p bs r a = r a"
  by (auto simp: blit_def)

lemma ucast15_plus:
  assumes "unat (buf :: u16) + i < 32768"
  shows "(ucast (buf + word_of_nat i) :: 15 word) = word_of_nat (unat buf + i)"
    and "buf + word_of_nat i < 0x8000"
proof -
  have i: "unat (word_of_nat i :: u16) = i" using assms by (simp add: unat_of_nat)
  have u: "unat (buf + word_of_nat i) = unat buf + i"
    using assms by (simp add: unat_word_ariths i)
  then show "buf + word_of_nat i < 0x8000" using assms by (simp add: word_less_nat_alt)
  show "(ucast (buf + word_of_nat i) :: 15 word) = word_of_nat (unat buf + i)"
    using u assms
    by (simp add: word_unat_eq_iff unat_ucast_mod unat_of_nat_15 del: of_nat_add)
qed

section \<open>Faulting writes\<close>

text \<open>
  What the bus does with a write of user code that faults. The MMU enters kernel mode on the falling
  edge in the middle of the cycle, and the memory is written on the rising edge at its end, no
  longer translated: the byte lands at the physical address equal to the virtual one.
\<close>

lemma ram_cycle_steps:
  "ram (poll_block b m) = ram m" "ram (rx_block we a m) = ram m" "ram (dptr_block a m) = ram m" "ram (tx_block we a d m) = ram m"
  "mmu (tx_block we a d m) = mmu m"
  by (auto simp: poll_block_def rx_block_def dptr_block_def tx_block_def Let_def split: option.splits)

theorem faulting_write_lands:
  assumes "\<not> kernel (mmu m)" "fault_any (mmu m) False a" "a < 0x8000"
  shows "ram (snd (bus_cycle True True a d m)) = (ram m)(ucast a := d)"
proof -
  have "kernel (mmu_negedge True False True a d (mmu m))" using assms(1,2) by (simp add: mmu_negedge_def)
  then have "ram_addr (mmu_negedge True False True a d (mmu m)) a = ucast a" by (simp add: ram_addr_kernel)
  moreover have "\<not> bit a 15" using assms(3) by (simp add: bit15_iff)
  ultimately show ?thesis by (simp add: bus_cycle_def Let_def posedge_def ram_cycle_steps write_block_def)
qed

end
