(* ===== verification/Console.thy ===== *)
theory Console
  imports Bus
begin

text \<open>
  Kernel console output, \<^verbatim>\<open>sw/kernel/src/kernel.c\<close>. A busy-wait loop may run forever as far
  as its text goes, so the operations return an option (\<open>None\<close>: does not return); the lemmas
  show that on this machine they always return.
\<close>

section \<open>Busy waiting\<close>

text \<open>\<open>while (!(*a & bm));\<close> and \<open>while (*a & bm);\<close>\<close>

partial_function (option) wait_set :: "u16 \<Rightarrow> u8 \<Rightarrow> machine \<Rightarrow> machine option" where
  "wait_set a bm m =
     (case mem_read a m of (v, m1) \<Rightarrow>
        if v AND bm = 0 then wait_set a bm m1 else Some m1)"

partial_function (option) wait_clear :: "u16 \<Rightarrow> u8 \<Rightarrow> machine \<Rightarrow> machine option" where
  "wait_clear a bm m =
     (case mem_read a m of (v, m1) \<Rightarrow>
        if v AND bm = 0 then Some m1 else wait_clear a bm m1)"

section \<open>The functions of kernel.c\<close>

definition ACIA_DATA :: u16 where "ACIA_DATA = 0x8000"
definition ACIA_STATUS :: u16 where "ACIA_STATUS = 0x8001"
definition GPU_DATA :: u16 where "GPU_DATA = 0x8002"
definition GPU_STATUS :: u16 where "GPU_STATUS = 0x8003"

definition k_putc :: "u8 \<Rightarrow> machine \<Rightarrow> machine option" where
  "k_putc c m = do { m \<leftarrow> wait_set ACIA_STATUS 0x02 m; Some (mem_write ACIA_DATA c m) }"

definition k_gputc :: "u8 \<Rightarrow> machine \<Rightarrow> machine option" where
  "k_gputc c m = do { m \<leftarrow> wait_set GPU_STATUS 0x01 m; Some (mem_write GPU_DATA c m) }"

partial_function (option) k_print :: "u16 \<Rightarrow> machine \<Rightarrow> machine option" where
  "k_print str m =
     (case mem_read str m of (c, m) \<Rightarrow>
        if c = 0 then Some m
        else (case mem_read str m of (c1, m) \<Rightarrow> do {
          m \<leftarrow> k_putc c1 m;
          (case mem_read str m of (c2, m) \<Rightarrow> do {
             m \<leftarrow> k_gputc c2 m;
             k_print (str + 1) m })}))"

definition alphabet :: "u8 list" where
  "alphabet = map of_char ''0123456789ABCDEF''"

definition k_puthex :: "u8 \<Rightarrow> machine \<Rightarrow> machine option" where
  "k_puthex b m = do {
     m \<leftarrow> k_putc (alphabet ! unat (drop_bit 4 b)) m;
     m \<leftarrow> k_gputc (alphabet ! unat (drop_bit 4 b)) m;
     m \<leftarrow> k_putc (alphabet ! unat (b AND 0x0F)) m;
     k_gputc (alphabet ! unat (b AND 0x0F)) m }"

text \<open>
  \<open>k_print\<close> of a string literal of the kernel: the bytes are the program's own, so they are
  given directly instead of through the address the linker puts them at.
\<close>

definition put_both :: "u8 \<Rightarrow> machine \<Rightarrow> machine option" where
  "put_both c m = do { m \<leftarrow> k_putc c m; k_gputc c m }"

fun print_bytes :: "u8 list \<Rightarrow> machine \<Rightarrow> machine option" where
  "print_bytes [] m = Some m"
| "print_bytes (c # cs) m = do { m \<leftarrow> put_both c m; print_bytes cs m }"

definition k_print_lit :: "string \<Rightarrow> machine \<Rightarrow> machine option" where
  "k_print_lit s = print_bytes (map of_char s)"

section \<open>The transmitter becomes ready\<close>

definition tx_wait :: "machine \<Rightarrow> nat" where
  "tx_wait m = (if acia_tx_ready m then 0 else Suc (unat (acia_tx_count m)))"

lemma tx_fields [simp]:
  "acia_tx_ready (poll_block v m) = acia_tx_ready m"
  "acia_tx_count (poll_block v m) = acia_tx_count m"
  "acia_tx_ready (rx_block we a m) = acia_tx_ready m"
  "acia_tx_count (rx_block we a m) = acia_tx_count m"
  "acia_tx_ready (dptr_block a m) = acia_tx_ready m"
  "acia_tx_count (dptr_block a m) = acia_tx_count m"
  "acia_tx_ready (write_block we a d m) = acia_tx_ready m"
  "acia_tx_count (write_block we a d m) = acia_tx_count m"
  by (auto simp: poll_block_def Let_def rx_block_def dptr_block_def write_block_def
      disk_do_read_def disk_do_write_def split: option.splits)

lemma unat_minus_one_less: "(c :: u16) \<noteq> 0 \<Longrightarrow> Suc (unat (c - 1)) = unat c"
  by (simp add: unat_minus_one unat_gt_0)

lemma tx_wait_posedge:
  "\<not> (we \<and> a = 0x8000) \<Longrightarrow> tx_wait (posedge we a d m) = tx_wait m - 1"
  by (auto simp: posedge_def tx_wait_def tx_block_def unat_minus_one_less)

lemma tx_wait_bus:
  "\<not> (we \<and> a = 0x8000) \<Longrightarrow> tx_wait (snd (bus_cycle vpb we a d m)) = tx_wait m - 1"
  by (simp add: bus_cycle_def Let_def tx_wait_posedge) (simp add: tx_wait_def)

lemma tx_wait_idles: "tx_wait (idles m) \<le> tx_wait m"
proof -
  have "tx_wait ((idle ^^ n) m) \<le> tx_wait m" for n
    by (induction n) (auto simp: idle_def tx_wait_bus)
  moreover have "tx_wait (x\<lparr>accs := k\<rparr>) = tx_wait x" for x k by (simp add: tx_wait_def)
  ultimately show ?thesis by (simp add: idles_def)
qed

lemma tx_wait_0 [simp]: "tx_wait m = 0 \<longleftrightarrow> acia_tx_ready m"
  by (simp add: tx_wait_def)

lemma acia_status_read:
  "fst (mem_read 0x8001 m) AND 2 = 0 \<longleftrightarrow> \<not> acia_tx_ready (idles m)"
  by (auto simp: mem_read_def bus_cycle_def Let_def read_mux_def status_byte_def is_ctrl_iff)

lemma wait_acia:
  assumes "kmode m"
  shows "\<exists>m'. wait_set 0x8001 2 m = Some m' \<and> core m' = core m \<and> acia_tx_ready m'"
  using assms
proof (induction "tx_wait m" arbitrary: m rule: less_induct)
  case less
  obtain v m1 where rd: "mem_read 0x8001 m = (v, m1)" by fastforce
  have c1: "core m1 = core m"
    using mem_read_core [OF less.prems, of "0x8001"] by (simp add: rd rd_spec_other)
  have w1: "tx_wait m1 = tx_wait (idles m) - 1"
    using tx_wait_bus [of False "0x8001" True 0 "idles m"] rd by (simp add: mem_read_def)
  show ?case
  proof (cases "acia_tx_ready (idles m)")
    case True
    then have "acia_tx_ready m1" using w1 by (metis diff_0_eq_0 tx_wait_0)
    then show ?thesis
      using acia_status_read [of m] True c1 by (simp add: wait_set.simps [of _ _ m] rd)
  next
    case False
    then have "tx_wait m1 < tx_wait m"
      using w1 tx_wait_idles [of m] by (metis diff_less less_le_trans neq0_conv tx_wait_0 zero_less_one)
    moreover have "kmode m1" using less.prems c1 core_kmode by blast
    ultimately show ?thesis
      using less.hyps [of m1] acia_status_read [of m] False c1
      by (simp add: wait_set.simps [of _ _ m] rd)
  qed
qed

section \<open>What the console operations do\<close>

definition emit_acia :: "u8 list \<Rightarrow> machine \<Rightarrow> machine" where
  "emit_acia bs m = m\<lparr>acia_out := acia_out m @ bs\<rparr>"

definition emit_gpu :: "u8 list \<Rightarrow> machine \<Rightarrow> machine" where
  "emit_gpu bs m = m\<lparr>gpu_out := gpu_out m @ bs\<rparr>"

definition emit :: "u8 list \<Rightarrow> machine \<Rightarrow> machine" where
  "emit bs m = emit_gpu bs (emit_acia bs m)"

lemma emit_fields [simp]:
  "ram (emit bs m) = ram m" "mmu (emit bs m) = mmu m" "disk_img (emit bs m) = disk_img m"
  "disk_pos (emit bs m) = disk_pos m" "disk_err (emit bs m) = disk_err m"
  "overruns (emit bs m) = overruns m" "kmode (emit bs m) = kmode m"
  "acia_out (emit bs m) = acia_out m @ bs" "gpu_out (emit bs m) = gpu_out m @ bs"
  by (simp_all add: emit_def emit_gpu_def emit_acia_def kmode_def)

lemma emit_append: "emit cs (emit bs m) = emit (bs @ cs) m"
  by (simp add: emit_def emit_gpu_def emit_acia_def)

lemma emit_Nil [simp]: "emit [] m = m"
  by (simp add: emit_def emit_gpu_def emit_acia_def)

lemma emit_ram: "emit bs (m\<lparr>ram := r\<rparr>) = (emit bs m)\<lparr>ram := r\<rparr>"
  by (simp add: emit_def emit_gpu_def emit_acia_def)

lemma kmode_emit_acia [simp]: "kmode (emit_acia bs m) = kmode m"
  by (simp add: emit_acia_def kmode_def)

lemma kmode_emit_gpu [simp]: "kmode (emit_gpu bs m) = kmode m"
  by (simp add: emit_gpu_def kmode_def)

lemma wr_spec_acia: "wr_spec 0x8000 c m = emit_acia [c] m"
  by (simp add: wr_spec_def is_ctrl_iff write_block_def emit_acia_def)

lemma wr_spec_gpu: "wr_spec 0x8002 c m = emit_gpu [c] m"
  by (simp add: wr_spec_def is_ctrl_iff write_block_def emit_gpu_def)

lemma k_putc_runs:
  assumes "core m = s" "kmode s"
  shows "runs (k_putc c m) (emit_acia [c] s)"
proof -
  have k: "kmode m" using assms kmode_core by blast
  obtain m1 where m1: "wait_set 0x8001 2 m = Some m1" "core m1 = core m" "acia_tx_ready m1"
    using wait_acia [OF k] by blast
  have k1: "kmode m1" using k m1(2) core_kmode by blast
  have "acia_tx_ready (idles m1)"
    using tx_wait_idles [of m1] m1(3) by (metis le_zero_eq tx_wait_0)
  then have "core (mem_write 0x8000 c m1) = wr_spec 0x8000 c s"
    using k1 m1(2) assms(1) by (simp add: mem_write_def bus_write_core core_idles)
  then show ?thesis
    by (simp add: k_putc_def ACIA_STATUS_def ACIA_DATA_def m1(1) wr_spec_acia)
qed

lemma k_gputc_runs:
  assumes "core m = s" "kmode s"
  shows "runs (k_gputc c m) (emit_gpu [c] s)"
proof -
  obtain m1 where rd: "mem_read 0x8003 m = (1, m1)" and c1: "core m1 = s"
    using mem_read_at [OF assms, of "0x8003"] by (auto simp: read_mux_def is_ctrl_iff rd_spec_other)
  have "core (mem_write 0x8002 c m1) = emit_gpu [c] s"
    using mem_write_at [OF c1 assms(2), of "0x8002" c] by (simp add: wr_spec_gpu)
  then show ?thesis
    by (simp add: k_gputc_def GPU_STATUS_def GPU_DATA_def wait_set.simps [of _ _ m] rd)
qed

lemma put_both_runs:
  assumes "core m = s" "kmode s"
  shows "runs (put_both c m) (emit [c] s)"
  unfolding put_both_def emit_def
  by (rule runs_bind [OF k_putc_runs [OF assms]]) (rule k_gputc_runs, use assms in auto)

lemma print_bytes_runs:
  "core m = s \<Longrightarrow> kmode s \<Longrightarrow> runs (print_bytes bs m) (emit bs s)"
proof (induction bs arbitrary: m s)
  case (Cons c bs)
  show ?case
    unfolding print_bytes.simps
  proof (rule runs_bind [OF put_both_runs [OF Cons.prems]])
    fix m1 assume "core m1 = emit [c] s"
    then show "runs (print_bytes bs m1) (emit (c # bs) s)"
      using Cons.IH [of m1 "emit [c] s"] Cons.prems(2) by (simp add: emit_append)
  qed
qed simp

lemma k_print_lit_runs:
  "core m = s \<Longrightarrow> kmode s \<Longrightarrow> runs (k_print_lit t m) (emit (map of_char t) s)"
  by (simp add: k_print_lit_def print_bytes_runs)

definition hex_digits :: "u8 \<Rightarrow> u8 list" where
  "hex_digits b = [alphabet ! unat (drop_bit 4 b), alphabet ! unat (b AND 0x0F)]"

lemma k_puthex_eq: "k_puthex b m = print_bytes (hex_digits b) m"
  unfolding k_puthex_def hex_digits_def print_bytes.simps put_both_def
  by (simp only: bind_assoc Option.bind_runit)

lemma k_puthex_runs: "core m = s \<Longrightarrow> kmode s \<Longrightarrow> runs (k_puthex b m) (emit (hex_digits b) s)"
  by (simp add: k_puthex_eq print_bytes_runs)

text \<open>A NUL-terminated string in RAM.\<close>

definition cstr_at :: "machine \<Rightarrow> u16 \<Rightarrow> u8 list \<Rightarrow> bool" where
  "cstr_at m a bs \<longleftrightarrow> unat a + length bs < 0x8000 \<and> 0 \<notin> set bs \<and>
     (\<forall>i < length bs. ram m (ucast (a + word_of_nat i)) = bs ! i) \<and>
     ram m (ucast (a + word_of_nat (length bs))) = 0"

lemma cstr_at_emit [simp]: "cstr_at (emit cs m) a bs = cstr_at m a bs"
  by (simp add: cstr_at_def)

lemma cstr_at_Cons:
  assumes "cstr_at m a (c # cs)"
  shows "a < 0x8000" "c \<noteq> 0" "ram m (ucast a) = c" "cstr_at m (a + 1) cs"
proof -
  have len: "unat a + length (c # cs) < 0x8000" using assms unfolding cstr_at_def by blast
  then show "a < 0x8000" by (simp add: word_less_nat_alt)
  show "c \<noteq> 0" using assms by (auto simp: cstr_at_def)
  show "ram m (ucast a) = c" using assms by (force simp: cstr_at_def)
  have u: "unat (a + 1) = Suc (unat a)"
    using len by (simp add: unat_word_ariths)
  have s: "a + 1 + word_of_nat i = a + word_of_nat (Suc i)" for i by simp
  show "cstr_at m (a + 1) cs"
    unfolding cstr_at_def s u using assms len by (auto simp: cstr_at_def)
qed

text \<open>One iteration of the loop of \<open>k_print\<close>, with the three reads of \<open>*str\<close> evaluated.\<close>

lemma k_print_step:
  assumes "core m = s" "kmode s" "str < 0x8000" "ram s (ucast str) = c" "c \<noteq> 0"
    and next_runs: "\<And>m'. core m' = emit [c] s \<Longrightarrow> runs (k_print (str + 1) m') d"
  shows "runs (k_print str m) d"
proof -
  obtain m1 where m1: "mem_read str m = (c, m1)" "core m1 = s"
    using mem_read_ram [OF assms(1-3)] assms(4) by blast
  obtain m2 where m2: "mem_read str m1 = (c, m2)" "core m2 = s"
    using mem_read_ram [OF m1(2) assms(2,3)] assms(4) by blast
  show ?thesis
    unfolding k_print.simps [of str m] m1(1) prod.case m2(1) if_not_P [OF assms(5)]
  proof (rule runs_bind [OF k_putc_runs [OF m2(2) assms(2)]])
    fix m3 assume "core m3 = emit_acia [c] s"
    then obtain m4 where m4: "mem_read str m3 = (c, m4)" "core m4 = emit_acia [c] s"
      using mem_read_ram [of m3 "emit_acia [c] s" str] assms(2-4)
      by (auto simp: emit_acia_def kmode_def)
    show "runs (case mem_read str m3 of (c2, m) \<Rightarrow> do { m \<leftarrow> k_gputc c2 m; k_print (str + 1) m }) d"
      unfolding m4(1) prod.case
      by (rule runs_bind [OF k_gputc_runs [OF m4(2)]]) (use assms(2) next_runs in \<open>auto simp: emit_def\<close>)
  qed
qed

lemma k_print_runs:
  "core m = s \<Longrightarrow> kmode s \<Longrightarrow> cstr_at s str bs \<Longrightarrow> runs (k_print str m) (emit bs s)"
proof (induction bs arbitrary: str m s)
  case Nil
  then have a: "str < 0x8000" "ram s (ucast str) = 0"
    by (auto simp: cstr_at_def word_less_nat_alt)
  then obtain m1 where "mem_read str m = (0, m1)" "core m1 = s"
    using mem_read_ram [OF Nil.prems(1,2) a(1)] by auto
  then show ?case by (simp add: k_print.simps [of str m])
next
  case (Cons c cs)
  note s = cstr_at_Cons [OF Cons.prems(3)]
  show ?case
  proof (rule k_print_step [OF Cons.prems(1,2) s(1,3,2)])
    fix m' assume "core m' = emit [c] s"
    then show "runs (k_print (str + 1) m') (emit (c # cs) s)"
      using Cons.IH [of m' "emit [c] s" "str + 1"] s(4) Cons.prems(2) by (simp add: emit_append)
  qed
qed

end
