(* ===== verification/Block.thy ===== *)
theory Block
  imports Console
begin

text \<open>
  The block device driver, \<^verbatim>\<open>sw/kernel/src/block.c\<close>, over the disk controller of the
  machine. It runs in kernel mode, so \<open>buf\<close> is a physical address. Like the other variables of the C code,
  \<open>zp_ptr\<close>, which the linker puts somewhere into the kernel's zero page below $20, is a value beside RAM: the
  model is the code as long as \<open>buf\<close> does not cover these two bytes. No caller in the kernel passes such a
  buffer but \<open>do_block_read\<close>, for a process that names one; \<open>syscall_block_read\<close> excludes it.
\<close>

section \<open>The functions of block.c\<close>

definition DISK_LBA0 :: u16 where "DISK_LBA0 = 0x80E0"
definition DISK_LBA1 :: u16 where "DISK_LBA1 = 0x80E1"
definition DISK_LBA2 :: u16 where "DISK_LBA2 = 0x80E2"
definition DISK_LBA3 :: u16 where "DISK_LBA3 = 0x80E3"
definition DISK_CMD :: u16 where "DISK_CMD = 0x80E4"
definition DISK_STATUS :: u16 where "DISK_STATUS = 0x80E5"
definition DISK_DATA :: u16 where "DISK_DATA = 0x80E6"
definition DISK_DPTR :: u16 where "DISK_DPTR = 0x80E7"
definition CMD_READ :: u8 where "CMD_READ = 0x01"
definition CMD_WRITE :: u8 where "CMD_WRITE = 0x02"
definition STATUS_BUSY :: u8 where "STATUS_BUSY = 0x01"
definition STATUS_ERR :: u8 where "STATUS_ERR = 0x80"
definition BLOCK_SIZE :: u16 where "BLOCK_SIZE = 512"

lemmas disk_regs = DISK_LBA0_def DISK_LBA1_def DISK_LBA2_def DISK_LBA3_def DISK_CMD_def
  DISK_STATUS_def DISK_DATA_def DISK_DPTR_def CMD_READ_def CMD_WRITE_def STATUS_BUSY_def
  STATUS_ERR_def

definition set_lba :: "u32 \<Rightarrow> machine \<Rightarrow> machine" where
  "set_lba lba m =
     mem_write DISK_LBA3 (ucast (drop_bit 24 lba))
       (mem_write DISK_LBA2 (ucast (drop_bit 16 lba))
         (mem_write DISK_LBA1 (ucast (drop_bit 8 lba))
           (mem_write DISK_LBA0 (ucast lba) m)))"

definition drain_left :: "u8 \<Rightarrow> u8 \<Rightarrow> nat" where
  "drain_left y x = (if x = 0 then 256 else unat x) * 256 - unat y"

lemma unat_plus_one8: "(y :: u8) + 1 \<noteq> 0 \<Longrightarrow> unat (y + 1) = Suc (unat y)"
proof -
  assume "y + 1 \<noteq> 0"
  then have "unat (y + 1) \<noteq> 0" by (simp add: unat_eq_0)
  moreover have "unat (y + 1) = Suc (unat y) mod 256" by (simp add: unat_word_ariths)
  moreover have "unat y < 256" by (rule unat_u8_lt)
  ultimately show ?thesis by (metis Suc_lessI mod_less mod_self)
qed

lemma unat_last8: "(y :: u8) + 1 = 0 \<Longrightarrow> unat y = 255"
proof -
  assume "y + 1 = 0"
  then have "unat (y + 1) = 0" by simp
  moreover have "unat (y + 1) = Suc (unat y) mod 256" by (simp add: unat_word_ariths)
  ultimately have "Suc (unat y) mod 256 = 0" by simp
  moreover have "unat y < 256" by (rule unat_u8_lt)
  ultimately show ?thesis
    by (cases "Suc (unat y) < 256") (auto simp: less_Suc_eq)
qed

lemma unat_m1_8: "unat (- 1 :: u8) = 255"
  by (simp add: unsigned_minus_1_eq_mask mask_eq_exp_minus_1)

lemma drain_left_y: "y + 1 \<noteq> 0 \<Longrightarrow> drain_left y x = Suc (drain_left (y + 1) x)"
proof -
  assume y: "y + 1 \<noteq> 0"
  have "unat y < 256" by (rule unat_u8_lt)
  moreover have "256 \<le> (if x = 0 then 256 else unat x) * 256"
    by (auto simp: unat_gt_0 Suc_leI)
  ultimately show ?thesis
    using unat_plus_one8 [OF y] unat_u8_lt [of "y + 1"] by (auto simp: drain_left_def)
qed

lemma drain_left_x: "y + 1 = 0 \<Longrightarrow> x - 1 \<noteq> 0 \<Longrightarrow> drain_left y x = Suc (drain_left 0 (x - 1))"
proof (cases "x = 0")
  case True
  then show "y + 1 = 0 \<Longrightarrow> drain_left y x = Suc (drain_left 0 (x - 1))"
    by (auto dest!: unat_last8 simp: drain_left_def unat_m1_8)
next
  case False
  then have "unat x = Suc (unat (x - 1))" by (simp add: unat_minus_one unat_gt_0)
  then show "y + 1 = 0 \<Longrightarrow> x - 1 \<noteq> 0 \<Longrightarrow> drain_left y x = Suc (drain_left 0 (x - 1))"
    using False by (auto dest!: unat_last8 simp: drain_left_def unat_m1_8)
qed

text \<open>
  The assembly loop \<open>drain_pg\<close>: Y runs through a page, X counts the pages, the high byte of
  \<open>zp_ptr\<close> is incremented between them.
\<close>

function drain_pg :: "u16 \<Rightarrow> u8 \<Rightarrow> u8 \<Rightarrow> machine \<Rightarrow> machine" where
  "drain_pg zp_ptr y x m =
     (case mem_read 0x80E6 m of (a, m) \<Rightarrow>
        let m = mem_write (zp_ptr + ucast y) a m; y = y + 1 in
        if y \<noteq> 0 then drain_pg zp_ptr y x m
        else let zp_ptr = zp_ptr + 0x100; x = x - 1 in
             if x \<noteq> 0 then drain_pg zp_ptr y x m else m)"
  by pat_completeness auto
termination
  by (relation "measure (\<lambda>(p, y, x, m). drain_left y x)")
    (auto simp: drain_left_y drain_left_x)

declare drain_pg.simps [simp del]

definition block_read :: "u32 \<Rightarrow> u16 \<Rightarrow> machine \<Rightarrow> (u8 \<times> machine) option" where
  "block_read lba buf m =
     (let m = mem_write DISK_CMD CMD_READ (set_lba lba m) in do {
        m \<leftarrow> wait_clear DISK_STATUS STATUS_BUSY m;
        (case mem_read DISK_STATUS m of (st, m) \<Rightarrow>
           if st AND STATUS_ERR \<noteq> 0 then Some (1, m)
           else Some (0, drain_pg buf 0 2 (mem_write DISK_DPTR 0 m))) })"

function write_loop :: "u16 \<Rightarrow> u16 \<Rightarrow> machine \<Rightarrow> machine" where
  "write_loop buf i m =
     (if i < BLOCK_SIZE then
        (case mem_read (buf + i) m of (a, m) \<Rightarrow> write_loop buf (i + 1) (mem_write DISK_DATA a m))
      else m)"
  by pat_completeness auto
termination
  by (relation "measure (\<lambda>(buf, i, m). 512 - unat i)")
    (auto simp: BLOCK_SIZE_def word_less_nat_alt unat_word_ariths)

declare write_loop.simps [simp del]

definition block_write :: "u32 \<Rightarrow> u16 \<Rightarrow> machine \<Rightarrow> (u8 \<times> machine) option" where
  "block_write lba buf m =
     (let m = write_loop buf 0 (mem_write DISK_DPTR 0 m);
          m = mem_write DISK_CMD CMD_WRITE (set_lba lba m) in do {
        m \<leftarrow> wait_clear DISK_STATUS STATUS_BUSY m;
        (case mem_read DISK_STATUS m of (st, m) \<Rightarrow>
           if st AND STATUS_ERR \<noteq> 0 then Some (1, m) else Some (0, m)) })"

section \<open>Draining the sector buffer\<close>

text \<open>The loop as a count: \<open>n\<close> transfers to consecutive addresses.\<close>

fun drain_n :: "nat \<Rightarrow> u16 \<Rightarrow> machine \<Rightarrow> machine" where
  "drain_n 0 p m = m"
| "drain_n (Suc n) p m =
     (case mem_read 0x80E6 m of (a, m) \<Rightarrow> drain_n n (p + 1) (mem_write p a m))"

lemma drain_pg_drain_n: "drain_pg p y x m = drain_n (drain_left y x) (p + ucast y) m"
proof (induction p y x m rule: drain_pg.induct)
  case (1 p y x m)
  obtain a m1 where rd: "mem_read 0x80E6 m = (a, m1)" by fastforce
  show ?case
  proof (cases "y + 1 = 0")
    case False
    have uy: "ucast (y + 1) = (ucast y + 1 :: u16)"
      using unat_plus_one8 [OF False] unat_u8_lt [of y]
      by (simp add: word_unat_eq_iff unat_ucast_mod unat_word_ariths)
    then show ?thesis
      using "1.IH"(1) [OF rd [symmetric] refl refl False] False
      by (simp add: drain_pg.simps [of p y x m] rd drain_left_y [OF False] uy add.assoc Let_def)
  next
    case y: True
    have uy: "(ucast y :: u16) + 1 = 0x100"
      using unat_last8 [OF y] by (simp add: word_unat_eq_iff unat_ucast_mod unat_word_ariths)
    show ?thesis
    proof (cases "x - 1 = 0")
      case True
      then have "x = 1" by simp
      then have "drain_left y x = 1" using unat_last8 [OF y] by (simp add: drain_left_def)
      then show ?thesis
        using y True \<open>x = 1\<close> by (simp add: drain_pg.simps [of p y 1 m] rd Let_def)
    next
      case False
      then show ?thesis
        using "1.IH"(2) [OF rd [symmetric] refl refl _ refl refl False] y
        by (simp add: drain_pg.simps [of p y x m] rd drain_left_x [OF y False] Let_def
            flip: uy add.assoc)
    qed
  qed
qed

lemma blit_Cons:
  assumes "p + length bs < 32768"
  shows "blit p (b # bs) r = blit (Suc p) bs (r(word_of_nat p := b))"
proof
  fix a :: "15 word"
  have "a = word_of_nat p \<longleftrightarrow> unat a = p"
    using assms by (metis add_lessD1 unat_of_nat_15 word_unat_eq_iff)
  then show "blit p (b # bs) r a = blit (Suc p) bs (r(word_of_nat p := b)) a"
    by (auto simp: blit_def nth_Cons')
qed

lemma rd_spec_fields [simp]:
  "ram (rd_spec a s) = ram s" "disk_buf (rd_spec a s) = disk_buf s"
  by (simp_all add: rd_spec_def dptr_block_def)

lemma data_port [simp]:
  "read_mux 0x80E6 s = disk_buf s (disk_dptr s)"
  by (simp add: read_mux_def is_ctrl_iff)

lemma dptr_next:
  "(if d < 511 then d + 1 else d) = (word_of_nat (min (Suc (unat d)) 511) :: 9 word)"
proof (cases "d < 511")
  case True
  then have "Suc (unat d) \<le> 511" by (simp add: word_less_nat_alt)
  then show ?thesis using True by (simp add: min_def)
next
  case False
  then have "d = 511"
    using unat_lt_2p [of d] by (simp add: word_less_nat_alt word_unat_eq_iff)
  then show ?thesis by simp
qed

lemma rd_spec_data:
  "rd_spec 0x80E6 s = s\<lparr>disk_dptr := word_of_nat (min (Suc (unat (disk_dptr s))) 511)\<rparr>"
  unfolding dptr_next [symmetric] by (simp add: rd_spec_def dptr_block_def)

lemma unat_dptr: "unat (word_of_nat (min k 511) :: 9 word) = min k 511"
  by (simp add: unat_of_nat min_def)

lemma ucast15: "unat (p :: u16) < 32768 \<Longrightarrow> (ucast p :: 15 word) = word_of_nat (unat p)"
  using ucast15_plus(1) [of p 0] by simp

lemma drain_n_core:
  assumes "core m = s" "kmode s" "unat p + n \<le> 32768" "unat (disk_dptr s) + n \<le> 512"
  shows "core (drain_n n p m) =
    s\<lparr>ram := blit (unat p) (map (\<lambda>i. disk_buf s (word_of_nat i))
             [unat (disk_dptr s)..<unat (disk_dptr s) + n]) (ram s),
      disk_dptr := word_of_nat (min (unat (disk_dptr s) + n) 511)\<rparr>"
  using assms
proof (induction n arbitrary: p m s)
  case 0
  have "min (unat (disk_dptr s)) 511 = unat (disk_dptr s)"
    using unat_lt_2p [of "disk_dptr s"] by simp
  then show ?case using "0.prems"(1) by simp
next
  case (Suc n)
  let ?d = "unat (disk_dptr s)" and ?v = "disk_buf s (disk_dptr s)"
  let ?f = "\<lambda>i. disk_buf s (word_of_nat i)"
  let ?s1 = "s\<lparr>disk_dptr := word_of_nat (min (Suc ?d) 511)\<rparr>"
  let ?s2 = "?s1\<lparr>ram := (ram s)(ucast p := ?v)\<rparr>"
  obtain m1 where m1: "mem_read 0x80E6 m = (?v, m1)" "core m1 = ?s1"
    using mem_read_at [OF Suc.prems(1,2), of "0x80E6"] by (auto simp: rd_spec_data)
  have p: "p < 0x8000" using Suc.prems(3) by (simp add: word_less_nat_alt)
  have ucp: "(ucast p :: 15 word) = word_of_nat (unat p)"
    by (rule ucast15) (use Suc.prems(3) in simp)
  have k1: "kmode ?s1" using Suc.prems(2) by (simp add: kmode_def)
  have c2: "core (mem_write p ?v m1) = ?s2"
    using mem_write_ram [OF m1(2) k1 p, of ?v] by simp
  have k2: "kmode ?s2" using Suc.prems(2) by (simp add: kmode_def)
  have L: "map ?f [?d..<?d + Suc n] = ?v # map ?f [Suc ?d..<Suc ?d + n]"
    by (simp add: upt_conv_Cons del: upt_Suc)
  have B: "blit (unat p) (map ?f [?d..<?d + Suc n]) (ram s) =
      blit (Suc (unat p)) (map ?f [Suc ?d..<Suc ?d + n]) ((ram s)(ucast p := ?v))"
    unfolding L ucp by (rule blit_Cons) (use Suc.prems(3) in simp)
  show ?case
  proof (cases "n = 0")
    case True
    then show ?thesis
      unfolding B by (simp only: True drain_n.simps m1(1) prod.case c2) (simp add: fun_upd_def)
  next
    case False
    then have "unat (word_of_nat (min (Suc ?d) 511) :: 9 word) = Suc ?d"
      unfolding unat_dptr using Suc.prems(4) by simp
    then have d: "unat (disk_dptr ?s2) = Suc ?d" by simp
    have up: "unat (p + 1) = Suc (unat p)"
      using Suc.prems(3) False by (simp add: unat_word_ariths)
    show ?thesis
      unfolding B drain_n.simps m1(1) prod.case
      using Suc.IH [OF c2 k2, of "p + 1", unfolded d up] Suc.prems(3,4)
      by (simp add: fun_upd_def)
  qed
qed

section \<open>What the driver does\<close>

definition block_read_spec :: "u32 \<Rightarrow> u16 \<Rightarrow> machine \<Rightarrow> u8 \<times> machine" where
  "block_read_spec lba buf s =
     (let s1 = disk_do_read (s\<lparr>disk_lba := lba\<rparr>) in
      if disk_err s1 then (1, s1)
      else (0, s1\<lparr>ram := blit (unat buf) (buf_bytes (disk_buf s1)) (ram s1), disk_dptr := 511\<rparr>))"

definition block_write_spec :: "u32 \<Rightarrow> u16 \<Rightarrow> machine \<Rightarrow> u8 \<times> machine" where
  "block_write_spec lba buf s =
     (let s1 = disk_do_write (s\<lparr>disk_buf := (\<lambda>i. ram s (word_of_nat (unat buf + unat i))),
                               disk_dptr := 511, disk_lba := lba\<rparr>)
      in (if disk_err s1 then 1 else 0, s1))"

lemma set_byte_lba:
  "set_byte 3 (set_byte 2 (set_byte 1 (set_byte 0 w (ucast lba)) (ucast (drop_bit 8 lba)))
     (ucast (drop_bit 16 lba))) (ucast (drop_bit 24 lba)) = (lba :: u32)"
proof (rule bit_word_eqI)
  fix n assume "n < LENGTH(32)"
  then consider "n < 8" | "8 \<le> n" "n < 16" | "16 \<le> n" "n < 24" | "24 \<le> n" "n < 32"
    by fastforce
  then show "bit (set_byte 3 (set_byte 2 (set_byte 1 (set_byte 0 w (ucast lba)) (ucast (drop_bit 8 lba)))
     (ucast (drop_bit 16 lba))) (ucast (drop_bit 24 lba))) n = bit lba n"
  proof cases
    case 1 then show ?thesis by (auto simp: set_byte_def bit_simps)
  next
    case 2 then obtain k where "n = 8 + k" "k < 8" by (auto simp: le_iff_add)
    then show ?thesis by (auto simp: set_byte_def bit_simps)
  next
    case 3 then obtain k where "n = 16 + k" "k < 8" by (auto simp: le_iff_add)
    then show ?thesis by (auto simp: set_byte_def bit_simps)
  next
    case 4 then obtain k where "n = 24 + k" "k < 8" by (auto simp: le_iff_add)
    then show ?thesis by (auto simp: set_byte_def bit_simps)
  qed
qed

lemma wr_spec_lba:
  "wr_spec 0x80E0 b s = s\<lparr>disk_lba := set_byte 0 (disk_lba s) b\<rparr>"
  "wr_spec 0x80E1 b s = s\<lparr>disk_lba := set_byte 1 (disk_lba s) b\<rparr>"
  "wr_spec 0x80E2 b s = s\<lparr>disk_lba := set_byte 2 (disk_lba s) b\<rparr>"
  "wr_spec 0x80E3 b s = s\<lparr>disk_lba := set_byte 3 (disk_lba s) b\<rparr>"
  by (simp_all add: wr_spec_def is_ctrl_iff write_block_def)

lemma wr_spec_cmd:
  "wr_spec 0x80E4 1 s = disk_do_read s" "wr_spec 0x80E4 2 s = disk_do_write s"
  "wr_spec 0x80E7 b s = s\<lparr>disk_dptr := 0\<rparr>"
  by (simp_all add: wr_spec_def is_ctrl_iff write_block_def)

lemma kmode_upd [simp]:
  "kmode (s\<lparr>disk_lba := l\<rparr>) = kmode s" "kmode (s\<lparr>disk_dptr := d\<rparr>) = kmode s"
  "kmode (s\<lparr>disk_buf := b\<rparr>) = kmode s" "kmode (s\<lparr>ram := r\<rparr>) = kmode s"
  "kmode (disk_do_read s) = kmode s" "kmode (disk_do_write s) = kmode s"
  by (auto simp: kmode_def disk_do_read_def disk_do_write_def Let_def split: option.splits)

lemma set_lba_core:
  assumes "core m = s" "kmode s"
  shows "core (set_lba lba m) = s\<lparr>disk_lba := lba\<rparr>"
proof -
  have 0: "core (mem_write 0x80E0 b0 m) = s\<lparr>disk_lba := set_byte 0 (disk_lba s) b0\<rparr>" for b0
    using mem_write_at [OF assms, of "0x80E0" b0] by (simp add: wr_spec_lba)
  have 1: "core (mem_write 0x80E1 b1 (mem_write 0x80E0 b0 m)) =
      s\<lparr>disk_lba := set_byte 1 (set_byte 0 (disk_lba s) b0) b1\<rparr>" for b0 b1
    using mem_write_at [OF 0, where a = "0x80E1" and d = b1] assms(2) by (simp add: wr_spec_lba)
  have 2: "core (mem_write 0x80E2 b2 (mem_write 0x80E1 b1 (mem_write 0x80E0 b0 m))) =
      s\<lparr>disk_lba := set_byte 2 (set_byte 1 (set_byte 0 (disk_lba s) b0) b1) b2\<rparr>" for b0 b1 b2
    using mem_write_at [OF 1, where a = "0x80E2" and d = b2] assms(2) by (simp add: wr_spec_lba)
  show ?thesis
    unfolding set_lba_def disk_regs
    using mem_write_at [OF 2, where a = "0x80E3"] assms(2) by (simp add: wr_spec_lba set_byte_lba [simplified])
qed

lemma wait_disk:
  assumes "core m = s" "kmode s" "\<not> disk_busy s"
  shows "runs (wait_clear DISK_STATUS STATUS_BUSY m) s"
proof -
  obtain m1 where "mem_read 0x80E5 m = (disk_status (disk_err s) False, m1)" "core m1 = s"
    using mem_read_at [OF assms(1,2), of "0x80E5"] assms(3)
    by (auto simp: read_mux_def is_ctrl_iff rd_spec_other)
  then show ?thesis
    by (auto simp: disk_regs wait_clear.simps [of _ _ m] disk_status_def)
qed

lemma read_disk_status:
  assumes "core m = s" "kmode s" "\<not> disk_busy s"
  obtains st m' where "mem_read DISK_STATUS m = (st, m')" "core m' = s"
    "st AND STATUS_ERR \<noteq> 0 \<longleftrightarrow> disk_err s"
proof -
  obtain m' where "mem_read 0x80E5 m = (disk_status (disk_err s) False, m')" "core m' = s"
    using mem_read_at [OF assms(1,2), of "0x80E5"] assms(3)
    by (auto simp: read_mux_def is_ctrl_iff rd_spec_other)
  then show ?thesis using that by (simp add: disk_regs disk_status_def)
qed

lemma disk_do_read_idle [simp]: "\<not> disk_busy (disk_do_read s)"
  by (auto simp: disk_do_read_def Let_def split: option.splits)

lemma disk_do_write_idle [simp]: "\<not> disk_busy (disk_do_write s)"
  by (auto simp: disk_do_write_def Let_def split: option.splits)

lemma block_read_yields:
  assumes "core m = s" "kmode s" "unat buf + 512 \<le> 32768"
  shows "yields (block_read lba buf m) (fst (block_read_spec lba buf s)) (snd (block_read_spec lba buf s))"
proof -
  define s1 where "s1 = disk_do_read (s\<lparr>disk_lba := lba\<rparr>)"
  have k1: "kmode s1" and b1: "\<not> disk_busy s1" using assms(2) by (simp_all add: s1_def)
  have c1: "core (mem_write DISK_CMD CMD_READ (set_lba lba m)) = s1"
    using mem_write_at [OF set_lba_core [OF assms(1,2)], where a = "0x80E4" and d = 1] assms(2)
    by (simp add: disk_regs wr_spec_cmd s1_def)
  show ?thesis
    unfolding block_read_def Let_def
  proof (rule runs_bind_yields [OF wait_disk [OF c1 k1 b1]])
    fix m2 assume "core m2 = s1"
    then obtain st m3 where m3: "mem_read DISK_STATUS m2 = (st, m3)" "core m3 = s1"
        "st AND STATUS_ERR \<noteq> 0 \<longleftrightarrow> disk_err s1"
      using read_disk_status k1 b1 by blast
    have c4: "core (mem_write DISK_DPTR 0 m3) = s1\<lparr>disk_dptr := 0\<rparr>"
      using mem_write_at [OF m3(2) k1, of "0x80E7" 0] by (simp add: disk_regs wr_spec_cmd)
    have "core (drain_pg buf 0 2 (mem_write DISK_DPTR 0 m3)) =
        s1\<lparr>ram := blit (unat buf) (buf_bytes (disk_buf s1)) (ram s1), disk_dptr := 511\<rparr>"
      using drain_n_core [OF c4, of buf 512] k1 assms(3)
      by (simp add: drain_pg_drain_n drain_left_def buf_bytes_def)
    then show "yields (case mem_read DISK_STATUS m2 of (st, m) \<Rightarrow>
        if st AND STATUS_ERR \<noteq> 0 then Some (1, m)
        else Some (0, drain_pg buf 0 2 (mem_write DISK_DPTR 0 m)))
        (fst (block_read_spec lba buf s)) (snd (block_read_spec lba buf s))"
      using m3 by (simp add: block_read_spec_def s1_def [symmetric])
  qed
qed

lemma wr_spec_data:
  "wr_spec 0x80E6 b s =
     s\<lparr>disk_buf := (disk_buf s)(disk_dptr s := b),
       disk_dptr := word_of_nat (min (Suc (unat (disk_dptr s))) 511)\<rparr>"
  unfolding dptr_next [symmetric]
  by (simp add: wr_spec_def is_ctrl_iff write_block_def dptr_block_def)

lemma write_loop_core:
  assumes "core m = s" "kmode s" "unat buf + 512 \<le> 32768" "unat i \<le> 512"
    "disk_dptr s = word_of_nat (min (unat i) 511)"
  shows "core (write_loop buf i m) =
    s\<lparr>disk_buf := (\<lambda>j. if unat i \<le> unat j then ram s (word_of_nat (unat buf + unat j))
                        else disk_buf s j),
      disk_dptr := 511\<rparr>"
  using assms
proof (induction "512 - unat i" arbitrary: i m s)
  case 0
  then have i: "unat i = 512" by simp
  have "\<not> unat i \<le> unat j" for j :: "9 word" using unat_lt_2p [of j] i by simp
  then show ?case
    using 0 i by (simp add: write_loop.simps [of buf i m] BLOCK_SIZE_def word_less_nat_alt)
next
  case (Suc n)
  let ?k = "unat buf + unat i"
  let ?v = "ram s (word_of_nat ?k)"
  have i: "unat i < 512" using Suc.hyps(2) by simp
  have a: "(ucast (buf + i) :: 15 word) = word_of_nat ?k" "buf + i < 0x8000"
    using ucast15_plus [of buf "unat i"] Suc.prems(3) i by auto
  obtain m1 where m1: "mem_read (buf + i) m = (?v, m1)" "core m1 = s"
    using mem_read_ram [OF Suc.prems(1,2) a(2)] a(1) by auto
  let ?s2 = "s\<lparr>disk_buf := (disk_buf s)(disk_dptr s := ?v),
             disk_dptr := word_of_nat (min (Suc (unat (disk_dptr s))) 511)\<rparr>"
  have ud: "unat (disk_dptr s) = unat i"
    using Suc.prems(5) i by (simp add: unat_dptr unat_ucast_mod)
  have c2: "core (mem_write DISK_DATA ?v m1) = ?s2"
    using mem_write_at [OF m1(2) Suc.prems(2), of "0x80E6" ?v]
    by (simp add: DISK_DATA_def wr_spec_data)
  have ui: "unat (i + 1) = Suc (unat i)" using i by (simp add: unat_word_ariths)
  have d2: "disk_dptr ?s2 = word_of_nat (min (unat (i + 1)) 511)" by (simp add: ui ud)
  have "core (write_loop buf (i + 1) (mem_write DISK_DATA ?v m1)) =
    ?s2\<lparr>disk_buf := (\<lambda>j. if unat (i + 1) \<le> unat j then ram ?s2 (word_of_nat (unat buf + unat j))
                        else disk_buf ?s2 j), disk_dptr := 511\<rparr>"
    by (rule Suc.hyps(1) [OF _ c2 _ Suc.prems(3) _ d2])
      (use Suc.hyps(2) Suc.prems(2) ui i in \<open>auto\<close>)
  moreover have "(\<lambda>j. if unat (i + 1) \<le> unat j then ram ?s2 (word_of_nat (unat buf + unat j))
                        else disk_buf ?s2 j) =
      (\<lambda>j. if unat i \<le> unat j then ram s (word_of_nat (unat buf + unat j)) else disk_buf s j)"
  proof
    fix j :: "9 word"
    have "j = disk_dptr s \<longleftrightarrow> unat j = unat i" using ud by (simp add: word_unat_eq_iff)
    then show "(if unat (i + 1) \<le> unat j then ram ?s2 (word_of_nat (unat buf + unat j))
                        else disk_buf ?s2 j) =
      (if unat i \<le> unat j then ram s (word_of_nat (unat buf + unat j)) else disk_buf s j)"
      using ui ud by (auto simp del: of_nat_add)
  qed
  ultimately show ?case
    using i m1(1) by (simp add: write_loop.simps [of buf i m] BLOCK_SIZE_def word_less_nat_alt)
qed

lemma block_write_yields:
  assumes "core m = s" "kmode s" "unat buf + 512 \<le> 32768"
  shows "yields (block_write lba buf m) (fst (block_write_spec lba buf s)) (snd (block_write_spec lba buf s))"
proof -
  let ?buf = "\<lambda>j :: 9 word. ram s (word_of_nat (unat buf + unat j))"
  define s1 where "s1 = disk_do_write (s\<lparr>disk_buf := ?buf, disk_dptr := 511, disk_lba := lba\<rparr>)"
  have k1: "kmode s1" and b1: "\<not> disk_busy s1" using assms(2) by (simp_all add: s1_def)
  have c0: "core (mem_write DISK_DPTR 0 m) = s\<lparr>disk_dptr := 0\<rparr>"
    using mem_write_at [OF assms(1,2), of "0x80E7" 0] by (simp add: disk_regs wr_spec_cmd)
  have w: "core (write_loop buf 0 (mem_write DISK_DPTR 0 m)) = s\<lparr>disk_buf := ?buf, disk_dptr := 511\<rparr>"
    using write_loop_core [OF c0, of buf 0] assms(2,3) by simp
  have kw: "kmode (s\<lparr>disk_buf := ?buf, disk_dptr := 511\<rparr>)" using assms(2) by simp
  have c1: "core (mem_write DISK_CMD CMD_WRITE (set_lba lba (write_loop buf 0 (mem_write DISK_DPTR 0 m)))) = s1"
    using mem_write_at [OF set_lba_core [OF w kw], where a = "0x80E4" and d = 2] kw
    by (simp add: disk_regs wr_spec_cmd s1_def)
  show ?thesis
    unfolding block_write_def Let_def
  proof (rule runs_bind_yields [OF wait_disk [OF c1 k1 b1]])
    fix m2 assume "core m2 = s1"
    then obtain st m3 where "mem_read DISK_STATUS m2 = (st, m3)" "core m3 = s1"
        "st AND STATUS_ERR \<noteq> 0 \<longleftrightarrow> disk_err s1"
      using read_disk_status k1 b1 by blast
    then show "yields (case mem_read DISK_STATUS m2 of (st, m) \<Rightarrow>
        if st AND STATUS_ERR \<noteq> 0 then Some (1, m) else Some (0, m))
        (fst (block_write_spec lba buf s)) (snd (block_write_spec lba buf s))"
      by (simp add: block_write_spec_def Let_def s1_def del: of_nat_add)
  qed
qed

section \<open>The disk as sectors\<close>

text \<open>
  \<open>sector_of img lba\<close>: the 512 bytes of a sector of the image, zeros past its end. \<open>lba_ok\<close>:
  the byte offset fits the positive half of a 32-bit integer, beyond which the controller's
  \<open>$fseek\<close> does not reach the sector.
\<close>

definition sector_of :: "u8 list \<Rightarrow> u32 \<Rightarrow> u8 list" where
  "sector_of img lba =
     map (\<lambda>i. if unat lba * 512 + i < length img then img ! (unat lba * 512 + i) else 0) [0..<512]"

definition lba_ok :: "u32 \<Rightarrow> bool" where
  "lba_ok lba \<longleftrightarrow> unat lba < 2 ^ 22"

lemma length_sector_of [simp]: "length (sector_of img lba) = 512"
  by (simp add: sector_of_def)

lemma seek_lba: "lba_ok lba \<Longrightarrow> seek_pos (lba * 512) p = unat lba * 512"
proof -
  assume "lba_ok lba"
  then have u: "unat (lba * 512) = unat lba * 512"
    by (simp add: lba_ok_def unat_word_ariths)
  moreover have "\<not> bit (lba * 512) 31"
    using u \<open>lba_ok lba\<close> by (simp add: lba_ok_def bit_unat_odd)
  ultimately show ?thesis by (simp add: seek_pos_def)
qed

lemma buf_bytes_read:
  "lba_ok lba \<Longrightarrow> disk_img s = Some img \<Longrightarrow>
     buf_bytes (disk_buf (disk_do_read (s\<lparr>disk_lba := lba\<rparr>))) = sector_of img lba"
  by (simp add: disk_do_read_def Let_def seek_lba buf_bytes_def sector_of_def unat_of_nat)

lemma block_read_spec_ok:
  assumes "lba_ok lba" "disk_img s = Some img"
  shows "fst (block_read_spec lba buf s) = 0"
    and "ram (snd (block_read_spec lba buf s)) = blit (unat buf) (sector_of img lba) (ram s)"
    and "disk_img (snd (block_read_spec lba buf s)) = Some img"
proof -
  have "\<not> disk_err (disk_do_read (s\<lparr>disk_lba := lba\<rparr>))"
    using assms(2) by (simp add: disk_do_read_def Let_def)
  moreover have "ram (disk_do_read t) = ram t" "disk_img (disk_do_read t) = disk_img t" for t
    by (simp_all add: disk_do_read_def Let_def split: option.splits)
  ultimately show "fst (block_read_spec lba buf s) = 0"
      "ram (snd (block_read_spec lba buf s)) = blit (unat buf) (sector_of img lba) (ram s)"
      "disk_img (snd (block_read_spec lba buf s)) = Some img"
    using assms buf_bytes_read [OF assms] by (simp_all add: block_read_spec_def Let_def)
qed

definition byte_at :: "u8 list \<Rightarrow> nat \<Rightarrow> u8" where
  "byte_at img k = (if k < length img then img ! k else 0)"

lemma sector_of_byte_at: "sector_of img lba = map (\<lambda>i. byte_at img (unat lba * 512 + i)) [0..<512]"
  by (simp add: sector_of_def byte_at_def)

lemma byte_at_put:
  "byte_at (put_bytes p bs img) k =
     (if p \<le> k \<and> k < p + length bs then bs ! (k - p) else byte_at img k)"
  by (auto simp: byte_at_def put_bytes_def nth_append min_def)

lemma sector_put_same:
  "length bs = 512 \<Longrightarrow> sector_of (put_bytes (unat lba * 512) bs img) lba = bs"
  by (rule nth_equalityI) (auto simp: sector_of_byte_at byte_at_put)

lemma sector_put_other:
  assumes "length bs = 512" "lba \<noteq> lba'"
  shows "sector_of (put_bytes (unat lba * 512) bs img) lba' = sector_of img lba'"
proof -
  have "unat lba + 1 \<le> unat lba' \<or> unat lba' + 1 \<le> unat lba"
    using assms(2) by (auto simp: word_unat_eq_iff)
  then have "unat lba * 512 + 512 \<le> unat lba' * 512 \<or> unat lba' * 512 + 512 \<le> unat lba * 512"
    by auto
  then show ?thesis using assms(1) by (auto simp: sector_of_byte_at byte_at_put)
qed

lemma buf_bytes_peek: "buf_bytes (\<lambda>j. r (word_of_nat (p + unat j))) = peek p 512 r"
  by (auto simp: buf_bytes_def peek_def unat_of_nat simp del: of_nat_add)

lemma block_write_spec_ok:
  assumes "lba_ok lba" "disk_img s = Some img"
  shows "fst (block_write_spec lba buf s) = 0"
    and "ram (snd (block_write_spec lba buf s)) = ram s"
    and "disk_img (snd (block_write_spec lba buf s)) =
           Some (put_bytes (unat lba * 512) (peek (unat buf) 512 (ram s)) img)"
  using assms
  by (simp_all add: block_write_spec_def Let_def disk_do_write_def seek_lba buf_bytes_peek
      del: of_nat_add)

lemma block_read_spec_frame [simp]:
  "mmu (snd (block_read_spec lba buf s)) = mmu s"
  "acia_out (snd (block_read_spec lba buf s)) = acia_out s"
  "gpu_out (snd (block_read_spec lba buf s)) = gpu_out s"
  "overruns (snd (block_read_spec lba buf s)) = overruns s"
  "disk_img (snd (block_read_spec lba buf s)) = disk_img s"
  "kmode (snd (block_read_spec lba buf s)) = kmode s"
  by (auto simp: block_read_spec_def Let_def disk_do_read_def kmode_def split: option.splits)

lemma block_write_spec_frame [simp]:
  "mmu (snd (block_write_spec lba buf s)) = mmu s"
  "acia_out (snd (block_write_spec lba buf s)) = acia_out s"
  "gpu_out (snd (block_write_spec lba buf s)) = gpu_out s"
  "overruns (snd (block_write_spec lba buf s)) = overruns s"
  "kmode (snd (block_write_spec lba buf s)) = kmode s"
  by (auto simp: block_write_spec_def Let_def disk_do_write_def kmode_def split: option.splits)

section \<open>The interface of a block device\<close>

locale block_device =
  fixes rd :: "u32 \<Rightarrow> u16 \<Rightarrow> machine \<Rightarrow> (u8 \<times> machine) option"
    and wr :: "u32 \<Rightarrow> u16 \<Rightarrow> machine \<Rightarrow> (u8 \<times> machine) option"
    and sector :: "machine \<Rightarrow> u32 \<Rightarrow> u8 list"
    and ready :: "machine \<Rightarrow> bool"
  assumes rd_sector: "\<lbrakk>core m = s; ready s; lba_ok lba; unat buf + 512 \<le> 32768\<rbrakk> \<Longrightarrow>
      \<exists>s'. yields (rd lba buf m) 0 s' \<and> ready s' \<and>
           ram s' = blit (unat buf) (sector s lba) (ram s) \<and> sector s' = sector s"
    and wr_sector: "\<lbrakk>core m = s; ready s; lba_ok lba; unat buf + 512 \<le> 32768\<rbrakk> \<Longrightarrow>
      \<exists>s'. yields (wr lba buf m) 0 s' \<and> ready s' \<and> ram s' = ram s \<and>
           sector s' = (sector s)(lba := peek (unat buf) 512 (ram s))"
    and length_sector: "length (sector s lba) = 512"
begin

lemma write_then_read:
  assumes "core m = s" "ready s" "lba_ok lba" "unat b1 + 512 \<le> 32768" "unat b2 + 512 \<le> 32768"
  shows "\<exists>s'. yields (do { (r, m) \<leftarrow> wr lba b1 m; rd lba b2 m }) 0 s' \<and>
           peek (unat b2) 512 (ram s') = peek (unat b1) 512 (ram s)"
proof -
  obtain s1 where s1: "yields (wr lba b1 m) 0 s1" "ready s1" "ram s1 = ram s"
      "sector s1 = (sector s)(lba := peek (unat b1) 512 (ram s))"
    using wr_sector [OF assms(1-4)] by blast
  obtain m1 where m1: "wr lba b1 m = Some (0, m1)" "core m1 = s1"
    using s1(1) by (auto simp: yields_def)
  obtain s2 where s2: "yields (rd lba b2 m1) 0 s2" "ram s2 = blit (unat b2) (sector s1 lba) (ram s1)"
    using rd_sector [OF m1(2) s1(2) assms(3,5)] by blast
  have "peek (unat b2) 512 (ram s2) = sector s1 lba"
    using peek_blit [of "unat b2" "sector s1 lba" "ram s1"] assms(5) by (simp add: s2(2) length_sector)
  then show ?thesis using s2(1) s1(4) m1(1) by auto
qed

lemma copy_sector:
  assumes "core m = s" "ready s" "lba_ok l1" "lba_ok l2" "unat b + 512 \<le> 32768"
  shows "\<exists>s'. yields (do { (r, m) \<leftarrow> rd l1 b m; wr l2 b m }) 0 s' \<and>
           sector s' = (sector s)(l2 := sector s l1)"
proof -
  obtain s1 where s1: "yields (rd l1 b m) 0 s1" "ready s1" "sector s1 = sector s"
      "ram s1 = blit (unat b) (sector s l1) (ram s)"
    using rd_sector [OF assms(1-3,5)] by blast
  obtain m1 where m1: "rd l1 b m = Some (0, m1)" "core m1 = s1"
    using s1(1) by (auto simp: yields_def)
  obtain s2 where s2: "yields (wr l2 b m1) 0 s2"
      "sector s2 = (sector s1)(l2 := peek (unat b) 512 (ram s1))"
    using wr_sector [OF m1(2) s1(2) assms(4,5)] by blast
  have "peek (unat b) 512 (ram s1) = sector s l1"
    using peek_blit [of "unat b" "sector s l1" "ram s"] assms(5) by (simp add: s1(4) length_sector)
  then show ?thesis using s2 s1(3) m1(1) by auto
qed

end

definition disk_sector :: "machine \<Rightarrow> u32 \<Rightarrow> u8 list" where
  "disk_sector s lba = sector_of (case disk_img s of None \<Rightarrow> [] | Some img \<Rightarrow> img) lba"

definition disk_ready :: "machine \<Rightarrow> bool" where
  "disk_ready s \<longleftrightarrow> kmode s \<and> disk_img s \<noteq> None"

interpretation disk: block_device block_read block_write disk_sector disk_ready
proof unfold_locales
  fix m s :: machine and lba :: u32 and buf :: u16
  assume a: "core m = s" "disk_ready s" "lba_ok lba" "unat buf + 512 \<le> 32768"
  then obtain img where img: "disk_img s = Some img" "kmode s" by (auto simp: disk_ready_def)
  show "\<exists>s'. yields (block_read lba buf m) 0 s' \<and> disk_ready s' \<and>
           ram s' = blit (unat buf) (disk_sector s lba) (ram s) \<and> disk_sector s' = disk_sector s"
    using block_read_yields [OF a(1) img(2) a(4), of lba] block_read_spec_ok [OF a(3) img(1), of buf] img
    by (intro exI [of _ "snd (block_read_spec lba buf s)"])
      (simp add: disk_ready_def disk_sector_def fun_eq_iff)
  show "\<exists>s'. yields (block_write lba buf m) 0 s' \<and> disk_ready s' \<and> ram s' = ram s \<and>
           disk_sector s' = (disk_sector s)(lba := peek (unat buf) 512 (ram s))"
    using block_write_yields [OF a(1) img(2) a(4), of lba] block_write_spec_ok [OF a(3) img(1), of buf] img
    by (intro exI [of _ "snd (block_write_spec lba buf s)"])
      (auto simp: disk_ready_def disk_sector_def fun_eq_iff sector_put_same sector_put_other)
qed (simp add: disk_sector_def)

section \<open>Properties\<close>

text \<open>
  C10: from kernel mode, with a disk image open, \<open>block_read\<close> returns 0 for every timing of its
  accesses, the 512 bytes at \<open>buf\<close> are the sector's, no other byte of RAM changes, and neither
  the disk nor the MMU nor the console output does. (\<open>zp_ptr\<close> is a value beside this RAM, so this speaks
  of buffers that do not cover its two bytes in the kernel's zero page.)
\<close>

theorem block_read_sector:
  assumes "kmode m" "disk_img m = Some img" "lba_ok lba" "unat buf + 512 \<le> 32768"
  shows "\<exists>m'. block_read lba buf m = Some (0, m') \<and>
           ram m' = blit (unat buf) (sector_of img lba) (ram m) \<and> disk_img m' = Some img \<and>
           acia_out m' = acia_out m \<and> gpu_out m' = gpu_out m \<and> ppn (mmu m') = ppn (mmu m) \<and> kmode m'"
proof -
  have k: "kmode (core m)" using assms(1) by simp
  have i: "disk_img (core m) = Some img" using assms(2) by simp
  obtain m' where m': "block_read lba buf m = Some (0, m')"
      "core m' = snd (block_read_spec lba buf (core m))"
    using block_read_yields [OF refl k assms(4), of lba] block_read_spec_ok(1) [OF assms(3) i, of buf]
    by (auto simp: yields_def)
  have "ram (core m') = blit (unat buf) (sector_of img lba) (ram (core m))"
    "disk_img (core m') = Some img" "acia_out (core m') = acia_out (core m)"
    "gpu_out (core m') = gpu_out (core m)" "mmu (core m') = mmu (core m)" "kmode (core m')"
    unfolding m'(2) using block_read_spec_ok [OF assms(3) i, of buf] k i by simp_all
  then show ?thesis using m'(1) by (metis core_fields(1,8,10,11,16) kmode_core)
qed

theorem block_read_sector_witness:
  "\<exists>m'. block_read 3 0x1000 (power_on (\<lambda>_. 0) (\<lambda>_. 0xEA) (\<lambda>_. 0) (Some [7, 8, 9]) (\<lambda>_. None) (\<lambda>n. n)) = Some (0, m') \<and>
     ram m' = blit 0x1000 (sector_of [7, 8, 9] 3) (\<lambda>_. 0)"
  using block_read_sector [of "power_on (\<lambda>_. 0) (\<lambda>_. 0xEA) (\<lambda>_. 0) (Some [7, 8, 9]) (\<lambda>_. None) (\<lambda>n. n)"
      "[7, 8, 9]" 3 "0x1000"]
  by (auto simp: kmode_def mmu_reset_def lba_ok_def)

text \<open>
  Without a disk image \<open>block_read\<close> reports the error (it returns 1) and leaves RAM alone.
\<close>

theorem block_read_error:
  assumes "kmode m" "disk_img m = None" "unat buf + 512 \<le> 32768"
  shows "\<exists>m'. block_read lba buf m = Some (1, m') \<and> ram m' = ram m"
proof -
  have e: "block_read_spec lba buf (core m) = (1, disk_do_read ((core m)\<lparr>disk_lba := lba\<rparr>))"
    and r: "ram (disk_do_read ((core m)\<lparr>disk_lba := lba\<rparr>)) = ram m"
    using assms(2) by (simp_all add: block_read_spec_def disk_do_read_def)
  obtain m' where "block_read lba buf m = Some (1, m')"
      "core m' = disk_do_read ((core m)\<lparr>disk_lba := lba\<rparr>)"
    using block_read_yields [of m "core m" buf lba] assms(1,3) by (auto simp: yields_def e)
  then show ?thesis using r by (metis core_fields(1))
qed

theorem block_read_error_witness:
  "\<exists>m'. block_read 3 0x1000 (power_on (\<lambda>_. 5) (\<lambda>_. 0xEA) (\<lambda>_. 0) None (\<lambda>_. None) (\<lambda>n. n)) = Some (1, m') \<and>
     ram m' = (\<lambda>_. 5)"
  using block_read_error [of "power_on (\<lambda>_. 5) (\<lambda>_. 0xEA) (\<lambda>_. 0) None (\<lambda>_. None) (\<lambda>n. n)" "0x1000" 3]
  by (simp add: kmode_def mmu_reset_def)

text \<open>
  C27: a sector written with \<open>block_write\<close> is read back by \<open>block_read\<close>: after both calls the
  second buffer holds the bytes the first one held.
\<close>

theorem block_write_read:
  assumes "kmode m" "disk_img m = Some img" "lba_ok lba"
    "unat b1 + 512 \<le> 32768" "unat b2 + 512 \<le> 32768"
  shows "\<exists>r m1 m2. block_write lba b1 m = Some (r, m1) \<and> block_read lba b2 m1 = Some (0, m2) \<and>
           peek (unat b2) 512 (ram m2) = peek (unat b1) 512 (ram m)"
proof -
  have "disk_ready (core m)" using assms(1,2) by (simp add: disk_ready_def)
  then obtain s' where s': "yields (do { (r, m) \<leftarrow> block_write lba b1 m; block_read lba b2 m }) 0 s'"
      "peek (unat b2) 512 (ram s') = peek (unat b1) 512 (ram (core m))"
    using disk.write_then_read [OF refl] assms(3-5) by blast
  obtain m2 where m2: "do { (r, m) \<leftarrow> block_write lba b1 m; block_read lba b2 m } = Some (0, m2)"
      "core m2 = s'"
    using s'(1) by (auto simp: yields_def)
  then obtain r m1 where "block_write lba b1 m = Some (r, m1)" "block_read lba b2 m1 = Some (0, m2)"
    by (auto split: bind_splits prod.splits)
  moreover have "ram m2 = ram s'" using m2(2) by (metis core_fields(1))
  ultimately show ?thesis using s'(2) by auto
qed

theorem block_write_read_witness:
  "\<exists>r m1 m2.
     block_write 9 0x1000 (power_on ucast (\<lambda>_. 0xEA) (\<lambda>_. 0) (Some []) (\<lambda>_. None) (\<lambda>_. 2)) = Some (r, m1) \<and>
     block_read 9 0x2000 m1 = Some (0, m2) \<and> peek 0x2000 512 (ram m2) = peek 0x1000 512 ucast"
  using block_write_read [of "power_on ucast (\<lambda>_. 0xEA) (\<lambda>_. 0) (Some []) (\<lambda>_. None) (\<lambda>_. 2)" "[]" 9
      "0x1000" "0x2000"]
  by (simp add: kmode_def mmu_reset_def lba_ok_def)

end
