(* ===== verification/Kmem.thy ===== *)
theory Kmem
  imports Block
begin

text \<open>
  What kernel code sees of the machine: RAM, and the environment \<open>env\<close> (the MMU's registers,
  the disk, the bytes printed). The access rules of this theory state every operation of the
  console and of the block driver as an update of RAM that keeps the environment, or as an
  update of the environment that keeps RAM.
\<close>

section \<open>The environment\<close>

definition env :: "machine \<Rightarrow> bool \<times> (5 word \<Rightarrow> 5 word) \<times> u32 \<times> u32 \<times> u8 list option \<times> u8 list \<times> u8 list \<times> u8 list" where
  "env m = (kernel (mmu m), ppn (mmu m), u_bits (mmu m), w_bits (mmu m), disk_img m,
            acia_out m, gpu_out m, overruns m)"

lemma env_iff:
  "env m' = env m \<longleftrightarrow> kernel (mmu m') = kernel (mmu m) \<and> ppn (mmu m') = ppn (mmu m) \<and>
     u_bits (mmu m') = u_bits (mmu m) \<and> w_bits (mmu m') = w_bits (mmu m) \<and>
     disk_img m' = disk_img m \<and> acia_out m' = acia_out m \<and> gpu_out m' = gpu_out m \<and>
     overruns m' = overruns m"
  by (auto simp: env_def)

lemma env_core [simp]: "env (core m) = env m"
  by (simp add: env_def)

lemma env_ram [simp]: "env (m\<lparr>ram := r\<rparr>) = env m"
  by (simp add: env_def)

declare env_iff [env_simps] kmode_def [env_simps] emit_def [env_simps] emit_acia_def [env_simps] emit_gpu_def [env_simps]

lemma kmode_env: "env m' = env m \<Longrightarrow> kmode m \<Longrightarrow> kmode m'"
  by (simp add: env_iff kmode_def)

lemma core_env: "core m' = s \<Longrightarrow> env m' = env s \<and> ram m' = ram s"
  by (metis core_fields(1) env_core)

section \<open>Accesses\<close>

lemma rd_ram:
  assumes "kmode m" "a < 0x8000"
  shows "\<exists>m1. mem_read a m = (ram m (ucast a), m1) \<and> ram m1 = ram m \<and> env m1 = env m"
proof -
  have k: "kmode (core m)" using assms(1) by simp
  obtain m1 where m1: "mem_read a m = (ram (core m) (ucast a), m1)" "core m1 = core m"
    using mem_read_ram [OF refl k assms(2)] by blast
  then show ?thesis using core_env [OF m1(2)] by simp
qed

lemma wr_ram:
  assumes "kmode m" "a < 0x8000"
  shows "ram (mem_write a d m) = (ram m)(ucast a := d)" "env (mem_write a d m) = env m"
proof -
  have k: "kmode (core m)" using assms(1) by simp
  have c: "core (mem_write a d m) = (core m)\<lparr>ram := (ram (core m))(ucast a := d)\<rparr>"
    by (rule mem_write_ram [OF refl k assms(2)])
  show "ram (mem_write a d m) = (ram m)(ucast a := d)" "env (mem_write a d m) = env m"
    using core_env [OF c] by auto
qed

lemma rd_ctrl:
  assumes "kmode m" "is_ctrl a"
  shows "\<exists>m1. mem_read a m = (ctrl_rd (reg_off a) (mmu m), m1) \<and> ram m1 = ram m \<and> env m1 = env m"
proof -
  have k: "kmode (core m)" using assms(1) by simp
  obtain m1 where m1: "mem_read a m = (ctrl_rd (reg_off a) (mmu (core m)), m1)" "core m1 = core m"
    using mem_read_ctrl [OF refl k assms(2)] by blast
  then show ?thesis using core_env [OF m1(2)] by simp
qed

lemma wr_ctrl:
  assumes "kmode m" "is_ctrl a"
  shows "ram (mem_write a d m) = ram m"
    "env (mem_write a d m) = env (m\<lparr>mmu := ctrl_write (reg_off a) d (mmu m)\<rparr>)"
proof -
  have k: "kmode (core m)" using assms(1) by simp
  have c: "core (mem_write a d m) = (core m)\<lparr>mmu := ctrl_write (reg_off a) d (mmu (core m))\<rparr>"
    using mem_write_at [OF refl k, of a d] is_ctrl_not_dev [OF assms(2)] assms(2)
    by (simp add: wr_spec_ctrl)
  show "ram (mem_write a d m) = ram m" using core_env [OF c] by simp
  have "env ((core m)\<lparr>mmu := ctrl_write (reg_off a) d (mmu (core m))\<rparr>) =
      env (m\<lparr>mmu := ctrl_write (reg_off a) d (mmu m)\<rparr>)"
    by (simp add: env_def mmu_core ctrl_write_fault_reg)
  then show "env (mem_write a d m) = env (m\<lparr>mmu := ctrl_write (reg_off a) d (mmu m)\<rparr>)"
    using core_env [OF c] by simp
qed

text \<open>The same with the address as a number, and the write as a one-byte block.\<close>

lemma fun_upd_blit: "n < 32768 \<Longrightarrow> r(word_of_nat n := d) = blit n [d] r"
  using blit_snoc [of n "[]" d r] by simp

lemma unat_of_nat_16: "n < 65536 \<Longrightarrow> unat (word_of_nat n :: u16) = n"
  by (simp add: unat_of_nat)

lemma ram_addr_nat:
  assumes "n < 32768"
  shows "(word_of_nat n :: u16) < 0x8000" "(ucast (word_of_nat n :: u16) :: 15 word) = word_of_nat n"
  using ucast15_plus [of 0 n] assms by simp_all

lemma rd_at:
  "kmode m \<Longrightarrow> n < 32768 \<Longrightarrow>
   \<exists>m1. mem_read (word_of_nat n) m = (ram m (word_of_nat n), m1) \<and> ram m1 = ram m \<and> env m1 = env m"
  using rd_ram [of m "word_of_nat n"] by (simp add: ram_addr_nat)

lemma wr_at:
  assumes "kmode m" "n < 32768"
  shows "ram (mem_write (word_of_nat n) d m) = blit n [d] (ram m)"
    "env (mem_write (word_of_nat n) d m) = env m"
  using wr_ram [OF assms(1), of "word_of_nat n" d] assms(2) by (simp_all add: ram_addr_nat fun_upd_blit)

lemma blit_at: "p \<le> n \<Longrightarrow> n < p + length bs \<Longrightarrow> n < 32768 \<Longrightarrow> blit p bs r (word_of_nat n) = bs ! (n - p)"
  by (simp add: blit_def unat_of_nat_15)

lemma blit_off: "n < p \<or> p + length bs \<le> n \<Longrightarrow> n < 32768 \<Longrightarrow> blit p bs r (word_of_nat n) = r (word_of_nat n)"
  by (auto simp: blit_def unat_of_nat_15)

lemma blit_blit_append: "p + length bs = q \<Longrightarrow> blit q cs (blit p bs r) = blit p (bs @ cs) r"
  by (auto simp: blit_def fun_eq_iff nth_append)

lemma peek_eq: "(\<And>i. i < n \<Longrightarrow> r (word_of_nat (p + i)) = r' (word_of_nat (p + i))) \<Longrightarrow> peek p n r = peek p n r'"
  by (auto simp: peek_def simp del: of_nat_add)

lemma peek_nth: "i < n \<Longrightarrow> peek p n r ! i = r (word_of_nat (p + i))"
  by (simp add: peek_def)

section \<open>RAM up to some bytes\<close>

definition same_except :: "(nat \<Rightarrow> bool) \<Rightarrow> (15 word \<Rightarrow> u8) \<Rightarrow> (15 word \<Rightarrow> u8) \<Rightarrow> bool" where
  "same_except P r r' \<longleftrightarrow> (\<forall>n < 32768. \<not> P n \<longrightarrow> r' (word_of_nat n) = r (word_of_nat n))"

lemma same_except_refl [simp]: "same_except P r r"
  by (simp add: same_except_def)

lemma same_except_trans: "same_except P r r' \<Longrightarrow> same_except P r' r'' \<Longrightarrow> same_except P r r''"
  by (simp add: same_except_def)

lemma same_except_mono: "same_except P r r' \<Longrightarrow> (\<And>n. P n \<Longrightarrow> Q n) \<Longrightarrow> same_except Q r r'"
  by (auto simp: same_except_def)

lemma same_except_blit:
  "same_except P r r' \<Longrightarrow> (\<And>i. i < length bs \<Longrightarrow> P (n + i)) \<Longrightarrow> same_except P r (blit n bs r')"
  unfolding same_except_def
proof (intro allI impI)
  fix l
  assume r: "\<forall>n < 32768. \<not> P n \<longrightarrow> r' (word_of_nat n) = r (word_of_nat n)" and o: "\<And>i. i < length bs \<Longrightarrow> P (n + i)"
    and l: "l < 32768" "\<not> P l"
  have "l < n \<or> n + length bs \<le> l" using o [of "l - n"] l(2) by (cases "n \<le> l"; cases "l - n < length bs") auto
  then show "blit n bs r' (word_of_nat l) = r (word_of_nat l)" using r l by (simp add: blit_off)
qed

lemma same_exceptD: "same_except P r r' \<Longrightarrow> \<not> P n \<Longrightarrow> n < 32768 \<Longrightarrow> r' (word_of_nat n) = r (word_of_nat n)"
  by (simp add: same_except_def)

lemma same_except_upd: "same_except P r r' \<Longrightarrow> P (unat a) \<Longrightarrow> same_except P r (r'(a := v))"
  by (auto simp: same_except_def unat_of_nat_15)

text \<open>
  The bytes the kernel's assembly code writes for itself: the pointers and the call number in the zero page
  (\<^verbatim>\<open>include/zp.s\<close>), and the stack page.
\<close>

definition kscratch :: "nat \<Rightarrow> bool" where
  "kscratch n \<longleftrightarrow> n \<in> {0x30, 0x31, 0x32, 0x51, 0x52, 0x54, 0x55} \<or> 0x100 \<le> n \<and> n < 0x200"

lemma kscratch_low: "kscratch n \<Longrightarrow> n < 0x200"
  by (auto simp: kscratch_def)

lemma kscratch_keeps: "same_except kscratch r r' \<Longrightarrow> 0x200 \<le> n \<Longrightarrow> n < 32768 \<Longrightarrow> r' (word_of_nat n) = r (word_of_nat n)"
  using kscratch_low [of n] by (auto simp: same_except_def)

section \<open>Console and disk\<close>

lemma runs_env:
  assumes "runs r s'"
  shows "\<exists>m'. r = Some m' \<and> ram m' = ram s' \<and> env m' = env s'"
  using assms core_env unfolding runs_def by blast

lemma yields_env:
  assumes "yields r v s'"
  shows "\<exists>m'. r = Some (v, m') \<and> ram m' = ram s' \<and> env m' = env s'"
  using assms core_env unfolding yields_def by blast

lemma env_emit: "env (emit bs (core m)) = env (emit bs m)"
  by (simp add: env_def)

lemma k_print_lit_env:
  assumes "kmode m"
  shows "\<exists>m'. k_print_lit t m = Some m' \<and> ram m' = ram m \<and> env m' = env (emit (map of_char t) m)"
  using runs_env [OF k_print_lit_runs [OF refl, of m t]] assms by (simp add: env_emit)

lemma k_print_env:
  assumes "kmode m" "cstr_at m str bs"
  shows "\<exists>m'. k_print str m = Some m' \<and> ram m' = ram m \<and> env m' = env (emit bs m)"
proof -
  have "cstr_at (core m) str bs" using assms(2) by (simp add: cstr_at_def)
  then show ?thesis using runs_env [OF k_print_runs [OF refl, of m str bs]] assms(1) by (simp add: env_emit)
qed

lemma put_both_env:
  assumes "kmode m"
  shows "\<exists>m'. put_both c m = Some m' \<and> ram m' = ram m \<and> env m' = env (emit [c] m)"
  using runs_env [OF put_both_runs [OF refl, of m c]] assms by (simp add: env_emit)

lemma block_read_env:
  assumes "kmode m" "disk_img m = Some img" "lba_ok lba" "p + 512 \<le> 32768"
  shows "\<exists>m'. block_read lba (word_of_nat p) m = Some (0, m') \<and>
           ram m' = blit p (sector_of img lba) (ram m) \<and> env m' = env m"
proof -
  have k: "kmode (core m)" and i: "disk_img (core m) = Some img" using assms(1,2) by simp_all
  have u: "unat (word_of_nat p :: u16) = p" using assms(4) by (simp add: unat_of_nat_16)
  have b: "unat (word_of_nat p :: u16) + 512 \<le> 32768" using assms(4) u by simp
  let ?s = "snd (block_read_spec lba (word_of_nat p) (core m))"
  have "ram ?s = blit p (sector_of img lba) (ram m)"
    using block_read_spec_ok [OF assms(3) i, of "word_of_nat p"] u by simp
  moreover have "env ?s = env m" using k by (simp add: env_iff)
  ultimately show ?thesis
    using yields_env [OF block_read_yields [OF refl k b, of lba]]
      block_read_spec_ok(1) [OF assms(3) i, of "word_of_nat p"]
    by auto
qed

lemma block_read_fails:
  assumes "kmode m" "disk_img m = None" "p + 512 \<le> 32768"
  shows "\<exists>m'. block_read lba (word_of_nat p) m = Some (1, m') \<and> ram m' = ram m \<and> env m' = env m"
proof -
  have k: "kmode (core m)" using assms(1) by simp
  have b: "unat (word_of_nat p :: u16) + 512 \<le> 32768" using assms(3) by (simp add: unat_of_nat_16)
  let ?s = "disk_do_read ((core m)\<lparr>disk_lba := lba\<rparr>)"
  have e: "block_read_spec lba (word_of_nat p) (core m) = (1, ?s)" and r: "ram ?s = ram m"
    and v: "env ?s = env m"
    using assms(2) by (simp_all add: block_read_spec_def disk_do_read_def env_iff)
  show ?thesis
    using yields_env [OF block_read_yields [OF refl k b, of lba]] by (simp add: e r v)
qed

lemma block_write_env:
  assumes "kmode m" "disk_img m = Some img" "lba_ok lba" "p + 512 \<le> 32768"
  shows "\<exists>m'. block_write lba (word_of_nat p) m = Some (0, m') \<and> ram m' = ram m \<and>
           env m' = env (m\<lparr>disk_img := Some (put_bytes (unat lba * 512) (peek p 512 (ram m)) img)\<rparr>)"
proof -
  have k: "kmode (core m)" and i: "disk_img (core m) = Some img" using assms(1,2) by simp_all
  have u: "unat (word_of_nat p :: u16) = p" using assms(4) by (simp add: unat_of_nat_16)
  have b: "unat (word_of_nat p :: u16) + 512 \<le> 32768" using assms(4) u by simp
  let ?s = "snd (block_write_spec lba (word_of_nat p) (core m))"
  let ?i = "Some (put_bytes (unat lba * 512) (peek p 512 (ram m)) img)"
  have "ram ?s = ram m" and d: "disk_img ?s = ?i"
    using block_write_spec_ok [OF assms(3) i, of "word_of_nat p"] u by simp_all
  moreover have "env ?s = env (m\<lparr>disk_img := ?i\<rparr>)" using k d by (simp add: env_iff)
  ultimately show ?thesis
    using yields_env [OF block_write_yields [OF refl k b, of lba]]
      block_write_spec_ok(1) [OF assms(3) i, of "word_of_nat p"]
    by auto
qed

end
