(* ===== verification/Proc.thy ===== *)
theory Proc
  imports Kmem
begin

text \<open>
  Processes: \<^verbatim>\<open>sw/kernel/src/proc.c\<close> (process table, scheduler, BBX loader) and the
  assembly it works with, \<^verbatim>\<open>memcpy512.s\<close> and \<^verbatim>\<open>yield.s\<close> (context switch). The
  process table and the sector buffer are RAM, where \<^verbatim>\<open>kernel.cfg\<close> puts them
  (segment KHIBSS at $7000); an access to a field is a memory access. The stores of \<^verbatim>\<open>yield.s\<close> to
  the zero page and the return addresses its JSRs push are writes to RAM, too.

  Kept beside RAM, as fields of \<open>kern\<close>, are the 6502's stack pointer \<open>SP\<close>, the addresses \<open>ret_at\<close> that the
  linker gave the JSR instructions, and the two byte variables \<open>nprocs\<close> and \<open>plist_idx\<close>, which the linker
  puts somewhere into the kernel's area below $1000 (segment BSS of KCODE). What compiled C code
  does with memory of its own is not modelled: its C stack below $7EFF, cc65's variables in $00-$1F (the two
  pointers of \<open>memcpy512\<close> among them) and the return addresses of its own calls.
\<close>

section \<open>State\<close>

text \<open>The JSR instructions of \<^verbatim>\<open>yield.s\<close> and \<^verbatim>\<open>brk.s\<close>, in the order of the source.\<close>

datatype call_site = Save_ptr | Schedule | Next_ptr | First_ptr | Dispatch

record kern =
  mach :: machine
  nprocs :: u8
  plist_idx :: u8
  SP :: u8
  ret_at :: "call_site \<Rightarrow> u16"  \<comment> \<open>what the JSR pushes: the address of its last byte\<close>

definition PLIST :: u16 where "PLIST = 0x7000"
definition block_buf :: u16 where "block_buf = 0x7100"

definition PROC_STATE_EXITED :: u8 where "PROC_STATE_EXITED = 0"
definition PROC_STATE_WAITING :: u8 where "PROC_STATE_WAITING = 1"
definition PROC_STATE_RUNNING :: u8 where "PROC_STATE_RUNNING = 2"

text \<open>Offsets of the fields of \<open>PROCESS\<close>, whose size is 64.\<close>

definition OFF_STATE :: u16 where "OFF_STATE = 0"
definition OFF_EXIT :: u16 where "OFF_EXIT = 1"
definition OFF_LBA :: u16 where "OFF_LBA = 2"
definition OFF_NBLOCKS :: u16 where "OFF_NBLOCKS = 3"
definition OFF_NAME :: u16 where "OFF_NAME = 4"
definition OFF_SP :: u16 where "OFF_SP = 13"
definition OFF_PPN0 :: u16 where "OFF_PPN0 = 14"

lemmas proc_layout = PLIST_def block_buf_def OFF_STATE_def OFF_EXIT_def OFF_LBA_def OFF_NBLOCKS_def
  OFF_NAME_def OFF_SP_def OFF_PPN0_def

definition MMU_PPN0 :: u16 where "MMU_PPN0 = 0x8080"
definition MMU_NPAGES :: u8 where "MMU_NPAGES = 32"
definition MMU_UBITS :: u16 where "MMU_UBITS = 0x80A0"
definition MMU_WBITS :: u16 where "MMU_WBITS = 0x80A4"
definition MMU_CTRL :: u16 where "MMU_CTRL = 0x80A8"

definition plist_at :: "u8 \<Rightarrow> u16" where
  "plist_at idx = PLIST + 64 * ucast idx"

section \<open>schedule_process\<close>

partial_function (option) sched_loop :: "u8 \<Rightarrow> kern \<Rightarrow> kern option" where
  "sched_loop i k =
     (if i \<le> nprocs k then
        let idx = ucast ((ucast (plist_idx k) + ucast i :: u16) mod ucast (nprocs k)) in
        (case mem_read (plist_at idx + OFF_STATE) (mach k) of (st, m) \<Rightarrow>
           if st = PROC_STATE_WAITING then Some (k\<lparr>mach := m, plist_idx := idx\<rparr>)
           else sched_loop (i + 1) (k\<lparr>mach := m\<rparr>))
      else Some k)"

definition schedule_process :: "kern \<Rightarrow> kern option" where
  "schedule_process k = sched_loop 1 k"

definition crlf :: string where
  "crlf = [CHR 0x0D, CHR 0x0A]"

section \<open>memcpy512\<close>

function memcpy_loop :: "u16 \<Rightarrow> u16 \<Rightarrow> u8 \<Rightarrow> u8 \<Rightarrow> machine \<Rightarrow> machine" where
  "memcpy_loop ptr2 ptr1 y x m =
     (case mem_read (ptr1 + ucast y) m of (a, m) \<Rightarrow>
        let m = mem_write (ptr2 + ucast y) a m; y = y + 1 in
        if y \<noteq> 0 then memcpy_loop ptr2 ptr1 y x m
        else let ptr1 = ptr1 + 0x100; ptr2 = ptr2 + 0x100; x = x - 1 in
             if x \<noteq> 0 then memcpy_loop ptr2 ptr1 y x m else m)"
  by pat_completeness auto
termination
  by (relation "measure (\<lambda>(q, p, y, x, m). drain_left y x)")
    (auto simp: drain_left_y drain_left_x)

declare memcpy_loop.simps [simp del]

definition memcpy512 :: "u16 \<Rightarrow> u16 \<Rightarrow> machine \<Rightarrow> machine" where
  "memcpy512 dst src m = memcpy_loop dst src 0 2 m"

section \<open>spawn_bbx\<close>

definition ppn_entry :: "u8 \<Rightarrow> u8 \<Rightarrow> u8" where
  "ppn_entry base i =
     ucast (push_bit 2 ((ucast base + drop_bit 2 (ucast i)) AND 7) OR (ucast i AND 3) :: u16)"

function fill_ppn :: "u16 \<Rightarrow> u8 \<Rightarrow> u8 \<Rightarrow> machine \<Rightarrow> machine" where
  "fill_ppn p base i m =
     (if i < MMU_NPAGES then
        fill_ppn p base (i + 1) (mem_write (p + OFF_PPN0 + ucast i) (ppn_entry base i) m)
      else m)"
  by pat_completeness auto
termination
  by (relation "measure (\<lambda>(p, base, i, m). 32 - unat i)")
    (auto simp: MMU_NPAGES_def word_less_nat_alt unat_word_ariths)

declare fill_ppn.simps [simp del]

text \<open>One turn of the loading loop: the sector in \<open>block_buf\<close> is copied to its physical page.\<close>

definition load_block :: "u16 \<Rightarrow> u16 \<Rightarrow> machine \<Rightarrow> machine" where
  "load_block p b m =
     (let virt_addr = 0x1000 + push_bit 9 b in
      (case mem_read (p + OFF_PPN0 + drop_bit 10 virt_addr) m of (e, m) \<Rightarrow>
         memcpy512 (push_bit 10 (ucast e) OR (virt_addr AND 0x03FF)) block_buf m))"

partial_function (option) load_loop ::
  "u16 \<Rightarrow> u32 \<Rightarrow> u16 \<Rightarrow> u16 \<Rightarrow> machine \<Rightarrow> (u8 \<times> machine) option" where
  "load_loop p lba nblocks b m =
     (if b < nblocks then do {
        (r, m) \<leftarrow> (if b \<noteq> 0 then block_read (lba + ucast b) block_buf m else Some (0, m));
        if r \<noteq> 0 then do { m \<leftarrow> k_print_lit (''spawn: read fail'' @ crlf) m; Some (1, m) }
        else load_loop p lba nblocks (b + 1) (load_block p b m) }
      else Some (0, m))"

definition rti_frame :: "u16 \<Rightarrow> u16 \<Rightarrow> machine \<Rightarrow> machine" where
  "rti_frame p entry m =
     (case mem_read (p + OFF_PPN0) m of (e, m) \<Rightarrow>
        let f = push_bit 10 (ucast e) OR 0x01FD in
        mem_write (f + 2) (ucast (drop_bit 8 entry))
          (mem_write (f + 1) (ucast entry) (mem_write f 0x20 m)))"

definition fill_process :: "u16 \<Rightarrow> u32 \<Rightarrow> u16 \<Rightarrow> machine \<Rightarrow> machine" where
  "fill_process p lba nblocks m =
     (let m = mem_write (p + OFF_STATE) PROC_STATE_WAITING m;
          m = mem_write (p + OFF_EXIT) 0 m;
          m = mem_write (p + OFF_LBA) (ucast lba) m;
          m = mem_write (p + OFF_NBLOCKS) (ucast nblocks) m;
          m = mem_write (p + OFF_SP) 0xFC m
      in mem_write (p + OFF_NAME) 0 m)"

text \<open>The magic test, evaluated left to right: the second byte is read only if the first is right.\<close>

definition bad_magic :: "machine \<Rightarrow> bool \<times> machine" where
  "bad_magic m =
     (case mem_read block_buf m of (b0, m) \<Rightarrow>
        if b0 \<noteq> 0x42 then (True, m)
        else (case mem_read (block_buf + 1) m of (b1, m) \<Rightarrow> (b1 \<noteq> 0x58, m)))"

definition spawn_bbx :: "u32 \<Rightarrow> u16 \<Rightarrow> u8 \<Rightarrow> kern \<Rightarrow> (u8 \<times> kern) option" where
  "spawn_bbx lba nblocks base k =
     (if 4 \<le> nprocs k then do {
        m \<leftarrow> k_print_lit (''spawn: too many procs'' @ crlf) (mach k);
        Some (1, k\<lparr>mach := m\<rparr>) }
      else
        let p = plist_at (nprocs k); m = fill_ppn p base 0 (mach k) in do {
          (r, m) \<leftarrow> block_read lba block_buf m;
          if r \<noteq> 0 then do {
            m \<leftarrow> k_print_lit (''spawn: read fail'' @ crlf) m;
            Some (1, k\<lparr>mach := m\<rparr>) }
          else
            (case bad_magic m of (bad, m) \<Rightarrow>
               if bad then do {
                 m \<leftarrow> k_print_lit (''spawn: bad BBX magic'' @ crlf) m;
                 Some (2, k\<lparr>mach := m\<rparr>) }
               else
                 (case mem_read (block_buf + 4) m of (e0, m) \<Rightarrow>
                  case mem_read (block_buf + 5) m of (e1, m) \<Rightarrow> do {
                    (r, m) \<leftarrow> load_loop p lba nblocks 0 m;
                    if r \<noteq> 0 then Some (r, k\<lparr>mach := m\<rparr>)
                    else Some (0, k\<lparr>mach := fill_process p lba nblocks (rti_frame p (le16 e0 e1) m),
                                     nprocs := nprocs k + 1\<rparr>) })) })"

section \<open>The hardware stack\<close>

text \<open>One push and one pull, through the MMU; \<open>jsr\<close> pushes high byte first, \<open>rts\<close> returns to what it pulls.\<close>

definition push :: "u8 \<Rightarrow> kern \<Rightarrow> kern" where
  "push v k = k\<lparr>mach := snd (bus_cycle True True (0x0100 + ucast (SP k)) v (mach k)), SP := SP k - 1\<rparr>"

definition pull :: "kern \<Rightarrow> u8 \<times> kern" where
  "pull k = (let sp = SP k + 1 in
     (case bus_cycle True False (0x0100 + ucast sp) 0 (mach k) of
        (v, m) \<Rightarrow> (v, k\<lparr>mach := m, SP := sp\<rparr>)))"

definition jsr :: "call_site \<Rightarrow> kern \<Rightarrow> kern" where
  "jsr s k = push (lo8 (ret_at k s)) (push (hi8 (ret_at k s)) k)"

definition rts :: "kern \<Rightarrow> u16 \<times> kern" where
  "rts k = (case pull k of (l, k) \<Rightarrow> case pull k of (h, k) \<Rightarrow> (le16 l h, k))"

section \<open>yield.s\<close>

definition ZP_CURR_PROC_PTR :: u16 where "ZP_CURR_PROC_PTR = 0x51"

definition proc_ptr :: "u8 \<Rightarrow> u16" where
  "proc_ptr idx =
     (let a = push_bit 6 idx; lo = a + lo8 PLIST; c = unat a + unat (lo8 PLIST) \<ge> 256
      in le16 lo (hi8 PLIST + (if c then 1 else 0)))"

text \<open>
  The call of \<open>calc_proc_ptr\<close> at \<open>s\<close>, from JSR to RTS. Its two stores do not touch the stack page, so it returns
  to the call (\<open>calc_proc_ptr_spec\<close>). The result is the pointer it has stored, which the code up to the next
  call uses and does not change.
\<close>

definition calc_proc_ptr :: "call_site \<Rightarrow> kern \<Rightarrow> u16 \<times> kern" where
  "calc_proc_ptr s k =
     (let k = jsr s k; p = proc_ptr (plist_idx k);
          m = mem_write ZP_CURR_PROC_PTR (lo8 p) (mach k);
          m = mem_write (ZP_CURR_PROC_PTR + 1) (hi8 p) m
      in (p, snd (rts (k\<lparr>mach := m\<rparr>))))"

lemma unat_dist_step: "x \<noteq> n \<Longrightarrow> unat (n - (x + 1)) < unat (n - x :: u8)"
proof -
  assume "x \<noteq> n"
  then have "n - x \<noteq> 0" by simp
  moreover have "n - (x + 1) = n - x - 1" by simp
  ultimately show ?thesis by (metis diff_Suc_1 lessI unat_minus_one unat_gt_0 Suc_pred')
qed

lemma ppn_loop_step: "x \<noteq> 31 \<Longrightarrow> unat (30 - x) < unat (31 - x :: u8)"
  using unat_dist_step [of x 31] by simp

function save_ppn :: "u16 \<Rightarrow> u8 \<Rightarrow> u8 \<Rightarrow> machine \<Rightarrow> machine" where
  "save_ppn p y x m =
     (case mem_read (MMU_PPN0 + ucast x) m of (a, m) \<Rightarrow>
        let m = mem_write (p + ucast y) a m; y = y + 1; x = x + 1 in
        if x \<noteq> MMU_NPAGES then save_ppn p y x m else m)"
  by pat_completeness auto
termination
  by (relation "measure (\<lambda>(p, y, x, m). unat (31 - x))") (auto simp: MMU_NPAGES_def ppn_loop_step)

declare save_ppn.simps [simp del]

text \<open>The macro \<open>RESTORE_PPN\<close>.\<close>

function restore_ppn :: "u16 \<Rightarrow> u8 \<Rightarrow> u8 \<Rightarrow> machine \<Rightarrow> machine" where
  "restore_ppn p y x m =
     (case mem_read (p + ucast y) m of (a, m) \<Rightarrow>
        let m = mem_write (MMU_PPN0 + ucast x) a m; y = y + 1; x = x + 1 in
        if x \<noteq> MMU_NPAGES then restore_ppn p y x m else m)"
  by pat_completeness auto
termination
  by (relation "measure (\<lambda>(p, y, x, m). unat (31 - x))") (auto simp: MMU_NPAGES_def ppn_loop_step)

declare restore_ppn.simps [simp del]

text \<open>
  \<open>ret_user_mode\<close> of the boot ROM (\<^verbatim>\<open>sw/boot/boot.s\<close>): user mode, then \<open>rti\<close>, whose three
  pulls go through the MMU. The result is the status and the program counter pulled.
\<close>

definition ret_user_mode :: "kern \<Rightarrow> (u8 \<times> u16) \<times> kern" where
  "ret_user_mode k =
     (case pull (k\<lparr>mach := mem_write MMU_CTRL 0 (mach k)\<rparr>) of (st, k) \<Rightarrow>
      case pull k of (l, k) \<Rightarrow>
      case pull k of (h, k) \<Rightarrow> ((st, le16 l h), k))"

text \<open>The common end of \<open>do_yield\<close> and \<open>sched_start\<close>: switch to \<open>plist[plist_idx]\<close>.\<close>

definition switch_in :: "call_site \<Rightarrow> kern \<Rightarrow> (u8 \<times> u16) \<times> kern" where
  "switch_in s k =
     (case calc_proc_ptr s k of (p, k) \<Rightarrow>
        let m = mem_write (p + OFF_STATE) PROC_STATE_RUNNING (mach k) in
      (case mem_read (p + OFF_SP) m of (sp, m) \<Rightarrow>
         ret_user_mode (k\<lparr>SP := sp, mach := restore_ppn p (ucast OFF_PPN0) 0 m\<rparr>)))"

definition switch_out :: "kern \<Rightarrow> kern" where
  "switch_out k =
     (case calc_proc_ptr Save_ptr k of (p, k) \<Rightarrow>
        let m = mem_write (p + OFF_STATE) PROC_STATE_WAITING (mach k);
            m = mem_write (p + OFF_SP) (SP k) m
        in k\<lparr>mach := save_ppn p (ucast OFF_PPN0) 0 m\<rparr>)"

text \<open>A return to any other address than the one pushed is no execution of this model.\<close>

definition do_yield :: "kern \<Rightarrow> ((u8 \<times> u16) \<times> kern) option" where
  "do_yield k = do {
     k \<leftarrow> schedule_process (jsr Schedule (switch_out k));
     (case rts k of (a, k) \<Rightarrow> if a = ret_at k Schedule then Some (switch_in Next_ptr k) else None) }"

fun open_all :: "nat \<Rightarrow> machine \<Rightarrow> machine" where
  "open_all x m =
     (let m = mem_write (MMU_UBITS + word_of_nat x) 0xFF m;
          m = mem_write (MMU_WBITS + word_of_nat x) 0xFF m
      in case x of 0 \<Rightarrow> m | Suc x \<Rightarrow> open_all x m)"

definition sched_start :: "kern \<Rightarrow> (u8 \<times> u16) \<times> kern" where
  "sched_start k = switch_in First_ptr (k\<lparr>plist_idx := 0, mach := open_all 3 (mach k)\<rparr>)"

text \<open>
  The interrupt sequence of BRK ends with the vector fetch, which pulls the MMU into kernel mode.
\<close>

definition trap :: "machine \<Rightarrow> machine" where
  "trap m = snd (bus_cycle False False 0xFFFF 0 (snd (bus_cycle False False 0xFFFE 0 m)))"

section \<open>Addresses of the process table\<close>

definition pent :: "nat \<Rightarrow> nat" where
  "pent j = 0x7000 + 64 * j"

lemma plist_at_nat: "unat idx < 4 \<Longrightarrow> plist_at idx = word_of_nat (pent (unat idx))"
  by (simp add: plist_at_def pent_def PLIST_def)

lemma proc_ptr_eq: "unat idx < 4 \<Longrightarrow> proc_ptr idx = plist_at idx"
proof -
  assume "unat idx < 4"
  then have "idx = 0 \<or> idx = 1 \<or> idx = 2 \<or> idx = 3"
    by (auto simp: word_unat_eq_iff)
  then show ?thesis
    by (auto simp: proc_ptr_def plist_at_def PLIST_def lo8_def hi8_def le16_def Let_def)
qed

section \<open>The stack in kernel mode\<close>

lemma stack_low: "(0x0100 + ucast (sp :: u8) :: u16) < 0x8000" "ucast (0x0100 + ucast sp :: u16) = (0x100 + ucast sp :: 15 word)"
proof -
  have u: "unat (0x0100 + ucast sp :: u16) = 256 + unat sp" using unat_u8_lt [of sp] by (simp add: unat_word_ariths unat_ucast_mod)
  then show "(0x0100 + ucast sp :: u16) < 0x8000" using unat_u8_lt [of sp] by (simp add: word_less_nat_alt)
  show "ucast (0x0100 + ucast sp :: u16) = (0x100 + ucast sp :: 15 word)"
    using u unat_u8_lt [of sp] by (simp add: word_unat_eq_iff unat_ucast_mod unat_word_ariths)
qed

lemma stack_slots: "(ucast (a :: u8) :: 15 word) = ucast b \<longleftrightarrow> a = b"
  using unat_u8_lt [of a] unat_u8_lt [of b] by (simp add: word_unat_eq_iff unat_ucast_mod)

lemma push_kernel:
  assumes "kmode (mach k)"
  shows "\<exists>m'. push v k = k\<lparr>mach := m', SP := SP k - 1\<rparr> \<and> ram m' = (ram (mach k))(0x100 + ucast (SP k) := v) \<and> env m' = env (mach k)"
proof -
  let ?a = "0x0100 + ucast (SP k) :: u16"
  have "?a \<noteq> 0x8000" using stack_low(1) [of "SP k"] by (rule ram_not_io) simp
  then have "core (snd (bus_cycle True True ?a v (mach k))) = wr_spec ?a v (core (mach k))" by (intro bus_write_core [OF assms]) simp
  also have "\<dots> = (core (mach k))\<lparr>ram := (ram (mach k))(0x100 + ucast (SP k) := v)\<rparr>"
    using wr_spec_ram [of "core (mach k)" ?a v] assms stack_low [of "SP k"] by simp
  finally have eq: "core (snd (bus_cycle True True ?a v (mach k))) = (core (mach k))\<lparr>ram := (ram (mach k))(0x100 + ucast (SP k) := v)\<rparr>" .
  note core_env [OF eq]
  then show ?thesis by (intro exI [of _ "snd (bus_cycle True True ?a v (mach k))"]) (simp add: push_def)
qed

lemma pull_kernel:
  assumes "kmode (mach k)"
  shows "\<exists>m'. pull k = (ram (mach k) (0x100 + ucast (SP k + 1)), k\<lparr>mach := m', SP := SP k + 1\<rparr>) \<and> ram m' = ram (mach k) \<and> env m' = env (mach k)"
proof -
  let ?a = "0x0100 + ucast (SP k + 1) :: u16"
  let ?m1 = "(mach k)\<lparr>mmu := mmu_negedge True True True ?a 0 (mmu (mach k))\<rparr>"
  have k1: "kmode ?m1" using assms by (simp add: kmode_def negedge_kernel_read)
  have "?a \<noteq> 0x80E6" using stack_low(1) [of "SP k + 1"] by (rule ram_not_io) simp
  then have eq: "core (snd (bus_cycle True False ?a 0 (mach k))) = core (mach k)" using bus_read_core [OF assms] by (simp add: rd_spec_other)
  have "fst (bus_cycle True False ?a 0 (mach k)) = ram (mach k) (0x100 + ucast (SP k + 1))"
    using read_mux_ram [OF k1 stack_low(1)] stack_low(2) [of "SP k + 1"] by (simp add: bus_cycle_def Let_def)
  with core_env [OF eq] show ?thesis
    by (intro exI [of _ "snd (bus_cycle True False ?a 0 (mach k))"]) (simp add: pull_def Let_def case_prod_beta)
qed

lemma unat_stack: "unat (0x100 + ucast (sp :: u8) :: 15 word) = 256 + unat sp"
  using unat_u8_lt [of sp] by (simp add: unat_word_ariths unat_ucast_mod)

lemma kscratch_stack: "kscratch (unat (0x100 + ucast (sp :: u8) :: 15 word))"
  using unat_u8_lt [of sp] by (simp add: unat_stack kscratch_def)

lemma jsr_kernel:
  assumes "kmode (mach k)"
  shows "\<exists>m'. jsr s k = k\<lparr>mach := m', SP := SP k - 2\<rparr> \<and> env m' = env (mach k) \<and>
    ram m' = (ram (mach k))(0x100 + ucast (SP k) := hi8 (ret_at k s), 0x100 + ucast (SP k - 1) := lo8 (ret_at k s))"
proof -
  obtain m1 where m1: "push (hi8 (ret_at k s)) k = k\<lparr>mach := m1, SP := SP k - 1\<rparr>"
      "ram m1 = (ram (mach k))(0x100 + ucast (SP k) := hi8 (ret_at k s))" "env m1 = env (mach k)"
    using push_kernel [OF assms] by blast
  have k1: "kmode m1" by (rule kmode_env [OF m1(3) assms])
  show ?thesis
    using push_kernel [of "k\<lparr>mach := m1, SP := SP k - 1\<rparr>" "lo8 (ret_at k s)"] k1 m1
    by (auto simp: jsr_def diff_diff_eq)
qed

lemma rts_kernel:
  assumes "kmode (mach k)"
  shows "\<exists>m'. rts k = (le16 (ram (mach k) (0x100 + ucast (SP k + 1))) (ram (mach k) (0x100 + ucast (SP k + 2))),
      k\<lparr>mach := m', SP := SP k + 2\<rparr>) \<and> ram m' = ram (mach k) \<and> env m' = env (mach k)"
proof -
  obtain m1 where m1: "pull k = (ram (mach k) (0x100 + ucast (SP k + 1)), k\<lparr>mach := m1, SP := SP k + 1\<rparr>)"
      "ram m1 = ram (mach k)" "env m1 = env (mach k)"
    using pull_kernel [OF assms] by blast
  have k1: "kmode m1" by (rule kmode_env [OF m1(3) assms])
  show ?thesis
    using pull_kernel [of "k\<lparr>mach := m1, SP := SP k + 1\<rparr>"] k1 m1 by (auto simp: rts_def add.assoc)
qed

text \<open>A subroutine that leaves its return address alone returns to its call.\<close>

lemma rts_after_jsr:
  assumes "kmode m" "a = ret_at k s" "ram m (0x100 + ucast (SP k)) = hi8 a" "ram m (0x100 + ucast (SP k - 1)) = lo8 a"
  shows "\<exists>m'. rts (k\<lparr>mach := m, SP := SP k - 2\<rparr>) = (a, k\<lparr>mach := m'\<rparr>) \<and> ram m' = ram m \<and> env m' = env m"
proof -
  have sp: "SP k - 2 + 1 = SP k - 1" "SP k - 2 + 2 = SP k" by simp_all
  obtain m' where "rts (k\<lparr>mach := m, SP := SP k - 2\<rparr>) = (le16 (lo8 a) (hi8 a), k\<lparr>mach := m, SP := SP k - 2, mach := m', SP := SP k\<rparr>)"
      "ram m' = ram m" "env m' = env m"
    using rts_kernel [of "k\<lparr>mach := m, SP := SP k - 2\<rparr>"] assms sp by auto
  then show ?thesis by (intro exI [of _ m']) (simp add: le16_split)
qed

lemma jsr_scratch:
  assumes "kmode (mach k)"
  shows "\<exists>m'. jsr s k = k\<lparr>mach := m', SP := SP k - 2\<rparr> \<and> env m' = env (mach k) \<and> same_except kscratch (ram (mach k)) (ram m') \<and>
    ram m' (0x100 + ucast (SP k)) = hi8 (ret_at k s) \<and> ram m' (0x100 + ucast (SP k - 1)) = lo8 (ret_at k s)"
proof -
  have ne: "(0x100 + ucast (SP k) :: 15 word) \<noteq> 0x100 + ucast (SP k - 1)" by (simp add: stack_slots)
  obtain m' where m': "jsr s k = k\<lparr>mach := m', SP := SP k - 2\<rparr>" "env m' = env (mach k)"
      "ram m' = (ram (mach k))(0x100 + ucast (SP k) := hi8 (ret_at k s), 0x100 + ucast (SP k - 1) := lo8 (ret_at k s))"
    using jsr_kernel [OF assms] by blast
  have "same_except kscratch (ram (mach k)) (ram m')"
    unfolding m'(3) by (intro same_except_upd same_except_refl kscratch_stack)
  then show ?thesis using m' ne by (intro exI [of _ m']) simp
qed

text \<open>The zero page is not the stack page.\<close>

lemma zp_stack: "n < 0x100 \<Longrightarrow> (0x100 + ucast (sp :: u8) :: 15 word) \<noteq> word_of_nat n"
  using unat_stack [of sp] by (auto simp: unat_of_nat_15)

lemma wr_zp:
  assumes "kmode m" "n < 0x100"
  shows "ram (mem_write (word_of_nat n) d m) = (ram m)(word_of_nat n := d)" "env (mem_write (word_of_nat n) d m) = env m"
  using wr_at [OF assms(1), of n d] assms(2) by (simp_all add: fun_upd_blit)

lemma kern_swap: "k\<lparr>mach := m0, SP := a, mach := m\<rparr> = (k\<lparr>mach := m, SP := a\<rparr> :: kern)"
  by (cases k) simp

lemma calc_proc_ptr_spec:
  assumes "kmode (mach k)" "unat (plist_idx k) < 4"
  shows "\<exists>m'. calc_proc_ptr s k = (word_of_nat (pent (unat (plist_idx k))), k\<lparr>mach := m'\<rparr>) \<and> env m' = env (mach k) \<and>
    same_except kscratch (ram (mach k)) (ram m')"
proof -
  let ?a = "ret_at k s" and ?p = "proc_ptr (plist_idx k)"
  obtain m1 where m1: "jsr s k = k\<lparr>mach := m1, SP := SP k - 2\<rparr>" "env m1 = env (mach k)" "same_except kscratch (ram (mach k)) (ram m1)"
      "ram m1 (0x100 + ucast (SP k)) = hi8 ?a" "ram m1 (0x100 + ucast (SP k - 1)) = lo8 ?a"
    using jsr_scratch [OF assms(1)] by blast
  have k1: "kmode m1" by (rule kmode_env [OF m1(2) assms(1)])
  let ?m2 = "mem_write ZP_CURR_PROC_PTR (lo8 ?p) m1"
  have m2: "ram ?m2 = (ram m1)(0x51 := lo8 ?p)" "env ?m2 = env (mach k)"
    using wr_zp [OF k1, of "0x51" "lo8 ?p"] m1(2) by (simp_all add: ZP_CURR_PROC_PTR_def)
  have k2: "kmode ?m2" by (rule kmode_env [OF m2(2) assms(1)])
  let ?m3 = "mem_write (ZP_CURR_PROC_PTR + 1) (hi8 ?p) ?m2"
  have m3: "ram ?m3 = (ram ?m2)(0x52 := hi8 ?p)" "env ?m3 = env (mach k)"
    using wr_zp [OF k2, of "0x52" "hi8 ?p"] m2(2) by (simp_all add: ZP_CURR_PROC_PTR_def)
  have k3: "kmode ?m3" by (rule kmode_env [OF m3(2) assms(1)])
  have "ram ?m3 (0x100 + ucast (SP k)) = hi8 ?a" "ram ?m3 (0x100 + ucast (SP k - 1)) = lo8 ?a"
    using m1(4,5) zp_stack [of "0x51" "SP k"] zp_stack [of "0x52" "SP k"] zp_stack [of "0x51" "SP k - 1"] zp_stack [of "0x52" "SP k - 1"]
    by (simp_all add: m3(1) m2(1))
  then obtain m4 where m4: "rts (k\<lparr>mach := ?m3, SP := SP k - 2\<rparr>) = (?a, k\<lparr>mach := m4\<rparr>)" "ram m4 = ram ?m3" "env m4 = env ?m3"
    using rts_after_jsr [OF k3 refl] by blast
  have "same_except kscratch (ram (mach k)) (ram m4)"
    unfolding m4(2) m3(1) m2(1) by (intro same_except_upd m1(3)) (simp_all add: kscratch_def)
  moreover have "?p = word_of_nat (pent (unat (plist_idx k)))" using proc_ptr_eq plist_at_nat assms(2) by simp
  moreover have "calc_proc_ptr s k = (?p, k\<lparr>mach := m4\<rparr>)"
    unfolding calc_proc_ptr_def Let_def m1(1) kern_swap using m4(1) by simp
  ultimately show ?thesis using m4(3) m3(2) by (intro exI [of _ m4]) simp
qed

section \<open>schedule_process\<close>

text \<open>
  The choice: the first waiting process after the current one in cyclic order, the current
  one itself tried last, and no change if there is none.
\<close>

definition pick_from :: "nat \<Rightarrow> nat \<Rightarrow> nat \<Rightarrow> (nat \<Rightarrow> bool) \<Rightarrow> nat" where
  "pick_from i n cur w =
     (case find w (map (\<lambda>i. (cur + i) mod n) [i..<Suc n]) of None \<Rightarrow> cur | Some j \<Rightarrow> j)"

definition sched_pick :: "nat \<Rightarrow> nat \<Rightarrow> (nat \<Rightarrow> bool) \<Rightarrow> nat" where
  "sched_pick n cur w = pick_from 1 n cur w"

lemma pick_from_simps:
  "pick_from (Suc n) n cur w = cur"
  "i \<le> n \<Longrightarrow> pick_from i n cur w =
     (if w ((cur + i) mod n) then (cur + i) mod n else pick_from (Suc i) n cur w)"
  by (simp_all add: pick_from_def upt_conv_Cons del: upt_Suc)

definition waiting :: "(15 word \<Rightarrow> u8) \<Rightarrow> nat \<Rightarrow> bool" where
  "waiting r j \<longleftrightarrow> r (word_of_nat (pent j)) = PROC_STATE_WAITING"

lemma sched_index:
  fixes n i cur :: u8
  assumes "unat n \<le> 4" "0 < unat n"
  shows "(ucast ((ucast cur + ucast i :: u16) mod ucast n) :: u8) = word_of_nat ((unat cur + unat i) mod unat n)"
proof -
  have "unat (ucast cur + ucast i :: u16) = unat cur + unat i"
    using unat_u8_lt [of cur] unat_u8_lt [of i] by (simp add: unat_word_ariths unat_ucast_mod)
  moreover have "(unat cur + unat i) mod unat n < unat n" by (rule mod_less_divisor [OF assms(2)])
  ultimately show ?thesis
    using unat_u8_lt [of n] by (simp add: word_unat_eq_iff unat_ucast_mod unat_mod unat_of_nat)
qed

lemma kern_id [simp]: "k\<lparr>mach := mach k, plist_idx := plist_idx k\<rparr> = k"
  by simp

lemma sched_loop_spec:
  assumes "kmode (mach k)" "unat (nprocs k) \<le> 4" "1 \<le> i" "i \<le> Suc (unat (nprocs k))"
  shows "\<exists>m'. sched_loop (word_of_nat i) k = Some (k\<lparr>mach := m', plist_idx := word_of_nat
           (pick_from i (unat (nprocs k)) (unat (plist_idx k)) (waiting (ram (mach k))))\<rparr>) \<and>
           ram m' = ram (mach k) \<and> env m' = env (mach k)"
  using assms
proof (induction "Suc (unat (nprocs k)) - i" arbitrary: i k)
  case 0
  then have i: "i = Suc (unat (nprocs k))" by simp
  have ui: "unat (word_of_nat i :: u8) = i" using 0 by (simp add: unat_of_nat)
  have "\<not> word_of_nat i \<le> nprocs k" unfolding word_le_nat_alt ui by (simp add: i)
  then show ?case
    unfolding sched_loop.simps [of "word_of_nat i" k]
    by (intro exI [of _ "mach k"]) (simp add: i pick_from_simps)
next
  case (Suc d)
  let ?n = "unat (nprocs k)" and ?c = "unat (plist_idx k)"
  let ?j = "(?c + i) mod ?n" and ?i = "word_of_nat i :: u8"
  have i: "i \<le> ?n" using Suc.hyps(2) by simp
  have ui: "unat ?i = i" using i unat_u8_lt [of "nprocs k"] by (simp add: unat_of_nat)
  have n: "0 < ?n" using i Suc.prems(3) by simp
  have j4: "?j < 4" using mod_less_divisor [OF n, of "?c + i"] Suc.prems(2) by simp
  have uj: "unat (word_of_nat ?j :: u8) = ?j" using j4 by (simp add: unat_of_nat)
  have le: "?i \<le> nprocs k" unfolding word_le_nat_alt ui by (rule i)
  have ix: "ucast ((ucast (plist_idx k) + ucast ?i :: u16) mod ucast (nprocs k)) = (word_of_nat ?j :: u8)"
    using sched_index [OF Suc.prems(2) n, of "plist_idx k" ?i] by (simp add: ui)
  have adr: "plist_at (word_of_nat ?j) + OFF_STATE = word_of_nat (pent ?j)"
    using plist_at_nat [of "word_of_nat ?j"] j4 by (simp add: uj OFF_STATE_def)
  have "pent ?j < 32768" using j4 by (simp add: pent_def)
  then obtain m1 where m1: "mem_read (word_of_nat (pent ?j)) (mach k) = (ram (mach k) (word_of_nat (pent ?j)), m1)"
      "ram m1 = ram (mach k)" "env m1 = env (mach k)"
    using rd_at [OF Suc.prems(1)] by blast
  note step = sched_loop.simps [of ?i k, unfolded ix Let_def adr m1(1) prod.case if_P [OF le]]
  show ?case
  proof (cases "waiting (ram (mach k)) ?j")
    case True
    then show ?thesis
      unfolding step using m1 by (intro exI [of _ m1]) (simp add: waiting_def pick_from_simps i)
  next
    case False
    have s: "?i + 1 = word_of_nat (Suc i)" by simp
    have k1: "kmode m1" using m1(3) Suc.prems(1) kmode_env by blast
    have "\<exists>m'. sched_loop (word_of_nat (Suc i)) (k\<lparr>mach := m1\<rparr>) = Some (k\<lparr>mach := m', plist_idx := word_of_nat
           (pick_from (Suc i) ?n ?c (waiting (ram m1)))\<rparr>) \<and> ram m' = ram m1 \<and> env m' = env m1"
      using Suc.hyps(1) [where i = "Suc i" and k = "k\<lparr>mach := m1\<rparr>"] Suc.hyps(2) k1 Suc.prems i
      by (simp del: of_nat_Suc)
    then show ?thesis
      unfolding step s using False m1 by (simp add: waiting_def pick_from_simps i)
  qed
qed

lemma schedule_process_spec:
  assumes "kmode (mach k)" "unat (nprocs k) \<le> 4"
  shows "\<exists>m'. schedule_process k = Some (k\<lparr>mach := m', plist_idx := word_of_nat
           (sched_pick (unat (nprocs k)) (unat (plist_idx k)) (waiting (ram (mach k))))\<rparr>) \<and>
           ram m' = ram (mach k) \<and> env m' = env (mach k)"
  using sched_loop_spec [OF assms, of 1] by (simp add: schedule_process_def sched_pick_def)


lemma pick_from_least:
  assumes "i \<le> j" "j \<le> n" "w ((cur + j) mod n)" "\<And>l. i \<le> l \<Longrightarrow> l < j \<Longrightarrow> \<not> w ((cur + l) mod n)"
  shows "pick_from i n cur w = (cur + j) mod n"
  using assms
proof (induction "j - i" arbitrary: i)
  case (Suc d)
  then have "\<not> w ((cur + i) mod n)" "pick_from (Suc i) n cur w = (cur + j) mod n" by auto
  then show ?case using Suc.prems(1,2) by (simp add: pick_from_simps)
qed (simp add: pick_from_simps)

lemma sched_pick_all:
  "0 < n \<Longrightarrow> (\<And>j. j < n \<Longrightarrow> w j) \<Longrightarrow> sched_pick n cur w = Suc cur mod n"
  using pick_from_least [of 1 1 n w cur] by (simp add: sched_pick_def)

section \<open>Copying loops\<close>

fun memcpy_n :: "nat \<Rightarrow> u16 \<Rightarrow> u16 \<Rightarrow> machine \<Rightarrow> machine" where
  "memcpy_n 0 q p m = m"
| "memcpy_n (Suc n) q p m =
     (case mem_read p m of (a, m) \<Rightarrow> memcpy_n n (q + 1) (p + 1) (mem_write q a m))"

lemma ucast_inc8: "(y :: u8) + 1 \<noteq> 0 \<Longrightarrow> ucast (y + 1) = (ucast y + 1 :: u16)"
proof -
  assume y: "y + 1 \<noteq> 0"
  show ?thesis
    using unat_plus_one8 [OF y] unat_u8_lt [of y]
    by (simp add: word_unat_eq_iff unat_ucast_mod unat_word_ariths)
qed

lemma ucast_last8: "(y :: u8) + 1 = 0 \<Longrightarrow> (ucast y :: u16) + 1 = 0x100"
proof -
  assume y: "y + 1 = 0"
  show ?thesis
    using unat_last8 [OF y] by (simp add: word_unat_eq_iff unat_ucast_mod unat_word_ariths)
qed

lemma memcpy_loop_n:
  "memcpy_loop q p y x m = memcpy_n (drain_left y x) (q + ucast y) (p + ucast y) m"
proof (induction q p y x m rule: memcpy_loop.induct)
  case (1 q p y x m)
  obtain a m1 where rd: "mem_read (p + ucast y) m = (a, m1)" by fastforce
  show ?case
  proof (cases "y + 1 = 0")
    case False
    then show ?thesis
      using "1.IH"(1) [OF rd [symmetric] refl refl False] False
      by (simp add: memcpy_loop.simps [of q p y x m] rd drain_left_y [OF False] ucast_inc8 add.assoc Let_def)
  next
    case y: True
    note uy = ucast_last8 [OF y]
    show ?thesis
    proof (cases "x - 1 = 0")
      case True
      then have "x = 1" by simp
      then have "drain_left y x = 1" using unat_last8 [OF y] by (simp add: drain_left_def)
      then show ?thesis
        using y True \<open>x = 1\<close> by (simp add: memcpy_loop.simps [of q p y 1 m] rd Let_def)
    next
      case False
      then show ?thesis
        using "1.IH"(2) [OF rd [symmetric] refl refl _ refl refl refl False] y
        by (simp add: memcpy_loop.simps [of q p y x m] rd drain_left_x [OF y False] Let_def
            flip: uy add.assoc)
    qed
  qed
qed

lemma peek_Cons: "peek p (Suc n) r = r (word_of_nat p) # peek (Suc p) n r"
  by (simp add: peek_def upt_conv_Cons comp_def map_Suc_upt [symmetric] ac_simps del: upt_Suc)

lemma memcpy_n_env:
  assumes "kmode m" "q + n \<le> 32768" "p + n \<le> 32768" "p + n \<le> q \<or> q + n \<le> p"
  shows "ram (memcpy_n n (word_of_nat q) (word_of_nat p) m) = blit q (peek p n (ram m)) (ram m) \<and>
         env (memcpy_n n (word_of_nat q) (word_of_nat p) m) = env m"
  using assms
proof (induction n arbitrary: q p m)
  case 0
  then show ?case by (simp add: peek_def)
next
  case (Suc n)
  let ?v = "ram m (word_of_nat p)"
  obtain m1 where m1: "mem_read (word_of_nat p) m = (?v, m1)" "ram m1 = ram m" "env m1 = env m"
    using rd_at [OF Suc.prems(1), of p] Suc.prems(3) by auto
  have k1: "kmode m1" using m1(3) Suc.prems(1) kmode_env by blast
  let ?m2 = "mem_write (word_of_nat q) ?v m1"
  have m2: "ram ?m2 = blit q [?v] (ram m)" "env ?m2 = env m"
    using wr_at [OF k1, of q ?v] Suc.prems(2) m1 by simp_all
  have k2: "kmode ?m2" using m2(2) Suc.prems(1) kmode_env by blast
  have pk: "peek (Suc p) n (blit q [?v] (ram m)) = peek (Suc p) n (ram m)"
    by (rule peek_blit_other) (use Suc.prems in auto)
  have "ram (memcpy_n n (word_of_nat (Suc q)) (word_of_nat (Suc p)) ?m2) =
      blit (Suc q) (peek (Suc p) n (ram m)) (blit q [?v] (ram m)) \<and>
    env (memcpy_n n (word_of_nat (Suc q)) (word_of_nat (Suc p)) ?m2) = env m"
    using Suc.IH [of ?m2 "Suc q" "Suc p"] k2 Suc.prems(2-4) m2 pk by auto
  moreover have "blit (Suc q) (peek (Suc p) n (ram m)) (blit q [?v] (ram m)) =
      blit q (peek p (Suc n) (ram m)) (ram m)"
    by (simp add: blit_blit_append peek_Cons)
  moreover have "(word_of_nat q :: u16) + 1 = word_of_nat (Suc q)" "(word_of_nat p :: u16) + 1 = word_of_nat (Suc p)"
    by simp_all
  ultimately show ?case
    by (simp only: memcpy_n.simps m1(1) prod.case)
qed

lemma memcpy512_env:
  assumes "kmode m" "q + 512 \<le> 32768" "p + 512 \<le> 32768" "p + 512 \<le> q \<or> q + 512 \<le> p"
  shows "ram (memcpy512 (word_of_nat q) (word_of_nat p) m) = blit q (peek p 512 (ram m)) (ram m)"
    and "env (memcpy512 (word_of_nat q) (word_of_nat p) m) = env m"
  using memcpy_n_env [OF assms] by (simp_all add: memcpy512_def memcpy_loop_n drain_left_def)


section \<open>Page tables\<close>

lemma blit_cons: "blit p (b # bs) r = blit (Suc p) bs (blit p [b] r)"
  using blit_blit_append [of p "[b]" "Suc p" bs r] by simp

lemma ucast_nat8: "x < 256 \<Longrightarrow> (ucast (word_of_nat x :: u8) :: u16) = word_of_nat x"
  by (simp add: word_unat_eq_iff unat_ucast_mod unat_of_nat)

lemma fill_ppn_env:
  assumes "kmode m" "p + 46 \<le> 32768" "i \<le> 32"
  shows "ram (fill_ppn (word_of_nat p) base (word_of_nat i) m) =
           blit (p + 14 + i) (map (\<lambda>j. ppn_entry base (word_of_nat j)) [i..<32]) (ram m) \<and>
         env (fill_ppn (word_of_nat p) base (word_of_nat i) m) = env m"
  using assms
proof (induction "32 - i" arbitrary: i m)
  case 0
  then show ?case by (simp add: fill_ppn.simps [of _ _ 32] MMU_NPAGES_def)
next
  case (Suc d)
  have i: "i < 32" using Suc.hyps(2) by simp
  have lt: "(word_of_nat i :: u8) < MMU_NPAGES"
    using i by (simp add: MMU_NPAGES_def word_less_nat_alt unat_of_nat)
  have adr: "word_of_nat p + OFF_PPN0 + ucast (word_of_nat i :: u8) = (word_of_nat (p + 14 + i) :: u16)"
    using i by (simp add: OFF_PPN0_def ucast_nat8)
  let ?m2 = "mem_write (word_of_nat (p + 14 + i)) (ppn_entry base (word_of_nat i)) m"
  have m2: "ram ?m2 = blit (p + 14 + i) [ppn_entry base (word_of_nat i)] (ram m)" "env ?m2 = env m"
    using wr_at [OF Suc.prems(1), of "p + 14 + i"] Suc.prems(2) i by simp_all
  have k2: "kmode ?m2" using m2(2) Suc.prems(1) kmode_env by blast
  have s: "word_of_nat i + 1 = (word_of_nat (Suc i) :: u8)" by simp
  have L: "[i..<32] = i # [Suc i..<32]" using i by (simp add: upt_conv_Cons)
  show ?case
    unfolding fill_ppn.simps [of _ _ "word_of_nat i"] if_P [OF lt] adr s L list.map blit_cons [of _ _ "map _ _"]
    using Suc.hyps(1) [of "Suc i" ?m2] Suc.hyps(2) k2 Suc.prems(2) i m2 by simp
qed

lemma ppn_reg:
  assumes "x < 32"
  shows "MMU_PPN0 + ucast (word_of_nat x :: u8) = (0x8080 + word_of_nat x :: u16)"
    "is_ctrl (0x8080 + word_of_nat x)" "\<not> bit (reg_off (0x8080 + word_of_nat x)) 5"
    "ucast (reg_off (0x8080 + word_of_nat x)) = (word_of_nat x :: 5 word)"
proof -
  have "\<forall>x \<in> set [0..<32]. is_ctrl (0x8080 + word_of_nat x) \<and> \<not> bit (reg_off (0x8080 + word_of_nat x)) 5 \<and>
     ucast (reg_off (0x8080 + word_of_nat x)) = (word_of_nat x :: 5 word)"
    by code_simp
  then show "is_ctrl (0x8080 + word_of_nat x)" "\<not> bit (reg_off (0x8080 + word_of_nat x)) 5"
    "ucast (reg_off (0x8080 + word_of_nat x)) = (word_of_nat x :: 5 word)"
    using assms by auto
qed (use assms in \<open>simp add: MMU_PPN0_def ucast_nat8\<close>)

lemma rd_ppn:
  assumes "kmode m" "x < 32"
  shows "\<exists>m1. mem_read (0x8080 + word_of_nat x) m = (ucast (ppn (mmu m) (word_of_nat x)), m1) \<and>
              ram m1 = ram m \<and> env m1 = env m"
  using rd_ctrl [OF assms(1) ppn_reg(2) [OF assms(2)]] ppn_reg(3,4) [OF assms(2)]
  by (simp add: ctrl_rd_def)

lemma wr_ppn:
  assumes "kmode m" "x < 32"
  shows "ram (mem_write (0x8080 + word_of_nat x) d m) = ram m"
    "env (mem_write (0x8080 + word_of_nat x) d m) =
       env (m\<lparr>mmu := (mmu m)\<lparr>ppn := (ppn (mmu m))(word_of_nat x := ucast d)\<rparr>\<rparr>)"
  using wr_ctrl [OF assms(1) ppn_reg(2) [OF assms(2)], of d] ppn_reg(3,4) [OF assms(2)]
  by (simp_all add: ctrl_write_def)

lemma save_ppn_env:
  assumes "kmode m" "p + 46 \<le> 32768" "x < 32"
  shows "ram (save_ppn (word_of_nat p) (word_of_nat (14 + x)) (word_of_nat x) m) =
           blit (p + 14 + x) (map (\<lambda>j. ucast (ppn (mmu m) (word_of_nat j))) [x..<32]) (ram m) \<and>
         env (save_ppn (word_of_nat p) (word_of_nat (14 + x)) (word_of_nat x) m) = env m"
  using assms
proof (induction "31 - x" arbitrary: x m rule: less_induct)
  case (less x m)
  note k = less.prems(1) and p = less.prems(2) and x = less.prems(3)
  let ?v = "ucast (ppn (mmu m) (word_of_nat x)) :: u8"
  have adr: "word_of_nat p + ucast (word_of_nat (14 + x) :: u8) = (word_of_nat (p + 14 + x) :: u16)"
    using x ucast_nat8 [of "14 + x"] by simp
  obtain m1 where m1: "mem_read (0x8080 + word_of_nat x) m = (?v, m1)" "ram m1 = ram m" "env m1 = env m"
    using rd_ppn [OF k x] by blast
  have k1: "kmode m1" using m1(3) k kmode_env by blast
  let ?m2 = "mem_write (word_of_nat (p + 14 + x)) ?v m1"
  have m2: "ram ?m2 = blit (p + 14 + x) [?v] (ram m)" "env ?m2 = env m"
    using wr_at [OF k1, of "p + 14 + x"] p x m1(2,3) by simp_all
  have k2: "kmode ?m2" using m2(2) k kmode_env by blast
  have pp: "ppn (mmu ?m2) = ppn (mmu m)" using m2(2) by (simp add: env_iff)
  have s: "word_of_nat x + 1 = (word_of_nat (Suc x) :: u8)" "word_of_nat (14 + x) + 1 = (word_of_nat (14 + Suc x) :: u8)"
    by simp_all
  note step = save_ppn.simps [of "word_of_nat p" "word_of_nat (14 + x)" "word_of_nat x" m,
      unfolded ppn_reg(1) [OF x] m1(1) prod.case Let_def adr s]
  show ?case
  proof (cases "x = 31")
    case True
    then show ?thesis unfolding step using m2 by (simp add: MMU_NPAGES_def)
  next
    case False
    then have ne: "(word_of_nat (Suc x) :: u8) \<noteq> MMU_NPAGES"
      using x by (simp add: MMU_NPAGES_def word_unat_eq_iff unat_of_nat del: of_nat_Suc)
    have L: "[x..<32] = x # [Suc x..<32]" using x by (simp add: upt_conv_Cons)
    show ?thesis
      unfolding step if_P [OF ne] L list.map blit_cons [of _ _ "map _ _"]
      using less.hyps [of "Suc x" ?m2] False k2 p x m2 pp by simp
  qed
qed

lemma restore_ppn_env:
  assumes "kmode m" "p + 46 \<le> 32768" "x < 32"
  shows "ram (restore_ppn (word_of_nat p) (word_of_nat (14 + x)) (word_of_nat x) m) = ram m \<and>
         env (restore_ppn (word_of_nat p) (word_of_nat (14 + x)) (word_of_nat x) m) =
         env (m\<lparr>mmu := (mmu m)\<lparr>ppn := (\<lambda>v. if x \<le> unat v then ucast (ram m (word_of_nat (p + 14 + unat v)))
                                            else ppn (mmu m) v)\<rparr>\<rparr>)"
  using assms
proof (induction "31 - x" arbitrary: x m rule: less_induct)
  case (less x m)
  note k = less.prems(1) and p = less.prems(2) and x = less.prems(3)
  let ?v = "ram m (word_of_nat (p + 14 + x))"
  let ?f = "\<lambda>x m v. if x \<le> unat v then ucast (ram m (word_of_nat (p + 14 + unat v))) else ppn (mmu m) v"
  have adr: "word_of_nat p + ucast (word_of_nat (14 + x) :: u8) = (word_of_nat (p + 14 + x) :: u16)"
    using x ucast_nat8 [of "14 + x"] by simp
  obtain m1 where m1: "mem_read (word_of_nat (p + 14 + x)) m = (?v, m1)" "ram m1 = ram m" "env m1 = env m"
    using rd_at [OF k, of "p + 14 + x"] p x by auto
  have k1: "kmode m1" using m1(3) k kmode_env by blast
  let ?m2 = "mem_write (0x8080 + word_of_nat x) ?v m1"
  have m2: "ram ?m2 = ram m" "env ?m2 = env (m1\<lparr>mmu := (mmu m1)\<lparr>ppn := (ppn (mmu m1))(word_of_nat x := ucast ?v)\<rparr>\<rparr>)"
    using wr_ppn [OF k1 x, of ?v] m1(2) by simp_all
  have k2: "kmode ?m2" using m2(2) k1 by (simp add: env_iff kmode_def)
  have pp: "ppn (mmu ?m2) = (ppn (mmu m))(word_of_nat x := ucast ?v)" using m2(2) m1(3) by (simp add: env_iff)
  have s: "word_of_nat x + 1 = (word_of_nat (Suc x) :: u8)" "word_of_nat (14 + x) + 1 = (word_of_nat (14 + Suc x) :: u8)"
    by simp_all
  have ux: "unat (word_of_nat x :: 5 word) = x" using x by (simp add: unat_of_nat)
  have pw: "v = word_of_nat x \<longleftrightarrow> unat v = x" for v :: "5 word" using ux by (simp add: word_unat_eq_iff)
  note step = restore_ppn.simps [of "word_of_nat p" "word_of_nat (14 + x)" "word_of_nat x" m,
      unfolded ppn_reg(1) [OF x] adr m1(1) prod.case Let_def s]
  show ?case
  proof (cases "x = 31")
    case True
    have "x \<le> unat v \<longleftrightarrow> unat v = x" for v :: "5 word"
      using unat_lt_2p [of v] True by auto
    then have "ppn (mmu ?m2) = ?f x m" unfolding pp by (simp add: fun_eq_iff pw del: of_nat_add)
    then show ?thesis unfolding step using m2 m1(3) True by (simp add: MMU_NPAGES_def env_iff)
  next
    case False
    then have ne: "(word_of_nat (Suc x) :: u8) \<noteq> MMU_NPAGES"
      using x by (simp add: MMU_NPAGES_def word_unat_eq_iff unat_of_nat del: of_nat_Suc)
    have "?f (Suc x) ?m2 = ?f x m"
      unfolding pp m2(1) by (auto simp: fun_eq_iff pw Suc_le_eq le_less simp del: of_nat_add)
    then show ?thesis
      unfolding step if_P [OF ne]
      using less.hyps [of "Suc x" ?m2] False k2 p x m2 m1(3) by (simp add: env_iff)
  qed
qed

end
