(* ===== verification/Load.thy ===== *)
theory Load
  imports Proc
begin

text \<open>
  What \<open>spawn_bbx\<close> leaves in memory: the page table it builds, the program image behind it, the
  frame its first \<open>rti\<close> pops, and the error branches.
\<close>

text \<open>Kernel mode, with RAM \<open>r\<close> and environment \<open>e\<close>.\<close>

definition holds where
  "holds m r e \<longleftrightarrow> kmode m \<and> ram m = r \<and> env m = e"

lemma holds_wr: "holds m r e \<Longrightarrow> n < 32768 \<Longrightarrow> holds (mem_write (word_of_nat n) d m) (blit n [d] r) e"
  using wr_at [of m n d] kmode_env [of "mem_write (word_of_nat n) d m" m] by (simp add: holds_def)

section \<open>Physical addresses of a process\<close>

text \<open>
  Where the page table that \<open>spawn_bbx\<close> builds for \<open>base\<close> puts a virtual address: the 4 KB
  virtual block \<open>k\<close> lies in the physical block \<open>(base + k) mod 8\<close>.
\<close>

definition phys_of :: "u8 \<Rightarrow> nat \<Rightarrow> nat" where
  "phys_of base va = ((unat base + va div 4096) mod 8) * 4096 + va mod 4096"

lemma unat_ppn_entry:
  assumes "i < 32"
  shows "unat (ppn_entry base (word_of_nat i)) = ((unat base + i div 4) mod 8) * 4 + i mod 4"
proof -
  have u: "unat (word_of_nat i :: u8) = i" using assms by (simp add: unat_of_nat)
  let ?a = "take_bit 3 (ucast base + drop_bit 2 (ucast (word_of_nat i :: u8))) :: u16"
  have d: "unat (drop_bit 2 (ucast (word_of_nat i :: u8)) :: u16) = i div 4"
    using assms by (simp add: unat_drop_bit unat_ucast_mod u)
  have a: "unat ?a = (unat base + i div 4) mod 8"
    unfolding unsigned_take_bit_eq take_bit_eq_mod
    using assms unat_u8_lt [of base] d by (simp add: unat_word_ariths unat_ucast_mod)
  have a8: "(unat base + i div 4) mod 8 \<le> 7" by simp
  have "unat (push_bit 2 ?a OR take_bit 2 (ucast (word_of_nat i :: u8))) = unat ?a * 4 + i mod 4"
    using unat_pack [of ?a 2 "ucast (word_of_nat i :: u8)"] a a8 assms by (simp add: unat_ucast_mod u)
  moreover have "(unat base + i div 4) mod 8 * 4 + i mod 4 < 256"
    using a8 mod_less_divisor [of 4 i] by linarith
  ultimately show ?thesis
    by (simp add: ppn_entry_def and_mask_numeral unat_ucast_mod a)
qed

lemma phys_of_lt: "phys_of base va < 32768"
proof -
  have "(unat base + va div 4096) mod 8 \<le> 7" "va mod 4096 < 4096" by auto
  then show ?thesis unfolding phys_of_def by linarith
qed

lemma mod_shift_inject: "(x + a) mod 8 = (x + b) mod 8 \<Longrightarrow> a < 8 \<Longrightarrow> b < 8 \<Longrightarrow> a = (b :: nat)"
proof (induction x)
  case (Suc x)
  have "(Suc x + a) mod 8 = Suc (x + a) mod 8" "(Suc x + b) mod 8 = Suc (x + b) mod 8" by simp_all
  then have "(x + a) mod 8 = (x + b) mod 8" using Suc.prems(1) by (simp add: mod_Suc split: if_splits)
  then show ?case using Suc by blast
qed simp

lemma phys_of_inject:
  assumes "va < 32768" "vb < 32768" "phys_of base va = phys_of base vb"
  shows "va = vb"
proof -
  have e: "(unat base + va div 4096) mod 8 = (unat base + vb div 4096) mod 8" and m: "va mod 4096 = vb mod 4096"
  proof -
    have "phys_of base va div 4096 = (unat base + va div 4096) mod 8"
      "phys_of base vb div 4096 = (unat base + vb div 4096) mod 8"
      "phys_of base va mod 4096 = va mod 4096" "phys_of base vb mod 4096 = vb mod 4096"
      by (simp_all add: phys_of_def)
    then show "(unat base + va div 4096) mod 8 = (unat base + vb div 4096) mod 8" "va mod 4096 = vb mod 4096"
      using assms(3) by simp_all
  qed
  have "va div 4096 < 8" "vb div 4096 < 8" using assms(1,2) by simp_all
  then have "va div 4096 = vb div 4096" by (rule mod_shift_inject [OF e])
  then show ?thesis using m by (metis div_mult_mod_eq)
qed

text \<open>The lookup of the loader, and the hardware's translation through the saved table.\<close>

lemma phys_pack:
  assumes "va < 32768"
  shows "push_bit 10 (ucast (ppn_entry base (word_of_nat (va div 1024)))) OR (word_of_nat va AND 0x03FF) =
         (word_of_nat (phys_of base va) :: u16)"
proof -
  let ?e = "ucast (ppn_entry base (word_of_nat (va div 1024))) :: u16"
  have i: "va div 1024 < 32" using assms by simp
  have e: "unat ?e = ((unat base + va div 4096) mod 8) * 4 + va div 1024 mod 4"
    using unat_ppn_entry [OF i, of base] by (simp add: unat_ucast_mod flip: div_mult2_eq)
  have "unat ?e \<le> 31"
    unfolding e using mod_less_divisor [of 8 "unat base + va div 4096"] mod_less_divisor [of 4 "va div 1024"] by linarith
  then have "unat (push_bit 10 ?e OR take_bit 10 (word_of_nat va)) = unat ?e * 1024 + va mod 1024"
    using unat_pack [of ?e 10 "word_of_nat va"] assms by (simp add: unat_of_nat)
  also have "\<dots> = phys_of base va"
  proof -
    have "va mod 4096 = va div 1024 mod 4 * 1024 + va mod 1024"
      using mod_mult2_eq [of va 1024 4] by simp
    then show ?thesis by (simp add: phys_of_def e algebra_simps)
  qed
  finally show ?thesis
    using phys_of_lt [of base va] by (simp add: word_unat_eq_iff and_mask_numeral unat_of_nat)
qed


section \<open>The loading loop\<close>

text \<open>
  \<open>table base\<close>: the bytes of the page table; \<open>image_at base f n r\<close>: RAM \<open>r\<close> after \<open>n\<close> blocks
  have been loaded, \<open>f b\<close> being block \<open>b\<close>. Each one passes through \<open>block_buf\<close>.
\<close>

definition table :: "u8 \<Rightarrow> u8 list" where
  "table base = map (\<lambda>j. ppn_entry base (word_of_nat j)) [0..<32]"

definition block_va :: "nat \<Rightarrow> nat" where
  "block_va b = 0x1000 + 512 * b"

fun image_at :: "u8 \<Rightarrow> (nat \<Rightarrow> u8 list) \<Rightarrow> nat \<Rightarrow> (15 word \<Rightarrow> u8) \<Rightarrow> 15 word \<Rightarrow> u8" where
  "image_at base f 0 r = r"
| "image_at base f (Suc b) r =
     blit (phys_of base (block_va b)) (f b) (blit 0x7100 (f b) (image_at base f b r))"

text \<open>No page the loader writes to is one of the kernel's (physical blocks 0 and 7).\<close>

definition pages_ok :: "u8 \<Rightarrow> nat \<Rightarrow> bool" where
  "pages_ok base n \<longleftrightarrow>
     (\<forall>k \<in> set [0..<Suc ((n + 7) div 8)]. (unat base + k) mod 8 \<noteq> 0 \<and> (unat base + k) mod 8 \<noteq> 7)"

lemma phys_of_kernel:
  assumes "(unat base + va div 4096) mod 8 \<noteq> 0" "(unat base + va div 4096) mod 8 \<noteq> 7"
  shows "0x1000 \<le> phys_of base va" "phys_of base va < 0x7000"
proof -
  have "(unat base + va div 4096) mod 8 < 8" by simp
  then have "(unat base + va div 4096) mod 8 \<le> 6" "1 \<le> (unat base + va div 4096) mod 8"
    using assms by linarith+
  then show "0x1000 \<le> phys_of base va" "phys_of base va < 0x7000"
    using mod_less_divisor [of 4096 va] unfolding phys_of_def by linarith+
qed

lemma phys_of_plus: "va mod 512 + j < 512 \<Longrightarrow> phys_of base (va + j) = phys_of base va + j"
proof -
  assume j: "va mod 512 + j < 512"
  obtain q r where va: "va = 4096 * q + r" "r < 4096"
    by (metis mult_div_mod_eq mod_less_divisor zero_less_numeral)
  have "va = r + 512 * (8 * q)" using va(1) by simp
  then have "r mod 512 = va mod 512" by (simp only: mod_mult_self2)
  then have "r mod 512 + j < 512" using j by simp
  moreover have "r div 512 \<le> 7" using va(2) by simp
  moreover have "r = r div 512 * 512 + r mod 512" by simp
  ultimately have "r + j < 4096" by linarith
  moreover from this have "(va + j) div 4096 = q" "(va + j) mod 4096 = r + j"
    unfolding va add.assoc [of _ r] by simp_all
  moreover have "va div 4096 = q" "va mod 4096 = r" using va by simp_all
  ultimately show ?thesis unfolding phys_of_def by simp
qed

lemma block_va_div: "block_va b div 4096 = Suc (b div 8)" "block_va b mod 512 = 0"
  by (simp_all add: block_va_def flip: div_mult2_eq) 

lemma phys_block:
  assumes "pages_ok base n" "b < n"
  shows "0x1000 \<le> phys_of base (block_va b)" "phys_of base (block_va b) + 512 \<le> 0x7000"
proof -
  have "Suc (b div 8) \<le> (n + 7) div 8" using assms(2) by simp
  then have k: "Suc (b div 8) \<in> set [0..<Suc ((n + 7) div 8)]"
    by (simp only: set_upt atLeastLessThan_iff less_Suc_eq_le) simp
  have ok: "(unat base + Suc (b div 8)) mod 8 \<noteq> 0" "(unat base + Suc (b div 8)) mod 8 \<noteq> 7"
    using assms(1) k unfolding pages_ok_def by blast+
  show "0x1000 \<le> phys_of base (block_va b)"
    by (rule phys_of_kernel) (use ok in \<open>simp_all add: block_va_div\<close>)
  have "(block_va b + 511) div 4096 = Suc (b div 8)" by (simp add: block_va_def flip: div_mult2_eq)
  then have "phys_of base (block_va b + 511) < 0x7000"
    by (intro phys_of_kernel) (use ok in simp_all)
  then show "phys_of base (block_va b) + 512 \<le> 0x7000"
    using phys_of_plus [of "block_va b" 511 base] by (simp add: block_va_div)
qed

lemma length_table [simp]: "length (table base) = 32"
  by (simp add: table_def)

lemma image_at_other:
  assumes "pages_ok base n" "b \<le> n" "\<And>i. length (f i) = 512" "0x7000 \<le> q" "q + l \<le> 0x7100"
  shows "peek q l (image_at base f b r) = peek q l r"
  using assms(2)
proof (induction b)
  case (Suc b)
  have p: "phys_of base (block_va b) + 512 \<le> 0x7000"
    by (rule phys_block [OF assms(1)]) (use Suc.prems in simp)
  then show ?case using Suc assms(3-5) by (simp add: peek_blit_other)
qed simp

lemma block_va_bound: "b < 56 \<Longrightarrow> block_va b + 512 \<le> 32768"
  by (simp add: block_va_def)

lemma load_block_env:
  assumes "kmode m" "p + 64 \<le> 0x7100" "0x7000 \<le> p" "peek (p + 14) 32 (ram m) = table base"
    "peek 0x7100 512 (ram m) = s" "b < 56" "phys_of base (block_va b) + 512 \<le> 0x7000"
  shows "ram (load_block (word_of_nat p) (word_of_nat b) m) = blit (phys_of base (block_va b)) s (ram m)"
    and "env (load_block (word_of_nat p) (word_of_nat b) m) = env m"
proof -
  let ?va = "block_va b"
  have va: "?va < 32768" using block_va_bound [OF assms(6)] by simp
  have v: "0x1000 + push_bit 9 (word_of_nat b) = (word_of_nat ?va :: u16)"
    by (simp add: block_va_def push_bit_eq_mult)
  have "unat (drop_bit 10 (word_of_nat ?va :: u16)) = ?va div 1024"
    using va by (simp add: unat_drop_bit unat_of_nat)
  then have d: "drop_bit 10 (word_of_nat ?va :: u16) = word_of_nat (?va div 1024)"
    using va by (simp add: word_unat_eq_iff unat_of_nat)
  have i: "?va div 1024 < 32" using va by simp
  have a: "word_of_nat p + OFF_PPN0 + drop_bit 10 (word_of_nat ?va) = (word_of_nat (p + 14 + ?va div 1024) :: u16)"
    unfolding d by (simp add: OFF_PPN0_def)
  have e: "ram m (word_of_nat (p + 14 + ?va div 1024)) = ppn_entry base (word_of_nat (?va div 1024))"
    using arg_cong [OF assms(4), of "\<lambda>l. l ! (?va div 1024)"] i
    by (simp add: peek_nth table_def del: of_nat_add)
  obtain m1 where m1: "mem_read (word_of_nat (p + 14 + ?va div 1024)) m = (ppn_entry base (word_of_nat (?va div 1024)), m1)"
      "ram m1 = ram m" "env m1 = env m"
    using rd_at [OF assms(1), of "p + 14 + ?va div 1024"] assms(2) i e by auto
  have k1: "kmode m1" using m1(3) assms(1) kmode_env by blast
  have bb: "block_buf = word_of_nat 0x7100" by (simp add: block_buf_def)
  have L: "load_block (word_of_nat p) (word_of_nat b) m = memcpy512 (word_of_nat (phys_of base ?va)) (word_of_nat 0x7100) m1"
    unfolding load_block_def Let_def v a m1(1) prod.case phys_pack [OF va] bb ..
  show "ram (load_block (word_of_nat p) (word_of_nat b) m) = blit (phys_of base ?va) s (ram m)"
    "env (load_block (word_of_nat p) (word_of_nat b) m) = env m"
    unfolding L using memcpy512_env [OF k1, of "phys_of base ?va" "0x7100"] assms(5,7) m1(2,3) by simp_all
qed


lemma blit_same: "p + length bs \<le> 32768 \<Longrightarrow> peek p (length bs) r = bs \<Longrightarrow> blit p bs r = r"
proof (rule ext)
  fix a :: "15 word"
  assume b: "p + length bs \<le> 32768" "peek p (length bs) r = bs"
  have "bs ! (unat a - p) = r a" if "p \<le> unat a" "unat a < p + length bs"
  proof -
    have "peek p (length bs) r ! (unat a - p) = r (word_of_nat (p + (unat a - p)))"
      by (rule peek_nth) (use that in simp)
    then show ?thesis using that b(2) by simp
  qed
  then show "blit p bs r a = r a" by (simp add: blit_def)
qed

lemma load_loop_ok:
  assumes "kmode m" "disk_img m = Some img" "0x7000 \<le> p" "p + 64 \<le> 0x7100" "n \<le> 56"
    "pages_ok base n" "\<And>b. b < n \<Longrightarrow> lba_ok (lba + word_of_nat b)" "b \<le> n"
    "f = (\<lambda>b. sector_of img (lba + word_of_nat b))" "peek 0x7100 512 r = f 0"
    "peek (p + 14) 32 r = table base" "ram m = image_at base f b r"
  shows "\<exists>m'. load_loop (word_of_nat p) lba (word_of_nat n) (word_of_nat b) m = Some (0, m') \<and>
           ram m' = image_at base f n r \<and> env m' = env m"
  using assms(1,2,8,12)
proof (induction "n - b" arbitrary: b m)
  case 0
  then have "b = n" by simp
  then show ?case using 0 by (simp add: load_loop.simps [of _ _ "word_of_nat n"])
next
  case (Suc d)
  have b: "b < n" "b < 56" using Suc.hyps(2) assms(5) by simp_all
  have len: "length (f i) = 512" for i by (simp add: assms(9))
  have ub: "unat (word_of_nat b :: u16) = b" "unat (word_of_nat n :: u16) = n" 
    using b assms(5) by (simp_all add: unat_of_nat)
  have lt: "(word_of_nat b :: u16) < word_of_nat n" using b ub by (simp add: word_less_nat_alt)
  have b0: "(word_of_nat b :: u16) = 0 \<longleftrightarrow> b = 0" using ub(1) by (metis unat_0 unat_eq_0)
  have ul: "ucast (word_of_nat b :: u16) = (word_of_nat b :: u32)"
    using b by (simp add: word_unat_eq_iff unat_ucast_mod unat_of_nat)
  have bb: "block_buf = word_of_nat 0x7100" by (simp add: block_buf_def)
  obtain m1 where m1: "(if (word_of_nat b :: u16) \<noteq> 0 then block_read (lba + ucast (word_of_nat b :: u16)) block_buf m
        else Some (0, m)) = Some (0, m1)" "env m1 = env m" "ram m1 = blit 0x7100 (f b) (image_at base f b r)"
  proof (cases "b = 0")
    case True
    have "blit 0x7100 (f 0) r = r" using blit_same [of "0x7100" "f 0" r] len assms(10) by simp
    then show ?thesis using that [of m] True Suc.prems(4) by simp
  next
    case False
    then show ?thesis
      using that block_read_env [OF Suc.prems(1,2) assms(7) [OF b(1)], of "0x7100"] Suc.prems(4) b0
      unfolding bb ul assms(9) by auto
  qed
  have k1: "kmode m1" using m1(2) Suc.prems(1) kmode_env by blast
  have t: "peek (p + 14) 32 (ram m1) = table base"
    unfolding m1(3) using image_at_other [OF assms(6) Suc.prems(3) len, where q = "p + 14" and l = 32 and r = r] assms(3,4,11) len
    by (simp add: peek_blit_other)
  have s: "peek 0x7100 512 (ram m1) = f b"
    unfolding m1(3) using peek_blit [of "0x7100" "f b"] len by simp
  let ?m2 = "load_block (word_of_nat p) (word_of_nat b) m1"
  have m2: "ram ?m2 = image_at base f (Suc b) r" "env ?m2 = env m"
    using load_block_env [OF k1 assms(4,3) t s b(2) phys_block(2) [OF assms(6) b(1)]] m1 by simp_all
  have k2: "kmode ?m2" by (rule kmode_env [OF m2(2) Suc.prems(1)])
  have i2: "disk_img ?m2 = Some img" using m2(2) Suc.prems(2) by (simp add: env_iff)
  have sb: "word_of_nat b + 1 = (word_of_nat (Suc b) :: u16)" by simp
  show ?case
    unfolding load_loop.simps [of _ _ "word_of_nat n" "word_of_nat b"] if_P [OF lt] m1(1) bind.bind_lunit prod.case sb
    using Suc.hyps(1) [OF _ k2 i2 _ m2(1)] Suc.hyps(2) b m2(2) by simp
qed

section \<open>The whole of spawn_bbx\<close>

lemma rti_frame_env:
  assumes "kmode m" "p + 64 \<le> 0x7100" "peek (p + 14) 32 (ram m) = table base"
  shows "ram (rti_frame (word_of_nat p) entry m) =
           blit (phys_of base 0x1FD) [0x20, ucast entry, ucast (drop_bit 8 entry)] (ram m)"
    and "env (rti_frame (word_of_nat p) entry m) = env m"
proof -
  have e: "ram m (word_of_nat (p + 14)) = ppn_entry base 0"
    using arg_cong [OF assms(3), of "\<lambda>l. l ! 0"] by (simp add: peek_nth table_def del: of_nat_add)
  have a: "word_of_nat p + OFF_PPN0 = (word_of_nat (p + 14) :: u16)" by (simp add: OFF_PPN0_def)
  obtain m1 where m1: "mem_read (word_of_nat (p + 14)) m = (ppn_entry base 0, m1)" "ram m1 = ram m" "env m1 = env m"
    using rd_at [OF assms(1), of "p + 14"] assms(2) e by auto
  have k1: "kmode m1" using m1(3) assms(1) kmode_env by blast
  let ?q = "phys_of base 0x1FD"
  have q: "?q + 3 \<le> 32768" "phys_of base (0x1FD + 2) = ?q + 2"
    using phys_of_plus [of "0x1FD" 2 base] phys_of_lt [of base "0x1FF"] by simp_all
  have f: "push_bit 10 (ucast (ppn_entry base 0)) OR 0x01FD = (word_of_nat ?q :: u16)"
    using phys_pack [of "0x1FD" base] by simp
  let ?m2 = "mem_write (word_of_nat ?q) 0x20 m1"
  have m2: "ram ?m2 = blit ?q [0x20] (ram m)" "env ?m2 = env m"
    using wr_at [OF k1, of ?q] q m1 by simp_all
  have k2: "kmode ?m2" using m2(2) assms(1) kmode_env by blast
  let ?m3 = "mem_write (word_of_nat (?q + 1)) (ucast entry) ?m2"
  have m3: "ram ?m3 = blit ?q [0x20, ucast entry] (ram m)" "env ?m3 = env m"
    using wr_at [OF k2, of "?q + 1"] q m2 by (simp_all add: blit_blit_append)
  have k3: "kmode ?m3" using m3(2) assms(1) kmode_env by blast
  have s: "word_of_nat ?q + 1 = (word_of_nat (?q + 1) :: u16)" "word_of_nat ?q + 2 = (word_of_nat (?q + 2) :: u16)"
    by simp_all
  show "ram (rti_frame (word_of_nat p) entry m) = blit ?q [0x20, ucast entry, ucast (drop_bit 8 entry)] (ram m)"
    "env (rti_frame (word_of_nat p) entry m) = env m"
    unfolding rti_frame_def a m1(1) prod.case Let_def f s
    using wr_at [OF k3, of "?q + 2" "ucast (drop_bit 8 entry)"] q m3 by (simp_all add: blit_blit_append)
qed

definition proc_fields :: "nat \<Rightarrow> u32 \<Rightarrow> nat \<Rightarrow> (15 word \<Rightarrow> u8) \<Rightarrow> 15 word \<Rightarrow> u8" where
  "proc_fields p lba n r =
     blit (p + 4) [0] (blit (p + 13) [0xFC] (blit p [PROC_STATE_WAITING, 0, ucast lba, word_of_nat n] r))"

lemma fill_process_env:
  assumes "kmode m" "p + 64 \<le> 32768" "n < 65536"
  shows "ram (fill_process (word_of_nat p) lba (word_of_nat n) m) = proc_fields p lba n (ram m)"
    and "env (fill_process (word_of_nat p) lba (word_of_nat n) m) = env m"
proof -
  have un: "ucast (word_of_nat n :: u16) = (word_of_nat n :: u8)"
    using assms(3) by (simp add: word_unat_eq_iff unat_ucast_mod unat_of_nat)
  have offs: "word_of_nat p + OFF_STATE = (word_of_nat (p + 0) :: u16)" "word_of_nat p + OFF_EXIT = (word_of_nat (p + 1) :: u16)"
    "word_of_nat p + OFF_LBA = (word_of_nat (p + 2) :: u16)" "word_of_nat p + OFF_NBLOCKS = (word_of_nat (p + 3) :: u16)"
    "word_of_nat p + OFF_SP = (word_of_nat (p + 13) :: u16)" "word_of_nat p + OFF_NAME = (word_of_nat (p + 4) :: u16)"
    by (simp_all add: proc_layout)
  have "holds (fill_process (word_of_nat p) lba (word_of_nat n) m)
      (blit (p + 4) [0] (blit (p + 13) [0xFC] (blit (p + 3) [word_of_nat n] (blit (p + 2) [ucast lba]
        (blit (p + 1) [0] (blit (p + 0) [PROC_STATE_WAITING] (ram m))))))) (env m)"
    unfolding fill_process_def Let_def offs un
    by (intro holds_wr) (use assms in \<open>auto simp: holds_def\<close>)
  then show "ram (fill_process (word_of_nat p) lba (word_of_nat n) m) = proc_fields p lba n (ram m)"
    "env (fill_process (word_of_nat p) lba (word_of_nat n) m) = env m"
    by (simp_all add: holds_def proc_fields_def blit_blit_append)
qed


definition prog_block :: "u8 list \<Rightarrow> u32 \<Rightarrow> nat \<Rightarrow> u8 list" where
  "prog_block img lba b = sector_of img (lba + word_of_nat b)"

lemma length_prog_block [simp]: "length (prog_block img lba b) = 512"
  by (simp add: prog_block_def)

definition spawn_ram :: "u8 list \<Rightarrow> u32 \<Rightarrow> nat \<Rightarrow> u8 \<Rightarrow> nat \<Rightarrow> (15 word \<Rightarrow> u8) \<Rightarrow> 15 word \<Rightarrow> u8" where
  "spawn_ram img lba n base idx r =
     (let s = prog_block img lba 0; p = pent idx in
      proc_fields p lba n
        (blit (phys_of base 0x1FD) [0x20, s ! 4, s ! 5]
          (image_at base (prog_block img lba) n
            (blit 0x7100 s (blit (p + 14) (table base) r)))))"

definition valid_bbx :: "u8 list \<Rightarrow> bool" where
  "valid_bbx s \<longleftrightarrow> s ! 0 = 0x42 \<and> s ! 1 = 0x58"

lemma rd_block_buf:
  assumes "kmode m" "peek 0x7100 512 (ram m) = s" "i < 512"
  shows "\<exists>m1. mem_read (block_buf + word_of_nat i) m = (s ! i, m1) \<and> ram m1 = ram m \<and> env m1 = env m"
proof -
  have "s ! i = ram m (word_of_nat (0x7100 + i))" using assms(2,3) peek_nth by metis
  moreover have "block_buf + word_of_nat i = word_of_nat (0x7100 + i)" by (simp add: block_buf_def)
  ultimately show ?thesis using rd_at [OF assms(1), of "0x7100 + i"] assms(3) by (simp del: of_nat_add)
qed

lemma bad_magic_env:
  assumes "kmode m" "peek 0x7100 512 (ram m) = s"
  shows "\<exists>m1. bad_magic m = (\<not> valid_bbx s, m1) \<and> ram m1 = ram m \<and> env m1 = env m"
proof -
  obtain m1 where m1: "mem_read block_buf m = (s ! 0, m1)" "ram m1 = ram m" "env m1 = env m"
    using rd_block_buf [OF assms, of 0] by auto
  have k1: "kmode m1" by (rule kmode_env [OF m1(3) assms(1)])
  obtain m2 where m2: "mem_read (block_buf + 1) m1 = (s ! 1, m2)" "ram m2 = ram m" "env m2 = env m"
    using rd_block_buf [OF k1, of s 1] assms(2) m1(2,3) by auto
  show ?thesis
  proof (cases "s ! 0 = 0x42")
    case True
    then show ?thesis using m1 m2 by (simp add: bad_magic_def valid_bbx_def)
  next
    case False
    then show ?thesis using m1 by (simp add: bad_magic_def valid_bbx_def)
  qed
qed

lemma spawn_bbx_ok:
  assumes "kmode (mach k)" "nprocs k < 4" "disk_img (mach k) = Some img" "lba_ok lba" "n \<le> 56"
    "\<And>b. b < n \<Longrightarrow> lba_ok (lba + word_of_nat b)" "pages_ok base n" "valid_bbx (sector_of img lba)"
  shows "\<exists>m'. spawn_bbx lba (word_of_nat n) base k = Some (0, k\<lparr>mach := m', nprocs := nprocs k + 1\<rparr>) \<and>
           ram m' = spawn_ram img lba n base (unat (nprocs k)) (ram (mach k)) \<and> env m' = env (mach k)"
proof -
  let ?m0 = "mach k" and ?i = "unat (nprocs k)" and ?f = "prog_block img lba"
  let ?s = "?f 0" and ?p = "pent ?i"
  have fd: "?f = (\<lambda>b. sector_of img (lba + word_of_nat b))" by (simp add: fun_eq_iff prog_block_def)
  have i: "?i < 4" using assms(2) by (simp add: word_less_nat_alt)
  have p: "0x7000 \<le> ?p" "?p + 64 \<le> 0x7100" using i by (simp_all add: pent_def)
  have pa: "plist_at (nprocs k) = word_of_nat ?p" by (rule plist_at_nat [OF i])
  have s: "sector_of img lba = ?s" by (simp add: prog_block_def)
  let ?m1 = "fill_ppn (word_of_nat ?p) base 0 ?m0"
  have m1: "ram ?m1 = blit (?p + 14) (table base) (ram ?m0)" "env ?m1 = env ?m0"
    using fill_ppn_env [OF assms(1), of ?p 0 base] p by (simp_all add: table_def)
  have k1: "kmode ?m1" by (rule kmode_env [OF m1(2) assms(1)])
  have d1: "disk_img ?m1 = Some img" using m1(2) assms(3) by (simp add: env_iff)
  define r2 where "r2 = blit 0x7100 ?s (ram ?m1)"
  obtain m2 where m2: "block_read lba block_buf ?m1 = Some (0, m2)" "ram m2 = r2" "env m2 = env ?m0"
    using block_read_env [OF k1 d1 assms(4), of "0x7100"] m1(2) by (auto simp: block_buf_def s r2_def)
  have k2: "kmode m2" by (rule kmode_env [OF m2(3) assms(1)])
  have b2: "peek 0x7100 512 r2 = ?s" using peek_blit [of "0x7100" ?s] by (simp add: r2_def)
  have t2: "peek (?p + 14) 32 r2 = table base"
    using p peek_blit [of "?p + 14" "table base"] by (simp add: r2_def m1(1) peek_blit_other)
  obtain m3 where m3: "bad_magic m2 = (False, m3)" "ram m3 = r2" "env m3 = env ?m0"
    using bad_magic_env [OF k2, of ?s] b2 m2(2,3) assms(8) by (auto simp: s)
  have k3: "kmode m3" by (rule kmode_env [OF m3(3) assms(1)])
  obtain m4 where m4: "mem_read (block_buf + 4) m3 = (?s ! 4, m4)" "ram m4 = r2" "env m4 = env ?m0"
    using rd_block_buf [OF k3, of ?s 4] b2 m3 by auto
  have k4: "kmode m4" by (rule kmode_env [OF m4(3) assms(1)])
  obtain m5 where m5: "mem_read (block_buf + 5) m4 = (?s ! 5, m5)" "ram m5 = r2" "env m5 = env ?m0"
    using rd_block_buf [OF k4, of ?s 5] b2 m4 by auto
  have k5: "kmode m5" by (rule kmode_env [OF m5(3) assms(1)])
  have d5: "disk_img m5 = Some img" using m5(3) assms(3) by (simp add: env_iff)
  obtain m6 where m6: "load_loop (word_of_nat ?p) lba (word_of_nat n) 0 m5 = Some (0, m6)"
      "ram m6 = image_at base ?f n r2" "env m6 = env ?m0"
    using load_loop_ok [OF k5 d5 p assms(5,7,6), where b = 0 and f = ?f and r = r2] fd b2 t2 m5 by auto
  have k6: "kmode m6" by (rule kmode_env [OF m6(3) assms(1)])
  have t6: "peek (?p + 14) 32 (ram m6) = table base"
    unfolding m6(2) t2 [symmetric]
    by (rule image_at_other [OF assms(7) order_refl]) (use p in simp_all)
  let ?m7 = "rti_frame (word_of_nat ?p) (le16 (?s ! 4) (?s ! 5)) m6"
  have m7: "ram ?m7 = blit (phys_of base 0x1FD) [0x20, ?s ! 4, ?s ! 5] (ram m6)" "env ?m7 = env ?m0"
    using rti_frame_env [OF k6 p(2) t6, of "le16 (?s ! 4) (?s ! 5)"] m6(3)
      lo8_le16 [of "?s ! 4" "?s ! 5"] hi8_le16 [of "?s ! 4" "?s ! 5"]
    by (simp_all add: lo8_def hi8_def)
  have k7: "kmode ?m7" by (rule kmode_env [OF m7(2) assms(1)])
  let ?m8 = "fill_process (word_of_nat ?p) lba (word_of_nat n) ?m7"
  have "ram ?m8 = spawn_ram img lba n base ?i (ram ?m0)" "env ?m8 = env ?m0"
    using fill_process_env [OF k7, of ?p n lba] p assms(5) m7
    by (simp_all add: spawn_ram_def Let_def m6(2) r2_def m1(1))
  moreover have "spawn_bbx lba (word_of_nat n) base k = Some (0, k\<lparr>mach := ?m8, nprocs := nprocs k + 1\<rparr>)"
    using assms(2) unfolding not_le [symmetric]
    by (simp add: spawn_bbx_def Let_def pa m2(1) m3(1) m4(1) m5(1) m6(1))
  ultimately show ?thesis by blast
qed


section \<open>Reading the result through the page table\<close>

text \<open>Where process \<open>idx\<close>'s virtual address \<open>va\<close> lies, by the page table saved in its entry.\<close>

definition user_phys :: "(15 word \<Rightarrow> u8) \<Rightarrow> nat \<Rightarrow> nat \<Rightarrow> nat" where
  "user_phys r idx va = unat (r (word_of_nat (pent idx + 14 + va div 1024))) * 1024 + va mod 1024"

definition user_byte :: "(15 word \<Rightarrow> u8) \<Rightarrow> nat \<Rightarrow> nat \<Rightarrow> u8" where
  "user_byte r idx va = r (word_of_nat (user_phys r idx va))"

lemma user_phys_table:
  assumes "peek (pent idx + 14) 32 r = table base" "va < 32768"
  shows "user_phys r idx va = phys_of base va"
proof -
  have i: "va div 1024 < 32" using assms(2) by simp
  have "peek (pent idx + 14) 32 r ! (va div 1024) = ppn_entry base (word_of_nat (va div 1024))"
    unfolding assms(1) using i by (simp add: table_def)
  then have e: "r (word_of_nat (pent idx + 14 + va div 1024)) = ppn_entry base (word_of_nat (va div 1024))"
    using i by (simp add: peek_nth del: of_nat_add)
  have "va div 1024 div 4 = va div 4096" by (simp flip: div_mult2_eq)
  moreover have "va mod 4096 = va div 1024 mod 4 * 1024 + va mod 1024"
    using mod_mult2_eq [of va 1024 4] by simp
  ultimately show ?thesis
    unfolding user_phys_def e unat_ppn_entry [OF i] by (simp add: phys_of_def algebra_simps)
qed

lemma outside_interval: "(\<And>l. l < len \<Longrightarrow> x \<noteq> p + l) \<Longrightarrow> x < p \<or> p + len \<le> (x :: nat)"
  by (metis add_diff_inverse_nat add_less_cancel_left not_le)

lemma block_disjoint:
  assumes "b < 56" "c < 56" "b \<noteq> c" "j < 512"
  shows "phys_of base (block_va b) + j < phys_of base (block_va c) \<or>
         phys_of base (block_va c) + 512 \<le> phys_of base (block_va b) + j"
proof (rule outside_interval, rule notI)
  fix l assume l: "l < 512" "phys_of base (block_va b) + j = phys_of base (block_va c) + l"
  then have "phys_of base (block_va b + j) = phys_of base (block_va c + l)"
    using phys_of_plus [of "block_va b" j base] phys_of_plus [of "block_va c" l base] assms(4)
    by (simp add: block_va_div)
  then have "block_va b + j = block_va c + l"
    by (rule phys_of_inject [rotated 2]) (use block_va_bound assms l(1) in force)+
  then show False using assms l(1) by (simp add: block_va_def)
qed

lemma image_at_block:
  assumes "pages_ok base n" "c \<le> n" "n \<le> 56" "\<And>i. length (f i) = 512" "b < c" "j < 512"
  shows "image_at base f c r (word_of_nat (phys_of base (block_va b) + j)) = f b ! j"
  using assms(2,5)
proof (induction c)
  case (Suc c)
  have bound: "phys_of base (block_va b) + j < 0x7000"
    using phys_block [OF assms(1), of b] Suc.prems assms(6) by simp
  show ?case
  proof (cases "b = c")
    case True
    then show ?thesis using bound assms(4,6) by (simp add: blit_at del: of_nat_add)
  next
    case False
    then have "b < c" using Suc.prems by simp
    then show ?thesis
      using Suc.IH Suc.prems(1) bound block_disjoint [of b c j base] assms(3,4,6)
      by (simp add: blit_off del: of_nat_add)
  qed
qed simp

lemma frame_disjoint:
  assumes "b < 56" "j < 512" "l < 3"
  shows "phys_of base (block_va b) + j \<noteq> phys_of base 0x1FD + l"
proof
  assume e: "phys_of base (block_va b) + j = phys_of base 0x1FD + l"
  have "phys_of base (block_va b + j) = phys_of base (0x1FD + l)"
    using phys_of_plus [of "block_va b" j base] phys_of_plus [of "0x1FD" l base] assms e
    by (simp add: block_va_div)
  then have "block_va b + j = 0x1FD + l"
    by (rule phys_of_inject [rotated 2]) (use block_va_bound [OF assms(1)] assms(2,3) in simp_all)
  then show False using assms(3) by (simp add: block_va_def)
qed


lemma proc_fields_low: "a < 0x7000 \<Longrightarrow> proc_fields (pent idx) lba n r (word_of_nat a) = r (word_of_nat a)"
  by (simp add: proc_fields_def blit_off pent_def)

lemma frame_low:
  assumes "pages_ok base n"
  shows "0x1000 \<le> phys_of base 0x1FD" "phys_of base 0x1FD + 3 \<le> 0x7000"
proof -
  have "0 \<in> set [0..<Suc ((n + 7) div 8)]" by (simp only: set_upt atLeastLessThan_iff) simp
  then have ok: "(unat base + 0) mod 8 \<noteq> 0" "(unat base + 0) mod 8 \<noteq> 7"
    using assms unfolding pages_ok_def by blast+
  show "0x1000 \<le> phys_of base 0x1FD" by (rule phys_of_kernel) (use ok in simp_all)
  have "phys_of base 0x1FF < 0x7000" by (rule phys_of_kernel) (use ok in simp_all)
  then show "phys_of base 0x1FD + 3 \<le> 0x7000" using phys_of_plus [of "0x1FD" 2 base] by simp
qed

text \<open>\<open>spawn_ram\<close>, field by field.\<close>

lemma spawn_ram_table:
  assumes "pages_ok base n" "n \<le> 56" "idx < 4"
  shows "peek (pent idx + 14) 32 (spawn_ram img lba n base idx r) = table base"
proof -
  have p: "0x7000 \<le> pent idx" "pent idx + 64 \<le> 0x7100" using assms(3) by (simp_all add: pent_def)
  note f = frame_low [OF assms(1)]
  have "peek (pent idx + 14) 32 (spawn_ram img lba n base idx r) =
      peek (pent idx + 14) 32 (image_at base (prog_block img lba) n
            (blit 0x7100 (prog_block img lba 0) (blit (pent idx + 14) (table base) r)))"
    using p f unfolding spawn_ram_def Let_def proc_fields_def
    by (simp add: peek_blit_other del: peek_blit)
  also have "\<dots> = peek (pent idx + 14) 32 (blit 0x7100 (prog_block img lba 0) (blit (pent idx + 14) (table base) r))"
    by (rule image_at_other [OF assms(1) order_refl]) (use p in simp_all)
  also have "\<dots> = table base"
    using p peek_blit [of "pent idx + 14" "table base"] by (simp add: peek_blit_other)
  finally show ?thesis .
qed

lemma blit3_off: "n < p \<or> p + 3 \<le> n \<Longrightarrow> n < 32768 \<Longrightarrow> blit p [x, y, z] r (word_of_nat n) = r (word_of_nat n)"
  by (rule blit_off) auto

lemma spawn_ram_image:
  assumes "pages_ok base n" "n \<le> 56" "idx < 4" "b < n" "j < 512"
  shows "spawn_ram img lba n base idx r (word_of_nat (phys_of base (block_va b + j))) = prog_block img lba b ! j"
proof -
  have b: "phys_of base (block_va b) + j < 0x7000" using phys_block [OF assms(1,4)] assms(5) by simp
  have "phys_of base (block_va b) + j < phys_of base 0x1FD \<or> phys_of base 0x1FD + 3 \<le> phys_of base (block_va b) + j"
    by (rule outside_interval) (use frame_disjoint assms(2,4,5) in force)
  then have "spawn_ram img lba n base idx r (word_of_nat (phys_of base (block_va b) + j)) = prog_block img lba b ! j"
    using image_at_block [OF assms(1) order_refl assms(2) _ assms(4,5), of "prog_block img lba"] b
    by (simp add: spawn_ram_def Let_def proc_fields_low blit3_off del: of_nat_add)
  then show ?thesis
    using phys_of_plus [of "block_va b" j base] assms(5) by (simp add: block_va_div)
qed

lemma spawn_ram_frame:
  assumes "pages_ok base n" "l < 3"
  shows "spawn_ram img lba n base idx r (word_of_nat (phys_of base (0x1FD + l))) =
         [0x20, prog_block img lba 0 ! 4, prog_block img lba 0 ! 5] ! l"
proof -
  have "phys_of base (0x1FD + l) = phys_of base 0x1FD + l" using phys_of_plus [of "0x1FD" l base] assms(2) by simp
  then show ?thesis
    using frame_low [OF assms(1)] assms(2)
    by (simp add: spawn_ram_def Let_def proc_fields_low blit_at del: of_nat_add)
qed

lemma spawn_ram_fields:
  assumes "idx < 4"
  shows "spawn_ram img lba n base idx r (word_of_nat (pent idx)) = PROC_STATE_WAITING"
    "spawn_ram img lba n base idx r (word_of_nat (pent idx + 13)) = 0xFC"
  using assms
  by (simp_all add: spawn_ram_def Let_def proc_fields_def blit_at blit_off pent_def del: of_nat_add of_nat_numeral)

text \<open>Everything else is left alone.\<close>

lemma image_at_frame:
  assumes "c \<le> n" "\<And>i. length (f i) = 512" "a < 32768" "a < 0x7100 \<or> 0x7300 \<le> a"
    "\<And>b. b < n \<Longrightarrow> a < phys_of base (block_va b) \<or> phys_of base (block_va b) + 512 \<le> a"
  shows "image_at base f c r (word_of_nat a) = r (word_of_nat a)"
  using assms(1)
proof (induction c)
  case (Suc c)
  then show ?case using assms(2-4) assms(5) [of c] by (auto simp: blit_off simp del: of_nat_add)
qed simp

lemma spawn_ram_other:
  assumes "a < 32768" "a < 0x7100 \<or> 0x7300 \<le> a" "a < pent idx \<or> pent idx + 64 \<le> a"
    "a < phys_of base 0x1FD \<or> phys_of base 0x1FD + 3 \<le> a"
    "\<And>b. b < n \<Longrightarrow> a < phys_of base (block_va b) \<or> phys_of base (block_va b) + 512 \<le> a"
  shows "spawn_ram img lba n base idx r (word_of_nat a) = r (word_of_nat a)"
proof -
  have "image_at base (prog_block img lba) n r' (word_of_nat a) = r' (word_of_nat a)" for r'
    by (rule image_at_frame [OF order_refl _ assms(1,2,5)]) simp_all
  then show ?thesis
    using assms(1-4)
    by (auto simp: spawn_ram_def Let_def proc_fields_def blit_off blit3_off simp del: of_nat_add)
qed


section \<open>Failures\<close>

text \<open>What goes wrong, in the order of the code: the value returned and the message printed.\<close>

definition spawn_fail :: "u32 \<Rightarrow> kern \<Rightarrow> (u8 \<times> string) option" where
  "spawn_fail lba k =
     (if 4 \<le> nprocs k then Some (1, ''spawn: too many procs'')
      else (case disk_img (mach k) of
              None \<Rightarrow> Some (1, ''spawn: read fail'')
            | Some img \<Rightarrow> if valid_bbx (sector_of img lba) then None
                          else Some (2, ''spawn: bad BBX magic'')))"

lemma spawn_bbx_full:
  assumes "kmode (mach k)" "4 \<le> nprocs k"
  shows "\<exists>m'. spawn_bbx lba nb base k = Some (1, k\<lparr>mach := m'\<rparr>) \<and> ram m' = ram (mach k) \<and>
           env m' = env (emit (map of_char (''spawn: too many procs'' @ crlf)) (mach k))"
  using k_print_lit_env [OF assms(1), of "''spawn: too many procs'' @ crlf"] assms(2)
  by (auto simp: spawn_bbx_def simp del: append.simps)

lemma emit_env: "env m' = env m \<Longrightarrow> env (emit bs m') = env (emit bs m)"
  by (simp add: env_iff emit_def emit_acia_def emit_gpu_def)

lemma spawn_bbx_no_disk:
  assumes "kmode (mach k)" "nprocs k < 4" "disk_img (mach k) = None"
  shows "\<exists>m'. spawn_bbx lba nb base k = Some (1, k\<lparr>mach := m'\<rparr>) \<and>
           ram m' = blit (pent (unat (nprocs k)) + 14) (table base) (ram (mach k)) \<and>
           env m' = env (emit (map of_char (''spawn: read fail'' @ crlf)) (mach k))"
proof -
  let ?p = "pent (unat (nprocs k))"
  have i: "unat (nprocs k) < 4" using assms(2) by (simp add: word_less_nat_alt)
  have p: "?p + 64 \<le> 0x7100" using i by (simp add: pent_def)
  let ?m1 = "fill_ppn (word_of_nat ?p) base 0 (mach k)"
  have m1: "ram ?m1 = blit (?p + 14) (table base) (ram (mach k))" "env ?m1 = env (mach k)"
    using fill_ppn_env [OF assms(1), of ?p 0 base] p by (simp_all add: table_def)
  have k1: "kmode ?m1" by (rule kmode_env [OF m1(2) assms(1)])
  have d1: "disk_img ?m1 = None" using m1(2) assms(3) by (simp add: env_iff)
  obtain m2 where m2: "block_read lba block_buf ?m1 = Some (1, m2)" "ram m2 = ram ?m1" "env m2 = env (mach k)"
    using block_read_fails [OF k1 d1, of "0x7100" lba] m1(2) by (auto simp: block_buf_def)
  have k2: "kmode m2" by (rule kmode_env [OF m2(3) assms(1)])
  obtain m3 where m3: "k_print_lit (''spawn: read fail'' @ crlf) m2 = Some m3" "ram m3 = ram m2"
      "env m3 = env (emit (map of_char (''spawn: read fail'' @ crlf)) m2)"
    using k_print_lit_env [OF k2] by blast
  have n4: "\<not> 4 \<le> nprocs k" using assms(2) by (simp only: not_le)
  have "spawn_bbx lba nb base k = Some (1, k\<lparr>mach := m3\<rparr>)"
    unfolding spawn_bbx_def if_not_P [OF n4] Let_def plist_at_nat [OF i] m2(1) bind.bind_lunit prod.case
    by (simp add: m3(1) del: append.simps)
  then show ?thesis
    using m3(2,3) m2(2) m1(1) emit_env [OF m2(3)] by metis
qed

lemma spawn_bbx_bad_magic:
  assumes "kmode (mach k)" "nprocs k < 4" "disk_img (mach k) = Some img" "lba_ok lba"
    "\<not> valid_bbx (sector_of img lba)"
  shows "\<exists>m'. spawn_bbx lba nb base k = Some (2, k\<lparr>mach := m'\<rparr>) \<and>
           ram m' = blit 0x7100 (sector_of img lba)
                      (blit (pent (unat (nprocs k)) + 14) (table base) (ram (mach k))) \<and>
           env m' = env (emit (map of_char (''spawn: bad BBX magic'' @ crlf)) (mach k))"
proof -
  let ?p = "pent (unat (nprocs k))" and ?s = "sector_of img lba"
  have i: "unat (nprocs k) < 4" using assms(2) by (simp add: word_less_nat_alt)
  have p: "?p + 64 \<le> 0x7100" using i by (simp add: pent_def)
  let ?m1 = "fill_ppn (word_of_nat ?p) base 0 (mach k)"
  have m1: "ram ?m1 = blit (?p + 14) (table base) (ram (mach k))" "env ?m1 = env (mach k)"
    using fill_ppn_env [OF assms(1), of ?p 0 base] p by (simp_all add: table_def)
  have k1: "kmode ?m1" by (rule kmode_env [OF m1(2) assms(1)])
  have d1: "disk_img ?m1 = Some img" using m1(2) assms(3) by (simp add: env_iff)
  obtain m2 where m2: "block_read lba block_buf ?m1 = Some (0, m2)" "ram m2 = blit 0x7100 ?s (ram ?m1)"
      "env m2 = env (mach k)"
    using block_read_env [OF k1 d1 assms(4), of "0x7100"] m1(2) by (auto simp: block_buf_def)
  have k2: "kmode m2" by (rule kmode_env [OF m2(3) assms(1)])
  have b2: "peek 0x7100 512 (ram m2) = ?s" unfolding m2(2) using peek_blit [of "0x7100" ?s] by simp
  obtain m3 where m3: "bad_magic m2 = (True, m3)" "ram m3 = ram m2" "env m3 = env (mach k)"
    using bad_magic_env [OF k2 b2] m2(3) assms(5) by auto
  have k3: "kmode m3" by (rule kmode_env [OF m3(3) assms(1)])
  obtain m4 where m4: "k_print_lit (''spawn: bad BBX magic'' @ crlf) m3 = Some m4" "ram m4 = ram m3"
      "env m4 = env (emit (map of_char (''spawn: bad BBX magic'' @ crlf)) m3)"
    using k_print_lit_env [OF k3] by blast
  have n4: "\<not> 4 \<le> nprocs k" using assms(2) by (simp only: not_le)
  have "spawn_bbx lba nb base k = Some (2, k\<lparr>mach := m4\<rparr>)"
    unfolding spawn_bbx_def if_not_P [OF n4] Let_def plist_at_nat [OF i] m2(1) bind.bind_lunit prod.case
    by (simp add: m3(1) m4(1) del: append.simps)
  then show ?thesis
    using m4(2,3) m3(2) m2(2) m1(1) emit_env [OF m3(3)] by metis
qed


section \<open>Properties\<close>

text \<open>
  C8: \<open>spawn_bbx\<close> of a valid program into pages that are not the kernel's returns 0 and makes
  one process more. Through the page table of that process, virtual \<open>$1000 + 512 b + j\<close> holds
  byte \<open>j\<close> of the program's block \<open>b\<close>, and its stack holds the frame (status \<open>$20\<close>, entry point)
  that \<open>rti\<close> pops at the saved stack pointer \<open>$FC\<close>; the process waits. Nothing is printed and
  the disk and the MMU keep their state.
\<close>

theorem spawn_loads_program:
  assumes "kmode (mach k)" "nprocs k < 4" "disk_img (mach k) = Some img" "lba_ok lba" "n \<le> 56"
    "\<And>b. b < n \<Longrightarrow> lba_ok (lba + word_of_nat b)" "pages_ok base n" "valid_bbx (sector_of img lba)"
  shows "\<exists>m'. spawn_bbx lba (word_of_nat n) base k = Some (0, k\<lparr>mach := m', nprocs := nprocs k + 1\<rparr>) \<and>
           (\<forall>b < n. \<forall>j < 512. user_byte (ram m') (unat (nprocs k)) (0x1000 + 512 * b + j) =
              sector_of img (lba + word_of_nat b) ! j) \<and>
           map (user_byte (ram m') (unat (nprocs k))) [0x1FD, 0x1FE, 0x1FF] =
              [0x20, sector_of img lba ! 4, sector_of img lba ! 5] \<and>
           ram m' (word_of_nat (pent (unat (nprocs k)))) = PROC_STATE_WAITING \<and>
           ram m' (word_of_nat (pent (unat (nprocs k)) + 13)) = 0xFC \<and> env m' = env (mach k)"
proof -
  let ?i = "unat (nprocs k)"
  have i: "?i < 4" using assms(2) by (simp add: word_less_nat_alt)
  obtain m' where m': "spawn_bbx lba (word_of_nat n) base k = Some (0, k\<lparr>mach := m', nprocs := nprocs k + 1\<rparr>)"
      "ram m' = spawn_ram img lba n base ?i (ram (mach k))" "env m' = env (mach k)"
    using spawn_bbx_ok [OF assms] by blast
  have up: "user_phys (ram m') ?i va = phys_of base va" if "va < 32768" for va
    unfolding m'(2) by (rule user_phys_table [OF spawn_ram_table [OF assms(7,5) i] that])
  have ub: "user_byte (ram m') ?i va = spawn_ram img lba n base ?i (ram (mach k)) (word_of_nat (phys_of base va))"
    if "va < 32768" for va
    unfolding user_byte_def up [OF that] by (simp only: m'(2))
  have "user_byte (ram m') ?i (0x1000 + 512 * b + j) = sector_of img (lba + word_of_nat b) ! j"
    if "b < n" "j < 512" for b j
    using spawn_ram_image [OF assms(7,5) i that, of img lba "ram (mach k)"] ub [of "0x1000 + 512 * b + j"] that assms(5)
    by (simp add: prog_block_def block_va_def)
  moreover have "map (user_byte (ram m') ?i) [0x1FD, 0x1FE, 0x1FF] =
      [0x20, sector_of img lba ! 4, sector_of img lba ! 5]"
    using spawn_ram_frame [OF assms(7), of 0] spawn_ram_frame [OF assms(7), of 1]
      spawn_ram_frame [OF assms(7), of 2]
    by (simp add: ub prog_block_def)
  ultimately show ?thesis
    using m' spawn_ram_fields [OF i, of img lba n base "ram (mach k)"] by auto
qed

definition demo_bbx :: "u8 list" where
  "demo_bbx = [0x42, 0x58, 0x00, 0x10, 0x06, 0x10, 0xEA]"

definition demo_kern :: "u8 list option \<Rightarrow> u8 \<Rightarrow> kern" where
  "demo_kern img n = \<lparr>mach = power_on (\<lambda>_. 0) (\<lambda>_. 0xEA) (\<lambda>_. 0) img (\<lambda>_. None) (\<lambda>n. n), nprocs = n,
                      plist_idx = 0, SP = 0xFF, ret_at = (\<lambda>s. 0x0300)\<rparr>"

lemma demo_kern_fields [simp]:
  "kmode (mach (demo_kern img n))" "nprocs (demo_kern img n) = n" "disk_img (mach (demo_kern img n)) = img"
  by (simp_all add: demo_kern_def kmode_def mmu_reset_def)

lemma demo_valid: "valid_bbx (sector_of demo_bbx 0)"
  by (simp add: valid_bbx_def sector_of_def demo_bbx_def)

theorem spawn_loads_program_witness:
  "\<exists>m'. spawn_bbx 0 1 3 (demo_kern (Some demo_bbx) 1) = Some (0, (demo_kern (Some demo_bbx) 1)\<lparr>mach := m', nprocs := 2\<rparr>) \<and>
     user_byte (ram m') 1 0x1006 = 0xEA"
proof -
  have l: "lba_ok (0 + word_of_nat b)" if "b < 1" for b using that by (simp add: lba_ok_def)
  have s: "user_byte r 1 0x1006 = 0xEA"
    if "\<forall>b<1. \<forall>j<512. user_byte r 1 (0x1000 + 512 * b + j) = sector_of demo_bbx (0 + word_of_nat b) ! j" for r
    using that [rule_format, of 0 6] by (simp add: sector_of_def demo_bbx_def)
  show ?thesis
    using spawn_loads_program [of "demo_kern (Some demo_bbx) 1" demo_bbx 0 1 3, OF _ _ _ _ _ l] s
    by (auto simp: demo_valid lba_ok_def pages_ok_def)
qed

text \<open>
  C28: the failures of \<open>spawn_bbx\<close>: table full, unreadable disk, no BBX magic. Each returns its
  code (1, 1, 2) after printing its message on both consoles, makes no process, and changes no
  byte of RAM outside the page table of the free entry and the sector buffer.
\<close>

theorem spawn_error:
  assumes "kmode (mach k)" "lba_ok lba" "spawn_fail lba k = Some (e, msg)"
  shows "\<exists>m'. spawn_bbx lba nb base k = Some (e, k\<lparr>mach := m'\<rparr>) \<and>
           acia_out m' = acia_out (mach k) @ map of_char (msg @ crlf) \<and>
           gpu_out m' = gpu_out (mach k) @ map of_char (msg @ crlf) \<and>
           disk_img m' = disk_img (mach k) \<and> ppn (mmu m') = ppn (mmu (mach k)) \<and>
           (\<forall>a. ram m' a = ram (mach k) a \<or> (0x7100 \<le> unat a \<and> unat a < 0x7300) \<or>
              (pent (unat (nprocs k)) + 14 \<le> unat a \<and> unat a < pent (unat (nprocs k)) + 46))"
proof -
  have out: "env m' = env (emit bs (mach k)) \<Longrightarrow>
      acia_out m' = acia_out (mach k) @ bs \<and> gpu_out m' = gpu_out (mach k) @ bs \<and>
      disk_img m' = disk_img (mach k) \<and> ppn (mmu m') = ppn (mmu (mach k))" for m' bs
    by (simp add: env_iff)
  let ?mem = "\<lambda>m'. \<forall>a. ram m' a = ram (mach k) a \<or> (0x7100 \<le> unat a \<and> unat a < 0x7300) \<or>
              (pent (unat (nprocs k)) + 14 \<le> unat a \<and> unat a < pent (unat (nprocs k)) + 46)"
  consider (full) "4 \<le> nprocs k" | (nodisk) "nprocs k < 4" "disk_img (mach k) = None"
    | (img) img where "nprocs k < 4" "disk_img (mach k) = Some img" "\<not> valid_bbx (sector_of img lba)"
    using assms(3) by (auto simp: spawn_fail_def not_le split: option.splits if_splits)
  then show ?thesis
  proof cases
    case full
    then have em: "e = 1" "msg = ''spawn: too many procs''" using assms(3) by (auto simp: spawn_fail_def)
    then show ?thesis using spawn_bbx_full [OF assms(1) full, of lba nb base] out by auto
  next
    case nodisk
    then have em: "e = 1" "msg = ''spawn: read fail''" using assms(3) by (auto simp: spawn_fail_def simp flip: not_less)
    obtain m' where m': "spawn_bbx lba nb base k = Some (1, k\<lparr>mach := m'\<rparr>)"
        "ram m' = blit (pent (unat (nprocs k)) + 14) (table base) (ram (mach k))"
        "env m' = env (emit (map of_char (''spawn: read fail'' @ crlf)) (mach k))"
      using spawn_bbx_no_disk [OF assms(1) nodisk, of lba nb base] by blast
    have "?mem m'" unfolding m'(2) by (auto simp: blit_def)
    then show ?thesis unfolding em using m'(1) out [OF m'(3)] by blast
  next
    case img
    then have em: "e = 2" "msg = ''spawn: bad BBX magic''" using assms(3) by (auto simp: spawn_fail_def simp flip: not_less)
    obtain m' where m': "spawn_bbx lba nb base k = Some (2, k\<lparr>mach := m'\<rparr>)"
        "ram m' = blit 0x7100 (sector_of img lba) (blit (pent (unat (nprocs k)) + 14) (table base) (ram (mach k)))"
        "env m' = env (emit (map of_char (''spawn: bad BBX magic'' @ crlf)) (mach k))"
      using spawn_bbx_bad_magic [OF assms(1) img(1,2) assms(2) img(3), of nb base] by blast
    have "?mem m'" unfolding m'(2) by (auto simp: blit_def)
    then show ?thesis unfolding em using m'(1) out [OF m'(3)] by blast
  qed
qed

theorem spawn_error_witness:
  "\<exists>m'. spawn_bbx 0 1 3 (demo_kern (Some []) 1) = Some (2, (demo_kern (Some []) 1)\<lparr>mach := m'\<rparr>) \<and>
     acia_out m' = map of_char (''spawn: bad BBX magic'' @ crlf)"
proof -
  have f: "spawn_fail 0 (demo_kern (Some []) 1) = Some (2, ''spawn: bad BBX magic'')"
    by (simp add: spawn_fail_def valid_bbx_def sector_of_def word_le_nat_alt)
  have "acia_out (mach (demo_kern (Some []) 1)) = []" by (simp add: demo_kern_def)
  then show ?thesis
    using spawn_error [of "demo_kern (Some []) 1" 0, OF _ _ f, of 1 3] by (auto simp: lba_ok_def)
qed

end
