(* ===== verification/Yield.thy ===== *)
theory Yield
  imports Load
begin

text \<open>
  The context switch: what \<open>switch_out\<close>, \<open>schedule_process\<close>, \<open>switch_in\<close> and the return to
  user mode do to the process table, the MMU and the stack pointer, as a step on an abstract
  table of saved contexts; the scheduler's invariant over every interleaving of user code and
  yields.
\<close>

section \<open>User-mode stack accesses\<close>

lemma posedge_read:
  "ram (posedge False a d m) = ram m" "env (posedge False a d m) = env m"
proof -
  have c: "core (posedge False a d m) = dptr_block a (core m)"
    by (simp add: core_posedge write_block_def)
  have "ram (dptr_block a (core m)) = ram m" "env (dptr_block a (core m)) = env m"
    by (simp_all add: dptr_block_def env_def)
  then show "ram (posedge False a d m) = ram m" "env (posedge False a d m) = env m"
    using core_env [OF c] by simp_all
qed

text \<open>The byte of the stack page of a process whose page table is \<open>t\<close>.\<close>

definition stack_byte :: "(15 word \<Rightarrow> u8) \<Rightarrow> (5 word \<Rightarrow> 5 word) \<Rightarrow> u8 \<Rightarrow> u8" where
  "stack_byte r t sp = r (word_of_nat (unat (t 0) * 1024 + 256 + unat sp))"

lemma stack_addr:
  fixes sp :: u8
  assumes "\<not> kernel m"
  shows "vpn (0x0100 + ucast sp) = 0" "ram_access (0x0100 + ucast sp)"
    "ram_addr m (0x0100 + ucast sp) = word_of_nat (unat (ppn m 0) * 1024 + 256 + unat sp)"
proof -
  have u: "unat (0x0100 + ucast sp :: u16) = 256 + unat sp"
    using unat_u8_lt [of sp] by (simp add: unat_word_ariths unat_ucast_mod)
  have p: "unat (ppn m 0) < 32" using unat_lt_2p [of "ppn m 0"] by simp
  have v: "unat (vpn (0x0100 + ucast sp)) = 0"
    using unat_u8_lt [of sp] by (simp add: unat_vpn u)
  then show v0: "vpn (0x0100 + ucast sp) = 0" by (simp add: unat_eq_0)
  show "ram_access (0x0100 + ucast sp)"
    using unat_u8_lt [of sp] by (simp add: ram_access_iff word_less_nat_alt u)
  have "unat (ram_addr m (0x0100 + ucast sp)) = unat (ppn m 0) * 1024 + (256 + unat sp)"
    using unat_ram_addr_user [OF assms, of "0x0100 + ucast sp"] unat_u8_lt [of sp]
    by (simp add: v0 u)
  then show "ram_addr m (0x0100 + ucast sp) = word_of_nat (unat (ppn m 0) * 1024 + 256 + unat sp)"
    using p unat_u8_lt [of sp] by (simp add: word_unat_eq_iff unat_of_nat_15 add.assoc del: of_nat_add)
qed

lemma pull_user:
  assumes "\<not> kmode (mach k)" "bit (u_bits (mmu (mach k))) 0"
  shows "\<exists>m'. pull k = (stack_byte (ram (mach k)) (ppn (mmu (mach k))) (SP k + 1), k\<lparr>mach := m', SP := SP k + 1\<rparr>) \<and>
           ram m' = ram (mach k) \<and> env m' = env (mach k)"
proof -
  let ?a = "0x0100 + ucast (SP k + 1) :: u16" and ?m = "mach k"
  have nk: "\<not> kernel (mmu ?m)" using assms(1) by (simp add: kmode_def)
  note s = stack_addr [OF nk, of "SP k + 1"]
  have nf: "\<not> fault_any (mmu ?m) True ?a"
    using assms(2) nk s(1) by (simp add: fault_any_def fault_u_def fault_w_def fault_ctrl_def)
  have ng: "mmu_negedge True True True ?a 0 (mmu ?m) = (mmu ?m)\<lparr>fault_reg := False\<rparr>"
    using nf by (simp add: mmu_negedge_def)
  let ?m1 = "?m\<lparr>mmu := (mmu ?m)\<lparr>fault_reg := False\<rparr>\<rparr>"
  have rd: "read_mux ?a ?m1 = stack_byte (ram ?m) (ppn (mmu ?m)) (SP k + 1)"
  proof -
    have "\<not> bit ?a 15" using s(2) by (simp add: ram_access_def)
    moreover have "ram_addr ((mmu ?m)\<lparr>fault_reg := False\<rparr>) ?a = ram_addr (mmu ?m) ?a"
      by (simp add: ram_addr_def)
    ultimately show ?thesis by (simp add: read_mux_def stack_byte_def s(3) del: of_nat_add)
  qed
  have "env ?m1 = env ?m" by (simp add: env_def)
  then show ?thesis
    using posedge_read [of ?a 0 ?m1]
    by (intro exI [of _ "posedge False ?a 0 ?m1"]) (simp add: pull_def Let_def bus_cycle_def ng rd)
qed

lemma ctrl_user: "ctrl_write 0x28 0 m = m\<lparr>kernel := False\<rparr>"
  by (simp add: ctrl_write_def)

text \<open>The machine after the switch to user mode.\<close>

definition to_user :: "machine \<Rightarrow> machine" where
  "to_user m = m\<lparr>mmu := (mmu m)\<lparr>kernel := False\<rparr>\<rparr>"

lemma wr_mmu_ctrl:
  assumes "kmode m"
  shows "ram (mem_write MMU_CTRL 0 m) = ram m" "env (mem_write MMU_CTRL 0 m) = env (to_user m)"
proof -
  have "is_ctrl MMU_CTRL" "reg_off MMU_CTRL = 0x28"
    by (simp_all add: MMU_CTRL_def is_ctrl_iff reg_off_def)
  then show "ram (mem_write MMU_CTRL 0 m) = ram m" "env (mem_write MMU_CTRL 0 m) = env (to_user m)"
    using wr_ctrl [OF assms, of MMU_CTRL 0] by (simp_all add: ctrl_user to_user_def)
qed

lemma env_to_user: "env m' = env m \<Longrightarrow> env (to_user m') = env (to_user m)"
  by (simp add: env_iff to_user_def)

lemma ret_user_mode_spec:
  assumes "kmode (mach k)" "bit (u_bits (mmu (mach k))) 0" "stk = stack_byte (ram (mach k)) (ppn (mmu (mach k)))"
  shows "\<exists>m'. ret_user_mode k =
           ((stk (SP k + 1), le16 (stk (SP k + 2)) (stk (SP k + 3))), k\<lparr>mach := m', SP := SP k + 3\<rparr>) \<and>
           ram m' = ram (mach k) \<and> env m' = env (to_user (mach k))"
proof -
  let ?k0 = "k\<lparr>mach := mem_write MMU_CTRL 0 (mach k)\<rparr>"
  have e0: "ram (mach ?k0) = ram (mach k)" "env (mach ?k0) = env (to_user (mach k))"
    using wr_mmu_ctrl [OF assms(1)] by simp_all
  have u: "\<not> kmode m" "bit (u_bits (mmu m)) 0" "ppn (mmu m) = ppn (mmu (mach k))"
    if "env m = env (to_user (mach k))" for m
    using that assms(2) by (auto simp: env_iff to_user_def kmode_def)
  obtain m1 where m1: "pull ?k0 = (stk (SP k + 1), ?k0\<lparr>mach := m1, SP := SP k + 1\<rparr>)"
      "ram m1 = ram (mach k)" "env m1 = env (to_user (mach k))"
    using pull_user [of ?k0] u [OF e0(2)] e0 by (auto simp: assms(3))
  let ?k1 = "?k0\<lparr>mach := m1, SP := SP k + 1\<rparr>"
  obtain m2 where m2: "pull ?k1 = (stk (SP k + 2), ?k1\<lparr>mach := m2, SP := SP k + 2\<rparr>)"
      "ram m2 = ram (mach k)" "env m2 = env (to_user (mach k))"
    using pull_user [of ?k1] u [OF m1(3)] m1 by (auto simp: assms(3) add.assoc)
  let ?k2 = "?k1\<lparr>mach := m2, SP := SP k + 2\<rparr>"
  obtain m3 where m3: "pull ?k2 = (stk (SP k + 3), ?k2\<lparr>mach := m3, SP := SP k + 3\<rparr>)"
      "ram m3 = ram (mach k)" "env m3 = env (to_user (mach k))"
    using pull_user [of ?k2] u [OF m2(3)] m2 by (auto simp: assms(3) add.assoc)
  show ?thesis
    using m1(1) m2(1) m3 by (intro exI [of _ m3]) (simp add: ret_user_mode_def)
qed

section \<open>Saved contexts\<close>

record pctx =
  p_sp :: u8
  p_tab :: "5 word \<Rightarrow> 5 word"

text \<open>The context saved in entry \<open>j\<close>, the state of entry \<open>j\<close>, and the context of the CPU.\<close>

definition saved :: "(15 word \<Rightarrow> u8) \<Rightarrow> nat \<Rightarrow> pctx" where
  "saved r j = \<lparr>p_sp = r (word_of_nat (pent j + 13)),
                p_tab = (\<lambda>v. ucast (r (word_of_nat (pent j + 14 + unat v))))\<rparr>"

definition pstate :: "(15 word \<Rightarrow> u8) \<Rightarrow> nat \<Rightarrow> u8" where
  "pstate r j = r (word_of_nat (pent j))"

definition cpu_ctx :: "kern \<Rightarrow> pctx" where
  "cpu_ctx k = \<lparr>p_sp = SP k, p_tab = ppn (mmu (mach k))\<rparr>"

lemma pent_bound: "j < 4 \<Longrightarrow> 0x7000 \<le> pent j \<and> pent j + 64 \<le> 0x7100"
  by (simp add: pent_def)

lemma pent_apart: "i < j \<Longrightarrow> pent i + 64 \<le> pent j"
  by (simp add: pent_def)

text \<open>Leaving process \<open>i\<close>.\<close>

definition out_ram :: "nat \<Rightarrow> u8 \<Rightarrow> (5 word \<Rightarrow> 5 word) \<Rightarrow> (15 word \<Rightarrow> u8) \<Rightarrow> 15 word \<Rightarrow> u8" where
  "out_ram i sp t r =
     blit (pent i + 14) (map (\<lambda>j. ucast (t (word_of_nat j))) [0..<32])
       (blit (pent i + 13) [sp] (blit (pent i) [PROC_STATE_WAITING] r))"

lemma switch_out_spec:
  assumes "kmode (mach k)" "unat (plist_idx k) < 4"
  shows "\<exists>m' q. switch_out k = k\<lparr>mach := m'\<rparr> \<and> env m' = env (mach k) \<and> same_except kscratch (ram (mach k)) q \<and>
           ram m' = out_ram (unat (plist_idx k)) (SP k) (ppn (mmu (mach k))) q"
proof -
  let ?p = "pent (unat (plist_idx k))"
  have p: "?p + 64 \<le> 0x7100" using pent_bound [OF assms(2)] by simp
  obtain m0 where m0: "calc_proc_ptr Save_ptr k = (word_of_nat ?p, k\<lparr>mach := m0\<rparr>)" "env m0 = env (mach k)"
      "same_except kscratch (ram (mach k)) (ram m0)"
    using calc_proc_ptr_spec [OF assms] by blast
  have k0: "kmode m0" by (rule kmode_env [OF m0(2) assms(1)])
  let ?m1 = "mem_write (word_of_nat (?p + 0)) PROC_STATE_WAITING m0"
  have m1: "ram ?m1 = blit (?p + 0) [PROC_STATE_WAITING] (ram m0)" "env ?m1 = env (mach k)"
    using wr_at [OF k0, of "?p + 0"] p m0(2) by simp_all
  have k1: "kmode ?m1" by (rule kmode_env [OF m1(2) assms(1)])
  let ?m2 = "mem_write (word_of_nat (?p + 13)) (SP k) ?m1"
  have m2: "ram ?m2 = blit (?p + 13) [SP k] (ram ?m1)" "env ?m2 = env (mach k)"
    using wr_at [OF k1, of "?p + 13"] p m1 by simp_all
  have k2: "kmode ?m2" by (rule kmode_env [OF m2(2) assms(1)])
  let ?m3 = "save_ppn (word_of_nat ?p) (word_of_nat (14 + 0)) (word_of_nat 0) ?m2"
  have m3: "ram ?m3 = blit (?p + 14 + 0) (map (\<lambda>j. ucast (ppn (mmu ?m2) (word_of_nat j))) [0..<32]) (ram ?m2) \<and>
      env ?m3 = env ?m2"
    by (rule save_ppn_env [OF k2]) (use p in simp_all)
  have t: "ppn (mmu ?m2) = ppn (mmu (mach k))" using m2(2) by (simp add: env_iff)
  have offs: "word_of_nat ?p + OFF_STATE = (word_of_nat (?p + 0) :: u16)"
    "word_of_nat ?p + OFF_SP = (word_of_nat (?p + 13) :: u16)" "ucast OFF_PPN0 = (word_of_nat (14 + 0) :: u8)"
    "(0 :: u8) = word_of_nat 0"
    by (simp_all add: proc_layout)
  have "switch_out k = k\<lparr>mach := ?m3\<rparr>"
    unfolding switch_out_def m0(1) prod.case Let_def offs by simp
  then show ?thesis
    using m3 m1 m2 t m0(3) by (intro exI [of _ ?m3] exI [of _ "ram m0"]) (simp add: out_ram_def)
qed


lemma saved_out_ram:
  assumes "i < 4" "j < 4"
  shows "saved (out_ram i sp t r) j = (if j = i then \<lparr>p_sp = sp, p_tab = t\<rparr> else saved r j)"
    and "pstate (out_ram i sp t r) j = (if j = i then PROC_STATE_WAITING else pstate r j)"
proof -
  have b: "pent j + 64 \<le> 32768" using pent_bound [OF assms(2)] by simp
  have v: "unat (v :: 5 word) < 32" for v using unat_lt_2p [of v] by simp
  have same: "ucast (ucast x :: u8) = (x :: 5 word)" for x
    using unat_lt_2p [of x] by (simp add: word_unat_eq_iff unat_ucast_mod)
  consider (eq) "j = i" | (lt) "pent j + 64 \<le> pent i" | (gt) "pent i + 64 \<le> pent j"
    using pent_apart linorder_neqE_nat by metis
  then have "saved (out_ram i sp t r) j = (if j = i then \<lparr>p_sp = sp, p_tab = t\<rparr> else saved r j) \<and>
      pstate (out_ram i sp t r) j = (if j = i then PROC_STATE_WAITING else pstate r j)"
  proof cases
    case eq
    have tb: "out_ram i sp t r (word_of_nat (pent i + 14 + unat v)) = ucast (t v)" for v :: "5 word"
      using v [of v] b eq by (simp add: out_ram_def blit_at del: of_nat_add)
    show ?thesis
      using b unfolding saved_def eq tb same
      by (simp add: pstate_def out_ram_def blit_at blit_off del: of_nat_add)
  next
    case lt
    have tb: "out_ram i sp t r (word_of_nat (pent j + 14 + unat v)) = r (word_of_nat (pent j + 14 + unat v))"
      for v :: "5 word"
      using v [of v] b lt by (simp add: out_ram_def blit_off del: of_nat_add)
    show ?thesis
      using b lt unfolding saved_def tb
      by (auto simp: pstate_def out_ram_def blit_off simp del: of_nat_add)
  next
    case gt
    have tb: "out_ram i sp t r (word_of_nat (pent j + 14 + unat v)) = r (word_of_nat (pent j + 14 + unat v))"
      for v :: "5 word"
      using v [of v] b gt by (simp add: out_ram_def blit_off del: of_nat_add)
    show ?thesis
      using b gt unfolding saved_def tb
      by (auto simp: pstate_def out_ram_def blit_off simp del: of_nat_add)
  qed
  then show "saved (out_ram i sp t r) j = (if j = i then \<lparr>p_sp = sp, p_tab = t\<rparr> else saved r j)"
    "pstate (out_ram i sp t r) j = (if j = i then PROC_STATE_WAITING else pstate r j)" by blast+
qed

lemma out_ram_other:
  "i < 4 \<Longrightarrow> a < 0x7000 \<or> 0x7100 \<le> a \<Longrightarrow> a < 32768 \<Longrightarrow> out_ram i sp t r (word_of_nat a) = r (word_of_nat a)"
  using pent_bound [of i] by (auto simp: out_ram_def blit_off)

text \<open>What the assembly code writes for itself does not meet the process table.\<close>

lemma saved_scratch:
  assumes "same_except kscratch r r'" "j < 4"
  shows "saved r' j = saved r j" "pstate r' j = pstate r j"
proof -
  have b: "0x7000 \<le> pent j" "pent j + 64 \<le> 0x7100" using pent_bound [OF assms(2)] by simp_all
  have e: "r' (word_of_nat (pent j + l)) = r (word_of_nat (pent j + l))" if "l < 64" for l
    by (rule kscratch_keeps [OF assms(1)]) (use that b in simp_all)
  have v: "unat v < 32" for v :: "5 word" using unat_lt_2p [of v] by simp
  have "r' (word_of_nat (pent j + 14 + unat v)) = r (word_of_nat (pent j + 14 + unat v))" for v :: "5 word"
    using e [of "14 + unat v"] v [of v] by (simp only: add.assoc)
  then show "saved r' j = saved r j" using e [of 13] by (simp add: saved_def)
  show "pstate r' j = pstate r j" using e [of 0] by (simp add: pstate_def)
qed

lemma out_ram_scratch:
  assumes "i < 4" "same_except kscratch (out_ram i sp t q) r"
  shows "\<exists>q'. r = out_ram i sp t q' \<and> same_except kscratch q q'"
proof -
  let ?q = "\<lambda>a. if kscratch (unat a) then r a else q a"
  have "r a = out_ram i sp t ?q a" for a
  proof (cases "kscratch (unat a)")
    case True
    then have "unat a < 0x200" by (rule kscratch_low)
    then show ?thesis using out_ram_other [OF assms(1), of "unat a" sp t ?q] True by simp
  next
    case False
    have "unat a < 32768" using unat_lt_2p [of a] by simp
    then have "r a = out_ram i sp t q a" using same_exceptD [OF assms(2) False] by simp
    then show ?thesis using False by (simp add: out_ram_def blit_def)
  qed
  then have "r = out_ram i sp t ?q" by blast
  moreover have "same_except kscratch q ?q" by (simp add: same_except_def unat_of_nat_15)
  ultimately show ?thesis by blast
qed

text \<open>Entering process \<open>j\<close>.\<close>

definition in_ram :: "nat \<Rightarrow> (15 word \<Rightarrow> u8) \<Rightarrow> 15 word \<Rightarrow> u8" where
  "in_ram j r = blit (pent j) [PROC_STATE_RUNNING] r"

lemma saved_in_ram:
  assumes "i < 4" "j < 4"
  shows "saved (in_ram j r) i = saved r i"
    and "pstate (in_ram j r) i = (if i = j then PROC_STATE_RUNNING else pstate r i)"
proof -
  have b: "pent i + 64 \<le> 32768" using pent_bound [OF assms(1)] by simp
  have v: "unat (v :: 5 word) < 32" for v using unat_lt_2p [of v] by simp
  have d: "i = j \<or> pent i + 64 \<le> pent j \<or> pent j + 64 \<le> pent i"
    using pent_apart linorder_neqE_nat by metis
  have tb: "in_ram j r (word_of_nat (pent i + 14 + unat v)) = r (word_of_nat (pent i + 14 + unat v))"
    for v :: "5 word"
    using v [of v] b d by (auto simp: in_ram_def blit_off simp del: of_nat_add)
  have "in_ram j r (word_of_nat (pent i + 13)) = r (word_of_nat (pent i + 13))"
    using b d by (auto simp: in_ram_def blit_off simp del: of_nat_add)
  then show "saved (in_ram j r) i = saved r i" unfolding saved_def tb by simp
  show "pstate (in_ram j r) i = (if i = j then PROC_STATE_RUNNING else pstate r i)"
    using b d by (auto simp: pstate_def in_ram_def blit_at blit_off)
qed

lemma switch_in_spec:
  assumes "kmode (mach k)" "unat (plist_idx k) < 4" "bit (u_bits (mmu (mach k))) 0"
    "j = unat (plist_idx k)" "c = saved (ram (mach k)) j"
  shows "\<exists>m' q. switch_in s k = ((stack_byte (ram m') (p_tab c) (p_sp c + 1),
                      le16 (stack_byte (ram m') (p_tab c) (p_sp c + 2)) (stack_byte (ram m') (p_tab c) (p_sp c + 3))),
                     k\<lparr>mach := m', SP := p_sp c + 3\<rparr>) \<and>
           ram m' = in_ram j q \<and> same_except kscratch (ram (mach k)) q \<and>
           env m' = env (to_user ((mach k)\<lparr>mmu := (mmu (mach k))\<lparr>ppn := p_tab c\<rparr>\<rparr>))"
proof -
  let ?p = "pent j"
  have p: "?p + 64 \<le> 0x7100" using pent_bound [OF assms(2)] assms(4) by simp
  obtain m0 where m0: "calc_proc_ptr s k = (word_of_nat ?p, k\<lparr>mach := m0\<rparr>)" "env m0 = env (mach k)"
      "same_except kscratch (ram (mach k)) (ram m0)"
    using calc_proc_ptr_spec [OF assms(1,2)] assms(4) by blast
  have k0: "kmode m0" by (rule kmode_env [OF m0(2) assms(1)])
  let ?r = "in_ram j (ram m0)"
  let ?stk = "stack_byte ?r (p_tab c)"
  have cs: "saved ?r j = c"
    using saved_in_ram(1) [of j j] saved_scratch(1) [OF m0(3), of j] assms(2,4) unfolding assms(5) by simp
  let ?m1 = "mem_write (word_of_nat (?p + 0)) PROC_STATE_RUNNING m0"
  have m1: "ram ?m1 = ?r" "env ?m1 = env (mach k)"
    using wr_at [OF k0, of "?p + 0"] p m0(2) by (simp_all add: in_ram_def)
  have k1: "kmode ?m1" by (rule kmode_env [OF m1(2) assms(1)])
  have sp: "?r (word_of_nat (?p + 13)) = p_sp c" using cs by (auto simp: saved_def)
  obtain m2 where m2: "mem_read (word_of_nat (?p + 13)) ?m1 = (p_sp c, m2)" "ram m2 = ?r" "env m2 = env (mach k)"
    using rd_at [OF k1, of "?p + 13"] p m1 sp by auto
  have k2: "kmode m2" by (rule kmode_env [OF m2(3) assms(1)])
  let ?m3 = "restore_ppn (word_of_nat ?p) (word_of_nat (14 + 0)) (word_of_nat 0) m2"
  have tab: "p_tab c = (\<lambda>v. ucast (?r (word_of_nat (?p + 14 + unat v))))" using cs by (auto simp: saved_def)
  have m3: "ram ?m3 = ?r" "env ?m3 = env (m2\<lparr>mmu := (mmu m2)\<lparr>ppn := p_tab c\<rparr>\<rparr>)"
    using restore_ppn_env [OF k2, of ?p 0] p m2(2) unfolding tab by simp_all
  have e3: "env ?m3 = env ((mach k)\<lparr>mmu := (mmu (mach k))\<lparr>ppn := p_tab c\<rparr>\<rparr>)"
    using m3(2) m2(3) by (simp add: env_iff)
  let ?k3 = "k\<lparr>mach := ?m3, SP := p_sp c\<rparr>"
  have k3: "kmode (mach ?k3)" and u3: "bit (u_bits (mmu (mach ?k3))) 0" and t3: "ppn (mmu ?m3) = p_tab c"
    using e3 assms(1,3) by (simp_all add: env_iff kmode_def)
  have offs: "word_of_nat ?p + OFF_STATE = (word_of_nat (?p + 0) :: u16)"
    "word_of_nat ?p + OFF_SP = (word_of_nat (?p + 13) :: u16)" "ucast OFF_PPN0 = (word_of_nat (14 + 0) :: u8)"
    "(0 :: u8) = word_of_nat 0"
    by (simp_all add: proc_layout)
  have mm: "mach (k\<lparr>mach := m0\<rparr>) = m0" by simp
  have eq: "switch_in s k = ret_user_mode ?k3"
    unfolding switch_in_def m0(1) prod.case Let_def offs mm m2(1) kern_swap ..
  obtain m' where "ret_user_mode ?k3 = ((?stk (p_sp c + 1), le16 (?stk (p_sp c + 2)) (?stk (p_sp c + 3))),
        ?k3\<lparr>mach := m', SP := p_sp c + 3\<rparr>)" "ram m' = ?r" "env m' = env (to_user ?m3)"
    using ret_user_mode_spec [OF k3 u3, of ?stk] m3(1) t3 by auto
  then show ?thesis
    unfolding eq using env_to_user [OF e3] m0(3) by (intro exI [of _ m'] exI [of _ "ram m0"]) simp
qed


section \<open>do_yield\<close>

text \<open>
  The process table as the scheduler sees it, after the running process \<open>i\<close> has been marked
  WAITING, and the contexts: the running process's is the CPU's, the others are saved.
\<close>

definition next_proc :: "kern \<Rightarrow> nat" where
  "next_proc k = sched_pick (unat (nprocs k)) (unat (plist_idx k))
     (\<lambda>j. j = unat (plist_idx k) \<or> pstate (ram (mach k)) j = PROC_STATE_WAITING)"

definition ctx_of :: "kern \<Rightarrow> nat \<Rightarrow> pctx" where
  "ctx_of k j = (if j = unat (plist_idx k) then cpu_ctx k else saved (ram (mach k)) j)"

lemma pick_from_cong:
  assumes "\<And>l. l < n \<Longrightarrow> w l = w' l" "0 < n" "1 \<le> i"
  shows "i \<le> Suc n \<Longrightarrow> pick_from i n cur w = pick_from i n cur w'"
proof (induction "Suc n - i" arbitrary: i)
  case 0
  then have "i = Suc n" by simp
  then show ?case by (simp add: pick_from_simps)
next
  case (Suc d)
  then show ?case using assms(1) [of "(cur + i) mod n"] assms(2) by (simp add: pick_from_simps)
qed

lemma pick_from_less: "0 < n \<Longrightarrow> cur < n \<Longrightarrow> pick_from i n cur w < n"
  by (auto simp: pick_from_def find_Some_iff simp del: upt_Suc split: option.splits)

lemma next_proc_less: "0 < unat (nprocs k) \<Longrightarrow> unat (plist_idx k) < unat (nprocs k) \<Longrightarrow> next_proc k < unat (nprocs k)"
  by (simp add: next_proc_def sched_pick_def pick_from_less)

lemma do_yield_spec:
  assumes "kmode (mach k)" "unat (nprocs k) \<le> 4" "unat (plist_idx k) < unat (nprocs k)"
    "bit (u_bits (mmu (mach k))) 0" "c = ctx_of k (next_proc k)"
  shows "\<exists>m' q. do_yield k = Some ((stack_byte (ram m') (p_tab c) (p_sp c + 1),
                    le16 (stack_byte (ram m') (p_tab c) (p_sp c + 2)) (stack_byte (ram m') (p_tab c) (p_sp c + 3))),
                 k\<lparr>mach := m', plist_idx := word_of_nat (next_proc k), SP := p_sp c + 3\<rparr>) \<and>
           ram m' = in_ram (next_proc k) (out_ram (unat (plist_idx k)) (SP k) (ppn (mmu (mach k))) q) \<and>
           same_except kscratch (ram (mach k)) q \<and>
           env m' = env (to_user ((mach k)\<lparr>mmu := (mmu (mach k))\<lparr>ppn := p_tab c\<rparr>\<rparr>))"
proof -
  let ?i = "unat (plist_idx k)" and ?n = "unat (nprocs k)" and ?j = "next_proc k" and ?t = "ppn (mmu (mach k))"
  have i: "?i < 4" and j: "?j < ?n" and j4: "?j < 4"
    using assms(2,3) next_proc_less [of k] by simp_all
  obtain m1 q1 where m1: "switch_out k = k\<lparr>mach := m1\<rparr>" "env m1 = env (mach k)" "same_except kscratch (ram (mach k)) q1"
      "ram m1 = out_ram ?i (SP k) ?t q1"
    using switch_out_spec [OF assms(1) i] by blast
  have k1: "kmode m1" by (rule kmode_env [OF m1(2) assms(1)])
  obtain m2 where m2: "jsr Schedule (k\<lparr>mach := m1\<rparr>) = k\<lparr>mach := m2, SP := SP k - 2\<rparr>" "env m2 = env (mach k)"
      "same_except kscratch (ram m1) (ram m2)" "ram m2 (0x100 + ucast (SP k)) = hi8 (ret_at k Schedule)"
      "ram m2 (0x100 + ucast (SP k - 1)) = lo8 (ret_at k Schedule)"
    using jsr_scratch [of "k\<lparr>mach := m1\<rparr>" Schedule] k1 m1(2) by auto
  have k2: "kmode m2" by (rule kmode_env [OF m2(2) assms(1)])
  let ?r1 = "out_ram ?i (SP k) ?t q1"
  have s12: "same_except kscratch ?r1 (ram m2)" using m2(3) m1(4) by simp
  have w: "waiting (ram m2) l = (l = ?i \<or> pstate (ram (mach k)) l = PROC_STATE_WAITING)" if "l < ?n" for l
    using saved_out_ram(2) [OF i, of l "SP k" ?t q1] saved_scratch(2) [OF s12, of l] saved_scratch(2) [OF m1(3), of l] that assms(2)
    by (simp add: waiting_def pstate_def)
  have pick: "sched_pick ?n ?i (waiting (ram m2)) = ?j"
    unfolding next_proc_def sched_pick_def
    by (rule pick_from_cong) (use w assms(3) in auto)
  let ?k2 = "k\<lparr>mach := m2, SP := SP k - 2\<rparr>"
  obtain m3 where m3: "schedule_process ?k2 = Some (?k2\<lparr>mach := m3, plist_idx := word_of_nat ?j\<rparr>)"
      "ram m3 = ram m2" "env m3 = env (mach k)"
    using schedule_process_spec [of ?k2] k2 assms(2) m2(2) pick by auto
  have k3: "kmode m3" by (rule kmode_env [OF m3(3) assms(1)])
  let ?k3 = "k\<lparr>plist_idx := word_of_nat ?j\<rparr>"
  obtain m4 where m4: "rts (?k3\<lparr>mach := m3, SP := SP k - 2\<rparr>) = (ret_at k Schedule, ?k3\<lparr>mach := m4\<rparr>)" "ram m4 = ram m2" "env m4 = env (mach k)"
    using rts_after_jsr [OF k3, of "ret_at k Schedule" ?k3 Schedule] m2(4,5) m3(2,3) by auto
  let ?k4 = "?k3\<lparr>mach := m4\<rparr>"
  have k4: "kmode (mach ?k4)" and u4: "bit (u_bits (mmu (mach ?k4))) 0"
    using kmode_env [OF m4(3) assms(1)] m4(3) assms(4) by (simp_all add: env_iff)
  have jj: "unat (plist_idx ?k4) = ?j" using j4 by (simp add: unat_of_nat)
  have cc: "saved (ram (mach ?k4)) ?j = c"
    using saved_out_ram(1) [OF i j4] saved_scratch(1) [OF s12 j4] saved_scratch(1) [OF m1(3) j4]
    by (simp add: m4(2) assms(5) ctx_of_def cpu_ctx_def)
  obtain m5 q where m5: "switch_in Next_ptr ?k4 = ((stack_byte (ram m5) (p_tab c) (p_sp c + 1),
        le16 (stack_byte (ram m5) (p_tab c) (p_sp c + 2)) (stack_byte (ram m5) (p_tab c) (p_sp c + 3))),
        ?k4\<lparr>mach := m5, SP := p_sp c + 3\<rparr>)" "ram m5 = in_ram ?j q" "same_except kscratch (ram m2) q"
      "env m5 = env (to_user (m4\<lparr>mmu := (mmu m4)\<lparr>ppn := p_tab c\<rparr>\<rparr>))"
    using switch_in_spec [OF k4 _ u4 jj [symmetric], of c Next_ptr] j4 jj cc m4(2) by auto
  obtain q' where q': "q = out_ram ?i (SP k) ?t q'" "same_except kscratch q1 q'"
    using out_ram_scratch [OF i same_except_trans [OF s12 m5(3)]] by blast
  have "env m5 = env (to_user ((mach k)\<lparr>mmu := (mmu (mach k))\<lparr>ppn := p_tab c\<rparr>\<rparr>))"
    using m5(4) m4(3) by (simp add: env_iff to_user_def)
  moreover have "do_yield k = Some (switch_in Next_ptr ?k4)"
  proof -
    have e: "?k2\<lparr>mach := m3, plist_idx := word_of_nat ?j\<rparr> = ?k3\<lparr>mach := m3, SP := SP k - 2\<rparr>" by simp
    show ?thesis unfolding do_yield_def m1(1) m2(1) m3(1) e by (simp add: m4(1))
  qed
  ultimately show ?thesis
    using m5(1,2) q' same_except_trans [OF m1(3) q'(2)] by (intro exI [of _ m5] exI [of _ q']) simp
qed


section \<open>BRK\<close>

text \<open>
  The 65C02's BRK at \<open>pc\<close> in user mode: it pushes \<open>pc + 2\<close> and the status with its B bit set
  (and bit 5, which always reads 1) on the process's stack, then fetches the vector.
\<close>

definition brk :: "u16 \<Rightarrow> u8 \<Rightarrow> kern \<Rightarrow> kern" where
  "brk pc st k =
     (let k = push (st OR 0x30) (push (lo8 (pc + 2)) (push (hi8 (pc + 2)) k))
      in k\<lparr>mach := trap (mach k)\<rparr>)"

lemma wr_spec_env: "core (posedge True a d m) = write_block True a d (core m)"
  if "ram_access a"
proof -
  have "a \<noteq> 0x8000" "a \<noteq> 0x80E6" using that by (auto simp: ram_access_iff)
  then show ?thesis by (simp add: core_posedge)
qed

lemma push_user:
  assumes "\<not> kmode (mach k)" "bit (u_bits (mmu (mach k))) 0" "bit (w_bits (mmu (mach k))) 0"
    "p = unat (ppn (mmu (mach k)) 0) * 1024 + 256"
  shows "\<exists>m'. push v k = k\<lparr>mach := m', SP := SP k - 1\<rparr> \<and>
           ram m' = blit (p + unat (SP k)) [v] (ram (mach k)) \<and> env m' = env (mach k)"
proof -
  let ?a = "0x0100 + ucast (SP k) :: u16" and ?m = "mach k"
  have nk: "\<not> kernel (mmu ?m)" using assms(1) by (simp add: kmode_def)
  note s = stack_addr [OF nk, of "SP k"]
  have nf: "\<not> fault_any (mmu ?m) False ?a" and nc: "\<not> is_ctrl ?a"
    using assms(2,3) nk s(1,2)
    by (auto simp: fault_any_def fault_u_def fault_w_def fault_ctrl_def ram_access_iff is_ctrl_ram)
  have ng: "mmu_negedge True False True ?a v (mmu ?m) = (mmu ?m)\<lparr>fault_reg := False\<rparr>"
    using nf nc by (simp add: mmu_negedge_def)
  let ?m1 = "?m\<lparr>mmu := (mmu ?m)\<lparr>fault_reg := False\<rparr>\<rparr>"
  let ?m2 = "posedge True ?a v ?m1"
  have b: "\<not> bit ?a 15" using s(2) by (simp add: ram_access_def)
  have ra: "ram_addr (mmu (core ?m1)) ?a = word_of_nat (p + unat (SP k))"
    using s(3) nk by (simp add: ram_addr_def assms(4) core_def del: of_nat_add)
  have c: "core ?m2 = (core ?m1)\<lparr>ram := (ram ?m)(word_of_nat (p + unat (SP k)) := v)\<rparr>"
    unfolding wr_spec_env [OF s(2)] write_block_def using b ra by (simp del: of_nat_add)
  have "p + unat (SP k) < 32768"
    using unat_lt_2p [of "ppn (mmu ?m) 0"] unat_u8_lt [of "SP k"] by (simp add: assms(4))
  then have B: "(ram ?m)(word_of_nat (p + unat (SP k)) := v) = blit (p + unat (SP k)) [v] (ram ?m)"
    by (rule fun_upd_blit)
  have "ram ?m2 = blit (p + unat (SP k)) [v] (ram ?m)" "env ?m2 = env ?m"
    using core_env [OF c] unfolding B by (simp_all add: env_def del: of_nat_add)
  then show ?thesis
    by (intro exI [of _ ?m2]) (simp add: push_def bus_cycle_def Let_def ng)
qed

definition to_kernel :: "machine \<Rightarrow> machine" where
  "to_kernel m = m\<lparr>mmu := (mmu m)\<lparr>kernel := True\<rparr>\<rparr>"

lemma trap_env: "ram (trap m) = ram m" "env (trap m) = env (to_kernel m)"
proof -
  have r: "ram (snd (bus_cycle False False a 0 m')) = ram m' \<and> env (snd (bus_cycle False False a 0 m')) = env (to_kernel m')"
    for a m'
    using posedge_read [of a 0 "m'\<lparr>mmu := (mmu m')\<lparr>kernel := True, fault_reg := f\<rparr>\<rparr>" for f]
    by (simp add: bus_cycle_def Let_def mmu_negedge_def) (simp add: env_def to_kernel_def)
  have "env (to_kernel m1) = env (to_kernel m)" if "env m1 = env (to_kernel m)" for m1
    using that by (simp add: env_iff to_kernel_def)
  then show "ram (trap m) = ram m" "env (trap m) = env (to_kernel m)"
    using r [of "0xFFFE" m] r [of "0xFFFF" "snd (bus_cycle False False 0xFFFE 0 m)"]
    by (simp_all add: trap_def)
qed


lemma env_user_fields:
  "env m = env m' \<Longrightarrow> \<not> kmode m' \<Longrightarrow> \<not> kmode m"
  "env m = env m' \<Longrightarrow> u_bits (mmu m) = u_bits (mmu m') \<and> w_bits (mmu m) = w_bits (mmu m') \<and>
     ppn (mmu m) = ppn (mmu m')"
  by (simp_all add: env_iff kmode_def)

text \<open>The frame BRK builds, three bytes below the stack pointer.\<close>

definition brk_ram :: "nat \<Rightarrow> u8 \<Rightarrow> u16 \<Rightarrow> u8 \<Rightarrow> (15 word \<Rightarrow> u8) \<Rightarrow> 15 word \<Rightarrow> u8" where
  "brk_ram p sp pc st r =
     blit (p + unat (sp - 2)) [st OR 0x30]
       (blit (p + unat (sp - 1)) [lo8 (pc + 2)] (blit (p + unat sp) [hi8 (pc + 2)] r))"

lemma brk_spec:
  assumes "\<not> kmode (mach k)" "bit (u_bits (mmu (mach k))) 0" "bit (w_bits (mmu (mach k))) 0"
    "p = unat (ppn (mmu (mach k)) 0) * 1024 + 256"
  shows "\<exists>m'. brk pc st k = k\<lparr>mach := m', SP := SP k - 3\<rparr> \<and>
           ram m' = brk_ram p (SP k) pc st (ram (mach k)) \<and> env m' = env (to_kernel (mach k))"
proof -
  obtain m1 where m1: "push (hi8 (pc + 2)) k = k\<lparr>mach := m1, SP := SP k - 1\<rparr>"
      "ram m1 = blit (p + unat (SP k)) [hi8 (pc + 2)] (ram (mach k))" "env m1 = env (mach k)"
    using push_user [OF assms] by blast
  let ?k1 = "k\<lparr>mach := m1, SP := SP k - 1\<rparr>"
  note f1 = env_user_fields [OF m1(3)]
  obtain m2 where m2: "push (lo8 (pc + 2)) ?k1 = ?k1\<lparr>mach := m2, SP := SP k - 2\<rparr>"
      "ram m2 = blit (p + unat (SP k - 1)) [lo8 (pc + 2)] (ram m1)" "env m2 = env (mach k)"
    using push_user [of ?k1 p "lo8 (pc + 2)"] f1 m1(3) assms by (auto simp: diff_diff_eq)
  let ?k2 = "?k1\<lparr>mach := m2, SP := SP k - 2\<rparr>"
  note f2 = env_user_fields [OF m2(3)]
  obtain m3 where m3: "push (st OR 0x30) ?k2 = ?k2\<lparr>mach := m3, SP := SP k - 3\<rparr>"
      "ram m3 = blit (p + unat (SP k - 2)) [st OR 0x30] (ram m2)" "env m3 = env (mach k)"
    using push_user [of ?k2 p "st OR 0x30"] f2 m2(3) assms by (auto simp: diff_diff_eq)
  have "env (trap m3) = env (to_kernel (mach k))"
    using trap_env(2) [of m3] m3(3) by (simp add: env_iff to_kernel_def)
  then show ?thesis
    using trap_env(1) [of m3] m1(1,2) m2(1,2) m3(1,2)
    by (intro exI [of _ "trap m3"]) (simp add: brk_def Let_def brk_ram_def)
qed

lemma word_of_nat_p8_inj:
  fixes a b :: u8
  assumes "p + 256 \<le> 32768"
  shows "(word_of_nat (p + unat a) :: 15 word) = word_of_nat (p + unat b) \<longleftrightarrow> a = b"
proof -
  have "unat (word_of_nat (p + unat a) :: 15 word) = p + unat a" "unat (word_of_nat (p + unat b) :: 15 word) = p + unat b"
    using assms unat_u8_lt [of a] unat_u8_lt [of b] by (simp_all add: unat_of_nat_15 del: of_nat_add)
  then show ?thesis by (metis add_left_cancel word_unat_eq_iff)
qed

lemma blit_one8:
  fixes a b :: u8
  assumes "p + 256 \<le> 32768"
  shows "blit (p + unat a) [v] r (word_of_nat (p + unat b)) = (if a = b then v else r (word_of_nat (p + unat b)))"
proof -
  have "p + unat a < 32768" using assms unat_u8_lt [of a] by simp
  then have "blit (p + unat a) [v] r = r(word_of_nat (p + unat a) := v)" by (simp add: fun_upd_blit del: of_nat_add)
  then show ?thesis using word_of_nat_p8_inj [OF assms, of b a] by (auto simp del: of_nat_add)
qed

lemma brk_ram_frame:
  assumes "p + 256 \<le> 32768"
  shows "brk_ram p sp pc st r (word_of_nat (p + unat (sp - 2))) = st OR 0x30"
    "brk_ram p sp pc st r (word_of_nat (p + unat (sp - 1))) = lo8 (pc + 2)"
    "brk_ram p sp pc st r (word_of_nat (p + unat sp)) = hi8 (pc + 2)"
  by (simp_all add: brk_ram_def blit_one8 [OF assms] del: of_nat_add)


section \<open>The running system\<close>

text \<open>
  One step is either a stretch of user code ending in kernel mode (a process runs and executes
  a BRK, or takes a fault), or the kernel's handling of a yield. That user code leaves the kernel's variables, the
  process table and the permission bits alone is an assumption on the programs, not something the system
  enforces: all pages are open to every process, and some of the page tables built by \<open>spawn_bbx\<close> lead to the
  kernel's pages (\<^verbatim>\<open>docs/memory-map.md\<close>). \<open>well_behaved_step\<close> below shows which programs satisfy it.
\<close>

definition same_table :: "(15 word \<Rightarrow> u8) \<Rightarrow> (15 word \<Rightarrow> u8) \<Rightarrow> bool" where
  "same_table r r' \<longleftrightarrow> (\<forall>a. 0x7000 \<le> unat a \<and> unat a < 0x7100 \<longrightarrow> r' a = r a)"

inductive run_step :: "kern \<Rightarrow> kern \<Rightarrow> bool" where
  user_code: "\<lbrakk>\<not> kmode (mach k); kmode (mach k'); nprocs k' = nprocs k; plist_idx k' = plist_idx k;
      same_table (ram (mach k)) (ram (mach k')); u_bits (mmu (mach k')) = u_bits (mmu (mach k))\<rbrakk>
    \<Longrightarrow> run_step k k'"
| kernel_yield: "\<lbrakk>kmode (mach k); do_yield k = Some (r, k')\<rbrakk> \<Longrightarrow> run_step k k'"

inductive_cases run_stepE: "run_step k k'"

text \<open>
  The scheduler's invariant: exactly the current process is RUNNING, every other one WAITING.
\<close>

definition sched_inv :: "kern \<Rightarrow> bool" where
  "sched_inv k \<longleftrightarrow> unat (nprocs k) \<le> 4 \<and> unat (plist_idx k) < unat (nprocs k) \<and>
     bit (u_bits (mmu (mach k))) 0 \<and>
     (\<forall>j < unat (nprocs k). pstate (ram (mach k)) j =
        (if j = unat (plist_idx k) then PROC_STATE_RUNNING else PROC_STATE_WAITING))"

lemma same_table_pstate: "same_table r r' \<Longrightarrow> j < 4 \<Longrightarrow> pstate r' j = pstate r j"
  using pent_bound [of j] by (simp add: same_table_def pstate_def unat_of_nat_15)

lemma next_proc_inv:
  assumes "sched_inv k"
  shows "next_proc k = Suc (unat (plist_idx k)) mod unat (nprocs k)"
  unfolding next_proc_def
  by (rule sched_pick_all) (use assms in \<open>auto simp: sched_inv_def\<close>)

lemma do_yield_inv:
  assumes "sched_inv k" "kmode (mach k)"
  shows "\<exists>r k'. do_yield k = Some (r, k') \<and> sched_inv k' \<and> \<not> kmode (mach k') \<and> nprocs k' = nprocs k \<and>
           unat (plist_idx k') = Suc (unat (plist_idx k)) mod unat (nprocs k)"
proof -
  let ?i = "unat (plist_idx k)" and ?n = "unat (nprocs k)" and ?j = "next_proc k"
  have i: "?n \<le> 4" "?i < ?n" "bit (u_bits (mmu (mach k))) 0" "?i < 4"
    using assms(1) by (auto simp: sched_inv_def)
  have j: "?j < ?n" by (rule next_proc_less) (use i in auto)
  obtain r m' q where m': "do_yield k = Some (r, k\<lparr>mach := m', plist_idx := word_of_nat ?j, SP := p_sp (ctx_of k ?j) + 3\<rparr>)"
      "ram m' = in_ram ?j (out_ram ?i (SP k) (ppn (mmu (mach k))) q)" "same_except kscratch (ram (mach k)) q"
      "env m' = env (to_user ((mach k)\<lparr>mmu := (mmu (mach k))\<lparr>ppn := p_tab (ctx_of k ?j)\<rparr>\<rparr>))"
    using do_yield_spec [OF assms(2) i(1,2,3) refl] by blast
  let ?r1 = "out_ram ?i (SP k) (ppn (mmu (mach k))) q"
  let ?k' = "k\<lparr>mach := m', plist_idx := word_of_nat ?j, SP := p_sp (ctx_of k ?j) + 3\<rparr>"
  have pj: "unat (plist_idx ?k') = ?j" using j i(1) by (simp add: unat_of_nat)
  have st: "pstate (ram m') l = (if l = ?j then PROC_STATE_RUNNING else PROC_STATE_WAITING)" if "l < ?n" for l
    using saved_in_ram(2) [of l ?j ?r1] saved_out_ram(2) [OF i(4), of l] saved_scratch(2) [OF m'(3), of l] that i(1) j assms(1)
    by (auto simp: m'(2) sched_inv_def)
  have "u_bits (mmu m') = u_bits (mmu (mach k))" "\<not> kmode m'"
    using m'(4) by (simp_all add: env_iff to_user_def kmode_def)
  then show ?thesis
    using m'(1) pj st j i next_proc_inv [OF assms(1)]
    by (intro exI [of _ r] exI [of _ ?k']) (simp add: sched_inv_def)
qed

lemma run_step_inv: "run_step k k' \<Longrightarrow> sched_inv k \<Longrightarrow> sched_inv k'"
proof (induction rule: run_step.induct)
  case (user_code k k')
  then show ?case using same_table_pstate by (simp add: sched_inv_def)
next
  case (kernel_yield k r k')
  then show ?case using do_yield_inv [of k] by auto
qed


interpretation sched: invariant_system run_step sched_inv
  by unfold_locales (rule run_step_inv)

section \<open>Programs that leave the table alone\<close>

text \<open>
  The bus cycles of a process: whether it writes, the address, the byte. \<open>behaved\<close>: no access faults, and
  no write goes, through the page table, to the process table.
\<close>

definition user_cycle :: "bool \<times> u16 \<times> u8 \<Rightarrow> machine \<Rightarrow> machine" where
  "user_cycle c m = (case c of (we, a, d) \<Rightarrow> snd (bus_cycle True we a d m))"

fun behaved :: "(bool \<times> u16 \<times> u8) list \<Rightarrow> machine \<Rightarrow> bool" where
  "behaved [] m = True"
| "behaved ((we, a, d) # cs) m \<longleftrightarrow>
     \<not> fault_any (mmu m) (\<not> we) a \<and>
     (we \<and> ram_access a \<longrightarrow> unat (ram_addr (mmu m) a) < 0x7000 \<or> 0x7100 \<le> unat (ram_addr (mmu m) a)) \<and>
     behaved cs (user_cycle (we, a, d) m)"

lemma disk_cmd_mmu: "mmu (disk_do_read m) = mmu m" "mmu (disk_do_write m) = mmu m"
    "NMI (disk_do_read m) = NMI m" "NMI (disk_do_write m) = NMI m"
  by (simp_all add: disk_do_read_def disk_do_write_def Let_def split: option.split)

lemma write_block_mmu: "mmu (write_block we a d m) = mmu m \<and> NMI (write_block we a d m) = NMI m"
  by (simp add: write_block_def disk_cmd_mmu)

lemma mmu_posedge: "mmu (posedge we a d m) = mmu m" "NMI (posedge we a d m) \<longleftrightarrow> fault_reg (mmu m)"
proof -
  have p: "mmu (poll_block b x) = mmu x" "NMI (poll_block b x) = NMI x" "mmu (rx_block we a x) = mmu x" "NMI (rx_block we a x) = NMI x"
      "mmu (dptr_block a x) = mmu x" "NMI (dptr_block a x) = NMI x" "NMI (tx_block we a d x) = NMI x" for b x
    by (simp_all add: poll_block_def rx_block_def dptr_block_def tx_block_def Let_def split: option.split)
  show "mmu (posedge we a d m) = mmu m" "NMI (posedge we a d m) \<longleftrightarrow> fault_reg (mmu m)"
    by (simp_all add: posedge_def p write_block_mmu ram_cycle_steps faultb_def)
qed

lemma posedge_ram:
  "ram (posedge we a d m) = ram m \<or> we \<and> ram_access a \<and> ram (posedge we a d m) = (ram m)(ram_addr (mmu m) a := d)"
proof -
  have p: "ram (poll_block b x) = ram x" "ram (rx_block w a x) = ram x" "ram (dptr_block a x) = ram x"
      "ram (tx_block w a d x) = ram x" "mmu (tx_block w a d x) = mmu x" for b x w
    by (simp_all add: poll_block_def rx_block_def dptr_block_def tx_block_def Let_def split: option.split)
  have "ram (disk_do_read x) = ram x" "ram (disk_do_write x) = ram x" for x
    by (simp_all add: disk_do_read_def disk_do_write_def Let_def split: option.split)
  then have "ram (write_block w a d x) = (if w \<and> ram_access a then (ram x)(ram_addr (mmu x) a := d) else ram x)" for x w
    by (simp add: write_block_def ram_access_def)
  then show ?thesis by (simp add: posedge_def p)
qed

lemma user_cycle_keeps:
  assumes "\<not> kmode m" "\<not> fault_any (mmu m) (\<not> we) a" "m' = user_cycle (we, a, d) m"
  shows "\<not> kmode m'" "u_bits (mmu m') = u_bits (mmu m)"
    "ram m' = ram m \<or> we \<and> ram_access a \<and> ram m' = (ram m)(ram_addr (mmu m) a := d)"
proof -
  let ?m1 = "m\<lparr>mmu := (mmu m)\<lparr>fault_reg := False\<rparr>\<rparr>"
  have "mmu_negedge True (\<not> we) True a d (mmu m) = (mmu m)\<lparr>fault_reg := False\<rparr>"
    using assms(1,2) by (simp add: mmu_negedge_def kmode_def)
  then have e: "m' = posedge we a d ?m1" by (simp add: assms(3) user_cycle_def bus_cycle_def Let_def)
  show "\<not> kmode m'" "u_bits (mmu m') = u_bits (mmu m)" using assms(1) by (simp_all add: e mmu_posedge kmode_def)
  have "ram_addr ((mmu m)\<lparr>fault_reg := False\<rparr>) a = ram_addr (mmu m) a" by (simp add: ram_addr_def)
  then show "ram m' = ram m \<or> we \<and> ram_access a \<and> ram m' = (ram m)(ram_addr (mmu m) a := d)"
    using posedge_ram [of we a d ?m1] by (simp add: e)
qed

lemma behaved_keeps:
  "\<not> kmode m \<Longrightarrow> behaved cs m \<Longrightarrow> m' = fold user_cycle cs m \<Longrightarrow>
     \<not> kmode m' \<and> u_bits (mmu m') = u_bits (mmu m) \<and> same_table (ram m) (ram m')"
proof (induction cs arbitrary: m)
  case Nil
  then show ?case by (simp add: same_table_def)
next
  case (Cons c cs)
  obtain we a d where c: "c = (we, a, d)" by (cases c)
  let ?m1 = "user_cycle (we, a, d) m"
  have b: "\<not> fault_any (mmu m) (\<not> we) a" "behaved cs ?m1"
      "we \<and> ram_access a \<Longrightarrow> unat (ram_addr (mmu m) a) < 0x7000 \<or> 0x7100 \<le> unat (ram_addr (mmu m) a)"
    using Cons.prems(2) by (simp_all add: c)
  note u = user_cycle_keeps [OF Cons.prems(1) b(1) refl, of d]
  have "same_table (ram m) (ram ?m1)" using u(3) b(3) by (auto simp: same_table_def)
  moreover have "\<not> kmode m' \<and> u_bits (mmu m') = u_bits (mmu ?m1) \<and> same_table (ram ?m1) (ram m')"
    using Cons.IH [OF u(1) b(2)] Cons.prems(3) c by simp
  ultimately show ?case using u(2) by (simp add: same_table_def)
qed

text \<open>Such a stretch, ended by the vector fetch of a BRK, is a step of the running system.\<close>

lemma well_behaved_step:
  assumes "\<not> kmode (mach k)" "behaved cs (mach k)"
  shows "run_step k (k\<lparr>mach := trap (fold user_cycle cs (mach k)), SP := sp\<rparr>)"
proof -
  note b = behaved_keeps [OF assms refl]
  show ?thesis
    using assms(1) b trap_env [of "fold user_cycle cs (mach k)"]
    by (intro run_step.user_code) (simp_all add: env_iff to_kernel_def kmode_def)
qed

section \<open>Starting the scheduler\<close>

lemma set_bytes_ones:
  "set_byte 0 (set_byte 1 (set_byte 2 (set_byte 3 u 0xFF) 0xFF) 0xFF) 0xFF = 0xFFFFFFFF"
proof -
  have u: "(ucast (0xFF :: u8) :: u32) = mask 8" by (simp add: mask_eq_exp_minus_1)
  have "set_byte 0 (set_byte 1 (set_byte 2 (set_byte 3 u 0xFF) 0xFF) 0xFF) 0xFF = mask 32"
    unfolding set_byte_def u by (rule bit_word_eqI) (auto simp: bit_simps)
  then show ?thesis by (simp add: mask_eq_exp_minus_1)
qed

lemma ubits_regs:
  "x < 4 \<Longrightarrow> is_ctrl (MMU_UBITS + word_of_nat x) \<and> is_ctrl (MMU_WBITS + word_of_nat x) \<and>
     reg_off (MMU_UBITS + word_of_nat x) = 0x20 + word_of_nat x \<and>
     reg_off (MMU_WBITS + word_of_nat x) = 0x24 + word_of_nat x"
proof -
  have "\<forall>x \<in> set [0..<4]. is_ctrl (MMU_UBITS + word_of_nat x) \<and> is_ctrl (MMU_WBITS + word_of_nat x) \<and>
     reg_off (MMU_UBITS + word_of_nat x) = 0x20 + word_of_nat x \<and>
     reg_off (MMU_WBITS + word_of_nat x) = 0x24 + word_of_nat x"
    by code_simp
  then show "x < 4 \<Longrightarrow> ?thesis" by simp
qed


definition with_perm :: "u32 \<Rightarrow> u32 \<Rightarrow> machine \<Rightarrow> machine" where
  "with_perm u w m = m\<lparr>mmu := (mmu m)\<lparr>u_bits := u, w_bits := w\<rparr>\<rparr>"

definition opened :: "machine \<Rightarrow> u32 \<Rightarrow> u32 \<Rightarrow> machine \<Rightarrow> bool" where
  "opened m u w m' \<longleftrightarrow> kmode m' \<and> ram m' = ram m \<and> env m' = env (with_perm u w m)"

lemma opened_step:
  assumes "opened m u w m'" "x < 4"
  shows "opened m (set_byte x u d) (set_byte x w d)
           (mem_write (MMU_WBITS + word_of_nat x) d (mem_write (MMU_UBITS + word_of_nat x) d m'))"
proof -
  note r = ubits_regs [OF assms(2)]
  have x: "x = 0 \<or> x = 1 \<or> x = 2 \<or> x = 3" using assms(2) by linarith
  have cu: "ctrl_write (0x20 + word_of_nat x) d mm = mm\<lparr>u_bits := set_byte x (u_bits mm) d\<rparr>"
    and cw: "ctrl_write (0x24 + word_of_nat x) d mm = mm\<lparr>w_bits := set_byte x (w_bits mm) d\<rparr>" for mm
    using x by (elim disjE; simp add: ctrl_write_def)+
  have k: "kmode m'" "ram m' = ram m" "env m' = env (with_perm u w m)" using assms(1) by (auto simp: opened_def)
  let ?m1 = "mem_write (MMU_UBITS + word_of_nat x) d m'"
  have m1: "ram ?m1 = ram m" "env ?m1 = env (with_perm (set_byte x u d) w m)"
    using wr_ctrl [OF k(1), of "MMU_UBITS + word_of_nat x" d] r k(2,3)
    by (simp_all add: cu env_iff with_perm_def)
  have k1: "kmode ?m1" using m1(2) k(1,3) by (simp add: env_iff with_perm_def kmode_def)
  let ?m2 = "mem_write (MMU_WBITS + word_of_nat x) d ?m1"
  have m2: "ram ?m2 = ram m" "env ?m2 = env (with_perm (set_byte x u d) (set_byte x w d) m)"
    using wr_ctrl [OF k1, of "MMU_WBITS + word_of_nat x" d] r m1
    by (simp_all add: cw env_iff with_perm_def)
  have "kmode ?m2" using m2(2) m1(2) k1 by (simp add: env_iff with_perm_def kmode_def)
  then show ?thesis using m2 by (simp add: opened_def)
qed

lemma open_all_spec:
  assumes "kmode m"
  shows "opened m 0xFFFFFFFF 0xFFFFFFFF (open_all 3 m)"
proof -
  have "opened m (u_bits (mmu m)) (w_bits (mmu m)) m"
    using assms by (simp add: opened_def with_perm_def)
  from opened_step [OF opened_step [OF opened_step [OF opened_step [OF this, of 3 "0xFF"], of 2 "0xFF"], of 1 "0xFF"], of 0 "0xFF"]
  have "opened m 0xFFFFFFFF 0xFFFFFFFF (mem_write (MMU_WBITS + word_of_nat 0) 0xFF (mem_write (MMU_UBITS + word_of_nat 0) 0xFF
     (mem_write (MMU_WBITS + word_of_nat 1) 0xFF (mem_write (MMU_UBITS + word_of_nat 1) 0xFF
     (mem_write (MMU_WBITS + word_of_nat 2) 0xFF (mem_write (MMU_UBITS + word_of_nat 2) 0xFF
     (mem_write (MMU_WBITS + word_of_nat 3) 0xFF (mem_write (MMU_UBITS + word_of_nat 3) 0xFF m))))))))"
    unfolding set_bytes_ones by simp
  then show ?thesis by (simp add: eval_nat_numeral)
qed

lemma sched_start_spec:
  assumes "kmode (mach k)" "c = saved (ram (mach k)) 0"
  shows "\<exists>m' q. sched_start k = ((stack_byte (ram m') (p_tab c) (p_sp c + 1),
                    le16 (stack_byte (ram m') (p_tab c) (p_sp c + 2)) (stack_byte (ram m') (p_tab c) (p_sp c + 3))),
                 k\<lparr>mach := m', plist_idx := 0, SP := p_sp c + 3\<rparr>) \<and>
           ram m' = in_ram 0 q \<and> same_except kscratch (ram (mach k)) q \<and> \<not> kmode m' \<and> ppn (mmu m') = p_tab c \<and>
           u_bits (mmu m') = 0xFFFFFFFF \<and> w_bits (mmu m') = 0xFFFFFFFF \<and> disk_img m' = disk_img (mach k) \<and>
           acia_out m' = acia_out (mach k) \<and> gpu_out m' = gpu_out (mach k)"
proof -
  let ?k1 = "k\<lparr>plist_idx := 0, mach := open_all 3 (mach k)\<rparr>"
  have o: "kmode (mach ?k1)" "ram (mach ?k1) = ram (mach k)"
      "env (mach ?k1) = env (with_perm 0xFFFFFFFF 0xFFFFFFFF (mach k))"
    using open_all_spec [OF assms(1)] by (simp_all add: opened_def)
  have u: "bit (u_bits (mmu (mach ?k1))) 0" using o(3) by (simp add: env_iff with_perm_def)
  obtain m' q where m': "switch_in First_ptr ?k1 = ((stack_byte (ram m') (p_tab c) (p_sp c + 1),
        le16 (stack_byte (ram m') (p_tab c) (p_sp c + 2)) (stack_byte (ram m') (p_tab c) (p_sp c + 3))),
        ?k1\<lparr>mach := m', SP := p_sp c + 3\<rparr>)" "ram m' = in_ram 0 q" "same_except kscratch (ram (mach k)) q"
      "env m' = env (to_user ((mach ?k1)\<lparr>mmu := (mmu (mach ?k1))\<lparr>ppn := p_tab c\<rparr>\<rparr>))"
    using switch_in_spec [OF o(1) _ u refl, of c First_ptr] o(2) assms(2) by auto
  have "\<not> kmode m' \<and> ppn (mmu m') = p_tab c \<and> u_bits (mmu m') = 0xFFFFFFFF \<and> w_bits (mmu m') = 0xFFFFFFFF \<and>
      disk_img m' = disk_img (mach k) \<and> acia_out m' = acia_out (mach k) \<and> gpu_out m' = gpu_out (mach k)"
    using m'(4) o(3) by (simp add: env_iff to_user_def with_perm_def kmode_def)
  then show ?thesis
    using m'(1,2,3) by (intro exI [of _ m'] exI [of _ q]) (simp add: sched_start_def)
qed


section \<open>Properties\<close>

text \<open>
  \<open>schedule_process\<close> returns, and chooses the first WAITING process after the current one
  in cyclic order (the process \<open>j\<close> places on, if the \<open>j - 1\<close> before it do not wait); RAM, MMU,
  disk and console output keep their state.
\<close>

theorem schedule_picks_next:
  assumes "kmode (mach k)" "unat (nprocs k) \<le> 4" "1 \<le> j" "j \<le> unat (nprocs k)"
    "pstate (ram (mach k)) ((unat (plist_idx k) + j) mod unat (nprocs k)) = PROC_STATE_WAITING"
    "\<And>l. 1 \<le> l \<Longrightarrow> l < j \<Longrightarrow>
       pstate (ram (mach k)) ((unat (plist_idx k) + l) mod unat (nprocs k)) \<noteq> PROC_STATE_WAITING"
  shows "\<exists>m'. schedule_process k = Some (k\<lparr>mach := m',
             plist_idx := word_of_nat ((unat (plist_idx k) + j) mod unat (nprocs k))\<rparr>) \<and>
           ram m' = ram (mach k) \<and> env m' = env (mach k)"
proof -
  have "sched_pick (unat (nprocs k)) (unat (plist_idx k)) (waiting (ram (mach k))) =
      (unat (plist_idx k) + j) mod unat (nprocs k)"
    unfolding sched_pick_def
    by (rule pick_from_least) (use assms(3-6) in \<open>auto simp: waiting_def pstate_def\<close>)
  then show ?thesis using schedule_process_spec [OF assms(1,2)] by simp
qed

definition demo_table :: "(nat \<Rightarrow> u8) \<Rightarrow> u8 \<Rightarrow> u8 \<Rightarrow> kern" where
  "demo_table st n cur =
     \<lparr>mach = power_on (\<lambda>a. if 0x7000 \<le> unat a \<and> unat a < 0x7100 \<and> unat a mod 64 = 0
                           then st ((unat a - 0x7000) div 64) else 0)
               (\<lambda>_. 0xEA) (\<lambda>_. 0) None (\<lambda>_. None) (\<lambda>n. n),
      nprocs = n, plist_idx = cur, SP = 0xF0, ret_at = (\<lambda>s. 0x0300)\<rparr>"

lemma demo_table_fields [simp]:
  "kmode (mach (demo_table st n cur))" "nprocs (demo_table st n cur) = n"
  "plist_idx (demo_table st n cur) = cur" "SP (demo_table st n cur) = 0xF0"
  by (simp_all add: demo_table_def kmode_def mmu_reset_def)

lemma demo_table_pstate: "j < 4 \<Longrightarrow> pstate (ram (mach (demo_table st n cur))) j = st j"
  by (simp add: demo_table_def pstate_def pent_def unat_of_nat_15 del: of_nat_add of_nat_mult of_nat_numeral)

theorem schedule_picks_next_witness:
  "\<exists>m'. schedule_process (demo_table (\<lambda>j. if j = 0 then 1 else 0) 3 1) =
     Some ((demo_table (\<lambda>j. if j = 0 then 1 else 0) 3 1)\<lparr>mach := m', plist_idx := 0\<rparr>)"
proof -
  have l: "l = 1" if "1 \<le> l" "l < 2" for l :: nat using that by simp
  have n: "pstate (ram (mach (demo_table (\<lambda>j. if j = 0 then 1 else 0) 3 1))) ((1 + l) mod 3) \<noteq> PROC_STATE_WAITING"
    if "1 \<le> l" "l < 2" for l
    using l [OF that] by (simp add: demo_table_pstate PROC_STATE_WAITING_def)
  show ?thesis
    using schedule_picks_next [of "demo_table (\<lambda>j. if j = 0 then 1 else 0) 3 1" 2] n
    by (auto simp: demo_table_pstate PROC_STATE_WAITING_def)
qed

text \<open>
  C2: a yield is a step on the table of contexts. From kernel mode, \<open>do_yield\<close> returns in user
  mode with the context (page table and stack pointer) of the process it chose, resumed with the
  status and program counter on that process's own stack; the yielding process's page table and
  stack pointer are what its entry now holds, every other saved context is unchanged, and the
  states become RUNNING for the chosen one and WAITING for the one that yielded. In the programs'
  memory ($1000 to $6FFF) and in the disk buffer no byte changes, so every program finds its own as it left
  it. (The kernel's own memory is left out of this last part: the code writes to its zero page and its
  stack page, and compiled C keeps variables and a stack of its own there.)
\<close>

theorem do_yield_switches:
  assumes "kmode (mach k)" "unat (nprocs k) \<le> 4" "unat (plist_idx k) < unat (nprocs k)"
    "bit (u_bits (mmu (mach k))) 0" "j = next_proc k" "c = ctx_of k j"
  shows "\<exists>m'. do_yield k =
             Some ((stack_byte (ram m') (p_tab c) (p_sp c + 1),
                    le16 (stack_byte (ram m') (p_tab c) (p_sp c + 2)) (stack_byte (ram m') (p_tab c) (p_sp c + 3))),
                   k\<lparr>mach := m', plist_idx := word_of_nat j, SP := p_sp c + 3\<rparr>) \<and>
           \<not> kmode m' \<and> ppn (mmu m') = p_tab c \<and>
           (\<forall>l < 4. saved (ram m') l = ctx_of k l) \<and>
           (\<forall>l < 4. pstate (ram m') l =
              (if l = j then PROC_STATE_RUNNING else if l = unat (plist_idx k) then PROC_STATE_WAITING
               else pstate (ram (mach k)) l)) \<and>
           (\<forall>a. 0x1000 \<le> a \<and> a < 0x7000 \<or> 0x7100 \<le> a \<and> a < 0x7300 \<longrightarrow> ram m' (word_of_nat a) = ram (mach k) (word_of_nat a))"
proof -
  let ?i = "unat (plist_idx k)"
  have i: "?i < 4" and j: "j < 4" using assms(2,3,5) next_proc_less [of k] by simp_all
  obtain m' q where m': "do_yield k = Some ((stack_byte (ram m') (p_tab c) (p_sp c + 1),
        le16 (stack_byte (ram m') (p_tab c) (p_sp c + 2)) (stack_byte (ram m') (p_tab c) (p_sp c + 3))),
        k\<lparr>mach := m', plist_idx := word_of_nat j, SP := p_sp c + 3\<rparr>)"
      "ram m' = in_ram j (out_ram ?i (SP k) (ppn (mmu (mach k))) q)" "same_except kscratch (ram (mach k)) q"
      "env m' = env (to_user ((mach k)\<lparr>mmu := (mmu (mach k))\<lparr>ppn := p_tab c\<rparr>\<rparr>))"
    using do_yield_spec [OF assms(1-4) refl] assms(5,6) by auto
  note sc = saved_scratch [OF m'(3)]
  have "saved (ram m') l = ctx_of k l" if "l < 4" for l
    using saved_in_ram(1) [OF that j] saved_out_ram(1) [OF i that] sc(1) [OF that] by (simp add: m'(2) ctx_of_def cpu_ctx_def)
  moreover have "pstate (ram m') l = (if l = j then PROC_STATE_RUNNING else if l = ?i then PROC_STATE_WAITING
      else pstate (ram (mach k)) l)" if "l < 4" for l
    using saved_in_ram(2) [OF that j] saved_out_ram(2) [OF i that] sc(2) [OF that] by (simp add: m'(2))
  moreover have "ram m' (word_of_nat a) = ram (mach k) (word_of_nat a)"
    if "0x1000 \<le> a \<and> a < 0x7000 \<or> 0x7100 \<le> a \<and> a < 0x7300" for a
  proof -
    have "a < pent j \<or> pent j + 1 \<le> a" using that pent_bound [OF j] by auto
    then show ?thesis using out_ram_other [OF i, of a] kscratch_keeps [OF m'(3), of a] that by (auto simp: m'(2) in_ram_def blit_off)
  qed
  moreover have "\<not> kmode m'" "ppn (mmu m') = p_tab c"
    using m'(4) by (simp_all add: env_iff to_user_def kmode_def)
  ultimately show ?thesis using m'(1) by blast
qed


definition demo_run :: "(nat \<Rightarrow> u8) \<Rightarrow> u8 \<Rightarrow> u8 \<Rightarrow> kern" where
  "demo_run st n cur = (demo_table st n cur)\<lparr>mach := with_perm 0xFFFFFFFF 0xFFFFFFFF (mach (demo_table st n cur))\<rparr>"

lemma demo_run_fields [simp]:
  "kmode (mach (demo_run st n cur))" "nprocs (demo_run st n cur) = n" "plist_idx (demo_run st n cur) = cur"
  "ram (mach (demo_run st n cur)) = ram (mach (demo_table st n cur))"
  "u_bits (mmu (mach (demo_run st n cur))) = 0xFFFFFFFF"
  using demo_table_fields(1) [of st n cur] by (simp_all add: demo_run_def with_perm_def kmode_def)

theorem do_yield_switches_witness:
  "\<exists>m' r sp. do_yield (demo_run (\<lambda>_. 1) 3 2) = Some (r, (demo_run (\<lambda>_. 1) 3 2)\<lparr>mach := m', plist_idx := 0, SP := sp\<rparr>) \<and>
     pstate (ram m') 0 = PROC_STATE_RUNNING \<and> pstate (ram m') 2 = PROC_STATE_WAITING"
proof -
  let ?k = "demo_run (\<lambda>_. 1) 3 2"
  have n: "next_proc ?k = 0"
    unfolding next_proc_def
    by (subst sched_pick_all) (auto simp: demo_table_pstate PROC_STATE_WAITING_def)
  obtain m' r sp where m': "do_yield ?k = Some (r, ?k\<lparr>mach := m', plist_idx := 0, SP := sp\<rparr>)"
      "\<forall>l < 4. pstate (ram m') l = (if l = 0 then PROC_STATE_RUNNING else if l = 2 then PROC_STATE_WAITING
         else pstate (ram (mach ?k)) l)"
    using do_yield_switches [of ?k 0 "ctx_of ?k 0"] n by auto
  have "pstate (ram m') 0 = PROC_STATE_RUNNING" "pstate (ram m') 2 = PROC_STATE_WAITING"
    using m'(2) [rule_format, of 0] m'(2) [rule_format, of 2] by simp_all
  then show ?thesis using m'(1) by blast
qed

text \<open>
  C32: a BRK is transparent. In user mode with an accessible stack page, BRK at \<open>pc\<close> followed
  by \<open>ret_user_mode\<close> resumes the process at \<open>pc + 2\<close> with its stack pointer and its status
  (B and bit 5 set); between the two the machine is in kernel mode, and only the three bytes of
  the frame in the process's own stack page have changed.
\<close>

theorem brk_return:
  assumes "\<not> kmode (mach k)" "bit (u_bits (mmu (mach k))) 0" "bit (w_bits (mmu (mach k))) 0"
  shows "kmode (mach (brk pc st k)) \<and>
    (\<exists>m'. ret_user_mode (brk pc st k) = ((st OR 0x30, pc + 2), k\<lparr>mach := m'\<rparr>) \<and> env m' = env (mach k) \<and>
       ram m' = brk_ram (unat (ppn (mmu (mach k)) 0) * 1024 + 256) (SP k) pc st (ram (mach k)))"
proof -
  let ?p = "unat (ppn (mmu (mach k)) 0) * 1024 + 256"
  have p: "?p + 256 \<le> 32768" using unat_lt_2p [of "ppn (mmu (mach k)) 0"] by simp
  obtain m1 where m1: "brk pc st k = k\<lparr>mach := m1, SP := SP k - 3\<rparr>"
      "ram m1 = brk_ram ?p (SP k) pc st (ram (mach k))" "env m1 = env (to_kernel (mach k))"
    using brk_spec [OF assms refl] by blast
  let ?k1 = "k\<lparr>mach := m1, SP := SP k - 3\<rparr>"
  have k1: "kmode (mach ?k1)" "bit (u_bits (mmu (mach ?k1))) 0" and t: "ppn (mmu m1) = ppn (mmu (mach k))"
    using m1(3) assms(2) by (simp_all add: env_iff to_kernel_def kmode_def)
  let ?stk = "stack_byte (ram m1) (ppn (mmu m1))"
  have "?stk (SP k - 2) = st OR 0x30" "?stk (SP k - 1) = lo8 (pc + 2)" "?stk (SP k) = hi8 (pc + 2)"
    using brk_ram_frame [OF p] by (simp_all add: stack_byte_def t m1(2) del: of_nat_add)
  moreover obtain m' where "ret_user_mode ?k1 = ((?stk (SP k - 2), le16 (?stk (SP k - 1)) (?stk (SP k))),
        ?k1\<lparr>mach := m', SP := SP k\<rparr>)" "ram m' = ram m1" "env m' = env (to_user m1)"
    using ret_user_mode_spec [OF k1 refl] by auto
  moreover from this have "env m' = env (mach k)"
    using m1(3) assms(1) by (simp add: env_iff to_user_def to_kernel_def kmode_def)
  ultimately show ?thesis using m1(1,2) k1(1) by auto
qed

lemma to_user_fields [simp]:
  "\<not> kmode (to_user m)" "u_bits (mmu (to_user m)) = u_bits (mmu m)" "w_bits (mmu (to_user m)) = w_bits (mmu m)"
  by (simp_all add: to_user_def kmode_def)

theorem brk_return_witness:
  "\<exists>k m'. ret_user_mode (brk 0x1234 0x21 k) = ((0x31, 0x1236), k\<lparr>mach := m'\<rparr>)"
proof -
  let ?k = "(demo_run (\<lambda>_. 1) 1 0)\<lparr>mach := to_user (mach (demo_run (\<lambda>_. 1) 1 0))\<rparr>"
  have w: "w_bits (mmu (mach ?k)) = 0xFFFFFFFF" by (simp add: demo_run_def with_perm_def)
  show ?thesis using brk_return [of ?k "0x1234" "0x21"] w by (intro exI [of _ ?k]) auto
qed


lemma demo_run_inv: "sched_inv (demo_run (\<lambda>j. if j = 0 then 2 else 1) 3 0)"
  by (auto simp: sched_inv_def demo_table_pstate PROC_STATE_WAITING_def PROC_STATE_RUNNING_def)


text \<open>Runs, with the number of yields in them.\<close>

inductive yields_run :: "nat \<Rightarrow> kern \<Rightarrow> kern \<Rightarrow> bool" where
  start: "yields_run 0 k k"
| user: "\<lbrakk>yields_run t k k'; \<not> kmode (mach k'); run_step k' k''\<rbrakk> \<Longrightarrow> yields_run t k k''"
| yield: "\<lbrakk>yields_run t k k'; kmode (mach k'); run_step k' k''\<rbrakk> \<Longrightarrow> yields_run (Suc t) k k''"

text \<open>
  C22: round robin. After \<open>t\<close> yields, whatever the processes did in between within the assumption of
  \<open>run_step\<close>, the running process is the one \<open>t\<close> places on from the first: of \<open>n\<close> processes each runs at every \<open>n\<close>-th yield, so
  none starves.
\<close>

theorem round_robin:
  assumes "yields_run t k k'" "sched_inv k"
  shows "nprocs k' = nprocs k \<and> unat (plist_idx k') = (unat (plist_idx k) + t) mod unat (nprocs k)"
proof -
  have "sched_inv k' \<and> nprocs k' = nprocs k \<and> unat (plist_idx k') = (unat (plist_idx k) + t) mod unat (nprocs k)"
    using assms
  proof (induction rule: yields_run.induct)
    case (start k)
    then show ?case by (simp add: sched_inv_def)
  next
    case (user t k k' k'')
    then have "sched_inv k''" using run_step_inv by blast
    then show ?case using user by (auto elim!: run_stepE)
  next
    case (yield t k k' k'')
    obtain r where "do_yield k' = Some (r, k'')"
      using yield.hyps(2,3) by (auto elim: run_stepE)
    then show ?case
      using do_yield_inv [of k'] yield by (auto simp: mod_Suc_eq)
  qed
  then show ?thesis by blast
qed

theorem round_robin_witness:
  "\<exists>k'. yields_run 1 (demo_run (\<lambda>j. if j = 0 then 2 else 1) 3 0) k' \<and> unat (plist_idx k') = 1"
proof -
  let ?k = "demo_run (\<lambda>j. if j = 0 then 2 else 1) 3 0"
  obtain r k' where "do_yield ?k = Some (r, k')" using do_yield_inv [OF demo_run_inv] by auto
  then have y: "yields_run (Suc 0) ?k k'"
    by (intro yields_run.yield [OF yields_run.start] run_step.kernel_yield) auto
  then show ?thesis using round_robin [OF y demo_run_inv] by auto
qed


lemma hw_phys:
  assumes "\<not> kernel mm" "ppn mm = p_tab (saved r j)" "peek (pent j + 14) 32 r = table base" "va < 32768"
  shows "ram_addr mm (word_of_nat va) = word_of_nat (phys_of base va)"
proof -
  have i: "va div 1024 < 32" using assms(4) by simp
  have u: "unat (word_of_nat va :: u16) = va" using assms(4) by (simp add: unat_of_nat_16)
  have v: "unat (vpn (word_of_nat va)) = va div 1024" using i by (simp add: unat_vpn u)
  have "peek (pent j + 14) 32 r ! (va div 1024) = ppn_entry base (word_of_nat (va div 1024))"
    unfolding assms(3) using i by (simp add: table_def)
  then have e: "r (word_of_nat (pent j + 14 + va div 1024)) = ppn_entry base (word_of_nat (va div 1024))"
    using i by (simp add: peek_nth del: of_nat_add)
  have p: "unat (ppn_entry base (word_of_nat (va div 1024))) * 1024 + va mod 1024 = phys_of base va"
    using user_phys_table [OF assms(3,4)] unfolding user_phys_def e .
  have "unat (ppn_entry base (word_of_nat (va div 1024))) < 32"
    using p phys_of_lt [of base va] by linarith
  then have "unat (ppn mm (vpn (word_of_nat va))) = unat (ppn_entry base (word_of_nat (va div 1024)))"
    by (simp add: assms(2) saved_def v e unat_ucast_mod del: of_nat_add)
  then have "unat (ram_addr mm (word_of_nat va)) = phys_of base va"
    using unat_ram_addr_user [OF assms(1), of "word_of_nat va"] p by (simp add: u)
  then show ?thesis using phys_of_lt [of base va] by (simp add: word_unat_eq_iff unat_of_nat_15)
qed

text \<open>
  C23: from the first process's file to its first instruction. If \<open>spawn_bbx\<close> loads a valid
  program as process 0 and \<open>sched_start\<close> follows, the CPU continues in user mode at the entry
  point in the file's header, with status \<open>$20\<close> and an empty stack (\<open>SP = $FF\<close>), every page
  opened; and what the MMU then shows at virtual \<open>$1000 + 512 b + j\<close> is the file.
\<close>

theorem first_process_starts:
  assumes "kmode (mach k)" "nprocs k = 0" "disk_img (mach k) = Some img" "lba_ok lba" "n \<le> 56"
    "\<And>b. b < n \<Longrightarrow> lba_ok (lba + word_of_nat b)" "pages_ok base n" "valid_bbx (sector_of img lba)"
  shows "\<exists>k1 m2. spawn_bbx lba (word_of_nat n) base k = Some (0, k1) \<and> nprocs k1 = 1 \<and>
           sched_start k1 = ((0x20, le16 (sector_of img lba ! 4) (sector_of img lba ! 5)),
                             k1\<lparr>mach := m2, plist_idx := 0, SP := 0xFF\<rparr>) \<and>
           \<not> kmode m2 \<and> u_bits (mmu m2) = 0xFFFFFFFF \<and> w_bits (mmu m2) = 0xFFFFFFFF \<and>
           (\<forall>b < n. \<forall>j < 512. ram m2 (ram_addr (mmu m2) (word_of_nat (0x1000 + 512 * b + j))) =
              sector_of img (lba + word_of_nat b) ! j)"
proof -
  let ?r = "spawn_ram img lba n base 0 (ram (mach k))" and ?s = "prog_block img lba 0"
  have lt: "nprocs k < 4" using assms(2) by simp
  obtain m1 where m1: "spawn_bbx lba (word_of_nat n) base k = Some (0, k\<lparr>mach := m1, nprocs := nprocs k + 1\<rparr>)"
      "ram m1 = ?r" "env m1 = env (mach k)"
    using spawn_bbx_ok [OF assms(1) lt assms(3-8)] assms(2) by auto
  let ?k1 = "k\<lparr>mach := m1, nprocs := nprocs k + 1\<rparr>"
  have k1: "kmode (mach ?k1)" using kmode_env [OF m1(3) assms(1)] by simp
  have tb: "peek (pent 0 + 14) 32 ?r = table base" by (rule spawn_ram_table [OF assms(7,5)]) simp
  let ?c = "saved ?r 0"
  have sp: "p_sp ?c = 0xFC" using spawn_ram_fields(2) [of 0 img lba n base] by (simp add: saved_def del: of_nat_add)
  obtain m2 q where m2: "sched_start ?k1 = ((stack_byte (ram m2) (p_tab ?c) (p_sp ?c + 1),
        le16 (stack_byte (ram m2) (p_tab ?c) (p_sp ?c + 2)) (stack_byte (ram m2) (p_tab ?c) (p_sp ?c + 3))),
        ?k1\<lparr>mach := m2, plist_idx := 0, SP := p_sp ?c + 3\<rparr>)" "ram m2 = in_ram 0 q" "\<not> kmode m2"
      "ppn (mmu m2) = p_tab ?c" "u_bits (mmu m2) = 0xFFFFFFFF" "w_bits (mmu m2) = 0xFFFFFFFF" "same_except kscratch ?r q"
    using sched_start_spec [OF k1, of ?c] m1(2) by auto
  let ?stk = "stack_byte (ram m2) (p_tab ?c)"
  have low: "ram m2 (word_of_nat a) = ?r (word_of_nat a)" if "0x1000 \<le> a" "a < 0x7000" for a
    using that kscratch_keeps [OF m2(7), of a] by (simp add: m2(2) in_ram_def pent_def blit_off)
  have nk: "\<not> kernel (mmu m2)" using m2(3) by (simp add: kmode_def)
  note tab = m2(4)
  note hw = hw_phys [OF nk tab tb]
  have stk: "?stk sp = ram m2 (word_of_nat (phys_of base (256 + unat sp)))" for sp
  proof -
    have "0x0100 + ucast sp = (word_of_nat (256 + unat sp) :: u16)" by simp
    then show ?thesis
      using stack_addr(3) [OF nk, of sp] hw [of "256 + unat sp"] unat_u8_lt [of sp] m2(4)
      by (simp add: stack_byte_def del: of_nat_add)
  qed
  have fr: "phys_of base (0x1FD + l) < 0x7000" "0x1000 \<le> phys_of base (0x1FD + l)" if "l < 3" for l
    using frame_low [OF assms(7)] phys_of_plus [of "0x1FD" l base] that by simp_all
  have "?stk 0xFD = 0x20" "?stk 0xFE = ?s ! 4" "?stk 0xFF = ?s ! 5"
    using spawn_ram_frame [OF assms(7), of 0 img lba 0 "ram (mach k)"] spawn_ram_frame [OF assms(7), of 1 img lba 0 "ram (mach k)"]
      spawn_ram_frame [OF assms(7), of 2 img lba 0 "ram (mach k)"] low fr [of 0] fr [of 1] fr [of 2]
    by (simp_all add: stk)
  moreover have "ram m2 (ram_addr (mmu m2) (word_of_nat (0x1000 + 512 * b + j))) = sector_of img (lba + word_of_nat b) ! j"
    if "b < n" "j < 512" for b j
  proof -
    have "phys_of base (block_va b + j) < 0x7000" "0x1000 \<le> phys_of base (block_va b + j)"
      using phys_block [OF assms(7) that(1)] phys_of_plus [of "block_va b" j base] that(2) by (simp_all add: block_va_div)
    then show ?thesis
      using spawn_ram_image [OF assms(7,5) _ that, of 0 img lba "ram (mach k)"] hw [of "block_va b + j"] low that assms(5)
      by (simp add: block_va_def prog_block_def del: of_nat_add of_nat_mult)
  qed
  ultimately show ?thesis
    using m1(1) m2(1,3,5,6) assms(2) by (intro exI [of _ ?k1] exI [of _ m2]) (simp add: sp prog_block_def)
qed

theorem first_process_starts_witness:
  "\<exists>k1 m2. spawn_bbx 0 1 1 (demo_kern (Some demo_bbx) 0) = Some (0, k1) \<and>
     sched_start k1 = ((0x20, 0x1006), k1\<lparr>mach := m2, plist_idx := 0, SP := 0xFF\<rparr>)"
proof -
  have l: "lba_ok (0 + word_of_nat b)" if "b < 1" for b using that by (simp add: lba_ok_def)
  have e: "le16 (sector_of demo_bbx 0 ! 4) (sector_of demo_bbx 0 ! 5) = 0x1006"
    by (simp add: sector_of_def demo_bbx_def le16_def)
  show ?thesis
    using first_process_starts [of "demo_kern (Some demo_bbx) 0" demo_bbx 0 1 1, OF _ _ _ _ _ l]
    by (auto simp: demo_valid lba_ok_def pages_ok_def e)
qed

end
