(* ===== verification/Keyboard.thy ===== *)
theory Keyboard
  imports Kmem
begin

text \<open>
  The receive side of the ACIA. \<open>keys\<close> is what the keyboard file has delivered to the
  testbench's polls so far, \<open>taken\<close> the part of it the CPU has read from the data register: all
  of it, but for the byte that waits there. No cycle loses, repeats or reorders a byte.
\<close>

section \<open>The bytes delivered and the bytes taken\<close>

definition keys :: "machine \<Rightarrow> u8 list" where
  "keys m = List.map_filter (rx_src m) [0..<rx_polls m]"

definition taken :: "machine \<Rightarrow> u8 list" where
  "taken m = (if acia_rx_valid m then butlast (keys m) else keys m)"

definition rx_ok :: "machine \<Rightarrow> bool" where
  "rx_ok m \<longleftrightarrow> (acia_rx_valid m \<longrightarrow> keys m \<noteq> [] \<and> last (keys m) = acia_rx_data m)"

definition rx_same :: "machine \<Rightarrow> machine \<Rightarrow> bool" where
  "rx_same m m' \<longleftrightarrow> acia_rx_valid m' = acia_rx_valid m \<and> acia_rx_data m' = acia_rx_data m \<and>
     rx_polls m' = rx_polls m \<and> rx_src m' = rx_src m \<and> poll_counter m' = poll_counter m"

lemma rx_same_taken: "rx_same m m' \<Longrightarrow> taken m' = taken m \<and> rx_ok m' = rx_ok m \<and> keys m' = keys m"
  by (simp add: rx_same_def taken_def rx_ok_def keys_def)

lemma rx_same_blocks: "rx_same m (dptr_block a (write_block we a d (tx_block we a d (m\<lparr>NMI := b\<rparr>))))"
  by (auto simp: rx_same_def dptr_block_def write_block_def tx_block_def disk_do_read_def disk_do_write_def
      Let_def split: option.splits)

lemma map_filter_snoc: "List.map_filter f (xs @ [x]) = List.map_filter f xs @ (case f x of None \<Rightarrow> [] | Some y \<Rightarrow> [y])"
  by (induction xs) (auto simp: map_filter_simps split: option.splits)

lemma keys_poll: "keys (m\<lparr>rx_polls := Suc (rx_polls m)\<rparr>) =
    keys m @ (case rx_src m (rx_polls m) of None \<Rightarrow> [] | Some c \<Rightarrow> [c])"
  by (simp add: keys_def map_filter_snoc)

text \<open>What a rising edge does to the receiver.\<close>

definition reads_data :: "bool \<Rightarrow> u16 \<Rightarrow> machine \<Rightarrow> bool" where
  "reads_data we a m \<longleftrightarrow> \<not> we \<and> a = 0x8000 \<and> acia_rx_valid m"

lemma poll_taken:
  assumes "rx_ok m" "acia_rx_valid m \<longrightarrow> v"
  shows "rx_ok (poll_block v m) \<and> taken (poll_block v m) = taken m \<and> rx_src (poll_block v m) = rx_src m"
  using assms
  by (auto simp: poll_block_def Let_def rx_ok_def taken_def keys_def map_filter_snoc split: option.splits)

lemma rx_taken:
  assumes "rx_ok m"
  shows "rx_ok (rx_block we a m) \<and> rx_src (rx_block we a m) = rx_src m \<and>
    taken (rx_block we a m) = taken m @ (if reads_data we a m then [acia_rx_data m] else [])"
proof (cases "reads_data we a m")
  case True
  then have e: "rx_block we a m = m\<lparr>acia_rx_valid := False\<rparr>" "acia_rx_valid m"
    by (auto simp: rx_block_def reads_data_def)
  have "keys m = butlast (keys m) @ [acia_rx_data m]"
    using assms e(2) append_butlast_last_id [of "keys m"] by (simp add: rx_ok_def)
  then show ?thesis using True e(2) unfolding e(1) by (simp add: rx_ok_def taken_def keys_def)
next
  case False
  then have "rx_block we a m = m" by (auto simp: rx_block_def reads_data_def)
  then show ?thesis using False assms by simp
qed

lemma posedge_taken:
  assumes "rx_ok m"
  shows "rx_ok (posedge we a d m) \<and> rx_src (posedge we a d m) = rx_src m \<and>
    taken (posedge we a d m) = taken m @ (if reads_data we a m then [acia_rx_data m] else [])"
proof -
  let ?x = "dptr_block a (write_block we a d (tx_block we a d (m\<lparr>NMI := \<not> faultb (mmu m)\<rparr>)))"
  have s: "rx_same m ?x" by (rule rx_same_blocks)
  then have x: "rx_ok ?x" "taken ?x = taken m" "rx_src ?x = rx_src m" "reads_data we a ?x = reads_data we a m"
      "acia_rx_data ?x = acia_rx_data m"
    using rx_same_taken [OF s] assms by (auto simp: rx_same_def reads_data_def)
  have v: "acia_rx_valid (rx_block we a ?x) \<longrightarrow> acia_rx_valid m"
    using s by (auto simp: rx_block_def rx_same_def)
  note r = rx_taken [OF x(1), of we a]
  show ?thesis
    unfolding posedge_def using poll_taken [of "rx_block we a ?x" "acia_rx_valid m"] r v x by simp
qed

lemma posedge_keeps:
  assumes "\<not> reads_data we a m" "acia_rx_valid m"
  shows "acia_rx_valid (posedge we a d m) \<and> acia_rx_data (posedge we a d m) = acia_rx_data m"
proof -
  let ?x = "dptr_block a (write_block we a d (tx_block we a d (m\<lparr>NMI := \<not> faultb (mmu m)\<rparr>)))"
  have s: "rx_same m ?x" by (rule rx_same_blocks)
  then have "acia_rx_valid (rx_block we a ?x)" "acia_rx_data (rx_block we a ?x) = acia_rx_data m"
    using assms by (auto simp: rx_block_def rx_same_def reads_data_def)
  then show ?thesis unfolding posedge_def using assms(2) by (simp add: poll_block_def Let_def)
qed

lemma bus_rx_same: "rx_same m (m\<lparr>mmu := x\<rparr>)"
  by (simp add: rx_same_def)

lemma bus_taken:
  assumes "rx_ok m"
  shows "rx_ok (snd (bus_cycle vpb we a d m)) \<and> rx_src (snd (bus_cycle vpb we a d m)) = rx_src m \<and>
    taken (snd (bus_cycle vpb we a d m)) = taken m @ (if reads_data we a m then [acia_rx_data m] else [])"
proof -
  let ?m1 = "m\<lparr>mmu := mmu_negedge True (\<not> we) vpb a d (mmu m)\<rparr>"
  have "rx_ok ?m1" "taken ?m1 = taken m" using rx_same_taken [OF bus_rx_same] assms by simp_all
  then show ?thesis
    using posedge_taken [of ?m1 we a d] by (simp add: bus_cycle_def Let_def reads_data_def)
qed

lemma bus_keeps:
  "\<not> reads_data we a m \<Longrightarrow> acia_rx_valid m \<Longrightarrow>
   acia_rx_valid (snd (bus_cycle vpb we a d m)) \<and> acia_rx_data (snd (bus_cycle vpb we a d m)) = acia_rx_data m"
  using posedge_keeps [of we a "m\<lparr>mmu := mmu_negedge True (\<not> we) vpb a d (mmu m)\<rparr>" d]
  by (simp add: bus_cycle_def Let_def reads_data_def)

lemma idle_not_data [simp]: "\<not> reads_data False 0 m"
  by (simp add: reads_data_def)

lemma idles_taken:
  assumes "rx_ok m"
  shows "rx_ok (idles m) \<and> rx_src (idles m) = rx_src m \<and> taken (idles m) = taken m"
proof -
  have "rx_ok ((idle ^^ n) m) \<and> rx_src ((idle ^^ n) m) = rx_src m \<and> taken ((idle ^^ n) m) = taken m" for n
    using assms by (induction n) (simp_all add: idle_def bus_taken)
  moreover have "taken (x\<lparr>accs := k\<rparr>) = taken x" "rx_ok (x\<lparr>accs := k\<rparr>) = rx_ok x" for x k
    by (simp_all add: taken_def rx_ok_def keys_def)
  ultimately show ?thesis by (simp add: idles_def)
qed

lemma idles_keeps:
  assumes "acia_rx_valid m"
  shows "acia_rx_valid (idles m) \<and> acia_rx_data (idles m) = acia_rx_data m"
proof -
  have "acia_rx_valid ((idle ^^ n) m) \<and> acia_rx_data ((idle ^^ n) m) = acia_rx_data m" for n
    using assms by (induction n) (simp_all add: idle_def bus_keeps)
  then show ?thesis by (simp add: idles_def)
qed

lemma mem_read_taken:
  "rx_ok m \<Longrightarrow> a \<noteq> 0x8000 \<Longrightarrow> rx_ok (snd (mem_read a m)) \<and> rx_src (snd (mem_read a m)) = rx_src m \<and>
     taken (snd (mem_read a m)) = taken m"
  using idles_taken [of m] bus_taken [of "idles m"] by (simp add: mem_read_def reads_data_def)

lemma mem_write_taken:
  "rx_ok m \<Longrightarrow> rx_ok (mem_write a d m) \<and> rx_src (mem_write a d m) = rx_src m \<and> taken (mem_write a d m) = taken m"
  using idles_taken [of m] bus_taken [of "idles m"] by (simp add: mem_write_def reads_data_def)

lemma mem_read_keeps:
  "acia_rx_valid m \<Longrightarrow> a \<noteq> 0x8000 \<Longrightarrow> acia_rx_valid (snd (mem_read a m)) \<and>
     acia_rx_data (snd (mem_read a m)) = acia_rx_data m"
  using idles_keeps [of m] bus_keeps [of False a "idles m"] by (simp add: mem_read_def reads_data_def)

text \<open>Reading the data register while a byte waits there takes that byte.\<close>

lemma mem_read_data:
  assumes "rx_ok m" "acia_rx_valid m"
  shows "mem_read 0x8000 m = (acia_rx_data m, snd (mem_read 0x8000 m)) \<and> rx_ok (snd (mem_read 0x8000 m)) \<and>
     taken (snd (mem_read 0x8000 m)) = taken m @ [acia_rx_data m]"
proof -
  have v: "acia_rx_valid (idles m)" "acia_rx_data (idles m) = acia_rx_data m" using idles_keeps [OF assms(2)] by simp_all
  have "fst (mem_read 0x8000 m) = acia_rx_data m"
    using v by (simp add: mem_read_def bus_cycle_def Let_def read_mux_def is_ctrl_iff)
  then show ?thesis
    using idles_taken [OF assms(1)] bus_taken [of "idles m" True False "0x8000" 0] v
    by (simp add: mem_read_def reads_data_def prod_eq_iff)
qed


section \<open>A key that comes is seen\<close>

text \<open>
  \<open>can N m\<close>: a byte waits, or poll number \<open>N\<close>, still to come, will deliver one. \<open>rx_left\<close>
  bounds the cycles until a byte waits.
\<close>

definition can :: "nat \<Rightarrow> machine \<Rightarrow> bool" where
  "can N m \<longleftrightarrow> acia_rx_valid m \<or> (rx_polls m \<le> N \<and> rx_src m N \<noteq> None)"

definition rx_left :: "nat \<Rightarrow> machine \<Rightarrow> nat" where
  "rx_left N m = (if acia_rx_valid m then 0 else (Suc N - rx_polls m) * 202 + (201 - poll_counter m))"

lemma rx_same_left: "rx_same m m' \<Longrightarrow> can N m' = can N m \<and> rx_left N m' = rx_left N m"
  by (simp add: rx_same_def can_def rx_left_def)

lemma poll_step:
  assumes "can N m" "\<not> acia_rx_valid m"
  shows "can N (poll_block False m) \<and> rx_left N (poll_block False m) < rx_left N m"
proof (cases "200 \<le> poll_counter m")
  case False
  then show ?thesis using assms by (simp add: poll_block_def can_def rx_left_def)
next
  case True
  have N: "rx_polls m \<le> N" "rx_src m N \<noteq> None" using assms by (auto simp: can_def)
  show ?thesis
  proof (cases "rx_src m (rx_polls m)")
    case None
    then have "rx_polls m \<noteq> N" using N(2) by auto
    then have lt: "rx_polls m < N" using N(1) by simp
    then have "Suc N - rx_polls m = Suc (N - rx_polls m)" by simp
    then show ?thesis
      using True None assms(2) lt N(2) by (simp add: poll_block_def Let_def can_def rx_left_def)
  next
    case (Some c)
    then show ?thesis
      using True assms N by (simp add: poll_block_def Let_def can_def rx_left_def)
  qed
qed

lemma bus_step:
  assumes "can N m" "\<not> reads_data we a m" "m' = snd (bus_cycle vpb we a d m)"
  shows "can N m' \<and> (acia_rx_valid m \<longrightarrow> acia_rx_valid m') \<and> (\<not> acia_rx_valid m \<longrightarrow> rx_left N m' < rx_left N m)"
proof (cases "acia_rx_valid m")
  case True
  then show ?thesis using bus_keeps [OF assms(2) True, of vpb d] assms(3) by (simp add: can_def)
next
  case False
  let ?m1 = "m\<lparr>mmu := mmu_negedge True (\<not> we) vpb a d (mmu m)\<rparr>"
  let ?x = "dptr_block a (write_block we a d (tx_block we a d (?m1\<lparr>NMI := \<not> faultb (mmu ?m1)\<rparr>)))"
  have s: "rx_same ?m1 ?x" by (rule rx_same_blocks)
  have s0: "rx_same m ?m1" by (rule bus_rx_same)
  have x: "can N ?x" "rx_left N ?x = rx_left N m" "\<not> acia_rx_valid ?x"
    using rx_same_left [OF s, of N] rx_same_left [OF s0, of N] assms(1) s False
    by (auto simp: rx_same_def)
  have e: "rx_block we a ?x = ?x" using x(3) by (simp add: rx_block_def)
  have "m' = poll_block False ?x"
    unfolding assms(3) bus_cycle_def Let_def posedge_def snd_conv e using False by simp
  then show ?thesis using poll_step [OF x(1,3)] x(2) False by simp
qed

lemma idles_step:
  assumes "can N m"
  shows "can N (idles m) \<and> rx_left N (idles m) \<le> rx_left N m"
proof -
  have "can N ((idle ^^ n) m) \<and> rx_left N ((idle ^^ n) m) \<le> rx_left N m" for n
  proof (induction n)
    case (Suc n)
    let ?x = "(idle ^^ n) m"
    have "can N (idle ?x) \<and> rx_left N (idle ?x) \<le> rx_left N ?x"
    proof (cases "acia_rx_valid ?x")
      case True
      then have "acia_rx_valid (idle ?x)" using bus_keeps [OF idle_not_data True] by (simp add: idle_def)
      then show ?thesis by (simp add: can_def rx_left_def)
    next
      case False
      then show ?thesis using bus_step [OF _ idle_not_data refl, of N ?x True 0] Suc by (simp add: idle_def)
    qed
    then show ?case using Suc by simp
  qed (use assms in simp)
  moreover have "can N (x\<lparr>accs := k\<rparr>) = can N x" "rx_left N (x\<lparr>accs := k\<rparr>) = rx_left N x" for x k
    by (simp_all add: can_def rx_left_def)
  ultimately show ?thesis by (simp add: idles_def)
qed

lemma mem_read_can:
  assumes "can N m" "a \<noteq> 0x8000"
  shows "can N (snd (mem_read a m))"
proof -
  have "\<not> reads_data False a (idles m)" using assms(2) by (simp add: reads_data_def)
  from bus_step [OF conjunct1 [OF idles_step [OF assms(1)]] this refl, of True 0]
  show ?thesis by (simp add: mem_read_def)
qed

lemma rx_status_read:
  "fst (mem_read 0x8001 m) AND 1 = 0 \<longleftrightarrow> \<not> acia_rx_valid (idles m)"
  by (auto simp: mem_read_def bus_cycle_def Let_def read_mux_def status_byte_def is_ctrl_iff)

lemma wait_rx:
  assumes "kmode m" "rx_ok m" "can N m"
  shows "\<exists>m'. wait_set 0x8001 1 m = Some m' \<and> core m' = core m \<and> acia_rx_valid m' \<and> rx_ok m' \<and> taken m' = taken m"
  using assms
proof (induction "rx_left N m" arbitrary: m rule: less_induct)
  case less
  obtain v m1 where rd: "mem_read 0x8001 m = (v, m1)" by fastforce
  have c1: "core m1 = core m"
    using mem_read_core [OF less.prems(1), of "0x8001"] by (simp add: rd rd_spec_other)
  have t1: "rx_ok m1" "taken m1 = taken m"
    using mem_read_taken [OF less.prems(2), of "0x8001"] by (simp_all add: rd)
  note i = idles_step [OF less.prems(3)]
  have nr: "\<not> reads_data False 0x8001 (idles m)" by (simp add: reads_data_def)
  have m1: "m1 = snd (bus_cycle True False 0x8001 0 (idles m))" using rd by (simp add: mem_read_def)
  note b = bus_step [OF conjunct1 [OF i] nr m1]
  show ?case
  proof (cases "acia_rx_valid (idles m)")
    case True
    then show ?thesis
      using rx_status_read [of m] b c1 t1 by (simp add: wait_set.simps [of _ _ m] rd)
  next
    case False
    have k1: "kmode m1" using less.prems(1) c1 core_kmode by blast
    have "rx_left N m1 < rx_left N m" using b False i by simp
    then show ?thesis
      using less.hyps [of m1] k1 t1 b c1 rx_status_read [of m] False
      by (simp add: wait_set.simps [of _ _ m] rd)
  qed
qed

end
