(* ===== verification/Syscalls.thy ===== *)
theory Syscalls
  imports Yield Keyboard
begin

text \<open>
  System calls: the BRK handler \<^verbatim>\<open>sw/kernel/src/brk.s\<close> and the dispatcher
  \<^verbatim>\<open>sw/kernel/src/syscalls.c\<close>. The kernel runs untranslated, so it finds the process's
  zero page and buffers through the MMU's page-table registers, which still hold the process's
  mapping. A call that does not return is \<open>None\<close>. In \<open>*u_zp(...) = e\<close> the address is evaluated
  first; the order does not matter, as no \<open>e\<close> changes the page table.
\<close>

section \<open>The functions of syscalls.c\<close>

definition SYS_NUM :: u16 where "SYS_NUM = 0x32"
definition SYS_ABI_BASE :: u8 where "SYS_ABI_BASE = 48"
definition OFF_RET :: u8 where "OFF_RET = SYS_ABI_BASE + 0x03"
definition OFF_ARG0_LO :: u8 where "OFF_ARG0_LO = SYS_ABI_BASE + 0x04"
definition OFF_ARG0_HI :: u8 where "OFF_ARG0_HI = SYS_ABI_BASE + 0x05"
definition OFF_ARG1_LO :: u8 where "OFF_ARG1_LO = SYS_ABI_BASE + 0x06"
definition OFF_ARG1_HI :: u8 where "OFF_ARG1_HI = SYS_ABI_BASE + 0x07"
definition OFF_A_REG :: u8 where "OFF_A_REG = SYS_ABI_BASE + 0x10"
definition ENOSYS :: u8 where "ENOSYS = 0xFF"

lemmas abi = SYS_ABI_BASE_def OFF_RET_def OFF_ARG0_LO_def OFF_ARG0_HI_def OFF_ARG1_LO_def
  OFF_ARG1_HI_def OFF_A_REG_def

definition u_zp :: "u8 \<Rightarrow> machine \<Rightarrow> u16 \<times> machine" where
  "u_zp off m = (case mem_read MMU_PPN0 m of (p, m) \<Rightarrow> (push_bit 10 (ucast p) OR ucast off, m))"

definition u_ptr :: "u16 \<Rightarrow> machine \<Rightarrow> u16 \<times> machine" where
  "u_ptr va m =
     (case mem_read (MMU_PPN0 + (drop_bit 10 va AND (ucast MMU_NPAGES - 1))) m of (page, m) \<Rightarrow>
        (push_bit 10 (ucast page) OR (va AND 0x03FF), m))"

definition u_load :: "u8 \<Rightarrow> machine \<Rightarrow> u8 \<times> machine" where
  "u_load off m = (case u_zp off m of (p, m) \<Rightarrow> mem_read p m)"

definition u_store :: "u8 \<Rightarrow> u8 \<Rightarrow> machine \<Rightarrow> machine" where
  "u_store off v m = (case u_zp off m of (p, m) \<Rightarrow> mem_write p v m)"

definition u_arg :: "u8 \<Rightarrow> u8 \<Rightarrow> machine \<Rightarrow> u16 \<times> machine" where
  "u_arg off_lo off_hi m =
     (case u_load off_lo m of (l, m) \<Rightarrow> case u_load off_hi m of (h, m) \<Rightarrow> (le16 l h, m))"

partial_function (option) spin :: "machine \<Rightarrow> machine option" where
  "spin m = spin (idle m)"

definition do_exit :: "machine \<Rightarrow> machine option" where
  "do_exit m = spin m"

definition do_putc :: "machine \<Rightarrow> machine option" where
  "do_putc m =
     (case u_load OFF_A_REG m of (c, m) \<Rightarrow> do {
        m \<leftarrow> k_putc c m;
        m \<leftarrow> k_gputc c m;
        Some (u_store OFF_RET 0 m) })"

text \<open>\<open>*u_zp(OFF_A_REG) = *ACIA_DATA\<close>\<close>

definition take_key :: "machine \<Rightarrow> machine" where
  "take_key m =
     (case u_zp OFF_A_REG m of (p, m) \<Rightarrow> case mem_read ACIA_DATA m of (c, m) \<Rightarrow> mem_write p c m)"

definition do_getc :: "machine \<Rightarrow> machine option" where
  "do_getc m = do { m \<leftarrow> wait_set ACIA_STATUS 0x01 m; Some (u_store OFF_RET 0 (take_key m)) }"

definition do_puts :: "machine \<Rightarrow> machine option" where
  "do_puts m =
     (case u_arg OFF_ARG0_LO OFF_ARG0_HI m of (va, m) \<Rightarrow>
      case u_ptr va m of (p, m) \<Rightarrow> do {
        m \<leftarrow> k_print p m;
        Some (u_store OFF_RET 0 m) })"

definition do_block :: "(u32 \<Rightarrow> u16 \<Rightarrow> machine \<Rightarrow> (u8 \<times> machine) option) \<Rightarrow> machine \<Rightarrow> machine option" where
  "do_block op m =
     (case u_arg OFF_ARG0_LO OFF_ARG0_HI m of (lba, m) \<Rightarrow>
      case u_arg OFF_ARG1_LO OFF_ARG1_HI m of (va, m) \<Rightarrow>
      case u_ptr va m of (buf, m) \<Rightarrow>
      case u_zp OFF_RET m of (r, m) \<Rightarrow> do {
        (e, m) \<leftarrow> op (ucast lba) buf m;
        Some (mem_write r e m) })"

definition do_block_read :: "machine \<Rightarrow> machine option" where
  "do_block_read = do_block block_read"

definition do_block_write :: "machine \<Rightarrow> machine option" where
  "do_block_write = do_block block_write"

definition do_getc_nb :: "machine \<Rightarrow> machine option" where
  "do_getc_nb m =
     (case mem_read ACIA_STATUS m of (st, m) \<Rightarrow>
        if st AND 0x01 \<noteq> 0 then Some (u_store OFF_RET 0 (take_key m))
        else Some (u_store OFF_RET 1 (u_store OFF_A_REG 0 m)))"

definition do_enosys :: "machine \<Rightarrow> machine option" where
  "do_enosys m = Some (u_store OFF_RET ENOSYS m)"

definition syscall_dispatch :: "machine \<Rightarrow> machine option" where
  "syscall_dispatch m =
     (case mem_read SYS_NUM m of (n, m) \<Rightarrow>
        if n = 1 then do_exit m
        else if n = 2 then do_putc m
        else if n = 3 then do_getc m
        else if n = 4 then do_puts m
        else if n = 5 then do_block_read m
        else if n = 6 then do_block_write m
        else if n = 8 then do_getc_nb m
        else if n = 9 \<or> n = 10 then do_enosys m
        else Some (u_store OFF_RET ENOSYS m))"

section \<open>brk.s\<close>

text \<open>
  The saved status and program counter are read through \<open>ZP_MEM_PTR\<close>, the address of the
  process's stack page with the stack pointer as its low byte; the index Y is added to the
  16-bit address. The call number is the byte before the saved program counter; it is found through
  \<open>ZP_SYS_NUM_PTR\<close>, whose high byte is stored three times. What is read back from these four bytes is what has just
  been stored there.
\<close>

definition ZP_SYS_NUM_PTR :: u16 where "ZP_SYS_NUM_PTR = 0x30"
definition ZP_MEM_PTR :: u16 where "ZP_MEM_PTR = 0x54"

definition stack_ptr :: "kern \<Rightarrow> u16 \<times> machine" where
  "stack_ptr k =
     (case mem_read MMU_PPN0 (mach k) of (p, m) \<Rightarrow>
        let hi = push_bit 2 p OR 0x01;
            m = mem_write (ZP_MEM_PTR + 1) hi m;
            m = mem_write ZP_MEM_PTR (SP k) m
        in (le16 (SP k) hi, m))"

definition sys_number :: "u16 \<Rightarrow> machine \<Rightarrow> u8 \<times> machine" where
  "sys_number ptr m =
     (case mem_read (ptr + 2) m of (pcl, m) \<Rightarrow>
        let lo = pcl - 1; m = mem_write ZP_SYS_NUM_PTR lo m in
      case mem_read (ptr + 3) m of (pch, m) \<Rightarrow>
        let hi = pch - (if pcl = 0 then 1 else 0);
            m = mem_write (ZP_SYS_NUM_PTR + 1) hi m;
            x = drop_bit 2 hi AND 0x1F;
            m = mem_write (ZP_SYS_NUM_PTR + 1) (hi AND 0x03) m in
      case mem_read (MMU_PPN0 + ucast x) m of (p, m) \<Rightarrow>
        let hi = push_bit 2 p OR (hi AND 0x03);
            m = mem_write (ZP_SYS_NUM_PTR + 1) hi m
        in mem_read (le16 lo hi) m)"

text \<open>
  The dispatcher is called by JSR. A return to any other address than the one pushed is no execution of
  this model.
\<close>

definition brk_handler :: "kern \<Rightarrow> ((u8 \<times> u16) \<times> kern) option" where
  "brk_handler k =
     (case stack_ptr k of (ptr, m) \<Rightarrow>
      case mem_read (ptr + 1) m of (st, m) \<Rightarrow>
        if st AND 0x10 = 0 then Some (ret_user_mode (k\<lparr>mach := m\<rparr>))
        else
          (case sys_number ptr m of (n, m) \<Rightarrow>
             let k = k\<lparr>mach := mem_write SYS_NUM n m\<rparr> in
             if n = 0 then do_yield k
             else
               let k = jsr Dispatch k in do {
                 m \<leftarrow> syscall_dispatch (mach k);
                 (case rts (k\<lparr>mach := m\<rparr>) of (a, k) \<Rightarrow> if a = ret_at k Dispatch then Some (ret_user_mode k) else None) }))"

section \<open>The process's memory\<close>

text \<open>Where the hardware would put the process's virtual address \<open>va\<close> in user mode.\<close>

definition upn :: "machine \<Rightarrow> u16 \<Rightarrow> nat" where
  "upn m va = unat (ram_addr ((mmu m)\<lparr>kernel := False\<rparr>) va)"

lemma upn_eq: "upn m va = unat (ppn (mmu m) (vpn va)) * 1024 + unat va mod 1024"
  by (simp add: upn_def unat_ram_addr_user)

lemma upn_lt: "upn m va < 32768"
  using unat_lt_2p [of "ram_addr ((mmu m)\<lparr>kernel := False\<rparr>) va"] by (simp add: upn_def)

lemma upn_env: "env m' = env m \<Longrightarrow> upn m' va = upn m va"
  by (simp add: env_iff upn_eq)

lemma unat_pack10:
  "unat p < 64 \<Longrightarrow> unat (push_bit 10 (ucast (p :: u8)) OR take_bit 10 (q :: u16)) = unat p * 1024 + unat q mod 1024"
  using unat_pack [of "ucast p :: u16" 10 q] by (simp add: unat_ucast_mod)

lemma ppn_byte: "unat (ucast (t :: 5 word) :: u8) = unat t" "unat (t :: 5 word) < 64"
  using unat_lt_2p [of t] by (simp_all add: unat_ucast_mod)

lemma vpn_reg: "drop_bit 10 (va :: u16) AND 0x1F = word_of_nat (unat (vpn va))"
proof -
  have "unat (drop_bit 10 va AND 0x1F) = unat (vpn va)"
    by (simp add: and_mask_numeral unat_take_bit_mod unat_drop_bit unat_vpn)
  then show ?thesis by (rule word_eq_of_nat)
qed

lemma u_ptr_env:
  assumes "kmode m"
  shows "\<exists>m'. u_ptr va m = (word_of_nat (upn m va), m') \<and> ram m' = ram m \<and> env m' = env m"
proof -
  let ?x = "unat (vpn va)"
  have x: "?x < 32" using unat_lt_2p [of "vpn va"] by simp
  have n: "ucast MMU_NPAGES - 1 = (0x1F :: u16)" by (simp add: MMU_NPAGES_def)
  obtain m1 where m1: "mem_read (0x8080 + word_of_nat ?x) m = (ucast (ppn (mmu m) (vpn va)), m1)"
      "ram m1 = ram m" "env m1 = env m"
    using rd_ppn [OF assms x] by auto
  have "unat (push_bit 10 (ucast (ucast (ppn (mmu m) (vpn va)) :: u8)) OR take_bit 10 va) = upn m va"
    unfolding upn_eq using unat_pack10 [of "ucast (ppn (mmu m) (vpn va))" va] ppn_byte by simp
  then have "push_bit 10 (ucast (ucast (ppn (mmu m) (vpn va)) :: u8)) OR (va AND 0x03FF) = word_of_nat (upn m va)"
    unfolding and_mask_numeral by (rule word_eq_of_nat)
  then show ?thesis
    using m1 by (intro exI [of _ m1]) (simp add: u_ptr_def n vpn_reg MMU_PPN0_def)
qed

text \<open>A slot of the process's zero page.\<close>

definition slot :: "machine \<Rightarrow> u8 \<Rightarrow> nat" where
  "slot m off = unat (ppn (mmu m) 0) * 1024 + unat off"

lemma slot_lt: "slot m off < 32768"
  using unat_lt_2p [of "ppn (mmu m) 0"] unat_u8_lt [of off] by (simp add: slot_def)

lemma slot_env: "env m' = env m \<Longrightarrow> slot m' off = slot m off"
  by (simp add: env_iff slot_def)

lemma slot_upn: "slot m off = upn m (ucast off)"
proof -
  have u: "unat (ucast off :: u16) = unat off" using unat_u8_lt [of off] by (simp add: unat_ucast_mod)
  have "unat (vpn (ucast off)) = 0" using unat_u8_lt [of off] by (simp add: unat_vpn u)
  then have "vpn (ucast off) = 0" by (simp add: unat_eq_0)
  then show ?thesis using unat_u8_lt [of off] by (simp add: slot_def upn_eq u)
qed

lemma u_zp_env:
  assumes "kmode m"
  shows "\<exists>m'. u_zp off m = (word_of_nat (slot m off), m') \<and> ram m' = ram m \<and> env m' = env m"
proof -
  obtain m1 where m1: "mem_read 0x8080 m = (ucast (ppn (mmu m) 0), m1)" "ram m1 = ram m" "env m1 = env m"
    using rd_ppn [OF assms, of 0] by auto
  have o: "take_bit 10 (ucast off) = (ucast off :: u16)"
    using unat_u8_lt [of off]
    by (simp add: word_unat_eq_iff unat_take_bit_mod unat_ucast_mod)
  have "unat (push_bit 10 (ucast (ucast (ppn (mmu m) 0) :: u8)) OR (ucast off :: u16)) = slot m off"
    using unat_pack10 [of "ucast (ppn (mmu m) 0)" "ucast off"] ppn_byte unat_u8_lt [of off]
    by (simp add: o slot_def unat_ucast_mod)
  then have "push_bit 10 (ucast (ucast (ppn (mmu m) 0) :: u8)) OR (ucast off :: u16) = word_of_nat (slot m off)"
    by (rule word_eq_of_nat)
  then show ?thesis using m1 by (intro exI [of _ m1]) (simp add: u_zp_def MMU_PPN0_def)
qed

lemma u_load_env:
  assumes "kmode m"
  shows "\<exists>m'. u_load off m = (ram m (word_of_nat (slot m off)), m') \<and> ram m' = ram m \<and> env m' = env m"
proof -
  obtain m1 where m1: "u_zp off m = (word_of_nat (slot m off), m1)" "ram m1 = ram m" "env m1 = env m"
    using u_zp_env [OF assms] by blast
  have "kmode m1" by (rule kmode_env [OF m1(3) assms])
  then show ?thesis using rd_at [OF _ slot_lt, of m1 m off] m1 by (auto simp: u_load_def)
qed

lemma u_store_env:
  assumes "kmode m"
  shows "ram (u_store off v m) = blit (slot m off) [v] (ram m)" "env (u_store off v m) = env m"
proof -
  obtain m1 where m1: "u_zp off m = (word_of_nat (slot m off), m1)" "ram m1 = ram m" "env m1 = env m"
    using u_zp_env [OF assms] by blast
  have k1: "kmode m1" by (rule kmode_env [OF m1(3) assms])
  show "ram (u_store off v m) = blit (slot m off) [v] (ram m)" "env (u_store off v m) = env m"
    using wr_at [OF k1 slot_lt, of m off v] m1 by (simp_all add: u_store_def)
qed

definition arg16 :: "machine \<Rightarrow> u8 \<Rightarrow> u8 \<Rightarrow> u16" where
  "arg16 m lo hi = le16 (ram m (word_of_nat (slot m lo))) (ram m (word_of_nat (slot m hi)))"

lemma u_arg_env:
  assumes "kmode m"
  shows "\<exists>m'. u_arg lo hi m = (arg16 m lo hi, m') \<and> ram m' = ram m \<and> env m' = env m"
proof -
  obtain m1 where m1: "u_load lo m = (ram m (word_of_nat (slot m lo)), m1)" "ram m1 = ram m" "env m1 = env m"
    using u_load_env [OF assms] by blast
  have k1: "kmode m1" by (rule kmode_env [OF m1(3) assms])
  obtain m2 where "u_load hi m1 = (ram m (word_of_nat (slot m hi)), m2)" "ram m2 = ram m" "env m2 = env m"
    using u_load_env [OF k1, of hi] m1(2,3) slot_env [OF m1(3), of hi] by auto
  then show ?thesis using m1(1) by (auto simp: u_arg_def arg16_def)
qed


lemma slot_ppn: "ppn (mmu m') = ppn (mmu m) \<Longrightarrow> slot m' off = slot m off"
  by (simp add: slot_def)

lemma env_emit_fields:
  "env m' = env (emit bs m) \<Longrightarrow> kmode m' = kmode m \<and> ppn (mmu m') = ppn (mmu m)"
  by (simp add: env_iff kmode_def)

lemma upn_plus:
  assumes "unat va mod 1024 + i < 1024"
  shows "upn m (va + word_of_nat i) = upn m va + i"
proof -
  have d: "unat va = unat va div 1024 * 1024 + unat va mod 1024" by simp
  have "unat va div 1024 \<le> 63" using unat_u16_lt [of va] by simp
  then have lt: "unat va + i < 65536" using assms d by linarith
  have u: "unat (va + word_of_nat i) = unat va + i"
    using lt by (simp add: unat_word_ariths unat_of_nat)
  have "unat va + i = unat va div 1024 * 1024 + (unat va mod 1024 + i)" using d by linarith
  then have q: "(unat va + i) div 1024 = unat va div 1024" "(unat va + i) mod 1024 = unat va mod 1024 + i"
    using assms by (simp_all only: div_mult_self3 mod_mult_self3 div_less mod_less)
  then have "unat (vpn (va + word_of_nat i)) = unat (vpn va)" by (simp add: unat_vpn u)
  then have "vpn (va + word_of_nat i) = vpn va" by (simp add: word_unat_eq_iff)
  then show ?thesis by (simp add: upn_eq u q)
qed

lemma do_putc_env:
  assumes "kmode m"
  shows "\<exists>m'. do_putc m = Some m' \<and> ram m' = blit (slot m OFF_RET) [0] (ram m) \<and>
           env m' = env (emit [ram m (word_of_nat (slot m OFF_A_REG))] m)"
proof -
  let ?c = "ram m (word_of_nat (slot m OFF_A_REG))"
  obtain m1 where m1: "u_load OFF_A_REG m = (?c, m1)" "ram m1 = ram m" "env m1 = env m"
    using u_load_env [OF assms] by blast
  have k1: "kmode m1" by (rule kmode_env [OF m1(3) assms])
  obtain m2 where m2: "put_both ?c m1 = Some m2" "ram m2 = ram m" "env m2 = env (emit [?c] m)"
    using put_both_env [OF k1, of ?c] m1(2) emit_env [OF m1(3), of "[?c]"] by auto
  have k2: "kmode m2" and p2: "slot m2 OFF_RET = slot m OFF_RET"
    using env_emit_fields [OF m2(3)] assms slot_ppn [of m2 m] by simp_all
  have "do_putc m = Some (u_store OFF_RET 0 m2)"
    using m1(1) m2(1) by (auto simp: do_putc_def put_both_def split: bind_splits)
  then show ?thesis using u_store_env [OF k2, of OFF_RET 0] m2 p2 by simp
qed

text \<open>A NUL-terminated string at the process's address \<open>va\<close>, within one page.\<close>

definition ucstr :: "machine \<Rightarrow> u16 \<Rightarrow> u8 list \<Rightarrow> bool" where
  "ucstr m va bs \<longleftrightarrow> unat va mod 1024 + length bs < 1024 \<and> 0 \<notin> set bs \<and>
     (\<forall>i < length bs. ram m (word_of_nat (upn m (va + word_of_nat i))) = bs ! i) \<and>
     ram m (word_of_nat (upn m (va + word_of_nat (length bs)))) = 0"

lemma upn_page: "upn m va + (1024 - unat va mod 1024) \<le> 32768"
  using unat_lt_2p [of "ppn (mmu m) (vpn va)"] mod_less_divisor [of 1024 "unat va"]
  unfolding upn_eq by simp

lemma ucstr_cstr:
  assumes "ucstr m va bs"
  shows "cstr_at m (word_of_nat (upn m va)) bs"
proof -
  have len: "unat va mod 1024 + length bs < 1024" and z: "0 \<notin> set bs" using assms by (auto simp: ucstr_def)
  have b: "upn m va + length bs < 32768" using upn_page [of m va] len by linarith
  have u: "unat (word_of_nat (upn m va) :: u16) = upn m va" using upn_lt [of m va] by (simp add: unat_of_nat_16)
  have a: "(ucast (word_of_nat (upn m va) + word_of_nat i :: u16) :: 15 word) = word_of_nat (upn m (va + word_of_nat i))"
    if "i \<le> length bs" for i
  proof -
    have "(ucast (word_of_nat (upn m va) + word_of_nat i :: u16) :: 15 word) = word_of_nat (upn m va + i)"
      using ucast15_plus(1) [of "word_of_nat (upn m va)" i] that b u by simp
    then show ?thesis using upn_plus [of va i m] that len by simp
  qed
  have "ram m (ucast (word_of_nat (upn m va) + word_of_nat i :: u16)) = bs ! i" if "i < length bs" for i
    using that assms by (simp add: a ucstr_def)
  moreover have "ram m (ucast (word_of_nat (upn m va) + word_of_nat (length bs) :: u16)) = 0"
    using assms by (simp add: a ucstr_def)
  ultimately show ?thesis using z b u by (simp add: cstr_at_def)
qed

lemma ucstr_same: "ram m' = ram m \<Longrightarrow> env m' = env m \<Longrightarrow> ucstr m' va bs = ucstr m va bs"
  using upn_env [of m' m] by (simp add: ucstr_def)

lemma do_puts_env:
  assumes "kmode m" "ucstr m (arg16 m OFF_ARG0_LO OFF_ARG0_HI) bs"
  shows "\<exists>m'. do_puts m = Some m' \<and> ram m' = blit (slot m OFF_RET) [0] (ram m) \<and> env m' = env (emit bs m)"
proof -
  let ?va = "arg16 m OFF_ARG0_LO OFF_ARG0_HI"
  obtain m1 where m1: "u_arg OFF_ARG0_LO OFF_ARG0_HI m = (?va, m1)" "ram m1 = ram m" "env m1 = env m"
    using u_arg_env [OF assms(1)] by blast
  have k1: "kmode m1" by (rule kmode_env [OF m1(3) assms(1)])
  obtain m2 where m2: "u_ptr ?va m1 = (word_of_nat (upn m ?va), m2)" "ram m2 = ram m" "env m2 = env m"
    using u_ptr_env [OF k1, of ?va] m1(2,3) upn_env [OF m1(3)] by auto
  have k2: "kmode m2" by (rule kmode_env [OF m2(3) assms(1)])
  have "cstr_at m2 (word_of_nat (upn m ?va)) bs"
    using ucstr_cstr [of m2 ?va bs] assms(2) ucstr_same [OF m2(2,3)] upn_env [OF m2(3)] by simp
  then obtain m3 where m3: "k_print (word_of_nat (upn m ?va)) m2 = Some m3" "ram m3 = ram m" "env m3 = env (emit bs m)"
    using k_print_env [OF k2, of "word_of_nat (upn m ?va)" bs] m2(2) emit_env [OF m2(3), of bs] by auto
  have k3: "kmode m3" and p3: "slot m3 OFF_RET = slot m OFF_RET"
    using env_emit_fields [OF m3(3)] assms(1) slot_ppn [of m3 m] by simp_all
  have "do_puts m = Some (u_store OFF_RET 0 m3)"
    by (simp add: do_puts_def m1(1) m2(1) m3(1))
  then show ?thesis using u_store_env [OF k3, of OFF_RET 0] m3 p3 by simp
qed

text \<open>The common part of the two block calls: what they hand to the driver.\<close>

lemma do_block_env:
  assumes "kmode m"
    and op: "\<And>m1. \<lbrakk>kmode m1; ram m1 = ram m; env m1 = env m\<rbrakk> \<Longrightarrow>
      \<exists>m2. opr (ucast (arg16 m OFF_ARG0_LO OFF_ARG0_HI)) (word_of_nat (upn m (arg16 m OFF_ARG1_LO OFF_ARG1_HI))) m1
             = Some (e, m2) \<and> kmode m2 \<and> ram m2 = r \<and> env m2 = v"
  shows "\<exists>m'. do_block opr m = Some m' \<and> ram m' = blit (slot m OFF_RET) [e] r \<and> env m' = v"
proof -
  let ?lba = "arg16 m OFF_ARG0_LO OFF_ARG0_HI" and ?va = "arg16 m OFF_ARG1_LO OFF_ARG1_HI"
  obtain m1 where m1: "u_arg OFF_ARG0_LO OFF_ARG0_HI m = (?lba, m1)" "ram m1 = ram m" "env m1 = env m"
    using u_arg_env [OF assms(1)] by blast
  have k1: "kmode m1" by (rule kmode_env [OF m1(3) assms(1)])
  have "arg16 m1 OFF_ARG1_LO OFF_ARG1_HI = ?va"
    by (simp add: arg16_def m1(2) slot_env [OF m1(3)])
  then obtain m2 where m2: "u_arg OFF_ARG1_LO OFF_ARG1_HI m1 = (?va, m2)" "ram m2 = ram m" "env m2 = env m"
    using u_arg_env [OF k1, of OFF_ARG1_LO OFF_ARG1_HI] m1(2,3) by auto
  have k2: "kmode m2" by (rule kmode_env [OF m2(3) assms(1)])
  obtain m3 where m3: "u_ptr ?va m2 = (word_of_nat (upn m ?va), m3)" "ram m3 = ram m" "env m3 = env m"
    using u_ptr_env [OF k2, of ?va] m2(2,3) upn_env [OF m2(3)] by auto
  have k3: "kmode m3" by (rule kmode_env [OF m3(3) assms(1)])
  obtain m4 where m4: "u_zp OFF_RET m3 = (word_of_nat (slot m OFF_RET), m4)" "ram m4 = ram m" "env m4 = env m"
    using u_zp_env [OF k3, of OFF_RET] m3(2,3) slot_env [OF m3(3)] by auto
  have k4: "kmode m4" by (rule kmode_env [OF m4(3) assms(1)])
  obtain m5 where m5: "opr (ucast ?lba) (word_of_nat (upn m ?va)) m4 = Some (e, m5)" "kmode m5" "ram m5 = r" "env m5 = v"
    using op [OF k4 m4(2,3)] by blast
  have "do_block opr m = Some (mem_write (word_of_nat (slot m OFF_RET)) e m5)"
    by (simp add: do_block_def m1(1) m2(1) m3(1) m4(1) m5(1))
  then show ?thesis using wr_at [OF m5(2) slot_lt, of m OFF_RET e] m5(3,4) by simp
qed


section \<open>Keys\<close>

text \<open>Accesses of the kernel outside the data register leave the receiver's stream alone.\<close>

definition stream_ok :: "u8 list \<Rightarrow> machine \<Rightarrow> bool" where
  "stream_ok ks m \<longleftrightarrow> rx_ok m \<and> taken m = ks"

lemma rd_stream: "stream_ok ks m \<Longrightarrow> a \<noteq> 0x8000 \<Longrightarrow> mem_read a m = (v, m') \<Longrightarrow> stream_ok ks m'"
  using mem_read_taken [of m a] by (simp add: stream_ok_def)

lemma wr_stream: "stream_ok ks m \<Longrightarrow> stream_ok ks (mem_write a d m)"
  using mem_write_taken [of m a d] by (simp add: stream_ok_def)

lemma u_zp_stream: "stream_ok ks m \<Longrightarrow> u_zp off m = (p, m') \<Longrightarrow> stream_ok ks m'"
  using rd_stream [of ks m MMU_PPN0] by (auto simp: u_zp_def MMU_PPN0_def split: prod.splits)

lemma u_store_stream: "stream_ok ks m \<Longrightarrow> stream_ok ks (u_store off v m)"
  using u_zp_stream [of ks m off] wr_stream by (auto simp: u_store_def split: prod.splits)

lemma take_key_env:
  assumes "kmode m" "rx_ok m" "acia_rx_valid m"
  shows "ram (take_key m) = blit (slot m OFF_A_REG) [acia_rx_data m] (ram m) \<and> env (take_key m) = env m \<and>
    stream_ok (taken m @ [acia_rx_data m]) (take_key m)"
proof -
  let ?c = "acia_rx_data m"
  obtain m1 where m1: "u_zp OFF_A_REG m = (word_of_nat (slot m OFF_A_REG), m1)" "ram m1 = ram m" "env m1 = env m"
    using u_zp_env [OF assms(1)] by blast
  have k1: "kmode m1" by (rule kmode_env [OF m1(3) assms(1)])
  have s1: "rx_ok m1" "taken m1 = taken m"
    using u_zp_stream [OF _ m1(1), of "taken m"] assms(2) by (simp_all add: stream_ok_def)
  have v1: "acia_rx_valid m1" "acia_rx_data m1 = ?c"
    using m1(1) mem_read_keeps [OF assms(3), of MMU_PPN0]
    by (auto simp: u_zp_def MMU_PPN0_def split: prod.splits)
  obtain m2 where m2: "mem_read 0x8000 m1 = (?c, m2)" "rx_ok m2" "taken m2 = taken m @ [?c]"
    using mem_read_data [OF s1(1) v1(1)] v1(2) s1(2) by (metis prod.collapse)
  have c2: "core m2 = core m1"
    using mem_read_core [OF k1, of "0x8000"] m2(1) by (simp add: rd_spec_other)
  have e2: "ram m2 = ram m" "env m2 = env m"
    using core_env [OF c2] m1(2,3) by simp_all
  have k2: "kmode m2" by (rule kmode_env [OF e2(2) assms(1)])
  have "take_key m = mem_write (word_of_nat (slot m OFF_A_REG)) ?c m2"
    using m1(1) m2(1) by (simp add: take_key_def ACIA_DATA_def)
  then show ?thesis
    using wr_at [OF k2 slot_lt, of m OFF_A_REG ?c] e2 m2(2,3) wr_stream [of "taken m @ [?c]" m2]
    by (simp add: stream_ok_def)
qed

lemma store_key_env:
  assumes "kmode m" "rx_ok m" "acia_rx_valid m"
  shows "\<exists>c. ram (u_store OFF_RET 0 (take_key m)) = blit (slot m OFF_RET) [0] (blit (slot m OFF_A_REG) [c] (ram m)) \<and>
    env (u_store OFF_RET 0 (take_key m)) = env m \<and> stream_ok (taken m @ [c]) (u_store OFF_RET 0 (take_key m))"
proof -
  note t = take_key_env [OF assms]
  have k: "kmode (take_key m)" using t kmode_env assms(1) by blast
  have s: "slot (take_key m) OFF_RET = slot m OFF_RET" using t slot_env by blast
  show ?thesis
    using u_store_env [OF k, of OFF_RET 0] t s u_store_stream by (intro exI [of _ "acia_rx_data m"]) auto
qed

lemma do_getc_env:
  assumes "kmode m" "rx_ok m" "can N m"
  shows "\<exists>m' c. do_getc m = Some m' \<and> ram m' = blit (slot m OFF_RET) [0] (blit (slot m OFF_A_REG) [c] (ram m)) \<and>
    env m' = env m \<and> stream_ok (taken m @ [c]) m'"
proof -
  obtain m1 where m1: "wait_set 0x8001 1 m = Some m1" "core m1 = core m" "acia_rx_valid m1" "rx_ok m1" "taken m1 = taken m"
    using wait_rx [OF assms] by blast
  have k1: "kmode m1" using m1(2) assms(1) core_kmode by blast
  have e1: "ram m1 = ram m" "env m1 = env m" using core_env [OF m1(2)] by simp_all
  have "do_getc m = Some (u_store OFF_RET 0 (take_key m1))"
    using m1(1) by (simp add: do_getc_def ACIA_STATUS_def)
  then show ?thesis
    using store_key_env [OF k1 m1(4,3)] e1 m1(5) slot_env [OF e1(2), of OFF_RET] slot_env [OF e1(2), of OFF_A_REG]
    by auto
qed

lemma do_getc_nb_env:
  assumes "kmode m" "rx_ok m"
  shows "\<exists>m'. do_getc_nb m = Some m' \<and> env m' = env m \<and>
    ((\<exists>c. ram m' = blit (slot m OFF_RET) [0] (blit (slot m OFF_A_REG) [c] (ram m)) \<and> stream_ok (taken m @ [c]) m') \<or>
     (ram m' = blit (slot m OFF_RET) [1] (blit (slot m OFF_A_REG) [0] (ram m)) \<and> stream_ok (taken m) m'))"
proof -
  obtain st m1 where rd: "mem_read 0x8001 m = (st, m1)" by fastforce
  have c1: "core m1 = core m" using mem_read_core [OF assms(1), of "0x8001"] by (simp add: rd rd_spec_other)
  have k1: "kmode m1" using c1 assms(1) core_kmode by blast
  have e1: "ram m1 = ram m" "env m1 = env m" using core_env [OF c1] by simp_all
  have s1: "stream_ok (taken m) m1" using rd_stream [OF _ _ rd] assms(2) by (simp add: stream_ok_def)
  have sl: "slot m1 off = slot m off" for off by (rule slot_env [OF e1(2)])
  show ?thesis
  proof (cases "st AND 1 = 0")
    case False
    then have v: "acia_rx_valid (idles m)" using rx_status_read [of m] by (simp add: rd)
    have nr: "\<not> reads_data False 0x8001 (idles m)" by (simp add: reads_data_def)
    have "acia_rx_valid m1" using bus_keeps [OF nr v, of True 0] rd by (simp add: mem_read_def)
    then show ?thesis
      using store_key_env [OF k1] s1 e1 sl rd False by (auto simp: do_getc_nb_def ACIA_STATUS_def stream_ok_def)
  next
    case True
    let ?m2 = "u_store OFF_A_REG 0 m1"
    have m2: "ram ?m2 = blit (slot m OFF_A_REG) [0] (ram m)" "env ?m2 = env m"
      using u_store_env [OF k1, of OFF_A_REG 0] e1 sl by simp_all
    have k2: "kmode ?m2" by (rule kmode_env [OF m2(2) assms(1)])
    have s2: "slot ?m2 OFF_RET = slot m OFF_RET" by (rule slot_env [OF m2(2)])
    have "do_getc_nb m = Some (u_store OFF_RET 1 ?m2)"
      using rd True by (simp add: do_getc_nb_def ACIA_STATUS_def)
    then show ?thesis
      using u_store_env [OF k2, of OFF_RET 1] m2 s2 u_store_stream [OF u_store_stream [OF s1]] by auto
  qed
qed


section \<open>Dispatch\<close>

lemma spin_never: "spin m = None"
proof -
  have "spin m = Some y \<Longrightarrow> False" for y
    by (rule spin.raw_induct [where P = "\<lambda>_ _. False"]) blast+
  then show ?thesis by (cases "spin m") auto
qed

lemma read_sys_num:
  assumes "kmode m" "ram m 0x32 = n"
  shows "\<exists>m1. mem_read SYS_NUM m = (n, m1) \<and> ram m1 = ram m \<and> env m1 = env m"
  using rd_ram [OF assms(1), of SYS_NUM] assms(2) by (simp add: SYS_NUM_def)

definition implemented :: "u8 set" where
  "implemented = {1, 2, 3, 4, 5, 6, 8}"

lemma dispatch_enosys:
  assumes "kmode m" "ram m 0x32 = n" "n \<notin> implemented"
  shows "\<exists>m'. syscall_dispatch m = Some m' \<and> ram m' = blit (slot m OFF_RET) [ENOSYS] (ram m) \<and> env m' = env m"
proof -
  obtain m1 where m1: "mem_read SYS_NUM m = (n, m1)" "ram m1 = ram m" "env m1 = env m"
    using read_sys_num [OF assms(1,2)] by blast
  have k1: "kmode m1" by (rule kmode_env [OF m1(3) assms(1)])
  have "syscall_dispatch m = Some (u_store OFF_RET ENOSYS m1)"
    using assms(3) by (auto simp: syscall_dispatch_def m1(1) implemented_def do_enosys_def)
  then show ?thesis using u_store_env [OF k1, of OFF_RET ENOSYS] m1(2,3) slot_env [OF m1(3), of OFF_RET] by simp
qed

lemma dispatch_to:
  assumes "kmode m" "ram m 0x32 = n"
  shows "\<exists>m1. ram m1 = ram m \<and> env m1 = env m \<and> (stream_ok ks m \<longrightarrow> stream_ok ks m1) \<and>
    (can N m \<longrightarrow> can N m1) \<and>
    (n = 1 \<longrightarrow> syscall_dispatch m = do_exit m1) \<and> (n = 2 \<longrightarrow> syscall_dispatch m = do_putc m1) \<and>
    (n = 3 \<longrightarrow> syscall_dispatch m = do_getc m1) \<and> (n = 4 \<longrightarrow> syscall_dispatch m = do_puts m1) \<and>
    (n = 5 \<longrightarrow> syscall_dispatch m = do_block_read m1) \<and> (n = 6 \<longrightarrow> syscall_dispatch m = do_block_write m1) \<and>
    (n = 8 \<longrightarrow> syscall_dispatch m = do_getc_nb m1)"
proof -
  obtain m1 where m1: "mem_read SYS_NUM m = (n, m1)" "ram m1 = ram m" "env m1 = env m"
    using read_sys_num [OF assms] by blast
  have "can N m \<longrightarrow> can N m1"
    using mem_read_can [of N m SYS_NUM] m1(1) by (simp add: SYS_NUM_def)
  moreover have "stream_ok ks m \<longrightarrow> stream_ok ks m1" using rd_stream [OF _ _ m1(1)] by (auto simp: SYS_NUM_def)
  ultimately show ?thesis using m1(2,3) by (intro exI [of _ m1]) (simp add: syscall_dispatch_def m1(1))
qed

section \<open>The BRK handler\<close>

lemma unat_le16: "unat (le16 lo hi) = unat hi * 256 + unat lo"
proof -
  have l: "take_bit 8 (ucast lo) = (ucast lo :: u16)"
    using unat_u8_lt [of lo] by (simp add: word_unat_eq_iff unat_take_bit_mod unat_ucast_mod)
  have "unat (push_bit 8 (ucast hi) OR take_bit 8 (ucast lo) :: u16) = unat hi * 256 + unat lo"
    using unat_pack [of "ucast hi :: u16" 8 "ucast lo"] unat_u8_lt [of hi] unat_u8_lt [of lo]
    by (simp add: unat_ucast_mod)
  then show ?thesis unfolding l by (simp add: le16_def or.commute)
qed

lemma unat_lo8: "unat (lo8 w) = unat w mod 256" and unat_hi8: "unat (hi8 w) = unat w div 256"
  using unat_u16_lt [of w] by (simp_all add: lo8_def hi8_def unat_ucast_mod unat_drop_bit)

lemma unat_pack2:
  "unat p < 64 \<Longrightarrow> unat (push_bit 2 p OR take_bit 2 (q :: u8)) = unat p * 4 + unat q mod 4"
  using unat_pack [of p 2 q] by simp

text \<open>The bytes of the handler's two pointers.\<close>

definition kptr :: "nat \<Rightarrow> bool" where
  "kptr n \<longleftrightarrow> n \<in> {0x30, 0x31, 0x54, 0x55}"

lemma kptr_low: "kptr n \<Longrightarrow> n < 0x100" "kptr n \<Longrightarrow> kscratch n"
  by (auto simp: kptr_def kscratch_def)

lemma kptr_keeps: "same_except kptr r r' \<Longrightarrow> 0x100 \<le> n \<Longrightarrow> n < 32768 \<Longrightarrow> r' (word_of_nat n) = r (word_of_nat n)"
  using kptr_low(1) [of n] by (auto simp: same_except_def)

lemma wr_kptr:
  assumes "kmode m" "kptr n" "same_except kptr r (ram m)"
  shows "kmode (mem_write (word_of_nat n) d m)" "same_except kptr r (ram (mem_write (word_of_nat n) d m))"
    "env (mem_write (word_of_nat n) d m) = env m"
proof -
  note w = wr_zp [OF assms(1) kptr_low(1) [OF assms(2)], of d]
  show "env (mem_write (word_of_nat n) d m) = env m" by (rule w(2))
  then show "kmode (mem_write (word_of_nat n) d m)" using kmode_env assms(1) by blast
  have "unat (word_of_nat n :: 15 word) = n" using kptr_low(1) [OF assms(2)] by (simp add: unat_of_nat_15)
  then show "same_except kptr r (ram (mem_write (word_of_nat n) d m))"
    unfolding w(1) using assms(2) by (intro same_except_upd assms(3)) simp
qed

lemma kptr_ptrs: "kptr 0x30" "kptr 0x31" "kptr 0x54" "kptr 0x55"
  by (simp_all add: kptr_def)

lemma ptr_adrs: "ZP_MEM_PTR = word_of_nat 0x54" "ZP_MEM_PTR + 1 = word_of_nat 0x55"
    "ZP_SYS_NUM_PTR = word_of_nat 0x30" "ZP_SYS_NUM_PTR + 1 = word_of_nat 0x31"
  by (simp_all add: ZP_MEM_PTR_def ZP_SYS_NUM_PTR_def)

lemma stack_ptr_env:
  assumes "kmode (mach k)"
  shows "\<exists>m'. stack_ptr k = (word_of_nat (unat (ppn (mmu (mach k)) 0) * 1024 + 256 + unat (SP k)), m') \<and>
    same_except kptr (ram (mach k)) (ram m') \<and> env m' = env (mach k)"
proof -
  let ?t = "ppn (mmu (mach k)) 0"
  obtain m1 where m1: "mem_read 0x8080 (mach k) = (ucast ?t, m1)" "ram m1 = ram (mach k)" "env m1 = env (mach k)"
    using rd_ppn [OF assms, of 0] by auto
  have k1: "kmode m1" by (rule kmode_env [OF m1(3) assms])
  have "take_bit 2 (1 :: u8) = 1" by (simp add: word_unat_eq_iff unat_take_bit_mod)
  then have "unat (push_bit 2 (ucast ?t) OR (1 :: u8)) = unat ?t * 4 + 1"
    using unat_pack2 [of "ucast ?t" 1] ppn_byte [of ?t] by simp
  then have "unat (le16 (SP k) (push_bit 2 (ucast ?t) OR 1)) = unat ?t * 1024 + 256 + unat (SP k)"
    by (simp add: unat_le16)
  then have p: "le16 (SP k) (push_bit 2 (ucast ?t) OR 1) = word_of_nat (unat ?t * 1024 + 256 + unat (SP k))"
    by (rule word_eq_of_nat)
  let ?m2 = "mem_write (word_of_nat 0x55) (push_bit 2 (ucast ?t) OR 1) m1"
  have "same_except kptr (ram (mach k)) (ram m1)" by (simp add: m1(2))
  note m2 = wr_kptr [OF k1 kptr_ptrs(4) this, of "push_bit 2 (ucast ?t) OR 1"]
  note m3 = wr_kptr [OF m2(1) kptr_ptrs(3) m2(2), of "SP k"]
  have "stack_ptr k = (word_of_nat (unat ?t * 1024 + 256 + unat (SP k)), mem_write (word_of_nat 0x54) (SP k) ?m2)"
    unfolding stack_ptr_def MMU_PPN0_def m1(1) prod.case Let_def ptr_adrs(2) unfolding ptr_adrs(1) p ..
  then show ?thesis using m3(2) m3(3) m2(3) m1(3) by (simp del: of_nat_add of_nat_numeral)
qed

lemma pred_le16: "le16 l h - 1 = le16 (l - 1) (h - (if l = 0 then 1 else 0))"
proof -
  have z: "unat (0 - 1 :: u8) = 255" by (simp add: unat_m1_8)
  have "unat (le16 l h - 1) = unat (le16 (l - 1) (h - (if l = 0 then 1 else 0)))"
  proof (cases "l = 0")
    case False
    then have "unat (l - 1) = unat l - 1" "0 < unat l" by (simp_all add: unat_minus_one unat_gt_0)
    moreover have "le16 l h \<noteq> 0" using \<open>0 < unat l\<close> unat_le16 [of l h] by auto
    ultimately show ?thesis using False by (simp add: unat_minus_one unat_le16)
  next
    case l: True
    show ?thesis
    proof (cases "h = 0")
      case True
      then have "le16 l h = 0" using l unat_le16 [of l h] by (simp add: unat_eq_0)
      then show ?thesis
        using True l by (simp add: unat_le16 unat_m1_8 unsigned_minus_1_eq_mask mask_eq_exp_minus_1)
    next
      case False
      then have "unat (h - 1) = unat h - 1" "0 < unat h" by (simp_all add: unat_minus_one unat_gt_0)
      moreover have "le16 l h \<noteq> 0" using \<open>0 < unat h\<close> unat_le16 [of l h] by auto
      ultimately show ?thesis
        using l by (simp add: unat_minus_one unat_le16 unat_m1_8 diff_mult_distrib)
    qed
  qed
  then show ?thesis by (simp add: word_unat_eq_iff)
qed

lemma pred_bytes:
  "lo8 (w - 1) = lo8 w - 1" "hi8 (w - 1) = hi8 w - (if lo8 w = 0 then 1 else 0)"
  using pred_le16 [of "lo8 w" "hi8 w"] by (metis le16_split lo8_le16 hi8_le16)+

lemma sys_number_env:
  assumes "kmode m" "0x100 \<le> q" "q + 3 < 32768" "ram m (word_of_nat (q + 2)) = lo8 ret" "ram m (word_of_nat (q + 3)) = hi8 ret"
    "\<not> kptr (upn m (ret - 1))"
  shows "\<exists>m'. sys_number (word_of_nat q) m = (ram m (word_of_nat (upn m (ret - 1))), m') \<and>
    same_except kptr (ram m) (ram m') \<and> env m' = env m"
proof -
  let ?va = "ret - 1" and ?x = "unat (vpn (ret - 1))"
  let ?hi = "hi8 ret - (if lo8 ret = 0 then 1 else 0)"
  let ?t = "ppn (mmu m) (vpn ?va)"
  have hi: "?hi = hi8 ?va" and lo: "lo8 ret - 1 = lo8 ?va" by (simp_all add: pred_bytes)
  have x: "?x < 32" using unat_lt_2p [of "vpn ?va"] by simp
  have "unat (drop_bit 2 (hi8 ?va) AND 0x1F) = ?x"
    by (simp add: and_mask_numeral unat_take_bit_mod unat_drop_bit unat_hi8 unat_vpn flip: div_mult2_eq)
  then have vp: "drop_bit 2 (hi8 ?va) AND 0x1F = (word_of_nat ?x :: u8)" by (rule word_eq_of_nat)
  have "unat (hi8 ?va) mod 4 * 256 + unat (lo8 ?va) = unat ?va mod 1024"
    using mod_mult2_eq [of "unat ?va" 256 4] by (simp add: unat_hi8 unat_lo8)
  then have "unat (le16 (lo8 ?va) (push_bit 2 (ucast ?t) OR take_bit 2 (hi8 ?va))) = upn m ?va"
    using unat_pack2 [of "ucast ?t" "hi8 ?va"] ppn_byte [of ?t] by (simp add: unat_le16 upn_eq)
  then have ad: "le16 (lo8 ?va) (push_bit 2 (ucast ?t) OR (hi8 ?va AND 0x03)) = word_of_nat (upn m ?va)"
    unfolding and_mask_numeral by (rule word_eq_of_nat)
  obtain m1 where m1: "mem_read (word_of_nat (q + 2)) m = (lo8 ret, m1)" "ram m1 = ram m" "env m1 = env m"
    using rd_at [OF assms(1), of "q + 2"] assms(3,4) by auto
  have k1: "kmode m1" "same_except kptr (ram m) (ram m1)" using kmode_env [OF m1(3) assms(1)] m1(2) by simp_all
  note w1 = wr_kptr [OF k1(1) kptr_ptrs(1) k1(2), of "lo8 ?va"]
  let ?w1 = "mem_write (word_of_nat 0x30) (lo8 ?va) m1"
  have "ram ?w1 (word_of_nat (q + 3)) = hi8 ret"
    using kptr_keeps [OF w1(2), of "q + 3"] assms(2,3,5) by simp
  then obtain m2 where m2: "mem_read (word_of_nat (q + 3)) ?w1 = (hi8 ret, m2)" "ram m2 = ram ?w1" "env m2 = env m"
    using rd_at [OF w1(1), of "q + 3"] assms(3) w1(3) m1(3) by (auto simp del: of_nat_add)
  have k2: "kmode m2" "same_except kptr (ram m) (ram m2)" using kmode_env [OF m2(3) assms(1)] m2(2) w1(2) by simp_all
  note w2 = wr_kptr [OF k2(1) kptr_ptrs(2) k2(2), of "hi8 ?va"]
  let ?w2 = "mem_write (word_of_nat 0x31) (hi8 ?va) m2"
  note w3 = wr_kptr [OF w2(1) kptr_ptrs(2) w2(2), of "hi8 ?va AND 0x03"]
  let ?w3 = "mem_write (word_of_nat 0x31) (hi8 ?va AND 0x03) ?w2"
  have e3: "env ?w3 = env m" using w3(3) w2(3) m2(3) by (simp del: of_nat_numeral)
  have t3: "ppn (mmu ?w3) = ppn (mmu m)" using e3 by (simp add: env_iff del: of_nat_numeral)
  obtain m3 where m3: "mem_read (0x8080 + word_of_nat ?x) ?w3 = (ucast ?t, m3)" "ram m3 = ram ?w3" "env m3 = env m"
    using rd_ppn [OF w3(1) x] e3 t3 by (auto simp del: of_nat_numeral)
  have k3: "kmode m3" "same_except kptr (ram m) (ram m3)" using kmode_env [OF m3(3) assms(1)] m3(2) w3(2) by simp_all
  let ?h = "push_bit 2 (ucast ?t) OR (hi8 ?va AND 0x03) :: u8"
  note w4 = wr_kptr [OF k3(1) kptr_ptrs(2) k3(2), of ?h]
  let ?w4 = "mem_write (word_of_nat 0x31) ?h m3"
  have "ram ?w4 (word_of_nat (upn m ?va)) = ram m (word_of_nat (upn m ?va))"
    by (rule same_exceptD [OF w4(2) assms(6) upn_lt])
  then obtain m4 where m4: "mem_read (word_of_nat (upn m ?va)) ?w4 = (ram m (word_of_nat (upn m ?va)), m4)"
      "ram m4 = ram ?w4" "env m4 = env m"
    using rd_at [OF w4(1) upn_lt, of m ?va] w4(3) m3(3) by (auto simp del: of_nat_numeral)
  have adr: "word_of_nat q + 2 = (word_of_nat (q + 2) :: u16)" "word_of_nat q + 3 = (word_of_nat (q + 3) :: u16)"
    by simp_all
  have "sys_number (word_of_nat q) m = (ram m (word_of_nat (upn m ?va)), m4)"
    unfolding sys_number_def adr prod.case Let_def ptr_adrs(4) unfolding m1(1) prod.case Let_def ptr_adrs(3) lo m2(1) hi vp ppn_reg(1) [OF x] m3(1) ad m4(1) ..
  then show ?thesis using m4(2,3) w4(2) by (intro exI [of _ m4]) simp
qed

text \<open>The handler after a BRK at \<open>pc\<close>: it dispatches on the byte at \<open>pc + 1\<close>.\<close>

lemma brk_handler_spec:
  assumes "\<not> kmode (mach k)" "bit (u_bits (mmu (mach k))) 0" "bit (w_bits (mmu (mach k))) 0" "3 \<le> unat (SP k)"
    "p = unat (ppn (mmu (mach k)) 0) * 1024 + 256" "r1 = brk_ram p (SP k) pc st (ram (mach k))"
    "n = r1 (word_of_nat (upn (mach k) (pc + 1)))" "\<not> kptr (upn (mach k) (pc + 1))"
  shows "\<exists>m2. kmode m2 \<and> same_except kscratch r1 (ram m2) \<and> ram m2 0x32 = n \<and> env m2 = env (to_kernel (mach k)) \<and>
    brk_handler (brk pc st k) =
      (if n = 0 then do_yield (k\<lparr>mach := m2, SP := SP k - 3\<rparr>)
       else let k = jsr Dispatch (k\<lparr>mach := m2, SP := SP k - 3\<rparr>) in do {
         m \<leftarrow> syscall_dispatch (mach k);
         (case rts (k\<lparr>mach := m\<rparr>) of (a, k) \<Rightarrow> if a = ret_at k Dispatch then Some (ret_user_mode k) else None) })"
proof -
  have p: "p + 256 \<le> 32768" using unat_lt_2p [of "ppn (mmu (mach k)) 0"] by (simp add: assms(5))
  obtain m1 where m1: "brk pc st k = k\<lparr>mach := m1, SP := SP k - 3\<rparr>" "ram m1 = r1" "env m1 = env (to_kernel (mach k))"
    using brk_spec [OF assms(1-3) assms(5)] assms(6) by blast
  let ?k1 = "k\<lparr>mach := m1, SP := SP k - 3\<rparr>"
  have k1: "kmode (mach ?k1)" and t1: "ppn (mmu m1) = ppn (mmu (mach k))"
    using m1(3) by (simp_all add: env_iff to_kernel_def kmode_def)
  have u: "unat (SP k - 3) = unat (SP k) - 3"
    using assms(4) by (simp add: unat_sub word_le_nat_alt)
  have u1: "unat (SP k - 2) = unat (SP k) - 2" "unat (SP k - 1) = unat (SP k) - 1"
    using assms(4) by (simp_all add: unat_sub word_le_nat_alt)
  let ?q = "p + (unat (SP k) - 3)"
  have sp: "p + unat (SP k - 2) = ?q + 1" "p + unat (SP k - 1) = ?q + 2" "p + unat (SP k) = ?q + 3"
    using assms(4) u1 by simp_all
  note f = brk_ram_frame [OF p, of "SP k" pc st "ram (mach k)", folded assms(6), unfolded sp]
  have q: "?q + 3 < 32768" "0x100 \<le> ?q" using p unat_u8_lt [of "SP k"] assms(4) by (simp_all add: assms(5))
  obtain m2 where m2: "stack_ptr ?k1 = (word_of_nat ?q, m2)" "same_except kptr r1 (ram m2)" "env m2 = env m1"
    using stack_ptr_env [OF k1] t1 m1(2) u by (auto simp: assms(5))
  have k2: "kmode m2" using kmode_env [OF m2(3)] k1 by simp
  have f2: "ram m2 (word_of_nat (?q + 1)) = st OR 0x30" "ram m2 (word_of_nat (?q + 2)) = lo8 (pc + 2)" "ram m2 (word_of_nat (?q + 3)) = hi8 (pc + 2)"
    using kptr_keeps [OF m2(2), of "?q + 1"] kptr_keeps [OF m2(2), of "?q + 2"] kptr_keeps [OF m2(2), of "?q + 3"] q f
    by (simp_all del: of_nat_add)
  obtain m3 where m3: "mem_read (word_of_nat (?q + 1)) m2 = (st OR 0x30, m3)" "ram m3 = ram m2" "env m3 = env m1"
    using rd_at [OF k2, of "?q + 1"] q m2(3) f2(1) by auto
  have k3: "kmode m3" by (rule kmode_env [OF m3(3)]) (use k1 in simp)
  have up: "upn m3 (pc + 1) = upn (mach k) (pc + 1)"
    using m3(3) t1 by (simp add: env_iff upn_eq)
  have r3: "pc + 2 - 1 = pc + 1" by simp
  have n3: "ram m3 (word_of_nat (upn (mach k) (pc + 1))) = n"
    using same_exceptD [OF m2(2) assms(8) upn_lt] m3(2) assms(7) by simp
  have f3: "ram m3 (word_of_nat (?q + 2)) = lo8 (pc + 2)" "ram m3 (word_of_nat (?q + 3)) = hi8 (pc + 2)"
    using f2(2,3) m3(2) by simp_all
  obtain m4 where m4: "sys_number (word_of_nat ?q) m3 = (n, m4)" "same_except kptr (ram m3) (ram m4)" "env m4 = env m3"
    using sys_number_env [OF k3 q(2,1) f3] assms(8) unfolding r3 up n3 by blast
  have k4: "kmode m4" by (rule kmode_env [OF m4(3) k3])
  have s4: "same_except kscratch r1 (ram m4)"
    using same_except_mono [OF same_except_trans [OF m2(2)], of "ram m4" kscratch] kptr_low(2) m4(2) m3(2) by simp
  let ?m5 = "mem_write SYS_NUM n m4"
  have m5: "ram ?m5 = (ram m4)(0x32 := n)" "env ?m5 = env m1"
    using wr_ram [OF k4, of SYS_NUM n] m4(3) m3(3) by (simp_all add: SYS_NUM_def)
  have k5: "kmode ?m5" by (rule kmode_env [OF m5(2)]) (use k1 in simp)
  have s5: "same_except kscratch r1 (ram ?m5)" "ram ?m5 0x32 = n"
    unfolding m5(1) by (intro same_except_upd s4) (simp_all add: kscratch_def)
  have b: "(st OR 0x30) AND 0x10 \<noteq> 0"
  proof
    assume "(st OR 0x30) AND 0x10 = 0"
    then have "bit ((st OR 0x30) AND 0x10) 4 = bit (0 :: u8) 4" by simp
    then show False by (simp add: bit_simps)
  qed
  have adr: "word_of_nat ?q + 1 = (word_of_nat (?q + 1) :: u16)" by simp
  have "brk_handler (brk pc st k) =
      (if n = 0 then do_yield (k\<lparr>mach := ?m5, SP := SP k - 3\<rparr>)
       else let k = jsr Dispatch (k\<lparr>mach := ?m5, SP := SP k - 3\<rparr>) in do {
         m \<leftarrow> syscall_dispatch (mach k);
         (case rts (k\<lparr>mach := m\<rparr>) of (a, k) \<Rightarrow> if a = ret_at k Dispatch then Some (ret_user_mode k) else None) })"
    unfolding brk_handler_def m1(1) m2(1) prod.case adr m3(1) if_not_P [OF b] m4(1) kern_swap
      Let_def [of "k\<lparr>mach := ?m5, SP := SP k - 3\<rparr>"] ..
  moreover have "env ?m5 = env (to_kernel (mach k))" using m5(2) m1(3) by (rule trans)
  ultimately show ?thesis using s5 k5 by (intro exI [of _ ?m5] conjI)
qed


text \<open>
  A call other than yield, from BRK to RTI: if the dispatcher returns with the page table, the
  permissions, the frame on the process's stack and the kernel's stack page as they were, the process
  continues after the call.
\<close>

lemma stack_page_bounds:
  assumes "t \<noteq> (0 :: 5 word)"
  shows "1024 \<le> unat t * 1024" "unat t * 1024 + 512 \<le> 32768"
  using unat_lt_2p [of t] assms by (simp_all add: unat_gt_0 Suc_leI)

lemma brk_call:
  assumes "\<not> kmode (mach k)" "bit (u_bits (mmu (mach k))) 0" "bit (w_bits (mmu (mach k))) 0" "3 \<le> unat (SP k)"
    "p = unat (ppn (mmu (mach k)) 0) * 1024 + 256" "r1 = brk_ram p (SP k) pc st (ram (mach k))"
    "r1 (word_of_nat (upn (mach k) (pc + 1))) = n" "\<not> kptr (upn (mach k) (pc + 1))" "n \<noteq> 0" "ppn (mmu (mach k)) 0 \<noteq> 0"
    and call: "\<And>m2. \<lbrakk>kmode m2; same_except kscratch r1 (ram m2); ram m2 0x32 = n; env m2 = env (to_kernel (mach k))\<rbrakk> \<Longrightarrow>
      \<exists>m4. syscall_dispatch m2 = Some m4 \<and> ram m4 = f (ram m2) \<and> env m4 = env (to_kernel e)"
    and tab: "ppn (mmu e) = ppn (mmu (mach k))" "u_bits (mmu e) = u_bits (mmu (mach k))"
    and frame: "\<And>r i. p \<le> i \<and> i < p + 256 \<or> 0x100 \<le> i \<and> i < 0x200 \<Longrightarrow> f r (word_of_nat i) = r (word_of_nat i)"
  shows "\<exists>m' r. brk_handler (brk pc st k) = Some ((st OR 0x30, pc + 2), k\<lparr>mach := m'\<rparr>) \<and>
    ram m' = f r \<and> same_except kscratch r1 r \<and> env m' = env (to_user e)"
proof -
  have p: "p + 256 \<le> 32768" "0x200 \<le> p" using stack_page_bounds [OF assms(10)] by (simp_all add: assms(5))
  obtain m1 where m1: "kmode m1" "same_except kscratch r1 (ram m1)" "ram m1 0x32 = n" "env m1 = env (to_kernel (mach k))"
      "brk_handler (brk pc st k) = (let k = jsr Dispatch (k\<lparr>mach := m1, SP := SP k - 3\<rparr>) in do {
         m \<leftarrow> syscall_dispatch (mach k);
         (case rts (k\<lparr>mach := m\<rparr>) of (a, k) \<Rightarrow> if a = ret_at k Dispatch then Some (ret_user_mode k) else None) })"
    using brk_handler_spec [OF assms(1-6) assms(7) [symmetric] assms(8)] assms(9) by auto
  let ?k1 = "k\<lparr>mach := m1, SP := SP k - 3\<rparr>" and ?a = "ret_at k Dispatch"
  obtain m2 where m2: "jsr Dispatch ?k1 = ?k1\<lparr>mach := m2, SP := SP ?k1 - 2\<rparr>" "env m2 = env m1" "same_except kscratch (ram m1) (ram m2)"
      "ram m2 (0x100 + ucast (SP ?k1)) = hi8 ?a" "ram m2 (0x100 + ucast (SP ?k1 - 1)) = lo8 ?a"
      "ram m2 0x32 = n"
  proof -
    obtain m2 where j: "jsr Dispatch ?k1 = ?k1\<lparr>mach := m2, SP := SP ?k1 - 2\<rparr>" "env m2 = env m1"
        "ram m2 = (ram m1)(0x100 + ucast (SP ?k1) := hi8 ?a, 0x100 + ucast (SP ?k1 - 1) := lo8 ?a)"
      using jsr_kernel [of ?k1 Dispatch] m1(1) by auto
    have z: "(0x100 + ucast sp :: 15 word) \<noteq> 0x32" for sp :: u8 using zp_stack [of "0x32" sp] by simp
    have "(0x100 + ucast (SP ?k1) :: 15 word) \<noteq> 0x100 + ucast (SP ?k1 - 1)" by (simp add: stack_slots)
    then have "ram m2 0x32 = n" "ram m2 (0x100 + ucast (SP ?k1)) = hi8 ?a" "ram m2 (0x100 + ucast (SP ?k1 - 1)) = lo8 ?a"
      using m1(3) z [of "SP ?k1"] z [of "SP ?k1 - 1"] unfolding j(3) by (auto simp del: add_left_cancel)
    moreover have "same_except kscratch (ram m1) (ram m2)"
      unfolding j(3) by (intro same_except_upd same_except_refl kscratch_stack)
    ultimately show ?thesis using j(1,2) that by blast
  qed
  have k2: "kmode m2" by (rule kmode_env [OF m2(2) m1(1)])
  have s2: "same_except kscratch r1 (ram m2)" by (rule same_except_trans [OF m1(2) m2(3)])
  have e2: "env m2 = env (to_kernel (mach k))" using m2(2) m1(4) by simp
  obtain m4 where m4: "syscall_dispatch m2 = Some m4" "ram m4 = f (ram m2)" "env m4 = env (to_kernel e)"
    using call [OF k2 s2 m2(6) e2] by blast
  have t4: "ppn (mmu m4) = ppn (mmu (mach k))" "kmode m4" "bit (u_bits (mmu m4)) 0"
    using m4(3) assms(2) tab by (simp_all add: env_iff kmode_def to_kernel_def)
  have st4: "ram m4 (0x100 + ucast sp) = ram m2 (0x100 + ucast sp)" for sp :: u8
    using frame [of "256 + unat sp" "ram m2"] unat_u8_lt [of sp] by (simp add: m4(2))
  have "ram m4 (0x100 + ucast (SP ?k1)) = hi8 ?a" "ram m4 (0x100 + ucast (SP ?k1 - 1)) = lo8 ?a" unfolding st4 by (rule m2(4,5))+
  then obtain m5 where m5: "rts (?k1\<lparr>mach := m4, SP := SP ?k1 - 2\<rparr>) = (?a, ?k1\<lparr>mach := m5\<rparr>)" "ram m5 = ram m4" "env m5 = env m4"
    using rts_after_jsr [OF t4(2), of ?a ?k1 Dispatch] by auto
  let ?k5 = "?k1\<lparr>mach := m5\<rparr>"
  have t5: "ppn (mmu m5) = ppn (mmu (mach k))" "kmode (mach ?k5)" "bit (u_bits (mmu (mach ?k5))) 0"
    using t4 m5(3) by (simp_all add: env_iff kmode_def)
  let ?stk = "stack_byte (ram m5) (ppn (mmu m5))"
  have stk: "?stk sp = r1 (word_of_nat (p + unat sp))" for sp
    using frame [of "p + unat sp" "ram m2"] kscratch_keeps [OF s2, of "p + unat sp"] unat_u8_lt [of sp] p
    by (simp add: stack_byte_def t5(1) m5(2) m4(2) assms(5) del: of_nat_add)
  note f = brk_ram_frame [OF p(1), of "SP k" pc st "ram (mach k)", folded assms(6)]
  have s: "SP ?k5 + 1 = SP k - 2" "SP ?k5 + 2 = SP k - 1" "SP ?k5 + 3 = SP k" by simp_all
  have fr: "?stk (SP ?k5 + 1) = st OR 0x30" "?stk (SP ?k5 + 2) = lo8 (pc + 2)" "?stk (SP ?k5 + 3) = hi8 (pc + 2)"
    unfolding s stk by (rule f)+
  have fr3: "?stk (SP k) = hi8 (pc + 2)" unfolding stk by (rule f(3))
  obtain m6 where m6: "ret_user_mode ?k5 = ((?stk (SP ?k5 + 1), le16 (?stk (SP ?k5 + 2)) (?stk (SP ?k5 + 3))), ?k5\<lparr>mach := m6, SP := SP ?k5 + 3\<rparr>)"
      "ram m6 = ram m5" "env m6 = env (to_user m5)"
    using ret_user_mode_spec [OF t5(2,3) refl] by auto
  have "env (to_user m5) = env (to_user e)" using m5(3) m4(3) by (simp add: env_iff to_user_def to_kernel_def)
  moreover have r6: "ret_user_mode ?k5 = ((st OR 0x30, pc + 2), k\<lparr>mach := m6\<rparr>)"
    unfolding m6(1) fr s(3) fr3 le16_split by simp
  moreover have "brk_handler (brk pc st k) = Some (ret_user_mode ?k5)"
  proof -
    have e: "?k1\<lparr>mach := m2, SP := SP ?k1 - 2, mach := m4\<rparr> = ?k1\<lparr>mach := m4, SP := SP ?k1 - 2\<rparr>" by simp
    have mm: "mach (?k1\<lparr>mach := m2, SP := SP ?k1 - 2\<rparr>) = m2" by simp
    show ?thesis unfolding m1(5) m2(1) Let_def mm m4(1) Option.bind.simps e m5(1) by simp
  qed
  ultimately show ?thesis using m6(2,3) m5(2) m4(2) s2 by (intro exI [of _ m6] exI [of _ "ram m2"]) simp
qed

lemma dispatch_putc:
  assumes "kmode m" "ram m 0x32 = 2"
  shows "\<exists>m'. syscall_dispatch m = Some m' \<and> ram m' = blit (slot m OFF_RET) [0] (ram m) \<and>
    env m' = env (emit [ram m (word_of_nat (slot m OFF_A_REG))] m)"
proof -
  obtain m1 where m1: "ram m1 = ram m" "env m1 = env m" "syscall_dispatch m = do_putc m1"
    using dispatch_to [OF assms, of undefined undefined] by auto
  note s = slot_env [OF m1(2)]
  show ?thesis
    using do_putc_env [OF kmode_env [OF m1(2) assms(1)]] emit_env [OF m1(2)] m1 by (simp add: s)
qed

lemma dispatch_puts:
  assumes "kmode m" "ram m 0x32 = 4" "ucstr m (arg16 m OFF_ARG0_LO OFF_ARG0_HI) bs"
  shows "\<exists>m'. syscall_dispatch m = Some m' \<and> ram m' = blit (slot m OFF_RET) [0] (ram m) \<and> env m' = env (emit bs m)"
proof -
  obtain m1 where m1: "ram m1 = ram m" "env m1 = env m" "syscall_dispatch m = do_puts m1"
    using dispatch_to [OF assms(1,2), of undefined undefined] by auto
  have "arg16 m1 OFF_ARG0_LO OFF_ARG0_HI = arg16 m OFF_ARG0_LO OFF_ARG0_HI"
    by (simp add: arg16_def m1(1) slot_env [OF m1(2)])
  then have "ucstr m1 (arg16 m1 OFF_ARG0_LO OFF_ARG0_HI) bs" using assms(3) ucstr_same [OF m1(1,2)] by simp
  from do_puts_env [OF kmode_env [OF m1(2) assms(1)] this] show ?thesis
    using m1 emit_env [OF m1(2), of bs] slot_env [OF m1(2), of OFF_RET] by simp
qed

lemma dispatch_block_read:
  assumes "kmode m" "ram m 0x32 = 5" "disk_img m = Some img" "va = arg16 m OFF_ARG1_LO OFF_ARG1_HI"
    "unat va mod 1024 + 512 \<le> 1024" "lba = ucast (arg16 m OFF_ARG0_LO OFF_ARG0_HI)"
  shows "\<exists>m'. syscall_dispatch m = Some m' \<and>
    ram m' = blit (slot m OFF_RET) [0] (blit (upn m va) (sector_of img lba) (ram m)) \<and> env m' = env m"
proof -
  obtain m1 where m1: "ram m1 = ram m" "env m1 = env m" "syscall_dispatch m = do_block_read m1"
    using dispatch_to [OF assms(1,2), of undefined undefined] by auto
  have k1: "kmode m1" by (rule kmode_env [OF m1(2) assms(1)])
  have a: "arg16 m1 lo hi = arg16 m lo hi" for lo hi
    by (simp add: arg16_def m1(1) slot_env [OF m1(2)])
  have u: "upn m1 va = upn m va" by (rule upn_env [OF m1(2)])
  have b: "upn m va + 512 \<le> 32768" using upn_page [of m va] assms(5) by linarith
  have "unat lba < 65536"
    using unat_u16_lt [of "arg16 m OFF_ARG0_LO OFF_ARG0_HI"] by (simp add: assms(6) unat_ucast_mod)
  then have l: "lba_ok lba" by (simp add: lba_ok_def)
  let ?r = "blit (upn m va) (sector_of img lba) (ram m)"
  have op: "\<exists>m3. block_read lba (word_of_nat (upn m va)) m2 = Some (0, m3) \<and> kmode m3 \<and> ram m3 = ?r \<and> env m3 = env m"
    if h: "kmode m2" "ram m2 = ram m1" "env m2 = env m1" for m2
  proof -
    have "disk_img m2 = Some img" using h(3) m1(2) assms(3) by (simp add: env_iff)
    then obtain m3 where m3: "block_read lba (word_of_nat (upn m va)) m2 = Some (0, m3)" "ram m3 = ?r" "env m3 = env m2"
      using block_read_env [OF h(1) _ l b] h(2) m1(1) by auto
    then show ?thesis using kmode_env [OF m3(3) h(1)] h(3) m1(2) by auto
  qed
  obtain m' where "do_block_read m1 = Some m'" "ram m' = blit (slot m OFF_RET) [0] ?r" "env m' = env m"
    using do_block_env [OF k1, of block_read 0 ?r "env m"] op
    by (auto simp: do_block_read_def a assms(4,6) u [unfolded assms(4)] slot_env [OF m1(2)])
  then show ?thesis using m1(3) by auto
qed

lemma brk_ram_below:
  "n < p \<Longrightarrow> p + 256 \<le> 32768 \<Longrightarrow> brk_ram p sp pc st r (word_of_nat n) = r (word_of_nat n)"
  by (simp add: brk_ram_def blit_off del: of_nat_add)

lemma slot_bounds:
  assumes "ppn (mmu m) 0 \<noteq> 0"
  shows "1024 \<le> slot m off" "slot m off < unat (ppn (mmu m) 0) * 1024 + 256" "slot m off < 32768"
  using stack_page_bounds(1) [OF assms] unat_u8_lt [of off] slot_lt [of m off] by (simp_all add: slot_def)


section \<open>Properties\<close>

text \<open>
  C11: the kernel translates a user pointer as the hardware does. For every address \<open>va\<close>,
  \<open>u_ptr\<close> returns the physical address at which the MMU, in user mode with the same registers,
  would access \<open>va\<close>; and the address of any byte on the same 1 KB page follows by addition.
\<close>

theorem u_ptr_translates:
  assumes "kmode m"
  shows "\<exists>m' p. u_ptr va m = (p, m') \<and> p < 0x8000 \<and> ram m' = ram m \<and> env m' = env m \<and>
    ucast p = ram_addr ((mmu m)\<lparr>kernel := False\<rparr>) va \<and>
    (\<forall>i. unat va mod 1024 + i < 1024 \<longrightarrow>
       ucast (p + word_of_nat i) = ram_addr ((mmu m)\<lparr>kernel := False\<rparr>) (va + word_of_nat i))"
proof -
  obtain m' where m': "u_ptr va m = (word_of_nat (upn m va), m')" "ram m' = ram m" "env m' = env m"
    using u_ptr_env [OF assms] by blast
  let ?p = "word_of_nat (upn m va) :: u16"
  have lt: "?p < 0x8000" by (rule ram_addr_nat(1) [OF upn_lt])
  have u: "unat ?p = upn m va" using upn_lt [of m va] by (simp add: unat_of_nat_16)
  have "ucast (?p + word_of_nat i) = ram_addr ((mmu m)\<lparr>kernel := False\<rparr>) (va + word_of_nat i)"
    if "unat va mod 1024 + i < 1024" for i
  proof -
    have "unat ?p + i < 32768" using upn_page [of m va] that u by linarith
    then have "(ucast (?p + word_of_nat i) :: 15 word) = word_of_nat (upn m (va + word_of_nat i))"
      using ucast15_plus(1) [of ?p i] upn_plus [OF that, of m] u by simp
    then show ?thesis by (simp add: upn_def)
  qed
  moreover from this [of 0] have "ucast ?p = ram_addr ((mmu m)\<lparr>kernel := False\<rparr>) va" by simp
  ultimately show ?thesis using m' lt by (intro exI [of _ m'] exI [of _ ?p]) simp
qed

theorem u_ptr_translates_witness:
  "\<exists>m' p. u_ptr 0x1234 (mach (demo_kern None 0)) = (p, m') \<and> p < 0x8000"
  using u_ptr_translates [OF demo_kern_fields(1), of "0x1234" None 0] by blast

text \<open>
  A call number the kernel does not implement returns: the process finds \<open>ENOSYS\<close> (\<open>$FF\<close>) in
  its return slot, and no other byte of RAM, no page-table entry, no sector and no output changes.
\<close>

theorem syscall_unimplemented:
  assumes "kmode m" "n = ram m 0x32" "n \<notin> implemented"
  shows "\<exists>m'. syscall_dispatch m = Some m' \<and> env m' = env m \<and>
    ram m' (word_of_nat (slot m OFF_RET)) = 0xFF \<and>
    (\<forall>a. a \<noteq> word_of_nat (slot m OFF_RET) \<longrightarrow> ram m' a = ram m a)"
proof -
  obtain m' where m': "syscall_dispatch m = Some m'" "ram m' = blit (slot m OFF_RET) [ENOSYS] (ram m)" "env m' = env m"
    using dispatch_enosys [OF assms(1) assms(2) [symmetric] assms(3)] by blast
  have "ram m' = (ram m)(word_of_nat (slot m OFF_RET) := 0xFF)"
    using fun_upd_blit [OF slot_lt, of "ram m" m OFF_RET ENOSYS] m'(2) by (simp add: ENOSYS_def)
  then show ?thesis using m'(1,3) by simp
qed

definition demo_sys :: "u8 \<Rightarrow> machine" where
  "demo_sys n = power_on ((\<lambda>_. 0)(0 := 0x48, 0x32 := n)) (\<lambda>_. 0xEA) (\<lambda>_. 0) (Some []) (\<lambda>_. Some 0x41) (\<lambda>n. n)"

lemma demo_sys_fields [simp]:
  "kmode (demo_sys n)" "ram (demo_sys n) = (\<lambda>_. 0)(0 := 0x48, 0x32 := n)" "disk_img (demo_sys n) = Some []"
  "acia_out (demo_sys n) = []" "gpu_out (demo_sys n) = []"
  by (simp_all add: demo_sys_def kmode_def mmu_reset_def)

theorem syscall_unimplemented_witness:
  "\<exists>m'. syscall_dispatch (demo_sys 7) = Some m' \<and> ram m' (word_of_nat (slot (demo_sys 7) OFF_RET)) = 0xFF"
  using syscall_unimplemented [of "demo_sys 7" 7] by (auto simp: implemented_def)

text \<open>
  C29: \<open>sys_puts\<close> prints the process's string. If the pointer in the argument slots names a
  NUL-terminated string that does not cross a 1 KB page, the call returns for every timing, both
  consoles receive exactly its bytes, no byte is lost to a transmitter overrun, and only the
  return slot changes.
\<close>

theorem syscall_puts:
  assumes "kmode m" "ram m 0x32 = 4" "ucstr m (arg16 m OFF_ARG0_LO OFF_ARG0_HI) bs"
  shows "\<exists>m'. syscall_dispatch m = Some m' \<and> acia_out m' = acia_out m @ bs \<and> gpu_out m' = gpu_out m @ bs \<and>
    overruns m' = overruns m \<and> disk_img m' = disk_img m \<and> ram m' = blit (slot m OFF_RET) [0] (ram m)"
  using dispatch_puts [OF assms] by (auto simp: env_iff)

lemma demo_sys_mmu: "ppn (mmu (demo_sys n)) = (\<lambda>i. i)"
  by (simp add: demo_sys_def mmu_reset_def)

lemma demo_sys_arg: "arg16 (demo_sys n) OFF_ARG0_LO OFF_ARG0_HI = 0" "arg16 (demo_sys n) OFF_ARG1_LO OFF_ARG1_HI = 0"
  by (simp_all add: arg16_def slot_def demo_sys_mmu abi le16_def)

lemma demo_sys_upn: "upn (demo_sys n) va = unat va mod 32768"
proof -
  have "unat va mod 32768 = unat va div 1024 mod 32 * 1024 + unat va mod 1024"
    using mod_mult2_eq [of "unat va" 1024 32] by simp
  then show ?thesis by (simp add: upn_eq demo_sys_mmu unat_vpn)
qed

theorem syscall_puts_witness:
  "\<exists>m'. syscall_dispatch (demo_sys 4) = Some m' \<and> acia_out m' = [0x48]"
proof -
  have "ucstr (demo_sys 4) (arg16 (demo_sys 4) OFF_ARG0_LO OFF_ARG0_HI) [0x48]"
    by (simp add: ucstr_def demo_sys_arg demo_sys_upn)
  then show ?thesis using syscall_puts [of "demo_sys 4" "[0x48]"] by auto
qed

text \<open>
  C30: \<open>sys_block_read\<close> fills the process's buffer. If the buffer lies within one 1 KB page of the
  process and that page in the programs' memory (physical $1000 to $6FFF, not the kernel's pages, where the
  sector would overwrite what the kernel is working with), the call returns 0 and what the hardware then
  shows the process at \<open>va + i\<close> is byte \<open>i\<close> of the sector, unless the buffer covers the return slot;
  no other byte of the programs' memory changes, nothing is printed and the disk is unchanged.
\<close>

theorem syscall_block_read:
  assumes "kmode m" "ram m 0x32 = 5" "disk_img m = Some img" "va = arg16 m OFF_ARG1_LO OFF_ARG1_HI"
    "unat va mod 1024 + 512 \<le> 1024" "lba = ucast (arg16 m OFF_ARG0_LO OFF_ARG0_HI)"
    "0x1000 \<le> upn m va" "upn m va + 512 \<le> 0x7000"
  shows "\<exists>m'. syscall_dispatch m = Some m' \<and> env m' = env m \<and> ram m' (word_of_nat (slot m OFF_RET)) = 0 \<and>
    (\<forall>i < 512. upn m (va + word_of_nat i) \<noteq> slot m OFF_RET \<longrightarrow>
       ram m' (ram_addr ((mmu m')\<lparr>kernel := False\<rparr>) (va + word_of_nat i)) = sector_of img lba ! i) \<and>
    (\<forall>a. 0x1000 \<le> a \<and> a < 0x7000 \<and> (a < upn m va \<or> upn m va + 512 \<le> a) \<and> a \<noteq> slot m OFF_RET \<longrightarrow>
       ram m' (word_of_nat a) = ram m (word_of_nat a))"
proof -
  have b: "upn m va + 512 \<le> 32768" using assms(8) by simp
  obtain m' where m': "syscall_dispatch m = Some m'"
      "ram m' = blit (slot m OFF_RET) [0] (blit (upn m va) (sector_of img lba) (ram m))" "env m' = env m"
    using dispatch_block_read [OF assms(1-6)] by blast
  have "ram m' (ram_addr ((mmu m')\<lparr>kernel := False\<rparr>) (va + word_of_nat i)) = sector_of img lba ! i"
    if i: "i < 512" "upn m (va + word_of_nat i) \<noteq> slot m OFF_RET" for i
  proof -
    have w: "ram_addr ((mmu m')\<lparr>kernel := False\<rparr>) (va + word_of_nat i) = word_of_nat (upn m va + i)"
      using upn_env [OF m'(3), of "va + word_of_nat i"] upn_plus [of va i m] i(1) assms(5)
      by (intro word_eq_of_nat) (simp add: upn_def)
    have "upn m va + i < slot m OFF_RET \<or> slot m OFF_RET + 1 \<le> upn m va + i"
      using i upn_plus [of va i m] assms(5) by auto
    then show ?thesis
      unfolding w m'(2) using b i(1) by (simp add: blit_off blit_at del: of_nat_add)
  qed
  moreover have "ram m' (word_of_nat (slot m OFF_RET)) = 0" by (simp add: m'(2) blit_at slot_lt)
  moreover have "ram m' (word_of_nat a) = ram m (word_of_nat a)"
    if "a < 0x7000" "a < upn m va \<or> upn m va + 512 \<le> a" "a \<noteq> slot m OFF_RET" for a
  proof -
    have "a < slot m OFF_RET \<or> slot m OFF_RET + 1 \<le> a" using that(3) by auto
    then show ?thesis using that by (simp add: m'(2) blit_off)
  qed
  ultimately show ?thesis using m'(1,3) by blast
qed

text \<open>A process at physical page 4 that asks for sector 1 in its buffer at \<open>$0800\<close>, which is physical \<open>$1800\<close>.\<close>

definition demo_reader :: machine where
  "demo_reader =
     (power_on ((\<lambda>_. 0)(0x32 := 5, 0x1034 := 1, 0x1037 := 0x08)) (\<lambda>_. 0xEA) (\<lambda>_. 0) (Some (replicate 512 0 @ [0x41, 0x42])) (\<lambda>_. None) (\<lambda>n. n))
       \<lparr>mmu := mmu_reset\<lparr>ppn := (\<lambda>v. v + 4)\<rparr>\<rparr>"

theorem syscall_block_read_witness:
  "\<exists>m'. syscall_dispatch demo_reader = Some m' \<and> ram demo_reader 0x1801 = 0 \<and> ram m' 0x1801 = 0x42 \<and> ram m' 0x1034 = 1"
proof -
  let ?m = demo_reader
  have p: "ppn (mmu ?m) = (\<lambda>v. v + 4)" "kmode ?m" "ram ?m = (\<lambda>_. 0)(0x32 := 5, 0x1034 := 1, 0x1037 := 0x08)"
      "disk_img ?m = Some (replicate 512 0 @ [0x41, 0x42])"
    by (simp_all add: demo_reader_def kmode_def mmu_reset_def)
  have s: "slot ?m off = 4096 + unat off" for off by (simp add: slot_def p)
  have a: "arg16 ?m OFF_ARG1_LO OFF_ARG1_HI = 0x0800" "arg16 ?m OFF_ARG0_LO OFF_ARG0_HI = 1"
    by (simp_all add: arg16_def s p abi le16_def)
  have v: "vpn 0x0800 = 2" "vpn 0x0801 = 2" by (simp_all add: word_unat_eq_iff unat_vpn)
  have u: "upn ?m 0x0800 = 0x1800" "upn ?m 0x0801 = 0x1801" by (simp_all add: upn_eq p v)
  have r: "slot ?m OFF_RET = 0x1033" by (simp add: s abi)
  have h: "ram ?m 0x32 = 5" "(0x0800 :: u16) = arg16 ?m OFF_ARG1_LO OFF_ARG1_HI" "unat (0x0800 :: u16) mod 1024 + 512 \<le> 1024"
      "(1 :: u32) = ucast (arg16 ?m OFF_ARG0_LO OFF_ARG0_HI)" "0x1000 \<le> upn ?m 0x0800" "upn ?m 0x0800 + 512 \<le> 0x7000"
    by (simp_all add: p a u)
  obtain m' where m': "syscall_dispatch ?m = Some m'" "env m' = env ?m"
      "\<forall>i < 512. upn ?m (0x0800 + word_of_nat i) \<noteq> slot ?m OFF_RET \<longrightarrow>
         ram m' (ram_addr ((mmu m')\<lparr>kernel := False\<rparr>) (0x0800 + word_of_nat i)) = sector_of (replicate 512 0 @ [0x41, 0x42]) 1 ! i"
      "\<forall>a. 0x1000 \<le> a \<and> a < 0x7000 \<and> (a < upn ?m 0x0800 \<or> upn ?m 0x0800 + 512 \<le> a) \<and> a \<noteq> slot ?m OFF_RET \<longrightarrow>
         ram m' (word_of_nat a) = ram ?m (word_of_nat a)"
    using syscall_block_read [OF p(2) h(1) p(4) h(2-6)] by blast
  have "ram_addr ((mmu m')\<lparr>kernel := False\<rparr>) 0x0801 = 0x1801"
    using upn_env [OF m'(2), of "0x0801"] u(2) word_eq_of_nat [of "ram_addr ((mmu m')\<lparr>kernel := False\<rparr>) 0x0801" "0x1801"]
    by (simp add: upn_def)
  then have "ram m' 0x1801 = 0x42"
    using m'(3) [rule_format, of 1] by (simp add: u r sector_of_def nth_append)
  moreover have "ram m' 0x1034 = 1" using m'(4) [rule_format, of "0x1034"] by (simp add: u r p)
  ultimately show ?thesis using m'(1) by (intro exI [of _ m']) (simp add: p)
qed

text \<open>
  C31: keys reach programs in order, none lost, none twice. If a key is waiting or some later
  poll of the keyboard file delivers one, \<open>sys_getc\<close> returns, with a key \<open>c\<close> in the process's
  slot, and the keys taken so far are those taken before and then \<open>c\<close>; \<open>rx_ok\<close>, which ties the
  taken keys to the delivered ones, holds again.
\<close>

theorem syscall_getc:
  assumes "kmode m" "ram m 0x32 = 3" "rx_ok m" "acia_rx_valid m \<or> (\<exists>N \<ge> rx_polls m. rx_src m N \<noteq> None)"
  shows "\<exists>m' c. syscall_dispatch m = Some m' \<and> rx_ok m' \<and> taken m' = taken m @ [c] \<and>
    ram m' (word_of_nat (slot m OFF_A_REG)) = c \<and> ram m' (word_of_nat (slot m OFF_RET)) = 0 \<and> env m' = env m"
proof -
  obtain N where N: "can N m" using assms(4) by (auto simp: can_def)
  obtain m1 where m1: "ram m1 = ram m" "env m1 = env m" "stream_ok (taken m) m1" "can N m1"
      "syscall_dispatch m = do_getc m1"
    using dispatch_to [OF assms(1,2), of "taken m" N] N assms(3) by (auto simp: stream_ok_def)
  have k1: "kmode m1" by (rule kmode_env [OF m1(2) assms(1)])
  have s: "slot m1 off = slot m off" for off by (rule slot_env [OF m1(2)])
  obtain m' c where m': "do_getc m1 = Some m'" "env m' = env m1" "stream_ok (taken m @ [c]) m'"
      "ram m' = blit (slot m OFF_RET) [0] (blit (slot m OFF_A_REG) [c] (ram m))"
    using do_getc_env [OF k1 _ m1(4)] m1(1,3) s by (auto simp: stream_ok_def)
  have d: "slot m OFF_A_REG = slot m OFF_RET + 13" by (simp add: slot_def abi)
  have lt: "slot m OFF_RET + 13 < 32768" using slot_lt [of m OFF_A_REG] d by simp
  have "ram m' (word_of_nat (slot m OFF_A_REG)) = c" "ram m' (word_of_nat (slot m OFF_RET)) = 0"
    unfolding m'(4) d using lt by (simp_all add: blit_off blit_at del: of_nat_add of_nat_numeral)
  then show ?thesis using m'(1-3) m1(2,5) by (auto simp: stream_ok_def)
qed

theorem syscall_getc_witness:
  "\<exists>m'. syscall_dispatch (demo_sys 3) = Some m' \<and> length (taken m') = 1"
proof -
  have "rx_ok (demo_sys 3)" "taken (demo_sys 3) = []" "rx_polls (demo_sys 3) = 0" "rx_src (demo_sys 3) 0 = Some 0x41"
    by (simp_all add: demo_sys_def rx_ok_def taken_def keys_def power_on_def map_filter_def)
  then show ?thesis using syscall_getc [of "demo_sys 3"] by fastforce
qed

text \<open>
  C9: \<open>sys_putc\<close> from the program's BRK to the instruction after it. A process in user mode,
  its stack page accessible and not the kernel's page 0, executes BRK 2 at \<open>pc\<close> with a character
  in its slot. The 2 is in none of the four bytes of the kernel's zero page through which the handler looks for
  it: it stores its pointers there first. Then, for every timing, the character appears on both consoles, the
  process continues in user mode at \<open>pc + 2\<close> with its stack pointer and status, and finds 0 in its return slot.
\<close>

theorem putc_end_to_end:
  assumes "\<not> kmode (mach k)" "bit (u_bits (mmu (mach k))) 0" "bit (w_bits (mmu (mach k))) 0" "3 \<le> unat (SP k)"
    "ppn (mmu (mach k)) 0 \<noteq> 0" "r1 = brk_ram (unat (ppn (mmu (mach k)) 0) * 1024 + 256) (SP k) pc st (ram (mach k))"
    "r1 (word_of_nat (upn (mach k) (pc + 1))) = 2" "upn (mach k) (pc + 1) \<notin> {0x30, 0x31, 0x54, 0x55}"
    "c = ram (mach k) (word_of_nat (slot (mach k) OFF_A_REG))"
  shows "\<exists>m'. brk_handler (brk pc st k) = Some ((st OR 0x30, pc + 2), k\<lparr>mach := m'\<rparr>) \<and>
    acia_out m' = acia_out (mach k) @ [c] \<and> gpu_out m' = gpu_out (mach k) @ [c] \<and> \<not> kmode m' \<and>
    ppn (mmu m') = ppn (mmu (mach k)) \<and> ram m' (word_of_nat (slot (mach k) OFF_RET)) = 0"
proof -
  let ?m = "mach k" and ?p = "unat (ppn (mmu (mach k)) 0) * 1024 + 256"
  let ?f = "blit (slot ?m OFF_RET) [0]"
  note sl = slot_bounds [OF assms(5)]
  have p: "?p + 256 \<le> 32768" using stack_page_bounds(2) [OF assms(5)] by simp
  have call: "\<exists>m4. syscall_dispatch m2 = Some m4 \<and> ram m4 = ?f (ram m2) \<and> env m4 = env (to_kernel (emit [c] ?m))"
    if h: "kmode m2" "same_except kscratch r1 (ram m2)" "ram m2 0x32 = 2" "env m2 = env (to_kernel ?m)" for m2
  proof -
    have s: "slot m2 off = slot ?m off" for off using h(4) by (simp add: env_iff to_kernel_def slot_def)
    have "ram m2 (word_of_nat (slot ?m OFF_A_REG)) = c"
      using kscratch_keeps [OF h(2) _ sl(3)] sl [of OFF_A_REG] brk_ram_below [OF _ p] by (simp add: assms(6,9))
    then show ?thesis
      using dispatch_putc [OF h(1,3)] h(4) by (simp add: s env_iff to_kernel_def emit_def emit_acia_def emit_gpu_def)
  qed
  have fr: "?f r (word_of_nat i) = r (word_of_nat i)" if "?p \<le> i \<and> i < ?p + 256 \<or> 0x100 \<le> i \<and> i < 0x200" for r i
    using that sl [of OFF_RET] p by (intro blit_off) auto
  have t: "ppn (mmu (emit [c] ?m)) = ppn (mmu ?m)" "u_bits (mmu (emit [c] ?m)) = u_bits (mmu ?m)" by simp_all
  have n: "(2 :: u8) \<noteq> 0" "\<not> kptr (upn ?m (pc + 1))" using assms(8) by (simp_all add: kptr_def)
  from brk_call [OF assms(1-4) refl assms(6,7) n(2,1) assms(5) call t fr] obtain m' r
    where "brk_handler (brk pc st k) = Some ((st OR 0x30, pc + 2), k\<lparr>mach := m'\<rparr>)" "ram m' = ?f r" "env m' = env (to_user (emit [c] ?m))"
    by blast
  then show ?thesis
    using sl [of OFF_RET] by (intro exI [of _ m']) (simp add: blit_at env_iff to_user_def kmode_def)
qed

text \<open>A process whose pages are all physical page 4, with the byte 2 after its BRK.\<close>

definition demo_user :: kern where
  "demo_user =
     \<lparr>mach = (power_on ((\<lambda>_. 0)(0x1301 := 2, 0x1040 := 0x21)) (\<lambda>_. 0xEA) (\<lambda>_. 0) None (\<lambda>_. None) (\<lambda>n. n))
               \<lparr>mmu := \<lparr>ppn = (\<lambda>_. 4), w_bits = 1, u_bits = 1, kernel = False, fault_reg = False\<rparr>\<rparr>,
      nprocs = 1, plist_idx = 0, SP = 0xF0, ret_at = (\<lambda>s. 0x0300)\<rparr>"

theorem putc_end_to_end_witness:
  "\<exists>m'. brk_handler (brk 0x0300 0 demo_user) = Some ((0x30, 0x0302), demo_user\<lparr>mach := m'\<rparr>) \<and> acia_out m' = [0x21]"
proof -
  let ?k = demo_user
  let ?r1 = "brk_ram (unat (ppn (mmu (mach ?k)) 0) * 1024 + 256) (SP ?k) 0x0300 0 (ram (mach ?k))"
  have n: "?r1 (word_of_nat (upn (mach ?k) (0x0300 + 1))) = 2"
    by (simp add: demo_user_def upn_eq brk_ram_def blit_def)
  have c: "ram (mach ?k) (word_of_nat (slot (mach ?k) OFF_A_REG)) = 0x21"
    by (simp add: demo_user_def slot_def abi)
  have h: "\<not> kmode (mach ?k)" "bit (u_bits (mmu (mach ?k))) 0" "bit (w_bits (mmu (mach ?k))) 0" "3 \<le> unat (SP ?k)"
      "ppn (mmu (mach ?k)) 0 \<noteq> 0" "acia_out (mach ?k) = []"
    by (simp_all add: demo_user_def kmode_def)
  have z: "upn (mach ?k) (0x0300 + 1) \<notin> {0x30, 0x31, 0x54, 0x55}" by (simp add: demo_user_def upn_eq)
  show ?thesis using putc_end_to_end [OF h(1-5) refl n z c [symmetric]] h(6) by auto
qed

end
