(* ===== verification/Kmain.thy ===== *)
theory Kmain
  imports Yield
begin

text \<open>
  The kernel's entry \<^verbatim>\<open>sw/kernel/src/main.c\<close>: it installs the BRK handler, identity-maps the
  page table, tests the boot sector, loads the three demo programs and starts the scheduler. The
  address of \<open>brk_handler\<close>, which the linker chooses, is an argument. A result is either the hang
  after a failed read of the boot sector, with the machine in that state, or the first process as
  \<open>sched_start\<close> leaves it, which never returns.
\<close>

section \<open>Model\<close>

datatype boot = Hung machine | Started "u8 \<times> u16" kern

function ident_ppn :: "u8 \<Rightarrow> machine \<Rightarrow> machine" where
  "ident_ppn i m = (if i < MMU_NPAGES then ident_ppn (i + 1) (mem_write (MMU_PPN0 + ucast i) i m) else m)"
  by pat_completeness auto
termination
  by (relation "measure (\<lambda>(i, m). 32 - unat i)") (auto simp: MMU_NPAGES_def word_less_nat_alt unat_word_ariths)

declare ident_ppn.simps [simp del]

definition boot_signature :: "machine \<Rightarrow> bool \<times> machine" where
  "boot_signature m =
     (case mem_read (block_buf + 510) m of (b0, m) \<Rightarrow>
        if b0 \<noteq> 0x55 then (False, m)
        else (case mem_read (block_buf + 511) m of (b1, m) \<Rightarrow> (b1 = 0xAA, m)))"

text \<open>Announcing and loading one program; what \<open>spawn_bbx\<close> returns is ignored.\<close>

definition announce :: "string \<Rightarrow> string" where
  "announce name = ''Loading '' @ name @ crlf"

definition boot_load :: "string \<Rightarrow> u32 \<Rightarrow> u16 \<Rightarrow> u8 \<Rightarrow> kern \<Rightarrow> kern option" where
  "boot_load name lba nblocks base k = do {
     m \<leftarrow> k_print_lit (announce name) (mach k);
     (r, k) \<leftarrow> spawn_bbx lba nblocks base (k\<lparr>mach := m\<rparr>);
     Some k
   }"

definition signature_text :: "bool \<Rightarrow> string" where
  "signature_text ok = (if ok then ''FAT boot signature OK'' else ''FAT boot signature MISSING'') @ crlf"

definition start_text :: string where
  "start_text = ''Staring scheduler...'' @ crlf"

definition kmain :: "u16 \<Rightarrow> kern \<Rightarrow> boot option" where
  "kmain handler k =
     (let m = mem_write 0x00FE (lo8 handler) (mach k);
          m = mem_write 0x00FF (hi8 handler) m;
          m = ident_ppn 0 m
      in do {
        (r, m) \<leftarrow> block_read 0 block_buf m;
        if r \<noteq> 0 then do { m \<leftarrow> k_print_lit ''block_read ERROR'' m; Some (Hung m) }
        else (case boot_signature m of (ok, m) \<Rightarrow> do {
          m \<leftarrow> k_print_lit (signature_text ok) m;
          k \<leftarrow> boot_load ''hello.c'' 200 1 1 (k\<lparr>mach := m\<rparr>);
          k \<leftarrow> boot_load ''hello2.c'' 210 1 3 k;
          k \<leftarrow> boot_load ''disktest.c'' 220 1 5 k;
          m \<leftarrow> k_print_lit start_text (mach k);
          (case sched_start (k\<lparr>mach := m\<rparr>) of (cpu, k) \<Rightarrow> Some (Started cpu k))
        })
      })"

section \<open>The steps\<close>

lemma ident_ppn_env:
  assumes "kmode m" "x \<le> 32"
  shows "ram (ident_ppn (word_of_nat x) m) = ram m \<and>
    env (ident_ppn (word_of_nat x) m) = env (m\<lparr>mmu := (mmu m)\<lparr>ppn := (\<lambda>v. if x \<le> unat v then v else ppn (mmu m) v)\<rparr>\<rparr>)"
  using assms
proof (induction "32 - x" arbitrary: x m)
  case 0
  then have "x = 32" by simp
  moreover have "\<not> 32 \<le> unat v" for v :: "5 word" using unat_lt_2p [of v] by simp
  ultimately show ?case by (subst (1 2) ident_ppn.simps) (simp add: MMU_NPAGES_def env_iff fun_eq_iff)
next
  case (Suc n)
  then have x: "x < 32" by simp
  let ?m = "mem_write (0x8080 + word_of_nat x) (word_of_nat x) m"
  have u: "(ucast (word_of_nat x :: u8) :: 5 word) = word_of_nat x"
    using x by (simp add: word_unat_eq_iff unat_ucast_mod unat_of_nat)
  have m: "ram ?m = ram m" "env ?m = env (m\<lparr>mmu := (mmu m)\<lparr>ppn := (ppn (mmu m))(word_of_nat x := word_of_nat x)\<rparr>\<rparr>)"
    using wr_ppn [OF Suc.prems(1) x, of "word_of_nat x"] by (simp_all add: u)
  have k: "kmode ?m" using m(2) Suc.prems(1) by (simp add: env_simps)
  have lt: "(word_of_nat x :: u8) < MMU_NPAGES" using x by (simp add: MMU_NPAGES_def word_less_nat_alt unat_of_nat)
  have s: "word_of_nat x + 1 = (word_of_nat (Suc x) :: u8)" by simp
  have "ident_ppn (word_of_nat x) m = ident_ppn (word_of_nat (Suc x)) ?m"
    unfolding ident_ppn.simps [of "word_of_nat x"] if_P [OF lt] ppn_reg(1) [OF x] s ..
  moreover have "(\<lambda>v. if Suc x \<le> unat v then v else ppn (mmu ?m) v) = (\<lambda>v. if x \<le> unat v then v else ppn (mmu m) v)"
  proof
    fix v :: "5 word"
    have "v = word_of_nat x \<longleftrightarrow> unat v = x" using x by (simp add: word_unat_eq_iff unat_of_nat)
    moreover have "ppn (mmu ?m) = (ppn (mmu m))(word_of_nat x := word_of_nat x)" using m(2) by (simp add: env_iff)
    ultimately show "(if Suc x \<le> unat v then v else ppn (mmu ?m) v) = (if x \<le> unat v then v else ppn (mmu m) v)"
      by (cases "v = word_of_nat x") auto
  qed
  ultimately show ?case
    using Suc.hyps(1) [of "Suc x" ?m] Suc.hyps(2) k x m by (simp add: env_iff)
qed

lemma boot_signature_env:
  assumes "kmode m" "peek 0x7100 512 (ram m) = s"
  shows "\<exists>m1. boot_signature m = (s ! 510 = 0x55 \<and> s ! 511 = 0xAA, m1) \<and> ram m1 = ram m \<and> env m1 = env m"
proof -
  obtain m1 where m1: "mem_read (block_buf + 510) m = (s ! 510, m1)" "ram m1 = ram m" "env m1 = env m"
    using rd_block_buf [OF assms, of 510] by auto
  have k1: "kmode m1" by (rule kmode_env [OF m1(3) assms(1)])
  obtain m2 where m2: "mem_read (block_buf + 511) m1 = (s ! 511, m2)" "ram m2 = ram m" "env m2 = env m"
    using rd_block_buf [OF k1, of s 511] assms(2) m1(2,3) by auto
  show ?thesis using m1 m2 by (cases "s ! 510 = 0x55") (simp_all add: boot_signature_def)
qed

lemma boot_load_ok:
  assumes "kmode (mach k)" "nprocs k < 4" "disk_img (mach k) = Some img" "lba_ok lba" "n \<le> 56"
    "\<And>b. b < n \<Longrightarrow> lba_ok (lba + word_of_nat b)" "pages_ok base n" "valid_bbx (sector_of img lba)"
  shows "\<exists>m'. boot_load name lba (word_of_nat n) base k = Some (k\<lparr>mach := m', nprocs := nprocs k + 1\<rparr>) \<and>
    ram m' = spawn_ram img lba n base (unat (nprocs k)) (ram (mach k)) \<and>
    env m' = env (emit (map of_char (announce name)) (mach k))"
proof -
  obtain m1 where m1: "k_print_lit (announce name) (mach k) = Some m1" "ram m1 = ram (mach k)"
      "env m1 = env (emit (map of_char (announce name)) (mach k))"
    using k_print_lit_env [OF assms(1)] by blast
  have e: "kmode m1" "disk_img m1 = Some img" using m1(3) assms(1,3) by (simp_all add: env_simps)
  let ?k = "k\<lparr>mach := m1\<rparr>"
  obtain m' where "spawn_bbx lba (word_of_nat n) base ?k = Some (0, ?k\<lparr>mach := m', nprocs := nprocs ?k + 1\<rparr>)"
      "ram m' = spawn_ram img lba n base (unat (nprocs ?k)) (ram (mach ?k))" "env m' = env (mach ?k)"
    using spawn_bbx_ok [of ?k img lba n base] e assms by auto
  then show ?thesis using m1 by (intro exI [of _ m']) (simp add: boot_load_def)
qed


section \<open>Loaded programs\<close>

text \<open>
  Process \<open>i\<close> is ready: its page table is the one for \<open>base\<close>, through it the program's first block
  is at \<open>$1000\<close> and the frame for \<open>rti\<close> under the saved stack pointer.
\<close>

definition loaded :: "(15 word \<Rightarrow> u8) \<Rightarrow> nat \<Rightarrow> u8 list \<Rightarrow> u8 \<Rightarrow> bool" where
  "loaded r i s base \<longleftrightarrow>
     peek (pent i + 14) 32 r = table base \<and> r (word_of_nat (pent i + 13)) = 0xFC \<and>
     (\<forall>j < 512. user_byte r i (0x1000 + j) = s ! j) \<and>
     map (user_byte r i) [0x1FD, 0x1FE, 0x1FF] = [0x20, s ! 4, s ! 5]"

definition low_base :: "u8 \<Rightarrow> bool" where
  "low_base b \<longleftrightarrow> 1 \<le> unat b \<and> unat b \<le> 5"

lemma phys_low: "low_base b \<Longrightarrow> va < 8192 \<Longrightarrow> phys_of b va = unat b * 4096 + va"
proof -
  assume b: "low_base b" and va: "va < 8192"
  then have "va div 4096 < 2" by simp
  then have "(unat b + va div 4096) mod 8 = unat b + va div 4096" using b by (simp add: low_base_def)
  then show ?thesis by (simp add: phys_of_def algebra_simps)
qed

lemma low_pages: "low_base b \<Longrightarrow> pages_ok b 1"
  by (auto simp: low_base_def pages_ok_def)

lemma user_byte_at: "peek (pent i + 14) 32 r = table base \<Longrightarrow> va < 32768 \<Longrightarrow> user_byte r i va = r (word_of_nat (phys_of base va))"
  by (simp add: user_byte_def user_phys_table)

lemma loaded_keep:
  assumes "loaded r i s base" "low_base base" "i < 4"
    "\<And>a. pent i + 13 \<le> a \<Longrightarrow> a < pent i + 46 \<Longrightarrow> r' (word_of_nat a) = r (word_of_nat a)"
    "\<And>a. unat base * 4096 \<le> a \<Longrightarrow> a < unat base * 4096 + 8192 \<Longrightarrow> r' (word_of_nat a) = r (word_of_nat a)"
  shows "loaded r' i s base"
proof -
  have t: "peek (pent i + 14) 32 r = table base" using assms(1) by (simp add: loaded_def)
  have t': "peek (pent i + 14) 32 r' = table base"
    unfolding t [symmetric] by (rule peek_eq) (rule assms(4); simp)
  have u: "user_byte r' i va = user_byte r i va" if "va < 8192" for va
    using user_byte_at [OF t, of va] user_byte_at [OF t', of va] phys_low [OF assms(2) that] assms(5) [of "unat base * 4096 + va"] that
    by (simp del: of_nat_add of_nat_mult)
  show ?thesis using assms(1) t' assms(4) [of "pent i + 13"] by (simp add: loaded_def u)
qed

lemma spawn_loaded:
  assumes "low_base base" "idx < 4"
  shows "loaded (spawn_ram img lba 1 base idx r) idx (sector_of img lba) base"
proof -
  let ?r = "spawn_ram img lba 1 base idx r"
  have t: "peek (pent idx + 14) 32 ?r = table base" by (rule spawn_ram_table) (use assms low_pages in auto)
  have s: "prog_block img lba 0 = sector_of img lba" by (simp add: prog_block_def)
  have "user_byte ?r idx (0x1000 + j) = sector_of img lba ! j" if "j < 512" for j
    using spawn_ram_image [OF low_pages [OF assms(1)] _ assms(2), of 0 j img lba r] user_byte_at [OF t, of "0x1000 + j"] that
    by (simp add: s block_va_def)
  moreover have "user_byte ?r idx (0x1FD + l) = [0x20, sector_of img lba ! 4, sector_of img lba ! 5] ! l" if "l < 3" for l
    using spawn_ram_frame [OF low_pages [OF assms(1)] that, of img lba idx r] user_byte_at [OF t, of "0x1FD + l"] that by (simp add: s)
  from this [of 0] this [of 1] this [of 2] have "map (user_byte ?r idx) [0x1FD, 0x1FE, 0x1FF] = [0x20, sector_of img lba ! 4, sector_of img lba ! 5]"
    by simp
  ultimately show ?thesis using t spawn_ram_fields(2) [OF assms(2)] by (simp add: loaded_def)
qed

lemma spawn_apart:
  assumes "low_base base" "idx < 4" "a < 32768" "a < pent idx \<or> pent idx + 64 \<le> a" "a < 0x7100 \<or> 0x7300 \<le> a"
    "a < unat base * 4096 \<or> unat base * 4096 + 8192 \<le> a"
  shows "spawn_ram img lba 1 base idx r (word_of_nat a) = r (word_of_nat a)"
  by (rule spawn_ram_other)
    (use assms phys_low [OF assms(1), of "0x1FD"] phys_low [OF assms(1), of "0x1000"] in \<open>auto simp: block_va_def\<close>)

lemma spawn_keeps_loaded:
  assumes "loaded r i s b" "low_base b" "i < idx" "idx < 4" "low_base base" "unat b + 2 \<le> unat base"
  shows "loaded (spawn_ram img lba 1 base idx r) i s b"
proof (rule loaded_keep [OF assms(1,2)])
  have p: "pent i + 64 \<le> pent idx" using pent_apart assms(3) .
  have q: "pent idx + 64 \<le> 0x7100" "0x7000 \<le> pent i" using pent_bound [of idx] pent_bound [of i] assms(3,4) by auto
  have b: "unat base \<le> 5" "unat b \<le> 5" using assms(2,5) by (auto simp: low_base_def)
  show "spawn_ram img lba 1 base idx r (word_of_nat a) = r (word_of_nat a)" if "pent i + 13 \<le> a" "a < pent i + 46" for a
    by (rule spawn_apart) (use assms p q b that in auto)
  show "spawn_ram img lba 1 base idx r (word_of_nat a) = r (word_of_nat a)" if "unat b * 4096 \<le> a" "a < unat b * 4096 + 8192" for a
    by (rule spawn_apart) (use assms p q b that in auto)
qed (use assms in simp)

lemma in_ram_keeps_loaded:
  assumes "loaded r i s b" "low_base b" "i < 4" "j < 4"
  shows "loaded (in_ram j r) i s b"
proof (rule loaded_keep [OF assms(1-3)])
  have p: "i = j \<or> pent i + 64 \<le> pent j \<or> pent j + 64 \<le> pent i" using pent_apart linorder_neqE_nat by metis
  have q: "0x7000 \<le> pent j" "pent i + 64 \<le> 0x7100" using pent_bound assms(3,4) by auto
  have b: "unat b \<le> 5" using assms(2) by (auto simp: low_base_def)
  show "in_ram j r (word_of_nat a) = r (word_of_nat a)" if "pent i + 13 \<le> a" "a < pent i + 46" for a
    unfolding in_ram_def by (rule blit_off) (use p q that in auto)
  show "in_ram j r (word_of_nat a) = r (word_of_nat a)" if "unat b * 4096 \<le> a" "a < unat b * 4096 + 8192" for a
    unfolding in_ram_def by (rule blit_off) (use q b that in auto)
qed

lemma scratch_keeps_loaded:
  assumes "loaded r i s b" "low_base b" "i < 4" "same_except kscratch r r'"
  shows "loaded r' i s b"
proof (rule loaded_keep [OF assms(1-3)])
  have b: "1 \<le> unat b" "unat b \<le> 5" "0x7000 \<le> pent i" "pent i + 64 \<le> 0x7100"
    using assms(2) pent_bound [OF assms(3)] by (auto simp: low_base_def)
  show "r' (word_of_nat a) = r (word_of_nat a)" if "pent i + 13 \<le> a" "a < pent i + 46" for a
    by (rule kscratch_keeps [OF assms(4)]) (use that b in linarith)+
  show "r' (word_of_nat a) = r (word_of_nat a)" if "unat b * 4096 \<le> a" "a < unat b * 4096 + 8192" for a
    by (rule kscratch_keeps [OF assms(4)]) (use that b in linarith)+
qed

lemma spawn_pstate:
  assumes "low_base base" "idx < 4" "j < 4"
  shows "pstate (spawn_ram img lba 1 base idx r) j = (if j = idx then PROC_STATE_WAITING else pstate r j)"
proof (cases "j = idx")
  case True
  then show ?thesis using spawn_ram_fields(1) [OF assms(2)] by (simp add: pstate_def)
next
  case False
  then have p: "pent idx + 64 \<le> pent j \<or> pent j + 64 \<le> pent idx" using pent_apart linorder_neqE_nat by metis
  have q: "0x7000 \<le> pent j" "pent j + 64 \<le> 0x7100" using pent_bound assms(3) by auto
  have "spawn_ram img lba 1 base idx r (word_of_nat (pent j)) = r (word_of_nat (pent j))"
    by (rule spawn_apart) (use assms p q in \<open>auto simp: low_base_def\<close>)
  then show ?thesis using False by (simp add: pstate_def)
qed


section \<open>The whole start\<close>

lemma stack_byte_phys:
  assumes "peek (pent j + 14) 32 r = table base"
  shows "stack_byte r' (p_tab (saved r j)) sp = r' (word_of_nat (phys_of base (256 + unat sp)))"
proof -
  let ?mm = "mmu_reset\<lparr>kernel := False, ppn := p_tab (saved r j)\<rparr>"
  have "0x0100 + ucast sp = (word_of_nat (256 + unat sp) :: u16)" by simp
  then show ?thesis
    using stack_addr(3) [of ?mm sp] hw_phys [of ?mm r j base "256 + unat sp"] assms unat_u8_lt [of sp]
    by (simp add: stack_byte_def del: of_nat_add)
qed

definition boot_text :: "u8 list \<Rightarrow> string" where
  "boot_text img =
     signature_text (sector_of img 0 ! 510 = 0x55 \<and> sector_of img 0 ! 511 = 0xAA)
     @ announce ''hello.c'' @ announce ''hello2.c'' @ announce ''disktest.c'' @ start_text"

text \<open>The state before the programs are loaded.\<close>

lemma boot_prologue:
  assumes "kmode m" "disk_img m = Some img"
  shows "\<exists>m1 m2. block_read 0 block_buf (ident_ppn 0 (mem_write 0x00FF (hi8 h) (mem_write 0x00FE (lo8 h) m))) = Some (0, m1) \<and>
    boot_signature m1 = (sector_of img 0 ! 510 = 0x55 \<and> sector_of img 0 ! 511 = 0xAA, m2) \<and>
    ram m2 = blit 0x7100 (sector_of img 0) (blit 0x00FE [lo8 h, hi8 h] (ram m)) \<and>
    env m2 = env (m\<lparr>mmu := (mmu m)\<lparr>ppn := (\<lambda>v. v)\<rparr>\<rparr>)"
proof -
  let ?a = "mem_write 0x00FE (lo8 h) m" and ?i = "m\<lparr>mmu := (mmu m)\<lparr>ppn := (\<lambda>v. v)\<rparr>\<rparr>"
  have a: "ram ?a = blit 0xFE [lo8 h] (ram m)" "env ?a = env m" using wr_at [OF assms(1), of "0xFE"] by simp_all
  have ka: "kmode ?a" by (rule kmode_env [OF a(2) assms(1)])
  let ?b = "mem_write 0x00FF (hi8 h) ?a"
  have b: "ram ?b = blit 0xFE [lo8 h, hi8 h] (ram m)" "env ?b = env m"
    using wr_at [OF ka, of "0xFF"] a by (simp_all add: blit_blit_append)
  have kb: "kmode ?b" by (rule kmode_env [OF b(2) assms(1)])
  let ?c = "ident_ppn 0 ?b"
  have c: "ram ?c = blit 0xFE [lo8 h, hi8 h] (ram m)" "env ?c = env ?i"
    using ident_ppn_env [OF kb, of 0] b by (simp_all add: env_iff)
  have kc: "kmode ?c" "disk_img ?c = Some img" using c(2) assms by (simp_all add: env_simps)
  obtain d where d: "block_read 0 block_buf ?c = Some (0, d)" "ram d = blit 0x7100 (sector_of img 0) (ram ?c)" "env d = env ?c"
    using block_read_env [OF kc, of 0 "0x7100"] by (auto simp: block_buf_def lba_ok_def)
  have kd: "kmode d" by (rule kmode_env [OF d(3) kc(1)])
  have "peek 0x7100 512 (ram d) = sector_of img 0" using peek_blit [of "0x7100" "sector_of img 0"] by (simp add: d(2))
  from boot_signature_env [OF kd this] show ?thesis using c d by auto
qed

lemma emit_kmode: "env m' = env (emit bs m) \<Longrightarrow> kmode m' = kmode m \<and> disk_img m' = disk_img m"
  by (simp add: env_simps)

lemma emit_env2: "env m'' = env (emit cs m') \<Longrightarrow> env m' = env (emit bs m) \<Longrightarrow> env m'' = env (emit (bs @ cs) m)"
  using emit_env [of m' "emit bs m" cs] by (simp add: emit_append)

lemma boot_loads:
  assumes "kmode (mach k)" "nprocs k = 0" "disk_img (mach k) = Some img"
    "valid_bbx (sector_of img 200)" "valid_bbx (sector_of img 210)" "valid_bbx (sector_of img 220)"
  shows "\<exists>m'. do { k \<leftarrow> boot_load ''hello.c'' 200 1 1 k; k \<leftarrow> boot_load ''hello2.c'' 210 1 3 k; boot_load ''disktest.c'' 220 1 5 k }
      = Some (k\<lparr>mach := m', nprocs := 3\<rparr>) \<and>
    ram m' = spawn_ram img 220 1 5 2 (spawn_ram img 210 1 3 1 (spawn_ram img 200 1 1 0 (ram (mach k)))) \<and>
    env m' = env (emit (map of_char (announce ''hello.c'' @ announce ''hello2.c'' @ announce ''disktest.c'')) (mach k))"
proof -
  have one: "lba_ok l \<Longrightarrow> lba_ok (l + word_of_nat b)" if "b < 1" for l b using that by simp
  have l: "lba_ok 200" "lba_ok 210" "lba_ok 220" by (simp_all add: lba_ok_def)
  have p: "pages_ok 1 1" "pages_ok 3 1" "pages_ok 5 1" by (rule low_pages; simp add: low_base_def)+
  obtain m1 where m1: "boot_load ''hello.c'' 200 1 1 k = Some (k\<lparr>mach := m1, nprocs := 1\<rparr>)"
      "ram m1 = spawn_ram img 200 1 1 0 (ram (mach k))" "env m1 = env (emit (map of_char (announce ''hello.c'')) (mach k))"
    using boot_load_ok [of k img 200 1 1 "''hello.c''"] assms l p one by auto
  let ?k1 = "k\<lparr>mach := m1, nprocs := 1\<rparr>"
  have k1: "kmode m1" "disk_img m1 = Some img" using emit_kmode [OF m1(3)] assms by auto
  obtain m2 where m2: "boot_load ''hello2.c'' 210 1 3 ?k1 = Some (?k1\<lparr>mach := m2, nprocs := 2\<rparr>)"
      "ram m2 = spawn_ram img 210 1 3 1 (ram m1)" "env m2 = env (emit (map of_char (announce ''hello2.c'')) m1)"
    using boot_load_ok [of ?k1 img 210 1 3 "''hello2.c''"] assms l p one k1 by auto
  let ?k2 = "k\<lparr>mach := m2, nprocs := 2\<rparr>"
  have k2: "kmode m2" "disk_img m2 = Some img" using emit_kmode [OF m2(3)] k1 by auto
  obtain m3 where m3: "boot_load ''disktest.c'' 220 1 5 ?k2 = Some (?k2\<lparr>mach := m3, nprocs := 3\<rparr>)"
      "ram m3 = spawn_ram img 220 1 5 2 (ram m2)" "env m3 = env (emit (map of_char (announce ''disktest.c'')) m2)"
    using boot_load_ok [of ?k2 img 220 1 5 "''disktest.c''"] assms l p one k2 by auto
  have "env m3 = env (emit (map of_char (announce ''hello.c'' @ announce ''hello2.c'' @ announce ''disktest.c'')) (mach k))"
    using emit_env2 [OF m3(3) emit_env2 [OF m2(3) m1(3)]] by simp
  then show ?thesis using m1 m2 m3 by (intro exI [of _ m3]) simp
qed


definition boot_ram :: "u8 list \<Rightarrow> u16 \<Rightarrow> (15 word \<Rightarrow> u8) \<Rightarrow> 15 word \<Rightarrow> u8" where
  "boot_ram img h r = spawn_ram img 220 1 5 2 (spawn_ram img 210 1 3 1 (spawn_ram img 200 1 1 0
     (blit 0x7100 (sector_of img 0) (blit 0x00FE [lo8 h, hi8 h] r))))"

definition booted :: "u8 list \<Rightarrow> u16 \<Rightarrow> (15 word \<Rightarrow> u8) \<Rightarrow> (15 word \<Rightarrow> u8) \<Rightarrow> bool" where
  "booted img h r r' \<longleftrightarrow> (\<exists>q. same_except kscratch (boot_ram img h r) q \<and> r' = in_ram 0 q)"

lemma boot_all_loaded:
  assumes "r' = spawn_ram img 220 1 5 2 (spawn_ram img 210 1 3 1 (spawn_ram img 200 1 1 0 r))"
  shows "loaded r' 0 (sector_of img 200) 1" "loaded r' 1 (sector_of img 210) 3" "loaded r' 2 (sector_of img 220) 5"
    "j < 3 \<Longrightarrow> pstate r' j = PROC_STATE_WAITING"
proof -
  have b: "low_base 1" "low_base 3" "low_base 5" by (simp_all add: low_base_def)
  let ?r1 = "spawn_ram img 200 1 1 0 r"
  let ?r2 = "spawn_ram img 210 1 3 1 ?r1"
  have "loaded ?r1 0 (sector_of img 200) 1" by (rule spawn_loaded [OF b(1)]) simp
  from spawn_keeps_loaded [OF this b(1) _ _ b(2), of 1] have "loaded ?r2 0 (sector_of img 200) 1" by simp
  from spawn_keeps_loaded [OF this b(1) _ _ b(3), of 2] show "loaded r' 0 (sector_of img 200) 1" by (simp add: assms)
  have "loaded ?r2 1 (sector_of img 210) 3" by (rule spawn_loaded [OF b(2)]) simp
  from spawn_keeps_loaded [OF this b(2) _ _ b(3), of 2] show "loaded r' 1 (sector_of img 210) 3" by (simp add: assms)
  show "loaded r' 2 (sector_of img 220) 5" unfolding assms by (rule spawn_loaded [OF b(3)]) simp
  show "j < 3 \<Longrightarrow> pstate r' j = PROC_STATE_WAITING" by (auto simp: assms spawn_pstate b simp del: One_nat_def)
qed

text \<open>
  The RAM it leaves: three programs loaded, the first entered; in the kernel's pages only the vector is written,
  besides what the assembly code writes for itself.
\<close>

lemma booted_programs:
  assumes "booted img h r r'" "s = sector_of img 200" "stk = stack_byte r' (p_tab (saved r' 0))"
  shows "loaded r' 0 s 1" "loaded r' 1 (sector_of img 210) 3" "loaded r' 2 (sector_of img 220) 5"
    "j < 3 \<Longrightarrow> pstate r' j = (if j = 0 then PROC_STATE_RUNNING else PROC_STATE_WAITING)"
    "stk 0xFD = 0x20" "stk 0xFE = s ! 4" "stk 0xFF = s ! 5"
    "a < 4096 \<Longrightarrow> \<not> kscratch a \<Longrightarrow> r' (word_of_nat a) = blit 0x00FE [lo8 h, hi8 h] r (word_of_nat a)"
proof -
  let ?q = "boot_ram img h r"
  have b: "low_base 1" "low_base 3" "low_base 5" by (simp_all add: low_base_def)
  obtain q where q: "same_except kscratch ?q q" "r' = in_ram 0 q" using assms(1) by (auto simp: booted_def)
  note all = boot_all_loaded [OF boot_ram_def [of img h r]]
  note keep = scratch_keeps_loaded [OF _ _ _ q(1)]
  have k: "loaded q 0 s 1" "loaded q 1 (sector_of img 210) 3" "loaded q 2 (sector_of img 220) 5"
    unfolding assms(2) by (rule keep [OF all(1) b(1)] keep [OF all(2) b(2)] keep [OF all(3) b(3)]; simp)+
  show l: "loaded r' 0 s 1" "loaded r' 1 (sector_of img 210) 3" "loaded r' 2 (sector_of img 220) 5"
    unfolding q(2) by (rule in_ram_keeps_loaded [OF k(1) b(1)] in_ram_keeps_loaded [OF k(2) b(2)]
      in_ram_keeps_loaded [OF k(3) b(3)]; simp)+
  show "pstate r' j = (if j = 0 then PROC_STATE_RUNNING else PROC_STATE_WAITING)" if "j < 3"
    using saved_in_ram(2) [of j 0 q] saved_scratch(2) [OF q(1), of j] all(4) [OF that] that by (simp add: q(2))
  have t: "peek (pent 0 + 14) 32 r' = table 1" using l(1) by (simp add: loaded_def)
  have st: "stk sp = user_byte r' 0 (256 + unat sp)" for sp
    using stack_byte_phys [OF t, of r' sp] user_byte_at [OF t, of "256 + unat sp"] unat_u8_lt [of sp] by (simp add: assms(3))
  show "stk 0xFD = 0x20" "stk 0xFE = s ! 4" "stk 0xFF = s ! 5" using l(1) by (simp_all add: st loaded_def)
  have "?q (word_of_nat a) = blit 0x00FE [lo8 h, hi8 h] r (word_of_nat a)" if "a < 4096"
    using that b by (simp add: boot_ram_def spawn_apart pent_def blit_off low_base_def del: One_nat_def)
  then show "r' (word_of_nat a) = blit 0x00FE [lo8 h, hi8 h] r (word_of_nat a)" if "a < 4096" "\<not> kscratch a"
    using that same_exceptD [OF q(1), of a] by (simp add: q(2) in_ram_def blit_off pent_def)
qed

lemma kmain_ok:
  assumes "kmode (mach k)" "nprocs k = 0" "disk_img (mach k) = Some img"
    "valid_bbx (sector_of img 200)" "valid_bbx (sector_of img 210)" "valid_bbx (sector_of img 220)"
  shows "\<exists>m'. kmain h k = Some (Started (0x20, le16 (sector_of img 200 ! 4) (sector_of img 200 ! 5))
      (k\<lparr>mach := m', nprocs := 3, plist_idx := 0, SP := 0xFF\<rparr>)) \<and>
    booted img h (ram (mach k)) (ram m') \<and> \<not> kmode m' \<and> ppn (mmu m') = p_tab (saved (ram m') 0) \<and> u_bits (mmu m') = 0xFFFFFFFF \<and>
    w_bits (mmu m') = 0xFFFFFFFF \<and> disk_img m' = Some img \<and>
    acia_out m' = acia_out (mach k) @ map of_char (boot_text img) \<and> gpu_out m' = gpu_out (mach k) @ map of_char (boot_text img)"
proof -
  define ok where "ok \<longleftrightarrow> sector_of img 0 ! 510 = 0x55 \<and> sector_of img 0 ! 511 = 0xAA"
  define t1 where "t1 = signature_text ok"
  define t2 where "t2 = announce ''hello.c'' @ announce ''hello2.c'' @ announce ''disktest.c''"
  define t3 where "t3 = start_text"
  have bt: "boot_text img = t1 @ t2 @ t3" by (simp add: boot_text_def t1_def t2_def t3_def ok_def)
  let ?i = "(mach k)\<lparr>mmu := (mmu (mach k))\<lparr>ppn := (\<lambda>v. v)\<rparr>\<rparr>"
  obtain m1 m2 where m2: "block_read 0 block_buf (ident_ppn 0 (mem_write 0x00FF (hi8 h) (mem_write 0x00FE (lo8 h) (mach k)))) = Some (0, m1)"
      "boot_signature m1 = (ok, m2)"
      "ram m2 = blit 0x7100 (sector_of img 0) (blit 0x00FE [lo8 h, hi8 h] (ram (mach k)))" "env m2 = env ?i"
    using boot_prologue [OF assms(1,3), of h] unfolding ok_def by blast
  have k2: "kmode m2" "disk_img m2 = Some img" using m2(4) assms(1,3) by (simp_all add: env_simps)
  obtain m3 where m3: "k_print_lit t1 m2 = Some m3" "ram m3 = ram m2" "env m3 = env (emit (map of_char t1) m2)"
    using k_print_lit_env [OF k2(1)] by blast
  have k3: "kmode m3" "disk_img m3 = Some img" using emit_kmode [OF m3(3)] k2 by auto
  let ?k3 = "k\<lparr>mach := m3\<rparr>"
  obtain m4 where m4: "do { k \<leftarrow> boot_load ''hello.c'' 200 1 1 ?k3; k \<leftarrow> boot_load ''hello2.c'' 210 1 3 k; boot_load ''disktest.c'' 220 1 5 k }
        = Some (k\<lparr>mach := m4, nprocs := 3\<rparr>)"
      "ram m4 = spawn_ram img 220 1 5 2 (spawn_ram img 210 1 3 1 (spawn_ram img 200 1 1 0 (ram m3)))"
      "env m4 = env (emit (map of_char t2) m3)"
    using boot_loads [of ?k3 img] k3 assms(2,4-6) unfolding t2_def by auto
  have k4: "kmode m4" using emit_kmode [OF m4(3)] k3 by auto
  obtain m5 where m5: "k_print_lit t3 m4 = Some m5" "ram m5 = ram m4" "env m5 = env (emit (map of_char t3) m4)"
    using k_print_lit_env [OF k4] by blast
  have k5: "kmode m5" using emit_kmode [OF m5(3)] k4 by auto
  let ?k5 = "k\<lparr>mach := m5, nprocs := 3\<rparr>"
  have r: "boot_ram img h (ram (mach k)) = ram m5" by (simp add: boot_ram_def m5(2) m4(2) m3(2) m2(3))
  define c where "c = saved (ram m5) 0"
  have "loaded (ram m5) 0 (sector_of img 200) 1" by (rule boot_all_loaded(1)) (simp add: m5(2) m4(2))
  then have sp: "p_sp c = 0xFC" by (simp add: loaded_def saved_def c_def)
  obtain m6 q where m6: "sched_start ?k5 = ((stack_byte (ram m6) (p_tab c) (p_sp c + 1),
        le16 (stack_byte (ram m6) (p_tab c) (p_sp c + 2)) (stack_byte (ram m6) (p_tab c) (p_sp c + 3))), ?k5\<lparr>mach := m6, plist_idx := 0, SP := p_sp c + 3\<rparr>)"
      "ram m6 = in_ram 0 q" "same_except kscratch (ram m5) q" "\<not> kmode m6" "ppn (mmu m6) = p_tab c" "u_bits (mmu m6) = 0xFFFFFFFF"
      "w_bits (mmu m6) = 0xFFFFFFFF" "disk_img m6 = Some img" "acia_out m6 = acia_out m5" "gpu_out m6 = gpu_out m5"
    using sched_start_spec [of ?k5 c] k5 emit_kmode [OF m5(3)] emit_kmode [OF m4(3)] k3 by (auto simp: c_def)
  have bt6: "booted img h (ram (mach k)) (ram m6)" using m6(2,3) unfolding booted_def r by blast
  have sv: "saved (ram m6) 0 = c"
    using saved_in_ram(1) [of 0 0 q] saved_scratch(1) [OF m6(3), of 0] by (simp add: m6(2) c_def)
  note bp = booted_programs [OF bt6 refl refl, unfolded sv]
  have fr: "sched_start ?k5 = ((0x20, le16 (sector_of img 200 ! 4) (sector_of img 200 ! 5)), ?k5\<lparr>mach := m6, plist_idx := 0, SP := 0xFF\<rparr>)"
    using m6(1) bp(5-7) by (simp add: sp)
  have "env m5 = env (emit (map of_char (boot_text img)) m2)"
    using emit_env2 [OF m5(3) emit_env2 [OF m4(3) m3(3)]] by (simp add: bt)
  then have "acia_out m6 = acia_out (mach k) @ map of_char (boot_text img)" "gpu_out m6 = gpu_out (mach k) @ map of_char (boot_text img)"
    using m2(4) m6(9,10) by (simp_all add: env_iff)
  moreover have "kmain h k = Some (Started (0x20, le16 (sector_of img 200 ! 4) (sector_of img 200 ! 5)) (k\<lparr>mach := m6, nprocs := 3, plist_idx := 0, SP := 0xFF\<rparr>))"
  proof -
    obtain a b where ab: "boot_load ''hello.c'' 200 1 1 ?k3 = Some a" "boot_load ''hello2.c'' 210 1 3 a = Some b"
        "boot_load ''disktest.c'' 220 1 5 b = Some (k\<lparr>mach := m4, nprocs := 3\<rparr>)"
      using m4(1) unfolding bind_eq_Some_conv by blast
    have e: "k\<lparr>nprocs := 3, mach := m5\<rparr> = ?k5" by simp
    show ?thesis
      unfolding kmain_def Let_def m2(1) by (simp add: m2(2) t1_def [symmetric] m3(1) ab m5(1) [unfolded t3_def] fr [folded e])
  qed
  ultimately show ?thesis using m6 bt6 sv by (intro exI [of _ m6]) simp
qed


text \<open>Any outcome of loading: whatever the sector holds, the next program is tried.\<close>

lemma boot_load_any:
  assumes "kmode (mach k)" "nprocs k < 4" "disk_img (mach k) = Some img" "lba_ok lba" "low_base base"
  shows "\<exists>m'. boot_load name lba 1 base k = Some (k\<lparr>mach := m', nprocs := nprocs k + (if valid_bbx (sector_of img lba) then 1 else 0)\<rparr>) \<and>
    kmode m' \<and> disk_img m' = Some img"
proof (cases "valid_bbx (sector_of img lba)")
  case True
  have "lba_ok (lba + word_of_nat b)" if "b < 1" for b using assms(4) that by simp
  from boot_load_ok [OF assms(1-4) _ this low_pages [OF assms(5)] True, of name]
  obtain m' where "boot_load name lba 1 base k = Some (k\<lparr>mach := m', nprocs := nprocs k + 1\<rparr>)"
      "env m' = env (emit (map of_char (announce name)) (mach k))" by auto
  then show ?thesis using emit_kmode [of m'] assms(1,3) True by auto
next
  case False
  obtain m1 where m1: "k_print_lit (announce name) (mach k) = Some m1" "env m1 = env (emit (map of_char (announce name)) (mach k))"
    using k_print_lit_env [OF assms(1)] by blast
  let ?k = "k\<lparr>mach := m1\<rparr>"
  have k: "kmode (mach ?k)" "disk_img (mach ?k) = Some img" using emit_kmode [OF m1(2)] assms(1,3) by auto
  obtain m' where m': "spawn_bbx lba 1 base ?k = Some (2, ?k\<lparr>mach := m'\<rparr>)"
      "env m' = env (emit (map of_char (''spawn: bad BBX magic'' @ crlf)) (mach ?k))"
    using spawn_bbx_bad_magic [of ?k img lba 1 base] k assms(2,4) False by auto
  then show ?thesis using emit_kmode [OF m'(2)] k False m1(1) by (intro exI [of _ m']) (simp add: boot_load_def)
qed

lemma kmain_no_disk:
  assumes "kmode (mach k)" "disk_img (mach k) = None"
  shows "\<exists>m. kmain h k = Some (Hung m) \<and> acia_out m = acia_out (mach k) @ map of_char ''block_read ERROR''"
proof -
  let ?a = "mem_write 0x00FE (lo8 h) (mach k)"
  have a: "env ?a = env (mach k)" using wr_at [OF assms(1), of "0xFE"] by simp
  have ka: "kmode ?a" by (rule kmode_env [OF a assms(1)])
  let ?b = "mem_write 0x00FF (hi8 h) ?a"
  have b: "env ?b = env (mach k)" using wr_at [OF ka, of "0xFF"] a by simp
  have kb: "kmode ?b" by (rule kmode_env [OF b assms(1)])
  let ?c = "ident_ppn 0 ?b"
  have c: "kmode ?c" "disk_img ?c = None" "acia_out ?c = acia_out (mach k)"
    using ident_ppn_env [OF kb, of 0] b assms by (simp_all add: env_simps)
  obtain d where d: "block_read 0 block_buf ?c = Some (1, d)" "env d = env ?c"
    using block_read_fails [OF c(1,2), of "0x7100" 0] by (auto simp: block_buf_def)
  have kd: "kmode d" by (rule kmode_env [OF d(2) c(1)])
  obtain m where "k_print_lit ''block_read ERROR'' d = Some m" "env m = env (emit (map of_char ''block_read ERROR'') d)"
    using k_print_lit_env [OF kd] by blast
  then show ?thesis using d c by (intro exI [of _ m]) (simp add: kmain_def Let_def env_iff)
qed

lemma kmain_any_disk:
  assumes "kmode (mach k)" "nprocs k = 0" "disk_img (mach k) = Some img"
  shows "\<exists>cpu k'. kmain h k = Some (Started cpu k') \<and>
    nprocs k' = word_of_nat (length (filter (\<lambda>lba. valid_bbx (sector_of img lba)) [200, 210, 220]))"
proof -
  have b: "low_base 1" "low_base 3" "low_base 5" "lba_ok 200" "lba_ok 210" "lba_ok 220" by (simp_all add: low_base_def lba_ok_def)
  let ?n = "\<lambda>lba. if valid_bbx (sector_of img lba) then 1 else 0 :: u8"
  define n1 where "n1 = ?n 200"
  define n2 where "n2 = n1 + ?n 210"
  define n3 where "n3 = n2 + ?n 220"
  note ns = n1_def n2_def n3_def
  have lt: "n1 < 4" "n2 < 4" by (simp_all add: ns split: if_split)
  let ?i = "(mach k)\<lparr>mmu := (mmu (mach k))\<lparr>ppn := (\<lambda>v. v)\<rparr>\<rparr>"
  obtain m1 m2 ok where m2: "block_read 0 block_buf (ident_ppn 0 (mem_write 0x00FF (hi8 h) (mem_write 0x00FE (lo8 h) (mach k)))) = Some (0, m1)"
      "boot_signature m1 = (ok, m2)" "env m2 = env ?i"
    using boot_prologue [OF assms(1,3), of h] by blast
  have k2: "kmode m2" "disk_img m2 = Some img" using m2(3) assms(1,3) by (simp_all add: env_simps)
  obtain m3 where m3: "k_print_lit (signature_text ok) m2 = Some m3" "env m3 = env (emit (map of_char (signature_text ok)) m2)"
    using k_print_lit_env [OF k2(1)] by blast
  have k3: "kmode m3" "disk_img m3 = Some img" using emit_kmode [OF m3(2)] k2 by auto
  obtain m4 where m4: "boot_load ''hello.c'' 200 1 1 (k\<lparr>mach := m3\<rparr>) = Some (k\<lparr>mach := m4, nprocs := n1\<rparr>)"
      "kmode m4" "disk_img m4 = Some img"
    using boot_load_any [of "k\<lparr>mach := m3\<rparr>" img 200 1 "''hello.c''"] k3 assms(2) b by (auto simp: n1_def)
  obtain m5 where m5: "boot_load ''hello2.c'' 210 1 3 (k\<lparr>mach := m4, nprocs := n1\<rparr>)
        = Some (k\<lparr>mach := m5, nprocs := n2\<rparr>)" "kmode m5" "disk_img m5 = Some img"
    using boot_load_any [of "k\<lparr>mach := m4, nprocs := n1\<rparr>" img 210 3 "''hello2.c''"] m4 b lt(1) by (auto simp: n2_def)
  obtain m6 where m6: "boot_load ''disktest.c'' 220 1 5 (k\<lparr>mach := m5, nprocs := n2\<rparr>)
        = Some (k\<lparr>mach := m6, nprocs := n3\<rparr>)" "kmode m6"
    using boot_load_any [of "k\<lparr>mach := m5, nprocs := n2\<rparr>" img 220 5 "''disktest.c''"] m5 b lt(2) by (auto simp: n3_def)
  obtain m7 where m7: "k_print_lit start_text m6 = Some m7" "env m7 = env (emit (map of_char start_text) m6)"
    using k_print_lit_env [OF m6(2)] by blast
  let ?k7 = "k\<lparr>mach := m7, nprocs := n3\<rparr>"
  have "kmode (mach ?k7)" using emit_kmode [OF m7(2)] m6(2) by simp
  from sched_start_spec [OF this refl] obtain cpu m8 sp
    where ss: "sched_start ?k7 = (cpu, ?k7\<lparr>mach := m8, plist_idx := 0, SP := sp\<rparr>)" by blast
  have e: "k\<lparr>nprocs := n3, mach := m7\<rparr> = ?k7" by simp
  have "kmain h k = Some (Started cpu (?k7\<lparr>mach := m8, plist_idx := 0, SP := sp\<rparr>))"
    unfolding kmain_def Let_def m2(1) by (simp add: m2(2) m3(1) m4(1) m5(1) m6(1) m7(1) ss [folded e])
  then show ?thesis by (intro exI [of _ cpu] exI conjI) (auto simp: ns)
qed

section \<open>Properties\<close>

text \<open>
  C3: the machine starts. With a disk whose sectors 200, 210 and 220 hold valid programs, \<open>main\<close>
  hands the CPU to the first one in user mode, at the entry point of its header and with an empty
  stack. The BRK vector holds the handler; the scheduler's invariant holds with three processes;
  each process has its program at \<open>$1000\<close> of its own address space and the frame for its first
  switch; the MMU shows the CPU the first program; and the console has shown the start messages.
\<close>

theorem boot_starts_programs:
  assumes "kmode (mach k)" "nprocs k = 0" "disk_img (mach k) = Some img"
    "\<forall>lba \<in> {200, 210, 220}. valid_bbx (sector_of img lba)"
  shows "\<exists>k'. kmain h k = Some (Started (0x20, le16 (sector_of img 200 ! 4) (sector_of img 200 ! 5)) k') \<and>
    \<not> kmode (mach k') \<and> SP k' = 0xFF \<and> nprocs k' = 3 \<and> plist_idx k' = 0 \<and> sched_inv k' \<and>
    ram (mach k') 0x00FE = lo8 h \<and> ram (mach k') 0x00FF = hi8 h \<and>
    loaded (ram (mach k')) 0 (sector_of img 200) 1 \<and> loaded (ram (mach k')) 1 (sector_of img 210) 3 \<and>
    loaded (ram (mach k')) 2 (sector_of img 220) 5 \<and>
    (\<forall>j < 512. ram (mach k') (ram_addr (mmu (mach k')) (word_of_nat (0x1000 + j))) = sector_of img 200 ! j) \<and>
    acia_out (mach k') = acia_out (mach k) @ map of_char (boot_text img) \<and>
    gpu_out (mach k') = gpu_out (mach k) @ map of_char (boot_text img)"
proof -
  let ?s = "sector_of img 200"
  obtain m' where m': "kmain h k = Some (Started (0x20, le16 (?s ! 4) (?s ! 5)) (k\<lparr>mach := m', nprocs := 3, plist_idx := 0, SP := 0xFF\<rparr>))"
      "booted img h (ram (mach k)) (ram m')" "\<not> kmode m'" "ppn (mmu m') = p_tab (saved (ram m') 0)" "u_bits (mmu m') = 0xFFFFFFFF"
      "acia_out m' = acia_out (mach k) @ map of_char (boot_text img)" "gpu_out m' = gpu_out (mach k) @ map of_char (boot_text img)"
    using kmain_ok [OF assms(1-3), of h] assms(4) by auto
  note bp = booted_programs [OF m'(2) refl refl]
  have t: "peek (pent 0 + 14) 32 (ram m') = table 1" using bp(1) by (simp add: loaded_def)
  have bl: "blit 0x00FE [x, y] r 0x00FE = x" "blit 0x00FE [x, y] r 0x00FF = y" for x y and r :: "15 word \<Rightarrow> u8"
    by (simp_all add: blit_def)
  have v: "ram m' 0x00FE = lo8 h" "ram m' 0x00FF = hi8 h"
    using bp(8) [of "0xFE"] bp(8) [of "0xFF"] by (simp_all add: bl kscratch_def)
  have hw: "ram m' (ram_addr (mmu m') (word_of_nat (0x1000 + j))) = ?s ! j" if "j < 512" for j
    using hw_phys [of "mmu m'" "ram m'" 0 1 "0x1000 + j"] m'(3,4) t user_byte_at [OF t, of "0x1000 + j"] bp(1) that
    by (simp add: loaded_def kmode_def)
  show ?thesis
    using m' bp(1-4) hw v
    by (intro exI [of _ "k\<lparr>mach := m', nprocs := 3, plist_idx := 0, SP := 0xFF\<rparr>"]) (simp add: sched_inv_def)
qed


text \<open>A disk image with a minimal program in each of the three places.\<close>

definition demo_image :: "u8 list" where
  "demo_image = replicate (200 * 512) 0 @ demo_bbx @ replicate (10 * 512 - 7) 0 @ demo_bbx @ replicate (10 * 512 - 7) 0 @ demo_bbx"

lemma demo_image_at:
  assumes "i < 7" "j < 3"
  shows "sector_of demo_image (200 + 10 * word_of_nat j) ! i = demo_bbx ! i"
proof -
  have l: "length demo_bbx = 7" by (simp add: demo_bbx_def)
  have "j = 0 \<or> j = 1 \<or> j = 2" using assms(2) by linarith
  then show ?thesis
    using assms(1) by (elim disjE) (simp_all add: sector_of_byte_at byte_at_def demo_image_def nth_append l)
qed

theorem boot_starts_programs_witness:
  "\<exists>k'. kmain 0x0300 (demo_kern (Some demo_image) 0) = Some (Started (0x20, 0x1006) k') \<and> nprocs k' = 3 \<and> sched_inv k' \<and>
     ram (mach k') 0x00FF = 0x03"
proof -
  have s: "sector_of demo_image lba ! i = demo_bbx ! i" if "i < 7" "lba \<in> {200, 210, 220}" for lba i
    using demo_image_at [OF that(1), of 0] demo_image_at [OF that(1), of 1] demo_image_at [OF that(1), of 2] that(2) by auto
  then have v: "\<forall>lba \<in> {200, 210, 220}. valid_bbx (sector_of demo_image lba)"
    by (simp add: valid_bbx_def) (simp add: demo_bbx_def)
  have e: "le16 (sector_of demo_image 200 ! 4) (sector_of demo_image 200 ! 5) = 0x1006"
    using s [of 4 200] s [of 5 200] by (simp add: demo_bbx_def le16_def)
  have h: "hi8 0x0300 = 0x03" by code_simp
  show ?thesis
    using boot_starts_programs [of "demo_kern (Some demo_image) 0" demo_image "0x0300", OF _ _ _ v] by (auto simp: e h)
qed



text \<open>
  C21: the start has no third outcome. For every disk and every timing, \<open>main\<close> either hangs after
  printing that the boot sector cannot be read, which it does exactly if there is no disk, or
  reaches the scheduler with as many processes as there are valid programs on the disk. It does so
  also with none, where the CPU continues with an entry of the process table nothing has filled.
\<close>

theorem boot_total:
  assumes "kmode (mach k)" "nprocs k = 0"
  shows "case disk_img (mach k) of
      None \<Rightarrow> (\<exists>m. kmain h k = Some (Hung m) \<and> acia_out m = acia_out (mach k) @ map of_char ''block_read ERROR'')
    | Some img \<Rightarrow> (\<exists>cpu k'. kmain h k = Some (Started cpu k') \<and>
        nprocs k' = word_of_nat (length (filter (\<lambda>lba. valid_bbx (sector_of img lba)) [200, 210, 220])))"
  using kmain_no_disk [OF assms(1)] kmain_any_disk [OF assms] by (simp split: option.split)

theorem boot_total_witness:
  "(\<exists>m. kmain 0x0300 (demo_kern None 0) = Some (Hung m) \<and> acia_out m = map of_char ''block_read ERROR'') \<and>
   (\<exists>cpu k'. kmain 0x0300 (demo_kern (Some []) 0) = Some (Started cpu k') \<and> nprocs k' = 0)"
proof -
  have "acia_out (mach (demo_kern None 0)) = []" by (simp add: demo_kern_def)
  then show ?thesis
    using boot_total [of "demo_kern None 0" "0x0300"] boot_total [of "demo_kern (Some []) 0" "0x0300"]
    by (simp add: valid_bbx_def sector_of_def)
qed

end
