(* ===== verification/Userlib.thy ===== *)
theory Userlib
  imports Syscalls Kmain
begin

text \<open>
  The system-call stubs of user programs, \<^verbatim>\<open>sw/prog/src/syslib.s\<close>: each stores its arguments in the
  program's zero page, saves A, X and Y on the program's stack, executes BRK followed by the number of
  the call, and restores the registers when the kernel returns. All of it runs in user mode, through
  the MMU. Where the linker puts the stubs, and what the compiled code has in the registers that are
  not arguments, are the fields of a \<open>link\<close>. The compiler's own temporaries (its zero-page variables,
  its argument stack, the return addresses of JSR) are not modelled.
\<close>

section \<open>The stubs\<close>

definition SYS_EXIT :: u8 where "SYS_EXIT = 1"
definition SYS_PUTC :: u8 where "SYS_PUTC = 2"
definition SYS_GETC :: u8 where "SYS_GETC = 3"
definition SYS_PUTS :: u8 where "SYS_PUTS = 4"
definition SYS_BLOCK_READ :: u8 where "SYS_BLOCK_READ = 5"
definition SYS_BLOCK_WRITE :: u8 where "SYS_BLOCK_WRITE = 6"
definition SYS_YIELD :: u8 where "SYS_YIELD = 0"

lemmas sys_numbers = SYS_EXIT_def SYS_PUTC_def SYS_GETC_def SYS_PUTS_def SYS_BLOCK_READ_def SYS_BLOCK_WRITE_def SYS_YIELD_def

text \<open>
  The addresses of the BRK instructions and of the C stack's pointer, the registers A, X, Y and the status
  at a call.
\<close>

record link =
  at_exit :: u16
  at_yield :: u16
  at_putc :: u16
  at_getc :: u16
  at_puts :: u16
  at_block_read :: u16
  at_block_write :: u16
  c_sp :: u8
  regs :: "kern \<Rightarrow> u8 \<times> u8 \<times> u8"
  flags :: "kern \<Rightarrow> u8"

definition sta :: "u8 \<Rightarrow> u8 \<Rightarrow> kern \<Rightarrow> kern" where
  "sta zp v k = k\<lparr>mach := mem_write (ucast zp) v (mach k)\<rparr>"

definition load :: "u16 \<Rightarrow> kern \<Rightarrow> u8 \<times> kern" where
  "load va k = (case mem_read va (mach k) of (v, m) \<Rightarrow> (v, k\<lparr>mach := m\<rparr>))"

definition lda :: "u8 \<Rightarrow> kern \<Rightarrow> u8 \<times> kern" where
  "lda zp = load (ucast zp)"

text \<open>\<open>pha\<close>, \<open>phx\<close>, \<open>phy\<close>, \<open>brk\<close>: what the CPU continues with, and \<open>ply\<close>, \<open>plx\<close>, \<open>pla\<close>.\<close>

definition enter :: "link \<Rightarrow> u16 \<Rightarrow> u8 \<times> u8 \<times> u8 \<Rightarrow> kern \<Rightarrow> ((u8 \<times> u16) \<times> kern) option" where
  "enter L pc r k =
     (case r of (a, x, y) \<Rightarrow> let k = push y (push x (push a k)) in brk_handler (brk pc (flags L k) k))"

definition leave :: "kern \<Rightarrow> kern" where
  "leave k = (case pull k of (y, k) \<Rightarrow> case pull k of (x, k) \<Rightarrow> case pull k of (a, k) \<Rightarrow> k)"

text \<open>A call that the kernel returns from in the same process.\<close>

definition call :: "link \<Rightarrow> u16 \<Rightarrow> u8 \<times> u8 \<times> u8 \<Rightarrow> kern \<Rightarrow> kern option" where
  "call L pc r k = do {
     (cpu, k) \<leftarrow> enter L pc r k;
     if snd cpu = pc + 2 then Some (leave k) else None }"

definition sys_exit :: "link \<Rightarrow> u8 \<Rightarrow> kern \<Rightarrow> kern option" where
  "sys_exit L code k =
     (let k = sta OFF_A_REG code k in
      case regs L k of (_, x, y) \<Rightarrow> do {
        (cpu, k) \<leftarrow> enter L (at_exit L) (code, x, y) k;
        m \<leftarrow> spin (mach k);
        Some (k\<lparr>mach := m\<rparr>) })"

definition sys_yield :: "link \<Rightarrow> kern \<Rightarrow> ((u8 \<times> u16) \<times> kern) option" where
  "sys_yield L k = enter L (at_yield L) (regs L k) k"

definition sys_putc :: "link \<Rightarrow> u8 \<Rightarrow> kern \<Rightarrow> kern option" where
  "sys_putc L c k =
     (let k = sta OFF_A_REG c k in case regs L k of (_, x, y) \<Rightarrow> call L (at_putc L) (c, x, y) k)"

definition sys_getc :: "link \<Rightarrow> kern \<Rightarrow> (u8 \<times> kern) option" where
  "sys_getc L k = do { k \<leftarrow> call L (at_getc L) (regs L k) k; Some (lda OFF_A_REG k) }"

definition sys_puts :: "link \<Rightarrow> u16 \<Rightarrow> kern \<Rightarrow> kern option" where
  "sys_puts L s k =
     (let k = sta OFF_ARG0_HI (hi8 s) (sta OFF_ARG0_LO (lo8 s) k) in
      case regs L k of (_, _, y) \<Rightarrow> call L (at_puts L) (lo8 s, hi8 s, y) k)"

definition sys_block :: "link \<Rightarrow> u16 \<Rightarrow> u16 \<Rightarrow> u16 \<Rightarrow> kern \<Rightarrow> (u8 \<times> kern) option" where
  "sys_block L pc lba buf k =
     (let k = sta OFF_ARG1_HI (hi8 buf) (sta OFF_ARG1_LO (lo8 buf) k);
          k = sta OFF_ARG0_HI (hi8 lba) (sta OFF_ARG0_LO (lo8 lba) k) in
      case regs L k of (_, _, y) \<Rightarrow> do {
        k \<leftarrow> call L pc (lo8 lba, hi8 lba, y) k;
        Some (lda OFF_RET k) })"

definition sys_block_read :: "link \<Rightarrow> u16 \<Rightarrow> u16 \<Rightarrow> kern \<Rightarrow> (u8 \<times> kern) option" where
  "sys_block_read L = sys_block L (at_block_read L)"

definition sys_block_write :: "link \<Rightarrow> u16 \<Rightarrow> u16 \<Rightarrow> kern \<Rightarrow> (u8 \<times> kern) option" where
  "sys_block_write L = sys_block L (at_block_write L)"

section \<open>User-mode accesses\<close>

text \<open>User mode with every page opened, as \<open>sched_start\<close> leaves it.\<close>

definition open_user :: "machine \<Rightarrow> bool" where
  "open_user m \<longleftrightarrow> \<not> kmode m \<and> u_bits (mmu m) = 0xFFFFFFFF \<and> w_bits (mmu m) = 0xFFFFFFFF"

lemma open_user_env: "env m' = env m \<Longrightarrow> open_user m \<Longrightarrow> open_user m'"
  by (simp add: env_iff open_user_def kmode_def)

lemma all_open: "bit (0xFFFFFFFF :: u32) (unat (v :: 5 word))"
proof -
  have "(0xFFFFFFFF :: u32) = mask 32" by (simp add: mask_eq_exp_minus_1)
  then show ?thesis using unat_lt_2p [of v] by (simp only: bit_mask_iff) simp
qed

lemma usr_negedge:
  assumes "open_user m" "a < 0x8000"
  shows "mmu_negedge True rwb True a d (mmu m) = (mmu m)\<lparr>fault_reg := False\<rparr>"
proof -
  have "\<not> fault_any (mmu m) rwb a"
    using assms all_open by (simp add: open_user_def fault_any_def fault_u_def fault_w_def fault_ctrl_def)
  then show ?thesis using assms(2) by (simp add: mmu_negedge_def)
qed

lemma usr_ram_addr:
  "open_user m \<Longrightarrow> ram_addr (mmu m) a = word_of_nat (upn m a)"
  "open_user m \<Longrightarrow> ram_addr ((mmu m)\<lparr>fault_reg := f\<rparr>) a = word_of_nat (upn m a)"
  by (simp_all add: ram_addr_def upn_def open_user_def kmode_def)

lemma usr_read:
  assumes "open_user m" "a < 0x8000"
  shows "\<exists>m'. bus_cycle True False a 0 m = (ram m (word_of_nat (upn m a)), m') \<and> ram m' = ram m \<and> env m' = env m"
proof -
  let ?m1 = "m\<lparr>mmu := (mmu m)\<lparr>fault_reg := False\<rparr>\<rparr>"
  have "read_mux a ?m1 = ram m (word_of_nat (upn m a))"
    using assms by (simp add: read_mux_def usr_ram_addr)
  moreover have "env ?m1 = env m" by (simp add: env_def)
  ultimately show ?thesis using posedge_read [of a 0 ?m1] by (simp add: bus_cycle_def usr_negedge assms)
qed

lemma usr_write:
  assumes "open_user m" "a < 0x8000"
  shows "ram (snd (bus_cycle True True a d m)) = blit (upn m a) [d] (ram m) \<and> env (snd (bus_cycle True True a d m)) = env m"
proof -
  let ?m1 = "m\<lparr>mmu := (mmu m)\<lparr>fault_reg := False\<rparr>\<rparr>"
  have ra: "ram_access a" using assms(2) by (simp add: ram_access_iff)
  have c: "core (posedge True a d ?m1) = (core ?m1)\<lparr>ram := (ram m)(word_of_nat (upn m a) := d)\<rparr>"
    unfolding wr_spec_env [OF ra] write_block_def using assms by (simp add: usr_ram_addr)
  have "env ?m1 = env m" by (simp add: env_def)
  then show ?thesis
    using core_env [OF c] by (simp add: bus_cycle_def Let_def usr_negedge assms fun_upd_blit [OF upn_lt])
qed

lemma usr_idles:
  assumes "open_user m"
  shows "ram (idles m) = ram m \<and> env (idles m) = env m"
proof -
  have "ram ((idle ^^ n) m) = ram m \<and> env ((idle ^^ n) m) = env m" for n
  proof (induction n)
    case (Suc n)
    then have "open_user ((idle ^^ n) m)" using open_user_env assms by blast
    from usr_read [OF this, of 0] obtain m' where
      "bus_cycle True False 0 0 ((idle ^^ n) m) = (ram ((idle ^^ n) m) (word_of_nat (upn ((idle ^^ n) m) 0)), m')"
      "ram m' = ram ((idle ^^ n) m)" "env m' = env ((idle ^^ n) m)" by auto
    then show ?case using Suc by (simp add: idle_def [of "(idle ^^ n) m"])
  qed simp
  then show ?thesis by (simp add: idles_def env_def)
qed

lemma usr_mem_write:
  assumes "open_user m" "a < 0x8000"
  shows "ram (mem_write a d m) = blit (upn m a) [d] (ram m)" "env (mem_write a d m) = env m"
proof -
  have i: "ram (idles m) = ram m" "env (idles m) = env m" using usr_idles [OF assms(1)] by simp_all
  have o: "open_user (idles m)" by (rule open_user_env [OF i(2) assms(1)])
  show "ram (mem_write a d m) = blit (upn m a) [d] (ram m)" "env (mem_write a d m) = env m"
    using usr_write [OF o assms(2), of d] i upn_env [OF i(2)] by (simp_all add: mem_write_def)
qed

lemma usr_mem_read:
  assumes "open_user m" "a < 0x8000"
  shows "\<exists>m'. mem_read a m = (ram m (word_of_nat (upn m a)), m') \<and> ram m' = ram m \<and> env m' = env m"
proof -
  have i: "ram (idles m) = ram m" "env (idles m) = env m" using usr_idles [OF assms(1)] by simp_all
  have o: "open_user (idles m)" by (rule open_user_env [OF i(2) assms(1)])
  show ?thesis using usr_read [OF o assms(2)] i upn_env [OF i(2)] by (simp add: mem_read_def)
qed


section \<open>The program's own page\<close>

text \<open>
  Physical address of the program's zero page; \<open>own k n\<close>: what a call may change, besides what the
  kernel's assembly code writes for itself, is the zero page and the stack up to the stack pointer.
\<close>

definition page0 :: "kern \<Rightarrow> nat" where
  "page0 k = unat (ppn (mmu (mach k)) 0) * 1024"

definition in_stack :: "kern \<Rightarrow> nat \<Rightarrow> bool" where
  "in_stack k n \<longleftrightarrow> page0 k + 256 \<le> n \<and> n \<le> page0 k + 256 + unat (SP k)"

definition own :: "kern \<Rightarrow> nat \<Rightarrow> bool" where
  "own k n \<longleftrightarrow> kscratch n \<or> (page0 k \<le> n \<and> n < page0 k + 256) \<or> in_stack k n"

text \<open>A program ready to make a call: user mode, not in the kernel's page, room for the two frames.\<close>

definition ready :: "kern \<Rightarrow> bool" where
  "ready k \<longleftrightarrow> open_user (mach k) \<and> ppn (mmu (mach k)) 0 \<noteq> 0 \<and> 8 \<le> unat (SP k)"

lemma ready_page:
  assumes "ready k"
  shows "1024 \<le> page0 k" "page0 k + 512 \<le> 32768"
  using stack_page_bounds [of "ppn (mmu (mach k)) 0"] assms by (simp_all add: ready_def page0_def)

lemma own_bound: "ready k \<Longrightarrow> own k n \<Longrightarrow> n < 32768"
  using ready_page [of k] unat_u8_lt [of "SP k"] kscratch_low [of n] by (auto simp: own_def in_stack_def)

lemma slot_page0: "slot (mach k) off = page0 k + unat off"
  by (simp add: slot_def page0_def)

lemma own_slot: "own k (slot (mach k) off)"
  using unat_u8_lt [of off] by (simp add: own_def slot_page0)

text \<open>The three pushes.\<close>

lemma push_open:
  assumes "open_user (mach k)"
  shows "\<exists>m'. push v k = k\<lparr>mach := m', SP := SP k - 1\<rparr> \<and>
    ram m' = blit (page0 k + 256 + unat (SP k)) [v] (ram (mach k)) \<and> env m' = env (mach k)"
  using push_user [of k "page0 k + 256" v] assms by (simp add: open_user_def page0_def)

lemma sp_minus: "n \<le> unat (sp :: u8) \<Longrightarrow> unat (sp - word_of_nat n) = unat sp - n"
  using unat_u8_lt [of sp] by (simp add: unat_sub word_le_nat_alt unat_of_nat)

lemma push3:
  assumes "open_user (mach k)" "8 \<le> unat (SP k)"
  shows "\<exists>m'. push y (push x (push a k)) = k\<lparr>mach := m', SP := SP k - 3\<rparr> \<and> env m' = env (mach k) \<and>
    same_except (in_stack k) (ram (mach k)) (ram m')"
proof -
  have sp: "unat (SP k - 1) = unat (SP k) - 1" "unat (SP k - 2) = unat (SP k) - 2"
    using sp_minus [of 1 "SP k"] sp_minus [of 2 "SP k"] assms(2) by simp_all
  obtain m1 where m1: "push a k = k\<lparr>mach := m1, SP := SP k - 1\<rparr>"
      "ram m1 = blit (page0 k + 256 + unat (SP k)) [a] (ram (mach k))" "env m1 = env (mach k)"
    using push_open [OF assms(1)] by blast
  let ?k1 = "k\<lparr>mach := m1, SP := SP k - 1\<rparr>"
  have p1: "open_user (mach ?k1)" "page0 ?k1 = page0 k"
    using open_user_env [OF m1(3) assms(1)] m1(3) by (simp_all add: page0_def env_iff)
  obtain m2 where m2: "push x ?k1 = ?k1\<lparr>mach := m2, SP := SP k - 2\<rparr>"
      "ram m2 = blit (page0 k + 256 + unat (SP k - 1)) [x] (ram m1)" "env m2 = env (mach k)"
    using push_open [OF p1(1), of x] p1(2) m1(3) by (auto simp: diff_diff_eq)
  let ?k2 = "?k1\<lparr>mach := m2, SP := SP k - 2\<rparr>"
  have p2: "open_user (mach ?k2)" "page0 ?k2 = page0 k"
    using open_user_env [OF m2(3) assms(1)] m2(3) by (simp_all add: page0_def env_iff)
  obtain m3 where m3: "push y ?k2 = ?k2\<lparr>mach := m3, SP := SP k - 3\<rparr>"
      "ram m3 = blit (page0 k + 256 + unat (SP k - 2)) [y] (ram m2)" "env m3 = env (mach k)"
    using push_open [OF p2(1), of y] p2(2) m2(3) by (auto simp: diff_diff_eq)
  have "same_except (in_stack k) (ram (mach k)) (ram m3)"
    unfolding m3(2) m2(2) m1(2) sp
    by (intro same_except_blit same_except_refl) (auto simp: in_stack_def)
  then show ?thesis using m1(1) m2(1) m3 by (intro exI [of _ m3]) simp
qed

lemma pull_open:
  assumes "open_user (mach k)"
  shows "\<exists>v m'. pull k = (v, k\<lparr>mach := m', SP := SP k + 1\<rparr>) \<and> ram m' = ram (mach k) \<and> env m' = env (mach k)"
  using pull_user [of k] assms by (auto simp: open_user_def)

lemma leave_open:
  assumes "open_user (mach k)"
  shows "\<exists>m'. leave k = k\<lparr>mach := m', SP := SP k + 3\<rparr> \<and> ram m' = ram (mach k) \<and> env m' = env (mach k)"
proof -
  obtain y m1 where m1: "pull k = (y, k\<lparr>mach := m1, SP := SP k + 1\<rparr>)" "ram m1 = ram (mach k)" "env m1 = env (mach k)"
    using pull_open [OF assms] by blast
  let ?k1 = "k\<lparr>mach := m1, SP := SP k + 1\<rparr>"
  obtain x m2 where m2: "pull ?k1 = (x, ?k1\<lparr>mach := m2, SP := SP k + 2\<rparr>)" "ram m2 = ram (mach k)" "env m2 = env (mach k)"
    using pull_open [of ?k1] open_user_env [OF m1(3) assms] m1 by (auto simp: add.assoc)
  let ?k2 = "?k1\<lparr>mach := m2, SP := SP k + 2\<rparr>"
  obtain a m3 where m3: "pull ?k2 = (a, ?k2\<lparr>mach := m3, SP := SP k + 3\<rparr>)" "ram m3 = ram (mach k)" "env m3 = env (mach k)"
    using pull_open [of ?k2] open_user_env [OF m2(3) assms] m2 by (auto simp: add.assoc)
  show ?thesis using m1(1) m2(1) m3 by (intro exI [of _ m3]) (simp add: leave_def)
qed

text \<open>A BRK followed by the number \<open>n\<close>, in the program's image.\<close>

definition brk_at :: "kern \<Rightarrow> u16 \<Rightarrow> u8 \<Rightarrow> bool" where
  "brk_at k pc n \<longleftrightarrow> page0 k + 512 \<le> upn (mach k) (pc + 1) \<and> ram (mach k) (word_of_nat (upn (mach k) (pc + 1))) = n"

lemma not_own: "page0 k + 512 \<le> n \<Longrightarrow> ready k \<Longrightarrow> \<not> own k n"
  using ready_page [of k] unat_u8_lt [of "SP k"] kscratch_low [of n] by (auto simp: own_def in_stack_def)

lemma env_user_kernel: "open_user m \<Longrightarrow> env (to_user m) = env m" "env (to_user (to_kernel m)) = env (to_user m)"
  by (simp_all add: env_iff to_user_def to_kernel_def open_user_def kmode_def)


text \<open>
  A call from the stub to its end, for a dispatcher whose effect on RAM is \<open>f\<close>, which leaves the
  stack alone, and on the environment that of \<open>e\<close>.
\<close>

lemma call_ok:
  assumes "ready k" "brk_at k pc n" "n \<noteq> 0" "open_user e" "ppn (mmu e) = ppn (mmu (mach k))"
    and call: "\<And>m2. \<lbrakk>kmode m2; same_except (\<lambda>n. kscratch n \<or> in_stack k n) (ram (mach k)) (ram m2); ram m2 0x32 = n;
        env m2 = env (to_kernel (mach k))\<rbrakk> \<Longrightarrow>
      \<exists>m4. syscall_dispatch m2 = Some m4 \<and> ram m4 = f (ram m2) \<and> env m4 = env (to_kernel e)"
    and stk: "\<And>r i. page0 k + 256 \<le> i \<and> i < page0 k + 512 \<or> 0x100 \<le> i \<and> i < 0x200 \<Longrightarrow> f r (word_of_nat i) = r (word_of_nat i)"
  shows "\<exists>m' r. call L pc rs k = Some (k\<lparr>mach := m'\<rparr>) \<and> ram m' = f r \<and> env m' = env e \<and>
    same_except (\<lambda>n. kscratch n \<or> in_stack k n) (ram (mach k)) r"
proof -
  let ?S = "\<lambda>n. kscratch n \<or> in_stack k n"
  have o: "open_user (mach k)" "8 \<le> unat (SP k)" using assms(1) by (auto simp: ready_def)
  note pg = ready_page [OF assms(1)]
  obtain a x y where rs: "rs = (a, x, y)" by (cases rs)
  obtain m1 where m1: "push y (push x (push a k)) = k\<lparr>mach := m1, SP := SP k - 3\<rparr>" "env m1 = env (mach k)"
      "same_except (in_stack k) (ram (mach k)) (ram m1)"
    using push3 [OF o] by blast
  let ?k1 = "k\<lparr>mach := m1, SP := SP k - 3\<rparr>"
  let ?st = "flags L ?k1" and ?p = "page0 k + 256"
  let ?r1 = "brk_ram ?p (SP k - 3) pc ?st (ram m1)"
  have o1: "open_user m1" and t1: "ppn (mmu m1) = ppn (mmu (mach k))"
    using open_user_env [OF m1(2) o(1)] m1(2) by (simp_all add: env_iff)
  have u: "unat (SP k - 3) = unat (SP k) - 3" "unat (SP k - 3 - 1) = unat (SP k) - 4" "unat (SP k - 3 - 2) = unat (SP k) - 5"
    using sp_minus [of 3 "SP k"] sp_minus [of 4 "SP k"] sp_minus [of 5 "SP k"] o(2) by (simp_all add: diff_diff_eq)
  have r1: "same_except (in_stack k) (ram (mach k)) ?r1"
    unfolding brk_ram_def u by (intro same_except_blit m1(3)) (auto simp: in_stack_def)
  then have s1: "same_except ?S (ram (mach k)) ?r1" by (rule same_except_mono) simp
  have up: "upn m1 va = upn (mach k) va" for va by (simp add: upn_eq t1)
  have "\<not> in_stack k (upn (mach k) (pc + 1))" "upn (mach k) (pc + 1) < 32768"
    using assms(2) unat_u8_lt [of "SP k"] upn_lt by (auto simp: brk_at_def in_stack_def)
  then have n: "?r1 (word_of_nat (upn (mach ?k1) (pc + 1))) = n"
    using same_exceptD [OF r1] assms(2) up by (simp add: brk_at_def)
  have z: "\<not> kptr (upn (mach ?k1) (pc + 1))"
    using kptr_low(1) [of "upn (mach k) (pc + 1)"] assms(2) up by (auto simp: brk_at_def)
  have r1_eq: "?r1 = brk_ram ?p (SP ?k1) pc ?st (ram (mach ?k1))" by simp
  have h: "\<not> kmode (mach ?k1)" "bit (u_bits (mmu (mach ?k1))) 0" "bit (w_bits (mmu (mach ?k1))) 0" "3 \<le> unat (SP ?k1)"
    using o1 o(2) u by (simp_all add: open_user_def)
  have p: "?p = unat (ppn (mmu (mach ?k1)) 0) * 1024 + 256" "ppn (mmu (mach ?k1)) 0 \<noteq> 0"
    using assms(1) by (simp_all add: page0_def t1 ready_def)
  have call': "\<exists>m4. syscall_dispatch m2 = Some m4 \<and> ram m4 = f (ram m2) \<and> env m4 = env (to_kernel e)"
    if h: "kmode m2" "same_except kscratch ?r1 (ram m2)" "ram m2 0x32 = n" "env m2 = env (to_kernel (mach ?k1))" for m2
  proof -
    have "same_except ?S (ram (mach k)) (ram m2)"
      by (rule same_except_trans [OF s1 same_except_mono [OF h(2)]]) simp
    moreover have "env m2 = env (to_kernel (mach k))" using h(4) m1(2) by (simp add: env_iff to_kernel_def)
    ultimately show ?thesis using call h(1,3) by blast
  qed
  have fr: "f r (word_of_nat i) = r (word_of_nat i)" if "?p \<le> i \<and> i < ?p + 256 \<or> 0x100 \<le> i \<and> i < 0x200" for r i
    using stk [of i r] that by auto
  have te: "ppn (mmu e) = ppn (mmu (mach ?k1))" "u_bits (mmu e) = u_bits (mmu (mach ?k1))"
    using assms(4,5) t1 o1 by (simp_all add: open_user_def)
  obtain m5 r where m5: "brk_handler (brk pc ?st ?k1) = Some ((?st OR 0x30, pc + 2), ?k1\<lparr>mach := m5\<rparr>)"
      "ram m5 = f r" "same_except kscratch ?r1 r" "env m5 = env (to_user e)"
    using brk_call [OF h p(1) r1_eq n z assms(3) p(2) call' te fr] by blast
  have e5: "env m5 = env e" using m5(4) env_user_kernel(1) [OF assms(4)] by simp
  have o5: "open_user (mach (?k1\<lparr>mach := m5\<rparr>))" using open_user_env [OF e5 assms(4)] by simp
  obtain m6 where m6: "leave (?k1\<lparr>mach := m5\<rparr>) = ?k1\<lparr>mach := m6, SP := SP k\<rparr>" "ram m6 = ram m5" "env m6 = env m5"
    using leave_open [OF o5] by auto
  have "leave (k\<lparr>SP := SP k - 3, mach := m5\<rparr>) = k\<lparr>mach := m6\<rparr>" using m6(1) by simp
  then have "call L pc rs k = Some (k\<lparr>mach := m6\<rparr>)"
    by (simp add: call_def enter_def rs m1(1) Let_def m5(1))
  moreover have "same_except ?S (ram (mach k)) r"
    by (rule same_except_trans [OF s1 same_except_mono [OF m5(3)]]) simp
  ultimately show ?thesis using m6(2,3) m5(2) e5 by (intro exI [of _ m6] exI [of _ r]) simp
qed


text \<open>What a program sees of a call that shows \<open>bs\<close> on the consoles: nothing else outside its own page.\<close>

definition shown :: "kern \<Rightarrow> u8 list \<Rightarrow> kern \<Rightarrow> bool" where
  "shown k bs k' \<longleftrightarrow> (\<exists>m'. k' = k\<lparr>mach := m'\<rparr> \<and> env m' = env (emit bs (mach k)) \<and> same_except (own k) (ram (mach k)) (ram m'))"

lemma own_ppn: "ppn (mmu m') = ppn (mmu (mach k)) \<Longrightarrow> own (k\<lparr>mach := m'\<rparr>) = own k"
  by (simp add: own_def in_stack_def page0_def fun_eq_iff)

lemma shown_same: "shown k bs k' \<Longrightarrow> same_except (own k) (ram (mach k)) (ram (mach k'))"
  by (auto simp: shown_def)

lemma shown_env: "shown k bs k' \<Longrightarrow> env (mach k') = env (emit bs (mach k))"
  by (auto simp: shown_def)

lemma shown_fields: "shown k bs k' \<Longrightarrow> ppn (mmu (mach k')) = ppn (mmu (mach k)) \<and> SP k' = SP k \<and> own k' = own k \<and>
    nprocs k' = nprocs k \<and> plist_idx k' = plist_idx k"
  by (auto simp: shown_def env_iff own_ppn)

lemma shown_refl: "shown k [] k"
  unfolding shown_def by (intro exI [of _ "mach k"]) simp

lemma shown_trans:
  assumes "shown k bs k'" "shown k' cs k''"
  shows "shown k (bs @ cs) k''"
proof -
  obtain m' m'' where m: "k' = k\<lparr>mach := m'\<rparr>" "env m' = env (emit bs (mach k))" "same_except (own k) (ram (mach k)) (ram m')"
      "k'' = k'\<lparr>mach := m''\<rparr>" "env m'' = env (emit cs m')" "same_except (own k') (ram m') (ram m'')"
    using assms by (auto simp: shown_def)
  have "own k' = own k" using m(1,2) by (simp add: own_ppn env_iff)
  then show ?thesis
    using m same_except_trans [OF m(3)] emit_env2 [OF m(5,2)] unfolding shown_def by (intro exI [of _ m'']) simp
qed

lemma shown_ready: "shown k bs k' \<Longrightarrow> ready k \<Longrightarrow> ready k'"
  by (auto simp: shown_def ready_def open_user_def env_simps)

lemma shown_upn: "shown k bs k' \<Longrightarrow> upn (mach k') va = upn (mach k) va \<and> page0 k' = page0 k"
  using shown_fields [of k bs k'] by (simp add: upn_eq page0_def)

text \<open>Bytes of the image are read alike before and after.\<close>

lemma shown_byte:
  assumes "shown k bs k'" "ready k" "page0 k + 512 \<le> upn (mach k) va"
  shows "ram (mach k') (word_of_nat (upn (mach k) va)) = ram (mach k) (word_of_nat (upn (mach k) va))"
  by (rule same_exceptD [OF shown_same [OF assms(1)] not_own [OF assms(3,2)] upn_lt])

lemma shown_brk_at: "shown k bs k' \<Longrightarrow> ready k \<Longrightarrow> brk_at k pc n \<Longrightarrow> brk_at k' pc n"
  using shown_byte [of k bs k' "pc + 1"] shown_upn [of k bs k'] by (simp add: brk_at_def)


section \<open>What the stubs do\<close>

lemma sta_ok:
  assumes "ready k"
  shows "\<exists>m'. sta off v k = k\<lparr>mach := m'\<rparr> \<and> ram m' = blit (slot (mach k) off) [v] (ram (mach k)) \<and> shown k [] (k\<lparr>mach := m'\<rparr>)"
proof -
  let ?m = "mem_write (ucast off) v (mach k)"
  have a: "(ucast off :: u16) < 0x8000" using unat_u8_lt [of off] by (simp add: word_less_nat_alt unat_ucast_mod)
  have m: "ram ?m = blit (slot (mach k) off) [v] (ram (mach k))" "env ?m = env (mach k)"
    using usr_mem_write [OF _ a] assms by (simp_all add: ready_def slot_upn)
  have "same_except (own k) (ram (mach k)) (ram ?m)"
    unfolding m(1) by (intro same_except_blit same_except_refl) (simp add: own_slot)
  then show ?thesis using m unfolding shown_def by (intro exI [of _ ?m]) (auto simp: sta_def)
qed

lemma zp_kept:
  assumes "ready k" "same_except (\<lambda>n. kscratch n \<or> in_stack k n) (ram (mach k)) r"
  shows "r (word_of_nat (slot (mach k) off)) = ram (mach k) (word_of_nat (slot (mach k) off))"
  by (rule same_exceptD [OF assms(2) _ slot_lt])
    (use ready_page [OF assms(1)] unat_u8_lt [of off] kscratch_low [of "slot (mach k) off"] in \<open>auto simp: in_stack_def slot_page0\<close>)

text \<open>A call whose effect on RAM is within the zero page of the program.\<close>

lemma call_shown:
  assumes "ready k" "brk_at k pc n" "n \<noteq> 0"
    and call: "\<And>m2. \<lbrakk>kmode m2; ram m2 0x32 = n; env m2 = env (to_kernel (mach k));
        \<And>off. slot m2 off = slot (mach k) off; \<And>off. ram m2 (word_of_nat (slot (mach k) off)) = ram (mach k) (word_of_nat (slot (mach k) off));
        same_except (\<lambda>n. kscratch n \<or> in_stack k n) (ram (mach k)) (ram m2)\<rbrakk> \<Longrightarrow>
      \<exists>m4. syscall_dispatch m2 = Some m4 \<and> ram m4 = blit (slot (mach k) OFF_RET) [v] (ram m2) \<and> env m4 = env (emit bs m2)"
  shows "\<exists>k'. call L pc rs k = Some k' \<and> shown k bs k' \<and> ram (mach k') (word_of_nat (slot (mach k) OFF_RET)) = v"
proof -
  let ?e = "emit bs (mach k)" and ?f = "blit (slot (mach k) OFF_RET) [v]"
  have e: "open_user ?e" "ppn (mmu ?e) = ppn (mmu (mach k))" using assms(1) by (simp_all add: ready_def open_user_def)
  have c: "\<exists>m4. syscall_dispatch m2 = Some m4 \<and> ram m4 = ?f (ram m2) \<and> env m4 = env (to_kernel ?e)"
    if h: "kmode m2" "same_except (\<lambda>n. kscratch n \<or> in_stack k n) (ram (mach k)) (ram m2)" "ram m2 0x32 = n" "env m2 = env (to_kernel (mach k))" for m2
  proof -
    have "slot m2 off = slot (mach k) off" for off using h(4) by (simp add: env_iff to_kernel_def slot_def)
    moreover have "env (emit bs m2) = env (to_kernel ?e)" using h(4) by (simp add: env_simps to_kernel_def)
    ultimately show ?thesis using call [OF h(1,3,4) _ zp_kept [OF assms(1) h(2)] h(2)] by auto
  qed
  have f: "?f r (word_of_nat i) = r (word_of_nat i)" if "page0 k + 256 \<le> i \<and> i < page0 k + 512 \<or> 0x100 \<le> i \<and> i < 0x200" for r i
    using that ready_page [OF assms(1)] unat_u8_lt [of OFF_RET] by (intro blit_off) (auto simp: slot_page0)
  obtain m' r where m': "call L pc rs k = Some (k\<lparr>mach := m'\<rparr>)" "ram m' = ?f r" "env m' = env ?e"
      "same_except (\<lambda>n. kscratch n \<or> in_stack k n) (ram (mach k)) r"
    using call_ok [OF assms(1-3) e c f] by blast
  have "same_except (own k) (ram (mach k)) (ram m')"
    unfolding m'(2) by (intro same_except_blit same_except_mono [OF m'(4)]) (use own_slot [of k OFF_RET] in \<open>auto simp: own_def\<close>)
  then have "shown k bs (k\<lparr>mach := m'\<rparr>)" using m'(3) unfolding shown_def by blast
  moreover have "ram m' (word_of_nat (slot (mach k) OFF_RET)) = v" by (simp add: m'(2) blit_at slot_lt)
  ultimately show ?thesis using m'(1) by (intro exI [of _ "k\<lparr>mach := m'\<rparr>"]) simp
qed

lemma sys_putc_ok:
  assumes "ready k" "brk_at k (at_putc L) SYS_PUTC"
  shows "\<exists>k'. sys_putc L c k = Some k' \<and> shown k [c] k'"
proof -
  obtain m1 where m1: "sta OFF_A_REG c k = k\<lparr>mach := m1\<rparr>" "ram m1 = blit (slot (mach k) OFF_A_REG) [c] (ram (mach k))"
      "shown k [] (k\<lparr>mach := m1\<rparr>)"
    using sta_ok [OF assms(1)] by blast
  let ?k1 = "k\<lparr>mach := m1\<rparr>"
  have k1: "ready ?k1" "brk_at ?k1 (at_putc L) 2"
    using shown_ready [OF m1(3) assms(1)] shown_brk_at [OF m1(3) assms] by (simp_all add: SYS_PUTC_def)
  have sl: "slot m1 off = slot (mach k) off" for off using shown_fields [OF m1(3)] by (simp add: slot_def)
  have c: "ram m1 (word_of_nat (slot m1 OFF_A_REG)) = c" by (simp add: sl m1(2) blit_at slot_lt)
  obtain a x y where r: "regs L ?k1 = (a, x, y)" by (cases "regs L ?k1")
  have "\<exists>k'. call L (at_putc L) (c, x, y) ?k1 = Some k' \<and> shown ?k1 [c] k' \<and> ram (mach k') (word_of_nat (slot m1 OFF_RET)) = 0"
    by (rule call_shown [OF k1, simplified]) (use dispatch_putc c in \<open>fastforce simp: SYS_PUTC_def\<close>)
  then show ?thesis using shown_trans [OF m1(3)] r by (fastforce simp: sys_putc_def m1(1))
qed


text \<open>A string of the program's image.\<close>

definition text_at :: "kern \<Rightarrow> u16 \<Rightarrow> u8 list \<Rightarrow> bool" where
  "text_at k va bs \<longleftrightarrow> page0 k + 512 \<le> upn (mach k) va \<and> ucstr (mach k) va bs"

lemma ucstr_bytes:
  "ucstr m va bs \<longleftrightarrow> unat va mod 1024 + length bs < 1024 \<and> 0 \<notin> set bs \<and>
     (\<forall>i < length (bs @ [0]). ram m (word_of_nat (upn m va + i)) = (bs @ [0]) ! i)"
proof -
  have "upn m (va + word_of_nat i) = upn m va + i" if "unat va mod 1024 + length bs < 1024" "i \<le> length bs" for i
    by (rule upn_plus) (use that in simp)
  then show ?thesis unfolding ucstr_def by (auto simp: nth_append less_Suc_eq simp del: of_nat_add)
qed

lemma text_at_keep:
  assumes "text_at k va bs" "ready k" "same_except P (ram (mach k)) (ram m')" "ppn (mmu m') = ppn (mmu (mach k))"
    "\<And>i. i \<le> length bs \<Longrightarrow> \<not> P (upn (mach k) va + i)"
  shows "text_at (k\<lparr>mach := m'\<rparr>) va bs"
proof -
  have u: "upn m' a = upn (mach k) a" for a by (simp add: upn_eq assms(4))
  have "unat va mod 1024 + length bs < 1024" using assms(1) by (simp add: text_at_def ucstr_def)
  then have "upn (mach k) va + length bs < 32768" using upn_page [of "mach k" va] by linarith
  then have "ram m' (word_of_nat (upn (mach k) va + i)) = ram (mach k) (word_of_nat (upn (mach k) va + i))" if "i \<le> length bs" for i
    using same_exceptD [OF assms(3), of "upn (mach k) va + i"] assms(5) [OF that] that by simp
  then show ?thesis
    using assms(1,4) by (simp add: text_at_def ucstr_bytes u page0_def less_Suc_eq_le del: of_nat_add)
qed

lemma shown_text_at:
  assumes "shown k bs k'" "ready k" "text_at k va cs"
  shows "text_at k' va cs"
proof -
  obtain m' where m': "k' = k\<lparr>mach := m'\<rparr>" "same_except (own k) (ram (mach k)) (ram m')" "ppn (mmu m') = ppn (mmu (mach k))"
    using assms(1) by (auto simp: shown_def env_iff)
  have "\<not> own k (upn (mach k) va + i)" for i
    by (rule not_own [OF _ assms(2)]) (use assms(3) in \<open>simp add: text_at_def\<close>)
  then show ?thesis unfolding m'(1) by (intro text_at_keep [OF assms(3,2) m'(2,3)])
qed

text \<open>Two stores, of the bytes of a 16-bit argument.\<close>

definition put16 :: "u8 \<Rightarrow> u8 \<Rightarrow> u16 \<Rightarrow> kern \<Rightarrow> kern" where
  "put16 lo hi w k = sta hi (hi8 w) (sta lo (lo8 w) k)"

lemma put16_ok:
  assumes "ready k" "lo \<noteq> hi"
  shows "\<exists>m'. put16 lo hi w k = k\<lparr>mach := m'\<rparr> \<and> shown k [] (k\<lparr>mach := m'\<rparr>) \<and> arg16 m' lo hi = w \<and>
    (\<forall>off. off \<noteq> lo \<longrightarrow> off \<noteq> hi \<longrightarrow> ram m' (word_of_nat (slot m' off)) = ram (mach k) (word_of_nat (slot (mach k) off)))"
proof -
  obtain m1 where m1: "sta lo (lo8 w) k = k\<lparr>mach := m1\<rparr>" "ram m1 = blit (slot (mach k) lo) [lo8 w] (ram (mach k))"
      "shown k [] (k\<lparr>mach := m1\<rparr>)"
    using sta_ok [OF assms(1)] by blast
  let ?k1 = "k\<lparr>mach := m1\<rparr>"
  obtain m2 where m2: "sta hi (hi8 w) ?k1 = k\<lparr>mach := m2\<rparr>" "ram m2 = blit (slot m1 hi) [hi8 w] (ram m1)"
      "shown ?k1 [] (k\<lparr>mach := m2\<rparr>)"
    using sta_ok [OF shown_ready [OF m1(3) assms(1)]] by auto
  have s: "slot m1 off = slot (mach k) off" "slot m2 off = slot (mach k) off" for off
    using shown_fields [OF m1(3)] shown_fields [OF m2(3)] by (simp_all add: slot_def)
  have p: "page0 k + 256 \<le> 32768" using ready_page [OF assms(1)] by simp
  have g: "ram m2 (word_of_nat (slot (mach k) off)) =
      (if off = hi then hi8 w else if off = lo then lo8 w else ram (mach k) (word_of_nat (slot (mach k) off)))" for off
    unfolding m2(2) m1(2) s slot_page0 blit_one8 [OF p] by simp
  have "shown k [] (k\<lparr>mach := m2\<rparr>)" using shown_trans [OF m1(3) m2(3)] by simp
  then show ?thesis
    using m1(1) m2(1) assms(2) by (intro exI [of _ m2]) (simp add: put16_def arg16_def s g)
qed

lemma abi_neq: "OFF_ARG0_LO \<noteq> OFF_ARG0_HI" "OFF_ARG1_LO \<noteq> OFF_ARG1_HI" "OFF_ARG0_LO \<noteq> OFF_ARG1_LO" "OFF_ARG0_LO \<noteq> OFF_ARG1_HI"
  "OFF_ARG0_HI \<noteq> OFF_ARG1_LO" "OFF_ARG0_HI \<noteq> OFF_ARG1_HI"
  by (simp_all add: abi)

lemma sys_puts_ok:
  assumes "ready k" "brk_at k (at_puts L) SYS_PUTS" "text_at k s bs"
  shows "\<exists>k'. sys_puts L s k = Some k' \<and> shown k bs k'"
proof -
  obtain m1 where m1: "put16 OFF_ARG0_LO OFF_ARG0_HI s k = k\<lparr>mach := m1\<rparr>" "shown k [] (k\<lparr>mach := m1\<rparr>)"
      "arg16 m1 OFF_ARG0_LO OFF_ARG0_HI = s"
    using put16_ok [OF assms(1) abi_neq(1)] by blast
  let ?k1 = "k\<lparr>mach := m1\<rparr>"
  have k1: "ready ?k1" "brk_at ?k1 (at_puts L) 4"
    using shown_ready [OF m1(2) assms(1)] shown_brk_at [OF m1(2) assms(1,2)] by (simp_all add: SYS_PUTS_def)
  have t1: "text_at ?k1 s bs" by (rule shown_text_at [OF m1(2) assms(1,3)])
  obtain a x y where r: "regs L ?k1 = (a, x, y)" by (cases "regs L ?k1")
  have d: "\<exists>m4. syscall_dispatch m2 = Some m4 \<and> ram m4 = blit (slot (mach ?k1) OFF_RET) [0] (ram m2) \<and> env m4 = env (emit bs m2)"
    if h: "kmode m2" "ram m2 0x32 = 4" "env m2 = env (to_kernel (mach ?k1))" "\<And>off. slot m2 off = slot (mach ?k1) off"
      "\<And>off. ram m2 (word_of_nat (slot (mach ?k1) off)) = ram (mach ?k1) (word_of_nat (slot (mach ?k1) off))"
      "same_except (\<lambda>n. kscratch n \<or> in_stack ?k1 n) (ram (mach ?k1)) (ram m2)" for m2
  proof -
    have "\<not> (kscratch (upn m1 s + i) \<or> in_stack ?k1 (upn m1 s + i))" for i
      using not_own [of ?k1 "upn m1 s + i"] t1 k1(1) by (auto simp: text_at_def own_def)
    then have "text_at (?k1\<lparr>mach := m2\<rparr>) s bs"
      using h(3) by (intro text_at_keep [OF t1 k1(1) h(6)]) (simp_all add: env_iff to_kernel_def)
    then have "ucstr m2 s bs" by (simp add: text_at_def)
    moreover have "arg16 m2 OFF_ARG0_LO OFF_ARG0_HI = s" using m1(3) h(4,5) by (simp add: arg16_def)
    ultimately show ?thesis using dispatch_puts [OF h(1,2)] h(4) by simp
  qed
  obtain k' where "call L (at_puts L) (lo8 s, hi8 s, y) ?k1 = Some k'" "shown ?k1 bs k'"
    using call_shown [OF k1 _ d] by fastforce
  then show ?thesis using shown_trans [OF m1(2)] r m1(1) by (fastforce simp: sys_puts_def put16_def)
qed


lemma load_ok:
  assumes "ready k" "va < 0x8000"
  shows "\<exists>m'. load va k = (ram (mach k) (word_of_nat (upn (mach k) va)), k\<lparr>mach := m'\<rparr>) \<and> ram m' = ram (mach k) \<and> env m' = env (mach k)"
  using usr_mem_read [OF _ assms(2), of "mach k"] assms(1) by (auto simp: load_def ready_def)

lemma load_shown:
  assumes "ready k" "va < 0x8000"
  shows "\<exists>k'. load va k = (ram (mach k) (word_of_nat (upn (mach k) va)), k') \<and> shown k [] k'"
  using load_ok [OF assms] by (fastforce simp: shown_def)

text \<open>Reading a sector into a buffer of the program, which lies within one page of the image.\<close>

definition buffer_at :: "kern \<Rightarrow> u16 \<Rightarrow> bool" where
  "buffer_at k buf \<longleftrightarrow> page0 k + 512 \<le> upn (mach k) buf \<and> unat buf mod 1024 + 512 \<le> 1024"

definition in_buffer :: "kern \<Rightarrow> u16 \<Rightarrow> nat \<Rightarrow> bool" where
  "in_buffer k buf n \<longleftrightarrow> upn (mach k) buf \<le> n \<and> n < upn (mach k) buf + 512"

definition filled :: "kern \<Rightarrow> u16 \<Rightarrow> u8 list \<Rightarrow> kern \<Rightarrow> bool" where
  "filled k buf bs k' \<longleftrightarrow> (\<exists>m'. k' = k\<lparr>mach := m'\<rparr> \<and> env m' = env (mach k) \<and>
     same_except (\<lambda>n. own k n \<or> in_buffer k buf n) (ram (mach k)) (ram m') \<and>
     (\<forall>i < 512. ram m' (word_of_nat (upn (mach k) buf + i)) = bs ! i))"

lemma sys_block_read_ok:
  assumes "ready k" "brk_at k (at_block_read L) SYS_BLOCK_READ" "buffer_at k buf" "disk_img (mach k) = Some img"
  shows "\<exists>k'. sys_block_read L lba buf k = Some (0, k') \<and> filled k buf (sector_of img (ucast lba)) k'"
proof -
  let ?s = "sector_of img (ucast lba)" and ?u = "upn (mach k) buf"
  obtain m0 where m0: "put16 OFF_ARG1_LO OFF_ARG1_HI buf k = k\<lparr>mach := m0\<rparr>" "shown k [] (k\<lparr>mach := m0\<rparr>)"
      "arg16 m0 OFF_ARG1_LO OFF_ARG1_HI = buf"
    using put16_ok [OF assms(1) abi_neq(2)] by blast
  let ?k0 = "k\<lparr>mach := m0\<rparr>"
  have r0: "ready ?k0" by (rule shown_ready [OF m0(2) assms(1)])
  obtain m1 where m1: "put16 OFF_ARG0_LO OFF_ARG0_HI lba ?k0 = k\<lparr>mach := m1\<rparr>" "shown ?k0 [] (k\<lparr>mach := m1\<rparr>)"
      "arg16 m1 OFF_ARG0_LO OFF_ARG0_HI = lba"
      "\<forall>off. off \<noteq> OFF_ARG0_LO \<longrightarrow> off \<noteq> OFF_ARG0_HI \<longrightarrow> ram m1 (word_of_nat (slot m1 off)) = ram m0 (word_of_nat (slot m0 off))"
    using put16_ok [OF r0 abi_neq(1), of lba] by auto
  have a1: "arg16 m1 OFF_ARG1_LO OFF_ARG1_HI = buf"
    using m0(3) m1(4) abi_neq by (simp add: arg16_def)
  let ?k1 = "k\<lparr>mach := m1\<rparr>"
  have s01: "shown k [] ?k1" using shown_trans [OF m0(2) m1(2)] by simp
  have k1: "ready ?k1" "brk_at ?k1 (at_block_read L) 5" "buffer_at ?k1 buf" and i1: "disk_img m1 = Some img" and u1: "upn m1 buf = ?u"
    using shown_ready [OF s01 assms(1)] shown_brk_at [OF s01 assms(1,2)] shown_upn [OF s01] shown_env [OF s01] assms(3,4)
    by (simp_all add: SYS_BLOCK_READ_def buffer_at_def env_simps)
  have pg: "page0 ?k1 + 512 \<le> ?u" "unat buf mod 1024 + 512 \<le> 1024" and b: "?u + 512 \<le> 32768"
    using k1(3) u1 upn_page [of "mach k" buf] by (auto simp: buffer_at_def)
  let ?f = "\<lambda>r. blit (slot m1 OFF_RET) [0] (blit ?u ?s r)"
  have sl: "slot m1 off < page0 ?k1 + 256" for off using unat_u8_lt [of off] slot_page0 [of ?k1 off] by simp
  obtain a x y where r: "regs L ?k1 = (a, x, y)" by (cases "regs L ?k1")
  have d: "\<exists>m4. syscall_dispatch m2 = Some m4 \<and> ram m4 = ?f (ram m2) \<and> env m4 = env (to_kernel m1)"
    if h: "kmode m2" "same_except (\<lambda>n. kscratch n \<or> in_stack ?k1 n) (ram (mach ?k1)) (ram m2)" "ram m2 0x32 = 5" "env m2 = env (to_kernel (mach ?k1))" for m2
  proof -
    have t: "slot m2 off = slot m1 off" "upn m2 buf = ?u" "disk_img m2 = Some img" for off
      using h(4) i1 u1 by (simp_all add: env_iff to_kernel_def slot_def upn_eq)
    have "arg16 m2 OFF_ARG1_LO OFF_ARG1_HI = buf" "arg16 m2 OFF_ARG0_LO OFF_ARG0_HI = lba"
      using a1 m1(3) zp_kept [OF k1(1) h(2)] by (simp_all add: arg16_def t)
    then show ?thesis using dispatch_block_read [OF h(1,3) t(3), of buf "ucast lba"] pg(2) h(4) t by simp
  qed
  have f: "?f q (word_of_nat i) = q (word_of_nat i)" if "page0 ?k1 + 256 \<le> i \<and> i < page0 ?k1 + 512 \<or> 0x100 \<le> i \<and> i < 0x200" for q i
    using that sl [of OFF_RET] pg ready_page [OF k1(1)] slot_page0 [of ?k1 OFF_RET] by (auto simp: blit_off)
  have e: "open_user m1" using k1(1) by (simp add: ready_def)
  obtain m' q where m': "call L (at_block_read L) (lo8 lba, hi8 lba, y) ?k1 = Some (?k1\<lparr>mach := m'\<rparr>)" "ram m' = ?f q" "env m' = env m1"
      "same_except (\<lambda>n. kscratch n \<or> in_stack ?k1 n) (ram m1) q"
    using call_ok [where k = ?k1 and f = ?f and e = m1, OF k1(1,2) _ e _ d f] by fastforce
  let ?k2 = "k\<lparr>mach := m'\<rparr>"
  have r2: "ready ?k2" using m'(3) k1(1) by (auto simp: ready_def open_user_def env_simps)
  have sl2: "upn m' (ucast OFF_RET) = slot m1 OFF_RET" using m'(3) slot_upn [of m' OFF_RET] by (simp add: env_iff slot_def)
  obtain m3 where m3: "load (ucast OFF_RET) ?k2 = (ram m' (word_of_nat (slot m1 OFF_RET)), k\<lparr>mach := m3\<rparr>)" "ram m3 = ram m'" "env m3 = env m'"
    using load_ok [OF r2, of "ucast OFF_RET"] sl2 by (auto simp: abi)
  have v: "ram m' (word_of_nat (slot m1 OFF_RET)) = 0" unfolding m'(2) by (simp add: blit_at slot_lt)
  have ow: "own ?k1 = own k" using shown_fields [OF s01] by simp
  have "same_except (\<lambda>n. own k n \<or> in_buffer k buf n) (ram (mach k)) (ram m1)"
    by (rule same_except_mono [OF shown_same [OF s01, simplified]]) simp
  moreover have "same_except (\<lambda>n. own k n \<or> in_buffer k buf n) (ram m1) (ram m')"
    unfolding m'(2) using own_slot [of ?k1 OFF_RET]
    by (intro same_except_blit same_except_mono [OF m'(4)]) (auto simp: in_buffer_def ow [symmetric], auto simp: own_def)
  ultimately have "same_except (\<lambda>n. own k n \<or> in_buffer k buf n) (ram (mach k)) (ram m3)"
    unfolding m3(2) by (rule same_except_trans)
  moreover have "ram m3 (word_of_nat (?u + i)) = ?s ! i" if "i < 512" for i
    using that b pg sl [of OFF_RET] by (simp add: m3(2) m'(2) blit_at blit_off del: of_nat_add)
  moreover have "env m3 = env (mach k)" using m3(3) m'(3) shown_env [OF s01] by simp
  moreover have "sys_block_read L lba buf k = Some (0, k\<lparr>mach := m3\<rparr>)"
    using m0(1) m1(1) m'(1) m3(1) v r by (simp add: sys_block_read_def sys_block_def put16_def lda_def Let_def)
  ultimately show ?thesis unfolding filled_def by blast
qed

end
