(* ===== verification/Programs.thy ===== *)
theory Programs
  imports Userlib
begin

text \<open>
  The user programs \<^verbatim>\<open>sw/prog/src/hello.c\<close>, \<^verbatim>\<open>hello2.c\<close> and \<^verbatim>\<open>disktest.c\<close>, over the system calls
  they are linked with (arguments of the definitions). The locale \<open>console_api\<close> says what they rely on
  to print, \<open>program_api\<close> adds reading their own memory; both are interpreted on the stubs of
  \<open>Userlib\<close>. An \<open>int\<close> has 16 bits.
\<close>

section \<open>The programs\<close>

text \<open>One round of the loop of \<open>main\<close>, up to \<open>sys_yield\<close>; \<open>s1\<close> and \<open>s2\<close> are the addresses of the literals.\<close>

definition hello_round :: "(u16 \<Rightarrow> 's \<Rightarrow> 's option) \<Rightarrow> (u8 \<Rightarrow> 's \<Rightarrow> 's option) \<Rightarrow> u16 \<Rightarrow> u16 \<Rightarrow> u16 \<Rightarrow> 's \<Rightarrow> (u16 \<times> 's) option" where
  "hello_round puts putc s1 s2 i s = do {
     s \<leftarrow> puts s1 s;
     s \<leftarrow> putc (ucast (i + 0x30)) s;
     s \<leftarrow> puts s2 s;
     Some (i + 1, s) }"

definition hello2_round :: "(u16 \<Rightarrow> 's \<Rightarrow> 's option) \<Rightarrow> (u8 \<Rightarrow> 's \<Rightarrow> 's option) \<Rightarrow> u16 \<Rightarrow> u16 \<Rightarrow> u16 \<Rightarrow> 's \<Rightarrow> (u16 \<times> 's) option" where
  "hello2_round puts putc s1 s2 i s = do {
     s \<leftarrow> puts s1 s;
     s \<leftarrow> putc (ucast (i + 0x30)) s;
     s \<leftarrow> puts s2 s;
     Some (i + 1, s) }"

definition hex_chars :: "u8 list" where
  "hex_chars = map of_char ''0123456789ABCDEF''"

definition puthex :: "(u8 \<Rightarrow> 's \<Rightarrow> 's option) \<Rightarrow> u8 \<Rightarrow> 's \<Rightarrow> 's option" where
  "puthex putc b s = do {
     s \<leftarrow> putc (hex_chars ! unat (drop_bit 4 b)) s;
     putc (hex_chars ! unat (b AND 0x0F)) s }"

text \<open>The condition for PASS, with its short-circuit reads of the buffer.\<close>

definition signature_ok :: "(u16 \<Rightarrow> 's \<Rightarrow> u8 \<times> 's) \<Rightarrow> u16 \<Rightarrow> u8 \<Rightarrow> 's \<Rightarrow> bool \<times> 's" where
  "signature_ok ld buf r s =
     (if r \<noteq> 0 then (False, s)
      else case ld (buf + 510) s of (b, s) \<Rightarrow>
        if b \<noteq> 0x55 then (False, s) else (case ld (buf + 511) s of (b, s) \<Rightarrow> (b = 0xAA, s)))"

record disktest_data =
  d_ret :: u16
  d_sig :: u16
  d_pass :: u16
  d_fail :: u16
  d_buf :: u16

text \<open>\<open>main\<close> after the read, which returned \<open>r\<close>.\<close>

definition disktest_report :: "(u16 \<Rightarrow> 's \<Rightarrow> 's option) \<Rightarrow> (u8 \<Rightarrow> 's \<Rightarrow> 's option) \<Rightarrow> (u16 \<Rightarrow> 's \<Rightarrow> u8 \<times> 's) \<Rightarrow> disktest_data \<Rightarrow> u8 \<Rightarrow> 's \<Rightarrow> 's option" where
  "disktest_report puts putc ld D r s = do {
     s \<leftarrow> puts (d_ret D) s;
     s \<leftarrow> puthex putc r s;
     s \<leftarrow> puts (d_sig D) s;
     (case ld (d_buf D + 510) s of (b, s) \<Rightarrow> do {
        s \<leftarrow> puthex putc b s;
        s \<leftarrow> putc 0x20 s;
        (case ld (d_buf D + 511) s of (b, s) \<Rightarrow> do {
           s \<leftarrow> puthex putc b s;
           (case signature_ok ld (d_buf D) r s of (ok, s) \<Rightarrow> puts (if ok then d_pass D else d_fail D) s) }) }) }"

definition disktest_main :: "(u16 \<Rightarrow> 's \<Rightarrow> 's option) \<Rightarrow> (u8 \<Rightarrow> 's \<Rightarrow> 's option) \<Rightarrow> (u16 \<Rightarrow> 's \<Rightarrow> u8 \<times> 's) \<Rightarrow>
    (u16 \<Rightarrow> u16 \<Rightarrow> 's \<Rightarrow> (u8 \<times> 's) option) \<Rightarrow> disktest_data \<Rightarrow> 's \<Rightarrow> 's option" where
  "disktest_main puts putc ld rd D s = do {
     (r, s) \<leftarrow> rd 0 (d_buf D) s;
     disktest_report puts putc ld D r s }"

text \<open>What \<open>disktest\<close> prints, given its four strings, the call's result and the last two bytes of the sector.\<close>

definition report_text :: "u8 list \<Rightarrow> u8 list \<Rightarrow> u8 list \<Rightarrow> u8 list \<Rightarrow> u8 \<Rightarrow> u8 \<Rightarrow> u8 \<Rightarrow> u8 list" where
  "report_text t1 t2 t3 t4 r b0 b1 = t1 @ hex_digits r @ t2 @ hex_digits b0 @ [0x20] @ hex_digits b1 @
     (if r = 0 \<and> b0 = 0x55 \<and> b1 = 0xAA then t3 else t4)"

section \<open>What the programs rely on\<close>

text \<open>
  Printing. \<open>shown s bs s'\<close>: between \<open>s\<close> and \<open>s'\<close> exactly \<open>bs\<close> has appeared on the consoles, and the
  strings of the program are where they were.
\<close>

locale console_api =
  fixes puts :: "u16 \<Rightarrow> 's \<Rightarrow> 's option" and putc :: "u8 \<Rightarrow> 's \<Rightarrow> 's option"
    and ok :: "'s \<Rightarrow> bool" and str :: "'s \<Rightarrow> u16 \<Rightarrow> u8 list \<Rightarrow> bool" and shows_to :: "'s \<Rightarrow> u8 list \<Rightarrow> 's \<Rightarrow> bool"
  assumes puts_law: "ok s \<Longrightarrow> str s p bs \<Longrightarrow> \<exists>s'. puts p s = Some s' \<and> shows_to s bs s'"
    and putc_law: "ok s \<Longrightarrow> \<exists>s'. putc c s = Some s' \<and> shows_to s [c] s'"
    and ok_law: "shows_to s bs s' \<Longrightarrow> ok s \<Longrightarrow> ok s'"
    and str_law: "shows_to s bs s' \<Longrightarrow> ok s \<Longrightarrow> str s p cs \<Longrightarrow> str s' p cs"
    and seq_law: "shows_to s bs s' \<Longrightarrow> shows_to s' cs s'' \<Longrightarrow> shows_to s (bs @ cs) s''"
begin

lemma then_puts:
  assumes "ok s" "shows_to s bs s1" "str s p cs"
  shows "\<exists>s2. puts p s1 = Some s2 \<and> shows_to s (bs @ cs) s2"
  using puts_law [OF ok_law [OF assms(2,1)] str_law [OF assms(2,1,3)]] seq_law [OF assms(2)] by blast

lemma then_putc:
  assumes "ok s" "shows_to s bs s1"
  shows "\<exists>s2. putc c s1 = Some s2 \<and> shows_to s (bs @ [c]) s2"
  using putc_law [OF ok_law [OF assms(2,1)]] seq_law [OF assms(2)] by blast

lemma then_puthex:
  assumes "ok s" "shows_to s bs s1"
  shows "\<exists>s2. puthex putc b s1 = Some s2 \<and> shows_to s (bs @ hex_digits b) s2"
proof -
  have h: "hex_chars = alphabet" by (simp add: hex_chars_def alphabet_def)
  obtain s2 where s2: "putc (alphabet ! unat (drop_bit 4 b)) s1 = Some s2" "shows_to s (bs @ [alphabet ! unat (drop_bit 4 b)]) s2"
    using then_putc [OF assms] by blast
  show ?thesis using then_putc [OF assms(1) s2(2), of "alphabet ! unat (b AND 0x0F)"] s2(1)
    by (simp add: puthex_def h hex_digits_def)
qed

lemma hello_round_shows:
  assumes "ok s" "str s p1 t1" "str s p2 t2"
  shows "\<exists>s'. hello_round puts putc p1 p2 i s = Some (i + 1, s') \<and> shows_to s (t1 @ [ucast (i + 0x30)] @ t2) s'"
proof -
  obtain s1 where s1: "puts p1 s = Some s1" "shows_to s t1 s1" using puts_law [OF assms(1,2)] by blast
  obtain s2 where s2: "putc (ucast (i + 0x30)) s1 = Some s2" "shows_to s (t1 @ [ucast (i + 0x30)]) s2"
    using then_putc [OF assms(1) s1(2)] by blast
  show ?thesis using then_puts [OF assms(1) s2(2) assms(3)] s1(1) s2(1) by (auto simp: hello_round_def)
qed

lemma hello2_round_shows:
  assumes "ok s" "str s p1 t1" "str s p2 t2"
  shows "\<exists>s'. hello2_round puts putc p1 p2 i s = Some (i + 1, s') \<and> shows_to s (t1 @ [ucast (i + 0x30)] @ t2) s'"
  using hello_round_shows [OF assms] unfolding hello_round_def hello2_round_def .

end

text \<open>Reading the program's own memory.\<close>

locale program_api = console_api +
  fixes ld :: "u16 \<Rightarrow> 's \<Rightarrow> u8 \<times> 's" and byte :: "'s \<Rightarrow> u16 \<Rightarrow> u8" and readable :: "'s \<Rightarrow> u16 \<Rightarrow> bool"
  assumes ld_law: "ok s \<Longrightarrow> readable s a \<Longrightarrow> \<exists>s'. ld a s = (byte s a, s') \<and> shows_to s [] s'"
    and byte_law: "shows_to s bs s' \<Longrightarrow> ok s \<Longrightarrow> readable s a \<Longrightarrow> readable s' a \<and> byte s' a = byte s a"
begin

lemma then_ld:
  assumes "ok s" "shows_to s bs s1" "readable s a"
  shows "\<exists>s2. ld a s1 = (byte s a, s2) \<and> shows_to s bs s2"
  using ld_law [OF ok_law [OF assms(2,1)], of a] byte_law [OF assms(2,1,3)] seq_law [OF assms(2), of "[]"] by fastforce

lemma then_signature:
  assumes "ok s" "shows_to s bs s1" "readable s (buf + 510)" "readable s (buf + 511)"
  shows "\<exists>s2. signature_ok ld buf r s1 = (r = 0 \<and> byte s (buf + 510) = 0x55 \<and> byte s (buf + 511) = 0xAA, s2) \<and> shows_to s bs s2"
proof -
  obtain s2 where s2: "ld (buf + 510) s1 = (byte s (buf + 510), s2)" "shows_to s bs s2"
    using then_ld [OF assms(1-3)] by blast
  obtain s3 where "ld (buf + 511) s2 = (byte s (buf + 511), s3)" "shows_to s bs s3"
    using then_ld [OF assms(1) s2(2) assms(4)] by blast
  then show ?thesis using s2 assms(2) by (simp add: signature_ok_def)
qed


lemma disktest_report_shows:
  assumes "ok s" "str s (d_ret D) t1" "str s (d_sig D) t2" "str s (d_pass D) t3" "str s (d_fail D) t4"
    "readable s (d_buf D + 510)" "readable s (d_buf D + 511)"
  shows "\<exists>s'. disktest_report puts putc ld D r s = Some s' \<and>
    shows_to s (report_text t1 t2 t3 t4 r (byte s (d_buf D + 510)) (byte s (d_buf D + 511))) s'"
proof -
  let ?b0 = "byte s (d_buf D + 510)" and ?b1 = "byte s (d_buf D + 511)"
  obtain s1 where s1: "puts (d_ret D) s = Some s1" "shows_to s t1 s1" using puts_law [OF assms(1,2)] by blast
  obtain s2 where s2: "puthex putc r s1 = Some s2" "shows_to s (t1 @ hex_digits r) s2" using then_puthex [OF assms(1) s1(2)] by blast
  obtain s3 where s3: "puts (d_sig D) s2 = Some s3" "shows_to s ((t1 @ hex_digits r) @ t2) s3" using then_puts [OF assms(1) s2(2) assms(3)] by blast
  obtain s4 where s4: "ld (d_buf D + 510) s3 = (?b0, s4)" "shows_to s ((t1 @ hex_digits r) @ t2) s4" using then_ld [OF assms(1) s3(2) assms(6)] by blast
  obtain s5 where s5: "puthex putc ?b0 s4 = Some s5" "shows_to s (((t1 @ hex_digits r) @ t2) @ hex_digits ?b0) s5" using then_puthex [OF assms(1) s4(2)] by blast
  obtain s6 where s6: "putc 0x20 s5 = Some s6" "shows_to s ((((t1 @ hex_digits r) @ t2) @ hex_digits ?b0) @ [0x20]) s6" using then_putc [OF assms(1) s5(2)] by blast
  obtain s7 where s7: "ld (d_buf D + 511) s6 = (?b1, s7)" "shows_to s ((((t1 @ hex_digits r) @ t2) @ hex_digits ?b0) @ [0x20]) s7" using then_ld [OF assms(1) s6(2) assms(7)] by blast
  let ?t = "(((((t1 @ hex_digits r) @ t2) @ hex_digits ?b0) @ [0x20]) @ hex_digits ?b1)"
  obtain s8 where s8: "puthex putc ?b1 s7 = Some s8" "shows_to s ?t s8" using then_puthex [OF assms(1) s7(2)] by blast
  let ?ok = "r = 0 \<and> ?b0 = 0x55 \<and> ?b1 = 0xAA"
  obtain s9 where s9: "signature_ok ld (d_buf D) r s8 = (?ok, s9)" "shows_to s ?t s9" using then_signature [OF assms(1) s8(2) assms(6,7)] by blast
  have "str s (if ?ok then d_pass D else d_fail D) (if ?ok then t3 else t4)" using assms(4,5) by simp
  then obtain s10 where s10: "puts (if ?ok then d_pass D else d_fail D) s9 = Some s10" "shows_to s (?t @ (if ?ok then t3 else t4)) s10"
    using then_puts [OF assms(1) s9(2)] by blast
  show ?thesis using s1(1) s2(1) s3(1) s4(1) s5(1) s6(1) s7(1) s8(1) s9(1) s10
    by (simp add: disktest_report_def report_text_def)
qed

end

section \<open>The stubs provide it\<close>

definition can_print :: "link \<Rightarrow> kern \<Rightarrow> bool" where
  "can_print L k \<longleftrightarrow> ready k \<and> brk_at k (at_putc L) SYS_PUTC \<and> brk_at k (at_puts L) SYS_PUTS"

text \<open>An address of the program's image, below the I/O window.\<close>

definition image_va :: "kern \<Rightarrow> u16 \<Rightarrow> bool" where
  "image_va k va \<longleftrightarrow> va < 0x8000 \<and> page0 k + 512 \<le> upn (mach k) va"

definition user_at :: "kern \<Rightarrow> u16 \<Rightarrow> u8" where
  "user_at k va = ram (mach k) (word_of_nat (upn (mach k) va))"

interpretation stubs: program_api "sys_puts L" "sys_putc L" "can_print L" text_at shown load user_at image_va for L
proof
  show "can_print L s \<Longrightarrow> text_at s p bs \<Longrightarrow> \<exists>s'. sys_puts L p s = Some s' \<and> shown s bs s'" for s p bs
    by (simp add: can_print_def sys_puts_ok)
  show "can_print L s \<Longrightarrow> \<exists>s'. sys_putc L c s = Some s' \<and> shown s [c] s'" for s c
    by (simp add: can_print_def sys_putc_ok)
  show "shown s bs s' \<Longrightarrow> can_print L s \<Longrightarrow> can_print L s'" for s bs s'
    using shown_ready shown_brk_at by (auto simp: can_print_def)
  show "shown s bs s' \<Longrightarrow> can_print L s \<Longrightarrow> text_at s p cs \<Longrightarrow> text_at s' p cs" for s bs s' p cs
    using shown_text_at by (auto simp: can_print_def)
  show "shown s bs s' \<Longrightarrow> shown s' cs s'' \<Longrightarrow> shown s (bs @ cs) s''" for s bs s' cs s''
    by (rule shown_trans)
  show "can_print L s \<Longrightarrow> image_va s a \<Longrightarrow> \<exists>s'. load a s = (user_at s a, s') \<and> shown s [] s'" for s a
    using load_shown by (simp add: can_print_def image_va_def user_at_def)
  show "shown s bs s' \<Longrightarrow> can_print L s \<Longrightarrow> image_va s a \<Longrightarrow> image_va s' a \<and> user_at s' a = user_at s a" for s bs s' a
    using shown_byte [of s bs s' a] shown_upn [of s bs s'] by (simp add: can_print_def image_va_def user_at_def)
qed

end
