(* ===== verification/Timeshare.thy ===== *)
theory Timeshare
  imports Programs
begin

text \<open>
  The running machine with its three demo programs (\<^verbatim>\<open>hello.c\<close>, \<^verbatim>\<open>hello2.c\<close>, \<^verbatim>\<open>disktest.c\<close>), from the
  kernel's start on. Each program is a coroutine: what it does between two calls of \<open>sys_yield\<close> is a
  slice, the state it keeps across a yield the value of its counter. Which program runs next, and where,
  is what the context switch says: a turn fails unless the CPU is at the place where the program of the
  current process has to continue.
\<close>

section \<open>Programs as coroutines\<close>

text \<open>A program: its link, its entry point, its data. The state is \<open>None\<close> before the first slice.\<close>

datatype program =
    Hello link u16 u16 u16
  | Hello2 link u16 u16 u16
  | Disktest link u16 disktest_data

fun link_of :: "program \<Rightarrow> link" where
  "link_of (Hello L e s1 s2) = L"
| "link_of (Hello2 L e s1 s2) = L"
| "link_of (Disktest L e D) = L"

fun entry_of :: "program \<Rightarrow> u16" where
  "entry_of (Hello L e s1 s2) = e"
| "entry_of (Hello2 L e s1 s2) = e"
| "entry_of (Disktest L e D) = e"

definition counter :: "u16 option \<Rightarrow> u16" where
  "counter t = (case t of None \<Rightarrow> 0 | Some i \<Rightarrow> i)"

text \<open>The start-up code sets the two stack pointers, a later slice begins with the end of the yield stub.\<close>

definition begin_slice :: "link \<Rightarrow> u16 option \<Rightarrow> kern \<Rightarrow> kern" where
  "begin_slice L t k =
     (case t of
        None \<Rightarrow> sta (c_sp L + 1) 0x7E (sta (c_sp L) 0xFF (k\<lparr>SP := 0xFF\<rparr>))
      | Some i \<Rightarrow> leave k)"

fun body :: "program \<Rightarrow> u16 option \<Rightarrow> kern \<Rightarrow> (u16 \<times> kern) option" where
  "body (Hello L e s1 s2) t k = hello_round (sys_puts L) (sys_putc L) s1 s2 (counter t) k"
| "body (Hello2 L e s1 s2) t k = hello2_round (sys_puts L) (sys_putc L) s1 s2 (counter t) k"
| "body (Disktest L e D) t k =
     (case t of
        None \<Rightarrow> do { k \<leftarrow> disktest_main (sys_puts L) (sys_putc L) load (sys_block_read L) D k; Some (0, k) }
      | Some i \<Rightarrow> Some (0, k))"

definition slice :: "program \<Rightarrow> u16 option \<Rightarrow> kern \<Rightarrow> (u16 \<times> (u8 \<times> u16) \<times> kern) option" where
  "slice P t k = do {
     (i, k) \<leftarrow> body P t (begin_slice (link_of P) t k);
     (cpu, k) \<leftarrow> sys_yield (link_of P) k;
     Some (i, cpu, k) }"

definition resume_pc :: "program \<Rightarrow> u16 option \<Rightarrow> u16" where
  "resume_pc P t = (case t of None \<Rightarrow> entry_of P | Some i \<Rightarrow> at_yield (link_of P) + 2)"

type_synonym sys = "(u8 \<times> u16) \<times> (nat \<Rightarrow> u16 option) \<times> kern"

definition turn :: "(nat \<Rightarrow> program) \<Rightarrow> sys \<Rightarrow> sys option" where
  "turn Ps s =
     (case s of (cpu, ts, k) \<Rightarrow>
        let j = unat (plist_idx k) in
        if snd cpu = resume_pc (Ps j) (ts j)
        then do { (i, cpu, k) \<leftarrow> slice (Ps j) (ts j) k; Some (cpu, ts(j := Some i), k) }
        else None)"

fun turns :: "(nat \<Rightarrow> program) \<Rightarrow> nat \<Rightarrow> sys \<Rightarrow> sys option" where
  "turns Ps 0 s = Some s"
| "turns Ps (Suc n) s = do { s \<leftarrow> turns Ps n s; turn Ps s }"

section \<open>What a program's image holds\<close>

definition bytes :: "string \<Rightarrow> u8 list" where
  "bytes = map of_char"

definition label1 :: "u8 list" where "label1 = bytes ''Proc1:''"
definition label2 :: "u8 list" where "label2 = bytes ''    Proc2:''"
definition text_ret :: "u8 list" where "text_ret = bytes ''        disktest: ret=''"
definition text_sig :: "u8 list" where "text_sig = bytes '' sig=''"
definition text_pass :: "u8 list" where "text_pass = bytes ('' PASS'' @ crlf)"
definition text_fail :: "u8 list" where "text_fail = bytes ('' FAIL'' @ crlf)"

lemmas program_texts = label1_def label2_def text_ret_def text_sig_def text_pass_def text_fail_def

text \<open>The bytes after the BRK instructions and the string literals, with their addresses.\<close>

definition print_needs :: "link \<Rightarrow> (u16 \<times> u8 list) list" where
  "print_needs L = [(at_yield L + 1, [SYS_YIELD]), (at_putc L + 1, [SYS_PUTC]), (at_puts L + 1, [SYS_PUTS])]"

fun needs :: "program \<Rightarrow> (u16 \<times> u8 list) list" where
  "needs (Hello L e s1 s2) = print_needs L @ [(s1, label1 @ [0]), (s2, bytes crlf @ [0])]"
| "needs (Hello2 L e s1 s2) = print_needs L @ [(s1, label2 @ [0]), (s2, bytes crlf @ [0])]"
| "needs (Disktest L e D) = print_needs L @ [(at_block_read L + 1, [SYS_BLOCK_READ]), (d_ret D, text_ret @ [0]),
     (d_sig D, text_sig @ [0]), (d_pass D, text_pass @ [0]), (d_fail D, text_fail @ [0])]"

text \<open>
  The buffer of \<open>disktest\<close> does not cover the program's code and constants, and lies, as the source
  demands, within the 1 KB page of the image.
\<close>

fun placed :: "program \<Rightarrow> bool" where
  "placed (Disktest L e D) \<longleftrightarrow> 0x1000 \<le> unat (d_buf D) \<and> unat (d_buf D) + 512 \<le> 0x1400 \<and>
     (\<forall>(va, bs) \<in> set (needs (Disktest L e D)). unat va + length bs \<le> unat (d_buf D) \<or> unat (d_buf D) + 512 \<le> unat va)"
| "placed P \<longleftrightarrow> True"

definition image_has :: "u8 list \<Rightarrow> u16 \<times> u8 list \<Rightarrow> bool" where
  "image_has s x \<longleftrightarrow> (case x of (va, bs) \<Rightarrow> 0x1000 \<le> unat va \<and> unat va + length bs \<le> 0x1200 \<and>
     take (length bs) (drop (unat va - 0x1000) s) = bs)"

text \<open>The sector \<open>s\<close> is an executable image of the program.\<close>

definition image_of :: "u8 list \<Rightarrow> program \<Rightarrow> bool" where
  "image_of s P \<longleftrightarrow> valid_bbx s \<and> le16 (s ! 4) (s ! 5) = entry_of P \<and> list_all (image_has s) (needs P) \<and> placed P"

definition ram_has :: "(15 word \<Rightarrow> u8) \<Rightarrow> nat \<Rightarrow> u16 \<times> u8 list \<Rightarrow> bool" where
  "ram_has r b x \<longleftrightarrow> (case x of (va, bs) \<Rightarrow> 0x1000 \<le> unat va \<and> unat va + length bs \<le> 0x1200 \<and>
     (\<forall>i < length bs. r (word_of_nat (b * 4096 + unat va + i)) = bs ! i))"

definition holds_program :: "(15 word \<Rightarrow> u8) \<Rightarrow> nat \<Rightarrow> program \<Rightarrow> bool" where
  "holds_program r b P \<longleftrightarrow> list_all (ram_has r b) (needs P) \<and> placed P"

lemma loaded_ram_has:
  assumes "loaded r i s base" "low_base base" "image_has s x" "length s = 512"
  shows "ram_has r (unat base) x"
proof -
  obtain va bs where x: "x = (va, bs)" by (cases x)
  have h: "0x1000 \<le> unat va" "unat va + length bs \<le> 0x1200" "take (length bs) (drop (unat va - 0x1000) s) = bs"
    using assms(3) by (simp_all add: image_has_def x)
  have "r (word_of_nat (unat base * 4096 + unat va + j)) = bs ! j" if "j < length bs" for j
  proof -
    let ?o = "unat va - 0x1000 + j"
    have o: "?o < 512" and v: "unat va + j = 0x1000 + ?o" using that h(1,2) by simp_all
    have "user_byte r i (0x1000 + ?o) = s ! ?o" using assms(1) o unfolding loaded_def by blast
    moreover have "user_byte r i (0x1000 + ?o) = r (word_of_nat (unat base * 4096 + (0x1000 + ?o)))"
      using user_byte_at [of i r base "0x1000 + ?o"] phys_low [OF assms(2), of "0x1000 + ?o"] assms(1) o
      by (simp add: loaded_def)
    moreover have "bs ! j = s ! ?o"
      using arg_cong [OF h(3), of "\<lambda>l. l ! j"] that assms(4) o h(1) by (simp add: add.commute)
    ultimately show ?thesis unfolding v add.assoc by simp
  qed
  then show ?thesis using h by (simp add: ram_has_def x)
qed

section \<open>Addresses of a process\<close>

text \<open>The page table built for \<open>base\<close>, and the part of RAM a process with that base uses.\<close>

definition tab_of :: "u8 \<Rightarrow> 5 word \<Rightarrow> 5 word" where
  "tab_of base = (\<lambda>v. ucast (ppn_entry base (ucast v)))"

definition area :: "u8 \<Rightarrow> nat \<Rightarrow> bool" where
  "area base n \<longleftrightarrow> kscratch n \<or> (unat base * 4096 \<le> n \<and> n < unat base * 4096 + 0x1400)"

lemma unat_tab_of:
  assumes "low_base base" "unat v < 8"
  shows "unat (tab_of base v) = unat base * 4 + unat v"
proof -
  have u: "ucast v = (word_of_nat (unat v) :: u8)" by simp
  have b: "1 \<le> unat base" "unat base \<le> 5" using assms(1) by (auto simp: low_base_def)
  have v: "unat v div 4 \<le> 1" using assms(2) by simp
  have e: "unat (ppn_entry base (word_of_nat (unat v))) = (unat base + unat v div 4) mod 8 * 4 + unat v mod 4"
    by (rule unat_ppn_entry) (use assms(2) in simp)
  have "(unat base + unat v div 4) mod 8 = unat base + unat v div 4"
    using b v by (intro mod_less) linarith
  then have "unat (ppn_entry base (word_of_nat (unat v))) = unat base * 4 + unat v"
    using e by simp
  then show ?thesis using b assms(2) by (simp add: tab_of_def unat_ucast_mod)
qed

lemma upn_tab:
  assumes "ppn (mmu m) = tab_of base" "low_base base" "unat va < 8192"
  shows "upn m va = unat base * 4096 + unat va"
proof -
  have "unat (vpn va) = unat va div 1024" using assms(3) by (simp add: unat_vpn)
  moreover from this have "unat (vpn va) < 8" using assms(3) by simp
  ultimately show ?thesis by (simp add: upn_eq assms(1) unat_tab_of [OF assms(2)] algebra_simps)
qed

lemma tab_page0:
  assumes "ppn (mmu (mach k)) = tab_of base" "low_base base"
  shows "page0 k = unat base * 4096" "ppn (mmu (mach k)) 0 \<noteq> 0"
proof -
  have "unat (tab_of base 0) = unat base * 4" using unat_tab_of [OF assms(2), of 0] by simp
  then show "page0 k = unat base * 4096" "ppn (mmu (mach k)) 0 \<noteq> 0"
    using assms by (auto simp: page0_def low_base_def)
qed

lemma saved_tab:
  assumes "peek (pent j + 14) 32 r = table base"
  shows "p_tab (saved r j) = tab_of base"
proof
  fix v :: "5 word"
  have v: "unat v < 32" using unat_lt_2p [of v] by simp
  have "r (word_of_nat (pent j + 14 + unat v)) = table base ! unat v"
    using arg_cong [OF assms, of "\<lambda>l. l ! unat v"] v by (simp add: peek_nth del: of_nat_add)
  then show "p_tab (saved r j) v = tab_of base v"
    using v by (simp add: saved_def table_def tab_of_def del: of_nat_add)
qed

lemma stack_tab: "low_base base \<Longrightarrow> stack_byte r (tab_of base) sp = r (word_of_nat (unat base * 4096 + 256 + unat sp))"
  using unat_tab_of [of base 0] by (simp add: stack_byte_def add.assoc mult.commute del: of_nat_add of_nat_mult)

lemma area_bound: "low_base base \<Longrightarrow> area base n \<Longrightarrow> n < 0x7000"
  using kscratch_low [of n] by (auto simp: area_def low_base_def)

text \<open>A running program with its image in place.\<close>

definition program_ready :: "kern \<Rightarrow> u8 \<Rightarrow> program \<Rightarrow> bool" where
  "program_ready k base P \<longleftrightarrow> low_base base \<and> ready k \<and> ppn (mmu (mach k)) = tab_of base \<and>
     holds_program (ram (mach k)) (unat base) P"

lemma program_has:
  assumes "program_ready k base P" "(va, bs) \<in> set (needs P)"
  shows "0x1000 \<le> unat va" "unat va + length bs \<le> 0x1200"
    "i < length bs \<Longrightarrow> ram (mach k) (word_of_nat (unat base * 4096 + unat va + i)) = bs ! i"
  using assms by (auto simp: program_ready_def holds_program_def list_all_iff ram_has_def)

lemma program_brk_at:
  assumes "program_ready k base P" "(pc + 1, [n]) \<in> set (needs P)"
  shows "brk_at k pc n"
proof -
  have u: "upn (mach k) (pc + 1) = unat base * 4096 + unat (pc + 1)" "page0 k = unat base * 4096"
    using program_has(2) [OF assms] assms(1) by (simp_all add: program_ready_def upn_tab tab_page0)
  show ?thesis
    using program_has(1) [OF assms] program_has(3) [OF assms, of 0] by (simp add: brk_at_def u)
qed

lemma program_text_at:
  assumes "program_ready k base P" "(va, bs @ [0]) \<in> set (needs P)" "0 \<notin> set bs"
  shows "text_at k va bs"
proof -
  note h = program_has [OF assms(1,2)]
  have "unat va div 1024 = 4" using h(1,2) by simp
  then have m: "unat va = 4096 + unat va mod 1024" using div_mult_mod_eq [of "unat va" 1024] by simp
  have u: "upn (mach k) va = unat base * 4096 + unat va" "page0 k = unat base * 4096"
    using h(2) assms(1) by (simp_all add: program_ready_def upn_tab tab_page0)
  have "unat va mod 1024 + length bs < 1024" using m h(2) by simp
  then show ?thesis using h assms(3) unfolding text_at_def ucstr_bytes u by simp
qed

lemma program_can_print:
  assumes "program_ready k base P" "set (print_needs (link_of P)) \<subseteq> set (needs P)"
  shows "can_print (link_of P) k"
  using assms program_brk_at [OF assms(1)] by (auto simp: can_print_def program_ready_def print_needs_def)

lemma needs_print: "set (print_needs (link_of P)) \<subseteq> set (needs P)"
  by (cases P) auto

lemma texts_nonzero:
  "0 \<notin> set label1" "0 \<notin> set label2" "0 \<notin> set text_ret" "0 \<notin> set text_sig" "0 \<notin> set text_pass" "0 \<notin> set text_fail" "0 \<notin> set (bytes crlf)"
  by (simp_all add: program_texts bytes_def crlf_def)

section \<open>A slice up to the yield\<close>

text \<open>What a program prints in a slice that starts in state \<open>t\<close>, and its next state.\<close>

fun said :: "u8 list \<Rightarrow> program \<Rightarrow> u16 option \<Rightarrow> u8 list" where
  "said img (Hello L e s1 s2) t = label1 @ [ucast (counter t + 0x30)] @ bytes crlf"
| "said img (Hello2 L e s1 s2) t = label2 @ [ucast (counter t + 0x30)] @ bytes crlf"
| "said img (Disktest L e D) t =
     (case t of
        None \<Rightarrow> report_text text_ret text_sig text_pass text_fail 0 (sector_of img 0 ! 510) (sector_of img 0 ! 511)
      | Some i \<Rightarrow> [])"

fun next_state :: "program \<Rightarrow> u16 option \<Rightarrow> u16" where
  "next_state (Hello L e s1 s2) t = counter t + 1"
| "next_state (Hello2 L e s1 s2) t = counter t + 1"
| "next_state (Disktest L e D) t = 0"

definition works :: "u8 \<Rightarrow> kern \<Rightarrow> u8 list \<Rightarrow> kern \<Rightarrow> bool" where
  "works base k bs k' \<longleftrightarrow> (\<exists>m'. k' = k\<lparr>mach := m'\<rparr> \<and> env m' = env (emit bs (mach k)) \<and> same_except (area base) (ram (mach k)) (ram m'))"

lemma own_area: "page0 k = unat base * 4096 \<Longrightarrow> own k n \<Longrightarrow> area base n"
  using unat_u8_lt [of "SP k"] by (auto simp: own_def in_stack_def area_def)

lemma holds_keep:
  assumes "holds_program r b P" "same_except Q r r'" "b \<le> 5"
    "\<And>va bs i. (va, bs) \<in> set (needs P) \<Longrightarrow> 0x1000 \<le> unat va \<Longrightarrow> unat va + length bs \<le> 0x1200 \<Longrightarrow> i < length bs \<Longrightarrow> \<not> Q (b * 4096 + unat va + i)"
  shows "holds_program r' b P"
proof -
  have "ram_has r' b (va, bs)" if x: "(va, bs) \<in> set (needs P)" for va bs
  proof -
    have h: "0x1000 \<le> unat va" "unat va + length bs \<le> 0x1200" "\<And>i. i < length bs \<Longrightarrow> r (word_of_nat (b * 4096 + unat va + i)) = bs ! i"
      using assms(1) x by (auto simp: holds_program_def list_all_iff ram_has_def)
    have "r' (word_of_nat (b * 4096 + unat va + i)) = bs ! i" if "i < length bs" for i
      using same_exceptD [OF assms(2) assms(4) [OF x h(1,2) that]] h(2) h(3) [OF that] assms(3) that
      by (simp del: of_nat_add of_nat_mult)
    then show ?thesis using h(1,2) by (simp add: ram_has_def)
  qed
  then show ?thesis using assms(1) by (auto simp: holds_program_def list_all_iff)
qed

lemma shown_works:
  assumes "program_ready k base P" "shown k bs k'"
  shows "works base k bs k'" "program_ready k' base P"
proof -
  have b: "low_base base" "ppn (mmu (mach k)) = tab_of base" "ready k" "holds_program (ram (mach k)) (unat base) P"
    using assms(1) by (simp_all add: program_ready_def)
  have p: "page0 k = unat base * 4096" by (rule tab_page0 [OF b(2,1)])
  obtain m' where m': "k' = k\<lparr>mach := m'\<rparr>" "env m' = env (emit bs (mach k))" "same_except (own k) (ram (mach k)) (ram m')"
    using assms(2) by (auto simp: shown_def)
  have "same_except (area base) (ram (mach k)) (ram m')" by (rule same_except_mono [OF m'(3)]) (rule own_area [OF p])
  then show "works base k bs k'" unfolding works_def using m'(1,2) by blast
  have "holds_program (ram m') (unat base) P"
    by (rule holds_keep [OF b(4) m'(3)]) (use b(1,3) p not_own in \<open>auto simp: low_base_def\<close>)
  then show "program_ready k' base P"
    using shown_ready [OF assms(2) b(3)] shown_fields [OF assms(2)] b(1,2) m'(1) by (simp add: program_ready_def)
qed

lemma works_trans:
  assumes "works base k bs k'" "works base k' cs k''"
  shows "works base k (bs @ cs) k''"
proof -
  obtain m' m'' where m: "k' = k\<lparr>mach := m'\<rparr>" "env m' = env (emit bs (mach k))" "same_except (area base) (ram (mach k)) (ram m')"
      "k'' = k'\<lparr>mach := m''\<rparr>" "env m'' = env (emit cs m')" "same_except (area base) (ram m') (ram m'')"
    using assms by (auto simp: works_def)
  have "env m'' = env (emit (bs @ cs) (mach k))" by (rule emit_env2 [OF m(5,2)])
  then show ?thesis using same_except_trans [OF m(3,6)] m(1,4) unfolding works_def by (intro exI [of _ m'']) simp
qed

lemma hello_ok:
  assumes "program_ready k base P" "(s1, t1 @ [0]) \<in> set (needs P)" "(s2, t2 @ [0]) \<in> set (needs P)" "0 \<notin> set t1" "0 \<notin> set t2"
  shows "\<exists>k'. hello_round (sys_puts (link_of P)) (sys_putc (link_of P)) s1 s2 i k = Some (i + 1, k') \<and>
    works base k (t1 @ [ucast (i + 0x30)] @ t2) k' \<and> program_ready k' base P"
  using stubs.hello_round_shows [OF program_can_print [OF assms(1) needs_print]
      program_text_at [OF assms(1,2,4)] program_text_at [OF assms(1,3,5)], of i] shown_works [OF assms(1)] by blast

lemma filled_ready:
  assumes "program_ready k base P" "filled k buf bs k'" "P = Disktest L e D" "buf = d_buf D"
  shows "works base k [] k' \<and> program_ready k' base P \<and> user_at k' (buf + 510) = bs ! 510 \<and> user_at k' (buf + 511) = bs ! 511"
proof -
  have b: "low_base base" "ppn (mmu (mach k)) = tab_of base" "ready k" "holds_program (ram (mach k)) (unat base) P"
    using assms(1) by (simp_all add: program_ready_def)
  have pl: "0x1000 \<le> unat buf" "unat buf + 512 \<le> 0x1400"
    "\<And>va bs. (va, bs) \<in> set (needs P) \<Longrightarrow> unat va + length bs \<le> unat buf \<or> unat buf + 512 \<le> unat va"
    using b(4) assms(3,4) by (auto simp: holds_program_def simp del: needs.simps)
  have p: "page0 k = unat base * 4096" and u: "upn (mach k) buf = unat base * 4096 + unat buf"
    using tab_page0 [OF b(2,1)] upn_tab [OF b(2,1)] pl(2) by simp_all
  have ob: "low_base base \<Longrightarrow> unat base \<le> 5" by (simp add: low_base_def)
  let ?Q = "\<lambda>n. own k n \<or> in_buffer k buf n"
  obtain m' where m': "k' = k\<lparr>mach := m'\<rparr>" "env m' = env (mach k)" "same_except ?Q (ram (mach k)) (ram m')"
      "\<forall>i < 512. ram m' (word_of_nat (upn (mach k) buf + i)) = bs ! i"
    using assms(2) by (auto simp: filled_def)
  have "same_except (area base) (ram (mach k)) (ram m')"
    by (rule same_except_mono [OF m'(3)]) (use own_area [OF p] pl u in \<open>auto simp: in_buffer_def area_def\<close>)
  then have w: "works base k [] k'" using m'(1,2) unfolding works_def by auto
  have "holds_program (ram m') (unat base) P"
  proof (rule holds_keep [OF b(4) m'(3) ob [OF b(1)]])
    fix va cs i
    assume h: "(va, cs) \<in> set (needs P)" "0x1000 \<le> unat va" "unat va + length cs \<le> 0x1200" "i < length cs"
    have "\<not> own k (unat base * 4096 + unat va + i)" by (rule not_own [OF _ b(3)]) (use h(2) p in simp)
    then show "\<not> ?Q (unat base * 4096 + unat va + i)" using pl(3) [OF h(1)] h(4) u by (auto simp: in_buffer_def)
  qed
  then have r: "program_ready k' base P"
    using m'(1,2) b(1-3) by (auto simp: program_ready_def ready_def open_user_def env_simps)
  have "upn (mach k) (buf + word_of_nat i) = upn (mach k) buf + i" if "i < 512" for i
  proof -
    have "unat (buf + word_of_nat i) = unat buf + i"
      using pl(2) that by (simp add: unat_word_ariths unat_of_nat)
    then show ?thesis using upn_tab [OF b(2,1), of "buf + word_of_nat i"] u pl(2) that by simp
  qed
  from this [of 510] this [of 511] have "user_at k' (buf + 510) = bs ! 510" "user_at k' (buf + 511) = bs ! 511"
    using m' upn_env [OF m'(2)] by (simp_all add: user_at_def del: of_nat_add)
  then show ?thesis using w r by blast
qed

lemma hello2_ok:
  assumes "program_ready k base P" "(s1, t1 @ [0]) \<in> set (needs P)" "(s2, t2 @ [0]) \<in> set (needs P)" "0 \<notin> set t1" "0 \<notin> set t2"
  shows "\<exists>k'. hello2_round (sys_puts (link_of P)) (sys_putc (link_of P)) s1 s2 i k = Some (i + 1, k') \<and>
    works base k (t1 @ [ucast (i + 0x30)] @ t2) k' \<and> program_ready k' base P"
  using hello_ok [OF assms, of i] unfolding hello_round_def hello2_round_def .

lemma disktest_report_ok:
  assumes "program_ready k base P" "P = Disktest L e D"
  shows "\<exists>k'. disktest_report (sys_puts L) (sys_putc L) load D r k = Some k' \<and>
    works base k (report_text text_ret text_sig text_pass text_fail r (user_at k (d_buf D + 510)) (user_at k (d_buf D + 511))) k' \<and>
    program_ready k' base P"
proof -
  have b: "low_base base" "ppn (mmu (mach k)) = tab_of base" "holds_program (ram (mach k)) (unat base) P"
    using assms(1) by (simp_all add: program_ready_def)
  have pl: "0x1000 \<le> unat (d_buf D)" "unat (d_buf D) + 512 \<le> 0x1400"
    using b(3) assms(2) by (auto simp: holds_program_def)
  have iv: "image_va k (d_buf D + word_of_nat o')" if "o' < 512" for o'
  proof -
    have u: "unat (d_buf D + word_of_nat o') = unat (d_buf D) + o'"
      using pl(2) that by (simp add: unat_word_ariths unat_of_nat)
    then have "d_buf D + word_of_nat o' < 0x8000" using pl(2) that by (simp add: word_less_nat_alt)
    then show ?thesis using tab_page0 [OF b(2,1)] upn_tab [OF b(2,1), of "d_buf D + word_of_nat o'"] u pl that
      by (simp add: image_va_def)
  qed
  from iv [of 510] iv [of 511] have iv: "image_va k (d_buf D + 510)" "image_va k (d_buf D + 511)" by simp_all
  have tx: "text_at k (d_ret D) text_ret" "text_at k (d_sig D) text_sig" "text_at k (d_pass D) text_pass" "text_at k (d_fail D) text_fail"
    by (rule program_text_at [OF assms(1)], simp_all add: assms(2) texts_nonzero)+
  have cp: "can_print L k" using program_can_print [OF assms(1) needs_print] assms(2) by simp
  show ?thesis using stubs.disktest_report_shows [OF cp tx iv, of r] shown_works [OF assms(1)] by blast
qed

lemma disktest_ok:
  assumes "program_ready k base (Disktest L e D)" "disk_img (mach k) = Some img"
  shows "\<exists>k'. disktest_main (sys_puts L) (sys_putc L) load (sys_block_read L) D k = Some k' \<and>
    works base k (said img (Disktest L e D) None) k' \<and> program_ready k' base (Disktest L e D)"
proof -
  let ?P = "Disktest L e D"
  have b: "low_base base" "ppn (mmu (mach k)) = tab_of base" "ready k" "holds_program (ram (mach k)) (unat base) ?P"
    using assms(1) by (simp_all add: program_ready_def)
  have pl: "0x1000 \<le> unat (d_buf D)" "unat (d_buf D) + 512 \<le> 0x1400"
    using b(4) by (auto simp: holds_program_def)
  have "unat (d_buf D) div 1024 = 4" using pl by simp
  then have m: "unat (d_buf D) = 4096 + unat (d_buf D) mod 1024" using div_mult_mod_eq [of "unat (d_buf D)" 1024] by simp
  have "buffer_at k (d_buf D)"
    using tab_page0 [OF b(2,1)] upn_tab [OF b(2,1), of "d_buf D"] pl m by (simp add: buffer_at_def)
  moreover have bk: "brk_at k (at_block_read L) SYS_BLOCK_READ" by (rule program_brk_at [OF assms(1)]) simp
  ultimately obtain k1 where k1: "sys_block_read L 0 (d_buf D) k = Some (0, k1)" "filled k (d_buf D) (sector_of img 0) k1"
    using sys_block_read_ok [where lba = 0, OF b(3) bk _ assms(2)] by auto
  have w: "works base k [] k1" "program_ready k1 base ?P"
      "user_at k1 (d_buf D + 510) = sector_of img 0 ! 510" "user_at k1 (d_buf D + 511) = sector_of img 0 ! 511"
    using filled_ready [OF assms(1) k1(2) refl refl] by simp_all
  obtain k2 where k2: "disktest_report (sys_puts L) (sys_putc L) load D 0 k1 = Some k2" "program_ready k2 base ?P"
      "works base k1 (report_text text_ret text_sig text_pass text_fail 0 (sector_of img 0 ! 510) (sector_of img 0 ! 511)) k2"
    using disktest_report_ok [OF w(2) refl, of 0] w(3,4) by auto
  show ?thesis using works_trans [OF w(1) k2(3)] k1(1) k2(1,2) by (simp add: disktest_main_def)
qed

lemma works_refl: "works base k [] k"
  unfolding works_def by (intro exI [of _ "mach k"]) simp

lemma body_ok:
  assumes "program_ready k base P" "disk_img (mach k) = Some img"
  shows "\<exists>k'. body P t k = Some (next_state P t, k') \<and> works base k (said img P t) k' \<and> program_ready k' base P"
proof (cases P)
  case (Hello L e s1 s2)
  have "link_of P = L" by (simp add: Hello)
  then show ?thesis using hello_ok [OF assms(1), of s1 label1 s2 "bytes crlf" "counter t"] Hello by (simp add: texts_nonzero)
next
  case (Hello2 L e s1 s2)
  have "link_of P = L" by (simp add: Hello2)
  then show ?thesis using hello2_ok [OF assms(1), of s1 label2 s2 "bytes crlf" "counter t"] Hello2 by (simp add: texts_nonzero)
next
  case (Disktest L e D)
  show ?thesis
  proof (cases t)
    case None
    show ?thesis using disktest_ok [OF assms(1) [unfolded Disktest] assms(2)] Disktest None by auto
  next
    case (Some i)
    show ?thesis using works_refl assms(1) Disktest Some by simp
  qed
qed

end
