(* ===== verification/Turns.thy ===== *)
theory Turns
  imports Timeshare
begin

text \<open>
  The running machine, from the kernel's start on, for any number of time slices: the yield as the
  programs use it, the invariant every turn keeps, and what the consoles show.
\<close>

section \<open>The yield\<close>

text \<open>From the stub into the kernel: what \<open>do_yield\<close> finds.\<close>

lemma enter_yield:
  assumes "ready k" "brk_at k pc 0"
  shows "\<exists>m2. enter L pc rs k = do_yield (k\<lparr>mach := m2, SP := SP k - 6\<rparr>) \<and> kmode m2 \<and> env m2 = env (to_kernel (mach k)) \<and>
    same_except (\<lambda>n. kscratch n \<or> in_stack k n) (ram (mach k)) (ram m2) \<and>
    ram m2 (word_of_nat (page0 k + 256 + unat (SP k - 4))) = lo8 (pc + 2) \<and>
    ram m2 (word_of_nat (page0 k + 256 + unat (SP k - 3))) = hi8 (pc + 2)"
proof -
  have o: "open_user (mach k)" "8 \<le> unat (SP k)" using assms(1) by (auto simp: ready_def)
  note pg = ready_page [OF assms(1)]
  obtain a x y where rs: "rs = (a, x, y)" by (cases rs)
  obtain m1 where m1: "push y (push x (push a k)) = k\<lparr>mach := m1, SP := SP k - 3\<rparr>" "env m1 = env (mach k)"
      "same_except (in_stack k) (ram (mach k)) (ram m1)"
    using push3 [OF o] by blast
  let ?k1 = "k\<lparr>mach := m1, SP := SP k - 3\<rparr>"
  let ?p = "page0 k + 256" and ?st = "flags L ?k1"
  let ?r1 = "brk_ram ?p (SP k - 3) pc ?st (ram m1)"
  have o1: "open_user m1" and t1: "ppn (mmu m1) = ppn (mmu (mach k))"
    using open_user_env [OF m1(2) o(1)] m1(2) by (simp_all add: env_iff)
  have u: "unat (SP k - 3) = unat (SP k) - 3" "unat (SP k - 3 - 1) = unat (SP k) - 4" "unat (SP k - 3 - 2) = unat (SP k) - 5"
    using sp_minus [of 3 "SP k"] sp_minus [of 4 "SP k"] sp_minus [of 5 "SP k"] o(2) by (simp_all add: diff_diff_eq)
  have r1: "same_except (in_stack k) (ram (mach k)) ?r1"
    unfolding brk_ram_def u by (intro same_except_blit m1(3)) (auto simp: in_stack_def)
  have up: "upn m1 va = upn (mach k) va" for va by (simp add: upn_eq t1)
  have "\<not> in_stack k (upn (mach k) (pc + 1))" "upn (mach k) (pc + 1) < 32768"
    using assms(2) unat_u8_lt [of "SP k"] upn_lt by (auto simp: brk_at_def in_stack_def)
  then have n: "0 = ?r1 (word_of_nat (upn (mach ?k1) (pc + 1)))"
    using same_exceptD [OF r1] assms(2) up by (simp add: brk_at_def)
  have h: "\<not> kmode (mach ?k1)" "bit (u_bits (mmu (mach ?k1))) 0" "bit (w_bits (mmu (mach ?k1))) 0" "3 \<le> unat (SP ?k1)"
    using o1 o(2) u by (simp_all add: open_user_def)
  have p: "?p = unat (ppn (mmu (mach ?k1)) 0) * 1024 + 256" by (simp add: page0_def t1)
  have z: "\<not> kptr (upn (mach ?k1) (pc + 1))"
    using kptr_low(1) [of "upn (mach k) (pc + 1)"] assms(2) up by (auto simp: brk_at_def)
  have r1_eq: "?r1 = brk_ram ?p (SP ?k1) pc ?st (ram (mach ?k1))" by simp
  obtain m2 where m2: "kmode m2" "same_except kscratch ?r1 (ram m2)" "env m2 = env (to_kernel m1)"
      "brk_handler (brk pc ?st ?k1) = do_yield (?k1\<lparr>mach := m2, SP := SP ?k1 - 3\<rparr>)"
    using brk_handler_spec [OF h p r1_eq n z] by auto
  have f: "ram m2 (word_of_nat (?p + unat s)) = ?r1 (word_of_nat (?p + unat s))" for s :: u8
    by (rule kscratch_keeps [OF m2(2)]) (use pg unat_u8_lt [of s] in linarith)+
  have s: "SP k - 4 = SP k - 3 - 1" by simp
  note fr = brk_ram_frame [of ?p "SP k - 3" pc ?st "ram m1"]
  have "same_except (\<lambda>n. kscratch n \<or> in_stack k n) (ram (mach k)) (ram m2)"
    by (rule same_except_trans [OF same_except_mono [OF r1] same_except_mono [OF m2(2)]]) simp_all
  moreover have "ram m2 (word_of_nat (?p + unat (SP k - 4))) = lo8 (pc + 2)"
    unfolding f unfolding s by (rule fr(2)) (use pg in simp)
  moreover have "ram m2 (word_of_nat (?p + unat (SP k - 3))) = hi8 (pc + 2)"
    unfolding f by (rule fr(3)) (use pg in simp)
  moreover have "env m2 = env (to_kernel (mach k))" using m2(3) m1(2) by (simp add: env_iff to_kernel_def)
  moreover have "enter L pc rs k = do_yield (k\<lparr>mach := m2, SP := SP k - 6\<rparr>)"
    using m2(4) by (simp add: enter_def rs m1(1) Let_def diff_diff_eq)
  ultimately show ?thesis using m2(1) by (intro exI [of _ m2]) simp
qed


text \<open>The table entries are outside the part of RAM a process uses.\<close>

lemma saved_same:
  assumes "same_except (area base) r r'" "low_base base" "i < 4"
  shows "saved r' i = saved r i" "pstate r' i = pstate r i"
proof -
  have b: "0x7000 \<le> pent i" "pent i + 64 \<le> 0x7100" using pent_bound [OF assms(3)] by simp_all
  have e: "r' (word_of_nat n) = r (word_of_nat n)" if "pent i \<le> n" "n < pent i + 64" for n
    by (rule same_exceptD [OF assms(1)]) (use that b area_bound [OF assms(2), of n] in auto)
  have v: "unat v < 32" for v :: "5 word" using unat_lt_2p [of v] by simp
  have "r' (word_of_nat (pent i + 14 + unat v)) = r (word_of_nat (pent i + 14 + unat v))" for v :: "5 word"
    by (rule e) (use v [of v] in simp_all)
  then show "saved r' i = saved r i" using e [of "pent i + 13"] by (simp add: saved_def)
  show "pstate r' i = pstate r i" using e [of "pent i"] by (simp add: pstate_def)
qed

lemma yield_ok:
  assumes "program_ready k base P" "SP k = 0xFF" "nprocs k = 3" "unat (plist_idx k) = j" "j < 3" "j' = Suc j mod 3"
    "\<And>i. i < 3 \<Longrightarrow> pstate (ram (mach k)) i = (if i = j then PROC_STATE_RUNNING else PROC_STATE_WAITING)"
    "c = saved (ram (mach k)) j'"
  shows "\<exists>m' q st. sys_yield (link_of P) k = Some ((st, le16 (stack_byte (ram m') (p_tab c) (p_sp c + 2)) (stack_byte (ram m') (p_tab c) (p_sp c + 3))),
      k\<lparr>mach := m', plist_idx := word_of_nat j', SP := p_sp c + 3\<rparr>) \<and>
    ram m' = in_ram j' (out_ram j 0xF9 (tab_of base) q) \<and> same_except (area base) (ram (mach k)) q \<and> holds_program q (unat base) P \<and>
    stack_byte q (tab_of base) 0xFB = lo8 (at_yield (link_of P) + 2) \<and> stack_byte q (tab_of base) 0xFC = hi8 (at_yield (link_of P) + 2) \<and>
    env m' = env ((mach k)\<lparr>mmu := (mmu (mach k))\<lparr>ppn := p_tab c\<rparr>\<rparr>)"
proof -
  let ?L = "link_of P"
  have b: "low_base base" "ppn (mmu (mach k)) = tab_of base" "ready k" using assms(1) by (simp_all add: program_ready_def)
  have o: "open_user (mach k)" using b(3) by (simp add: ready_def)
  have p: "page0 k = unat base * 4096" by (rule tab_page0 [OF b(2,1)])
  have "brk_at k (at_yield ?L) SYS_YIELD"
    by (rule program_brk_at [OF assms(1)]) (rule subsetD [OF needs_print], simp add: print_needs_def)
  then have bk: "brk_at k (at_yield ?L) 0" by (simp add: SYS_YIELD_def)
  obtain m2 where m2: "enter ?L (at_yield ?L) (regs ?L k) k = do_yield (k\<lparr>mach := m2, SP := SP k - 6\<rparr>)" "kmode m2"
      "env m2 = env (to_kernel (mach k))" "same_except (\<lambda>n. kscratch n \<or> in_stack k n) (ram (mach k)) (ram m2)"
      "ram m2 (word_of_nat (page0 k + 256 + unat (SP k - 4))) = lo8 (at_yield ?L + 2)"
      "ram m2 (word_of_nat (page0 k + 256 + unat (SP k - 3))) = hi8 (at_yield ?L + 2)"
    using enter_yield [OF b(3) bk, of ?L "regs ?L k"] by blast
  let ?k2 = "k\<lparr>mach := m2, SP := 0xF9\<rparr>" and ?q = "ram m2"
  have s: "same_except (area base) (ram (mach k)) ?q"
    by (rule same_except_mono [OF m2(4)]) (use assms(2) p in \<open>auto simp: area_def in_stack_def\<close>)
  have h: "holds_program (ram (mach k)) (unat base) P" using assms(1) by (simp add: program_ready_def)
  have "same_except (own k) (ram (mach k)) ?q" by (rule same_except_mono [OF m2(4)]) (auto simp: own_def)
  then have hq: "holds_program ?q (unat base) P"
    by (rule holds_keep [OF h]) (use b(1,3) p not_own in \<open>auto simp: low_base_def\<close>)
  have ps: "saved ?q i = saved (ram (mach k)) i" "pstate ?q i = pstate (ram (mach k)) i" if "i < 3" for i
    using saved_same [OF s b(1), of i] that by simp_all
  have t2: "ppn (mmu m2) = tab_of base" "u_bits (mmu m2) = 0xFFFFFFFF"
    using m2(3) b(2) o by (simp_all add: env_iff to_kernel_def open_user_def)
  have inv: "sched_inv ?k2"
    using assms(3-5,7) ps t2 by (simp add: sched_inv_def)
  have nx: "next_proc ?k2 = j'" using next_proc_inv [OF inv] assms(3,4,6) by simp
  have j': "j' < 3" "j' \<noteq> j" using assms(5,6) by (auto simp: mod_Suc)
  have c: "c = ctx_of ?k2 (next_proc ?k2)" using j' assms(4,8) ps by (simp add: nx ctx_of_def)
  have pre: "kmode (mach ?k2)" "unat (nprocs ?k2) \<le> 4" "unat (plist_idx ?k2) < unat (nprocs ?k2)" "bit (u_bits (mmu (mach ?k2))) 0"
    using m2(2) assms(3-5) t2 by simp_all
  obtain m' q where m': "do_yield ?k2 = Some ((stack_byte (ram m') (p_tab c) (p_sp c + 1), le16 (stack_byte (ram m') (p_tab c) (p_sp c + 2)) (stack_byte (ram m') (p_tab c) (p_sp c + 3))),
        k\<lparr>mach := m', plist_idx := word_of_nat j', SP := p_sp c + 3\<rparr>)"
      "ram m' = in_ram j' (out_ram j 0xF9 (tab_of base) q)" "same_except kscratch ?q q"
      "env m' = env (to_user (m2\<lparr>mmu := (mmu m2)\<lparr>ppn := p_tab c\<rparr>\<rparr>))"
    using do_yield_spec [OF pre c] by (auto simp: nx assms(4) t2)
  have sq: "same_except (area base) (ram (mach k)) q"
    by (rule same_except_trans [OF s same_except_mono [OF m'(3)]]) (simp add: area_def)
  have hq': "holds_program q (unat base) P"
    by (rule holds_keep [OF hq m'(3)]) (use b(1) kscratch_low in \<open>force simp: low_base_def\<close>)+
  have "env m' = env ((mach k)\<lparr>mmu := (mmu (mach k))\<lparr>ppn := p_tab c\<rparr>\<rparr>)"
    using m'(4) m2(3) o by (simp add: env_iff to_user_def to_kernel_def open_user_def kmode_def)
  moreover have "sys_yield ?L k = do_yield ?k2" using m2(1) assms(2) by (simp add: sys_yield_def)
  moreover have "stack_byte q (tab_of base) sp = stack_byte ?q (tab_of base) sp" for sp
    using kscratch_keeps [OF m'(3), of "unat base * 4096 + 256 + unat sp"] b(1) unat_u8_lt [of sp]
    by (simp add: stack_tab [OF b(1)] low_base_def del: of_nat_add of_nat_mult)
  moreover have "stack_byte ?q (tab_of base) 0xFB = lo8 (at_yield ?L + 2)" "stack_byte ?q (tab_of base) 0xFC = hi8 (at_yield ?L + 2)"
    using m2(5,6) assms(2) p by (simp_all add: stack_tab [OF b(1)])
  ultimately show ?thesis using m'(1,2) sq hq'
    by (intro exI [of _ m'] exI [of _ q] exI [of _ "stack_byte (ram m') (p_tab c) (p_sp c + 1)"]) simp
qed

section \<open>The invariant of the running system\<close>

text \<open>The base \<open>main.c\<close> gives to process \<open>j\<close>, and the saved stack pointer of a program in state \<open>t\<close>.\<close>

definition base_of :: "nat \<Rightarrow> u8" where
  "base_of j = word_of_nat (2 * j + 1)"

definition sp_of :: "u16 option \<Rightarrow> u8" where
  "sp_of t = (case t of None \<Rightarrow> 0xFC | Some i \<Rightarrow> 0xF9)"

text \<open>A process that waits: its context is saved, and the frame on its stack leads back into its program.\<close>

definition parked :: "(15 word \<Rightarrow> u8) \<Rightarrow> nat \<Rightarrow> program \<Rightarrow> u16 option \<Rightarrow> bool" where
  "parked r j P t \<longleftrightarrow> saved r j = \<lparr>p_sp = sp_of t, p_tab = tab_of (base_of j)\<rparr> \<and>
     le16 (stack_byte r (tab_of (base_of j)) (sp_of t + 2)) (stack_byte r (tab_of (base_of j)) (sp_of t + 3)) = resume_pc P t \<and>
     holds_program r (unat (base_of j)) P"

definition sys_ok :: "(nat \<Rightarrow> program) \<Rightarrow> u8 list \<Rightarrow> sys \<Rightarrow> bool" where
  "sys_ok Ps img s \<longleftrightarrow> (case s of (cpu, ts, k) \<Rightarrow>
     let j = unat (plist_idx k); r = ram (mach k) in
     open_user (mach k) \<and> nprocs k = 3 \<and> j < 3 \<and> disk_img (mach k) = Some img \<and>
     ppn (mmu (mach k)) = tab_of (base_of j) \<and> SP k = sp_of (ts j) + 3 \<and> snd cpu = resume_pc (Ps j) (ts j) \<and>
     holds_program r (unat (base_of j)) (Ps j) \<and>
     (\<forall>i < 3. pstate r i = (if i = j then PROC_STATE_RUNNING else PROC_STATE_WAITING)) \<and>
     (\<forall>i < 3. i \<noteq> j \<longrightarrow> parked r i (Ps i) (ts i)))"

lemma base_of_low: "j < 3 \<Longrightarrow> low_base (base_of j) \<and> unat (base_of j) = 2 * j + 1"
  by (simp add: base_of_def low_base_def unat_of_nat del: of_nat_add of_nat_mult of_nat_Suc)

text \<open>The part of RAM that keeps a process parked: its stack and the sector of its image.\<close>

lemma parked_keep:
  assumes "parked r i P t" "i < 3" "saved r' i = saved r i" "same_except Q r r'"
    "\<And>n. (2 * i + 1) * 4096 \<le> n \<Longrightarrow> n < (2 * i + 1) * 4096 + 0x1200 \<Longrightarrow> \<not> Q n"
  shows "parked r' i P t"
proof -
  note b = base_of_low [OF assms(2)]
  have sb: "stack_byte r' (tab_of (base_of i)) sp = stack_byte r (tab_of (base_of i)) sp" for sp
  proof -
    let ?n = "unat (base_of i) * 4096 + 256 + unat sp"
    have n: "(2 * i + 1) * 4096 \<le> ?n" "?n < (2 * i + 1) * 4096 + 0x1200" "?n < 32768" using assms(2) b unat_u8_lt [of sp] by simp_all
    show ?thesis using same_exceptD [OF assms(4) assms(5) [OF n(1,2)] n(3)] b by (simp add: stack_tab del: of_nat_add of_nat_mult)
  qed
  have h: "holds_program r (unat (base_of i)) P" using assms(1) by (simp add: parked_def)
  have "holds_program r' (unat (base_of i)) P"
  proof (rule holds_keep [OF h assms(4)])
    show "\<not> Q (unat (base_of i) * 4096 + unat va + l)" if "0x1000 \<le> unat va" "unat va + length bs \<le> 0x1200" "l < length bs"
      for va :: u16 and bs :: "u8 list" and l
      by (rule assms(5)) (use that b in simp_all)
  qed (use b assms(2) in simp)
  then show ?thesis using assms(1,3) by (simp add: parked_def sb)
qed

lemma parked_area:
  assumes "parked r i P t" "i < 3" "j < 3" "i \<noteq> j" "same_except (area (base_of j)) r r'"
  shows "parked r' i P t"
proof (rule parked_keep [OF assms(1,2) _ assms(5)])
  show "saved r' i = saved r i" using saved_same [OF assms(5), of i] base_of_low [OF assms(3)] assms(2) by simp
  show "\<not> area (base_of j) n" if "(2 * i + 1) * 4096 \<le> n" "n < (2 * i + 1) * 4096 + 0x1200" for n
    using that assms(4) base_of_low [OF assms(3)] kscratch_low [of n] by (cases i j rule: linorder_cases) (auto simp: area_def)
qed

text \<open>What the context switch writes lies in the process table.\<close>

definition in_table :: "nat \<Rightarrow> bool" where
  "in_table n \<longleftrightarrow> 0x7000 \<le> n \<and> n < 0x7100"

lemma switch_table:
  assumes "i < 3" "j < 3"
  shows "same_except in_table r (in_ram j (out_ram i sp t r))"
  unfolding in_ram_def out_ram_def
  using pent_bound [of i] pent_bound [of j] assms
  by (intro same_except_blit same_except_refl) (auto simp: in_table_def)

lemma parked_switch:
  assumes "parked r l P t" "i < 3" "j < 3" "l < 3" "l \<noteq> i"
  shows "parked (in_ram j (out_ram i sp tb r)) l P t"
proof (rule parked_keep [OF assms(1,4) _ switch_table [OF assms(2,3)]])
  show "saved (in_ram j (out_ram i sp tb r)) l = saved r l"
    using saved_in_ram(1) [of l j] saved_out_ram(1) [of i l] assms(2-5) by simp
  show "\<not> in_table n" if "(2 * l + 1) * 4096 \<le> n" "n < (2 * l + 1) * 4096 + 0x1200" for n
    using that assms(4) by (auto simp: in_table_def)
qed

text \<open>The process that has just yielded is parked.\<close>

lemma yielded_parked:
  assumes "i < 3" "j < 3" "holds_program q (unat (base_of i)) P"
    "stack_byte q (tab_of (base_of i)) 0xFB = lo8 (at_yield (link_of P) + 2)" "stack_byte q (tab_of (base_of i)) 0xFC = hi8 (at_yield (link_of P) + 2)"
  shows "parked (in_ram j (out_ram i 0xF9 (tab_of (base_of i)) q)) i P (Some x)"
proof -
  let ?r = "in_ram j (out_ram i 0xF9 (tab_of (base_of i)) q)"
  note b = base_of_low [OF assms(1)]
  note s = switch_table [OF assms(1,2), of q "0xF9" "tab_of (base_of i)"]
  have sb: "stack_byte ?r (tab_of (base_of i)) sp = stack_byte q (tab_of (base_of i)) sp" for sp
    using same_exceptD [OF s, of "unat (base_of i) * 4096 + 256 + unat sp"] b assms(1) unat_u8_lt [of sp]
    by (simp add: stack_tab in_table_def del: of_nat_add of_nat_mult)
  have "saved ?r i = \<lparr>p_sp = 0xF9, p_tab = tab_of (base_of i)\<rparr>"
    using saved_in_ram(1) [of i j] saved_out_ram(1) [of i i] assms(1,2) by simp
  moreover have "holds_program ?r (unat (base_of i)) P"
    by (rule holds_keep [OF assms(3) s]) (use b assms(1) in \<open>auto simp: in_table_def\<close>)
  ultimately show ?thesis using assms(4,5) by (simp add: parked_def sp_of_def sb resume_pc_def)
qed

lemma begin_ok:
  assumes "program_ready (k\<lparr>SP := 0xFF\<rparr>) b P" "open_user (mach k)" "SP k = sp_of t + 3"
  shows "works b (k\<lparr>SP := 0xFF\<rparr>) [] (begin_slice (link_of P) t k)" "program_ready (begin_slice (link_of P) t k) b P"
proof -
  let ?k = "k\<lparr>SP := 0xFF\<rparr>" and ?L = "link_of P"
  have "works b ?k [] (begin_slice ?L t k) \<and> program_ready (begin_slice ?L t k) b P"
  proof (cases t)
    case None
    let ?k1 = "sta (c_sp ?L) 0xFF ?k"
    have s: "works b k' [] (sta zp v k') \<and> program_ready (sta zp v k') b P" if "program_ready k' b P" for zp v k'
    proof -
      have "ready k'" using that by (simp add: program_ready_def)
      then show ?thesis using sta_ok [of k' zp v] shown_works [OF that] by auto
    qed
    have k1: "works b ?k [] ?k1" "program_ready ?k1 b P" using s [OF assms(1)] by auto
    show ?thesis using works_trans [OF k1(1)] s [OF k1(2), of "c_sp ?L + 1" "0x7E"] None by (auto simp: begin_slice_def)
  next
    case (Some i)
    then obtain m' where l: "leave k = k\<lparr>mach := m', SP := 0xFF\<rparr>" "ram m' = ram (mach k)" "env m' = env (mach k)"
      using leave_open [OF assms(2)] assms(3) by (auto simp: sp_of_def)
    have m': "begin_slice ?L t k = ?k\<lparr>mach := m'\<rparr>" "ram m' = ram (mach k)" "env m' = env (mach k)"
      using l Some by (simp_all add: begin_slice_def)
    have w: "works b ?k [] (begin_slice ?L t k)" unfolding works_def m'(1) by (intro exI [of _ m']) (simp add: m'(2,3))
    have "open_user m'" "ppn (mmu m') = ppn (mmu (mach k))" using open_user_env [OF m'(3) assms(2)] m'(3) by (simp_all add: env_iff)
    moreover have "ppn (mmu (mach k)) 0 \<noteq> 0" "ppn (mmu (mach k)) = tab_of b" using assms(1) by (auto simp: program_ready_def ready_def)
    moreover from this have "tab_of b 0 \<noteq> 0" by metis
    ultimately have "program_ready (?k\<lparr>mach := m'\<rparr>) b P" using assms(1) m'(2) by (simp add: program_ready_def ready_def)
    then show ?thesis using w m'(1) by simp
  qed
  then show "works b ?k [] (begin_slice ?L t k)" "program_ready (begin_slice ?L t k) b P" by auto
qed


text \<open>The vector in the kernel's zero page, through which the boot ROM reaches the handler of BRK.\<close>

definition vector_kept :: "(15 word \<Rightarrow> u8) \<Rightarrow> (15 word \<Rightarrow> u8) \<Rightarrow> bool" where
  "vector_kept r r' \<longleftrightarrow> r' 0xFE = r 0xFE \<and> r' 0xFF = r 0xFF"

lemma vector_kept_turn:
  assumes "same_except (area (base_of j)) r q" "j < 3" "i < 3"
  shows "vector_kept r (in_ram i (out_ram j sp t q))"
proof -
  have "in_ram i (out_ram j sp t q) (word_of_nat n) = r (word_of_nat n)" if "n \<in> {0xFE, 0xFF}" for n
  proof -
    have n: "\<not> area (base_of j) n" "\<not> in_table n" "n < 32768"
      using that base_of_low [OF assms(2)] by (auto simp: area_def kscratch_def in_table_def)
    show ?thesis using same_exceptD [OF switch_table [OF assms(2,3)] n(2,3)] same_exceptD [OF assms(1) n(1,3)] by simp
  qed
  from this [of "0xFE"] this [of "0xFF"] show ?thesis by (simp add: vector_kept_def)
qed

text \<open>A turn succeeds, prints what its program says, and leaves the system in order for the next.\<close>

lemma turn_ok:
  assumes "sys_ok Ps img (cpu, ts, k)" "j = unat (plist_idx k)"
  shows "\<exists>cpu' k'. turn Ps (cpu, ts, k) = Some (cpu', ts(j := Some (next_state (Ps j) (ts j))), k') \<and>
    sys_ok Ps img (cpu', ts(j := Some (next_state (Ps j) (ts j))), k') \<and> unat (plist_idx k') = Suc j mod 3 \<and>
    acia_out (mach k') = acia_out (mach k) @ said img (Ps j) (ts j) \<and>
    gpu_out (mach k') = gpu_out (mach k) @ said img (Ps j) (ts j) \<and> vector_kept (ram (mach k)) (ram (mach k'))"
proof -
  let ?P = "Ps j" and ?b = "base_of j" and ?r = "ram (mach k)" and ?j = "Suc j mod 3"
  have a: "open_user (mach k)" "nprocs k = 3" "j < 3" "disk_img (mach k) = Some img" "ppn (mmu (mach k)) = tab_of ?b"
      "SP k = sp_of (ts j) + 3" "snd cpu = resume_pc ?P (ts j)" "holds_program ?r (unat ?b) ?P"
    and st: "\<And>i. i < 3 \<Longrightarrow> pstate ?r i = (if i = j then PROC_STATE_RUNNING else PROC_STATE_WAITING)"
    and pk: "\<And>i. i < 3 \<Longrightarrow> i \<noteq> j \<Longrightarrow> parked ?r i (Ps i) (ts i)"
    using assms by (simp_all add: sys_ok_def Let_def)
  have b: "low_base ?b" using base_of_low [OF a(3)] by simp
  let ?k = "k\<lparr>SP := 0xFF\<rparr>" and ?kb = "begin_slice (link_of ?P) (ts j) k"
  have "ready ?k" using a(1,5) tab_page0(2) [of ?k ?b] b by (simp add: ready_def)
  then have rk: "program_ready ?k ?b ?P" using a(5,8) b by (simp add: program_ready_def)
  note r0 = begin_ok [OF rk a(1,6)]
  have d0: "disk_img (mach ?kb) = Some img" using r0(1) a(4) by (auto simp: works_def env_iff)
  obtain k1 where k1: "body ?P (ts j) ?kb = Some (next_state ?P (ts j), k1)" "works ?b ?kb (said img ?P (ts j)) k1" "program_ready k1 ?b ?P"
    using body_ok [OF r0(2) d0, of "ts j"] by auto
  obtain m1 where m1: "k1 = ?k\<lparr>mach := m1\<rparr>" "env m1 = env (emit (said img ?P (ts j)) (mach k))" "same_except (area ?b) ?r (ram m1)"
    using works_trans [OF r0(1) k1(2)] by (auto simp: works_def)
  have f1: "SP k1 = 0xFF" "nprocs k1 = 3" "unat (plist_idx k1) = j" using m1(1) a(2) assms(2) by simp_all
  have st1: "pstate (ram (mach k1)) i = (if i = j then PROC_STATE_RUNNING else PROC_STATE_WAITING)" if "i < 3" for i
    using saved_same(2) [OF m1(3) b, of i] st [OF that] that m1(1) by simp
  have j': "?j < 3" "?j \<noteq> j" using a(3) by (auto simp: mod_Suc)
  have nx: "parked (ram m1) ?j (Ps ?j) (ts ?j)" by (rule parked_area [OF pk [OF j'] j'(1) a(3) j'(2) m1(3)])
  have c: "saved (ram (mach k1)) ?j = \<lparr>p_sp = sp_of (ts ?j), p_tab = tab_of (base_of ?j)\<rparr>"
    using nx m1(1) by (simp add: parked_def)
  let ?c = "\<lparr>p_sp = sp_of (ts ?j), p_tab = tab_of (base_of ?j)\<rparr>"
  obtain m' q fl where m': "sys_yield (link_of ?P) k1 = Some ((fl, le16 (stack_byte (ram m') (p_tab ?c) (p_sp ?c + 2)) (stack_byte (ram m') (p_tab ?c) (p_sp ?c + 3))),
        k1\<lparr>mach := m', plist_idx := word_of_nat ?j, SP := p_sp ?c + 3\<rparr>)"
      "ram m' = in_ram ?j (out_ram j 0xF9 (tab_of ?b) q)" "same_except (area ?b) (ram (mach k1)) q" "holds_program q (unat ?b) ?P"
      "stack_byte q (tab_of ?b) 0xFB = lo8 (at_yield (link_of ?P) + 2)" "stack_byte q (tab_of ?b) 0xFC = hi8 (at_yield (link_of ?P) + 2)"
      "env m' = env ((mach k1)\<lparr>mmu := (mmu (mach k1))\<lparr>ppn := p_tab ?c\<rparr>\<rparr>)"
    using yield_ok [OF k1(3) f1 a(3) refl st1 c [symmetric]] by blast
  have sq: "same_except (area ?b) ?r q" using same_except_trans [OF m1(3)] m'(3) m1(1) by simp
  have pkq: "parked q i (Ps i) (ts i)" if "i < 3" "i \<noteq> j" for i
    by (rule parked_area [OF pk [OF that] that(1) a(3) that(2) sq])
  have pk': "parked (ram m') i (Ps i) (ts i)" if "i < 3" "i \<noteq> j" for i
    unfolding m'(2) by (rule parked_switch [OF pkq [OF that] a(3) j'(1) that])
  have own': "parked (ram m') j ?P (Some x)" for x
    unfolding m'(2) by (rule yielded_parked [OF a(3) j'(1) m'(4-6)])
  have st': "pstate (ram m') i = (if i = ?j then PROC_STATE_RUNNING else PROC_STATE_WAITING)" if "i < 3" for i
    using that a(3) j' st [OF that] saved_same(2) [OF sq b, of i] by (simp add: m'(2) saved_in_ram saved_out_ram)
  note nx' = pk' [OF j']
  let ?k' = "k\<lparr>mach := m', plist_idx := word_of_nat ?j, SP := sp_of (ts ?j) + 3\<rparr>"
  let ?cpu = "(fl, resume_pc (Ps ?j) (ts ?j))"
  have y: "sys_yield (link_of ?P) k1 = Some (?cpu, ?k')"
    using m'(1) nx' m1(1) by (simp add: parked_def)
  have pi: "unat (plist_idx ?k') = ?j" using j' by (simp add: unat_of_nat)
  have "turn Ps (cpu, ts, k) = Some (?cpu, ts(j := Some (next_state ?P (ts j))), ?k')"
    using a(7) unfolding turn_def prod.case Let_def assms(2) [symmetric] by (simp add: slice_def k1(1) y)
  moreover have e': "open_user m'" "disk_img m' = Some img" "acia_out m' = acia_out (mach k) @ said img ?P (ts j)" "gpu_out m' = gpu_out (mach k) @ said img ?P (ts j)"
    "ppn (mmu m') = tab_of (base_of ?j)"
    using m'(7) m1 a(1,4) by (simp_all add: env_iff open_user_def kmode_def)
  moreover have "sys_ok Ps img (?cpu, ts(j := Some (next_state ?P (ts j))), ?k')"
  proof -
    have "parked (ram m') i (Ps i) ((ts(j := Some (next_state ?P (ts j)))) i)" if "i < 3" "i \<noteq> ?j" for i
      using own' pk' [OF that(1)] by (cases "i = j") simp_all
    moreover have "holds_program (ram m') (unat (base_of ?j)) (Ps ?j)" using nx' by (simp add: parked_def)
    ultimately show ?thesis using e' st' j' a(2) unfolding sys_ok_def prod.case Let_def pi by simp
  qed
  moreover have "vector_kept ?r (ram m')" unfolding m'(2) by (rule vector_kept_turn [OF sq a(3) j'(1)])
  ultimately show ?thesis using pi by (intro exI [of _ ?cpu] exI [of _ ?k']) simp
qed

section \<open>Any number of turns\<close>

text \<open>A program's state after \<open>n\<close> slices, the states of all programs after \<open>n\<close> turns, and turn \<open>t\<close>'s text.\<close>

fun tstate :: "program \<Rightarrow> nat \<Rightarrow> u16 option" where
  "tstate P 0 = None"
| "tstate P (Suc n) = Some (next_state P (tstate P n))"

definition states :: "(nat \<Rightarrow> program) \<Rightarrow> nat \<Rightarrow> nat \<Rightarrow> u16 option" where
  "states Ps n i = (if i < 3 then tstate (Ps i) (n div 3 + (if i < n mod 3 then 1 else 0)) else None)"

definition spoken :: "(nat \<Rightarrow> program) \<Rightarrow> u8 list \<Rightarrow> nat \<Rightarrow> u8 list" where
  "spoken Ps img t = said img (Ps (t mod 3)) (tstate (Ps (t mod 3)) (t div 3))"

lemma states_step:
  assumes "P = Ps (n mod 3)" "t = states Ps n (n mod 3)"
  shows "states Ps (Suc n) = (states Ps n)(n mod 3 := Some (next_state P t))" "t = tstate P (n div 3)"
proof -
  show t: "t = tstate P (n div 3)" by (simp add: states_def assms)
  have "states Ps (Suc n) i = ((states Ps n)(n mod 3 := Some (next_state P t))) i" for i
  proof (cases "n mod 3 = 2")
    case True
    then have "Suc n div 3 = Suc (n div 3)" "Suc n mod 3 = 0" by (simp_all add: div_Suc mod_Suc)
    then show ?thesis using True unfolding states_def t by (cases "i = 2") (simp_all add: assms(1))
  next
    case False
    then have m: "Suc n div 3 = n div 3" "Suc n mod 3 = Suc (n mod 3)" "n mod 3 < 3" by (simp_all add: div_Suc mod_Suc)
    then show ?thesis unfolding states_def t m by (cases "i = n mod 3") (simp_all add: assms(1))
  qed
  then show "states Ps (Suc n) = (states Ps n)(n mod 3 := Some (next_state P t))" by (rule ext)
qed

lemma turns_ok:
  assumes "sys_ok Ps img (cpu, (\<lambda>i. None), k)" "plist_idx k = 0"
  shows "\<exists>cpu' k'. turns Ps n (cpu, (\<lambda>i. None), k) = Some (cpu', states Ps n, k') \<and>
    sys_ok Ps img (cpu', states Ps n, k') \<and> unat (plist_idx k') = n mod 3 \<and>
    acia_out (mach k') = acia_out (mach k) @ concat (map (spoken Ps img) [0..<n]) \<and>
    gpu_out (mach k') = gpu_out (mach k) @ concat (map (spoken Ps img) [0..<n]) \<and> vector_kept (ram (mach k)) (ram (mach k'))"
proof (induction n)
  case 0
  have "states Ps 0 = (\<lambda>i. None)" by (rule ext) (simp add: states_def)
  then show ?case using assms by (simp add: vector_kept_def)
next
  case (Suc n)
  let ?j = "n mod 3"
  obtain cpu1 k1 where k1: "turns Ps n (cpu, (\<lambda>i. None), k) = Some (cpu1, states Ps n, k1)"
      "sys_ok Ps img (cpu1, states Ps n, k1)" "unat (plist_idx k1) = ?j"
      "acia_out (mach k1) = acia_out (mach k) @ concat (map (spoken Ps img) [0..<n])"
      "gpu_out (mach k1) = gpu_out (mach k) @ concat (map (spoken Ps img) [0..<n])" "vector_kept (ram (mach k)) (ram (mach k1))"
    using Suc by blast
  obtain cpu2 k2 where k2: "turn Ps (cpu1, states Ps n, k1) = Some (cpu2, (states Ps n)(?j := Some (next_state (Ps ?j) (states Ps n ?j))), k2)"
      "sys_ok Ps img (cpu2, (states Ps n)(?j := Some (next_state (Ps ?j) (states Ps n ?j))), k2)" "unat (plist_idx k2) = Suc ?j mod 3"
      "acia_out (mach k2) = acia_out (mach k1) @ said img (Ps ?j) (states Ps n ?j)"
      "gpu_out (mach k2) = gpu_out (mach k1) @ said img (Ps ?j) (states Ps n ?j)" "vector_kept (ram (mach k1)) (ram (mach k2))"
    using turn_ok [OF k1(2) k1(3) [symmetric]] by blast
  note s = states_step [of "Ps ?j" Ps n "states Ps n ?j", OF refl refl]
  have "said img (Ps ?j) (states Ps n ?j) = spoken Ps img n" unfolding s(2) by (simp add: spoken_def)
  moreover have "Suc ?j mod 3 = Suc n mod 3" by (rule mod_Suc_eq)
  moreover have "vector_kept (ram (mach k)) (ram (mach k2))"
    using k1(6) k2(6) by (simp add: vector_kept_def)
  ultimately show ?case
    using k1 k2 [folded s(1)] by (intro exI [of _ cpu2] exI [of _ k2]) simp
qed

text \<open>A process the kernel has loaded is parked before its first slice.\<close>

lemma loaded_parked:
  assumes "loaded r i s (base_of i)" "image_of s P" "length s = 512" "i < 3"
  shows "parked r i P None"
proof -
  have b: "low_base (base_of i)" using base_of_low [OF assms(4)] by simp
  have t: "peek (pent i + 14) 32 r = table (base_of i)" using assms(1) by (simp add: loaded_def)
  have st: "stack_byte r (tab_of (base_of i)) sp = user_byte r i (256 + unat sp)" for sp
    using stack_byte_phys [OF t, of r sp] user_byte_at [OF t, of "256 + unat sp"] unat_u8_lt [of sp] by (simp add: saved_tab [OF t])
  have "list_all (ram_has r (unat (base_of i))) (needs P)"
    using loaded_ram_has [OF assms(1) b _ assms(3)] assms(2) by (auto simp: image_of_def list_all_iff)
  then have "holds_program r (unat (base_of i)) P" using assms(2) by (simp add: holds_program_def image_of_def)
  moreover have "saved r i = \<lparr>p_sp = 0xFC, p_tab = tab_of (base_of i)\<rparr>"
    using saved_tab [OF t] assms(1) by (simp add: saved_def loaded_def)
  moreover have "stack_byte r (tab_of (base_of i)) 0xFE = s ! 4" "stack_byte r (tab_of (base_of i)) 0xFF = s ! 5"
    using assms(1) by (simp_all add: st loaded_def)
  ultimately show ?thesis using assms(2) by (simp add: parked_def sp_of_def resume_pc_def image_of_def)
qed

text \<open>From the kernel's start to the first slice.\<close>

lemma started_ok:
  assumes "kmode (mach k)" "nprocs k = 0" "disk_img (mach k) = Some img"
    "image_of (sector_of img 200) (Ps 0)" "image_of (sector_of img 210) (Ps 1)" "image_of (sector_of img 220) (Ps 2)"
  shows "\<exists>cpu k'. kmain h k = Some (Started cpu k') \<and> sys_ok Ps img (cpu, (\<lambda>i. None), k') \<and> plist_idx k' = 0 \<and>
    acia_out (mach k') = acia_out (mach k) @ map of_char (boot_text img) \<and> gpu_out (mach k') = gpu_out (mach k) @ map of_char (boot_text img) \<and>
    ram (mach k') 0xFE = lo8 h \<and> ram (mach k') 0xFF = hi8 h"
proof -
  let ?s = "sector_of img 200"
  have v: "valid_bbx ?s" "valid_bbx (sector_of img 210)" "valid_bbx (sector_of img 220)"
    using assms(4-6) by (simp_all add: image_of_def)
  obtain m' where m': "kmain h k = Some (Started (0x20, le16 (?s ! 4) (?s ! 5)) (k\<lparr>mach := m', nprocs := 3, plist_idx := 0, SP := 0xFF\<rparr>))"
      "booted img h (ram (mach k)) (ram m')" "\<not> kmode m'" "ppn (mmu m') = p_tab (saved (ram m') 0)" "u_bits (mmu m') = 0xFFFFFFFF" "w_bits (mmu m') = 0xFFFFFFFF" "disk_img m' = Some img"
      "acia_out m' = acia_out (mach k) @ map of_char (boot_text img)" "gpu_out m' = gpu_out (mach k) @ map of_char (boot_text img)"
    using kmain_ok [OF assms(1-3) v, of h] by auto
  let ?r = "ram m'"
  note bp = booted_programs [OF m'(2) refl refl]
  let ?k' = "k\<lparr>mach := m', nprocs := 3, plist_idx := 0, SP := 0xFF\<rparr>" and ?cpu = "(0x20, le16 (?s ! 4) (?s ! 5)) :: u8 \<times> u16"
  have bs: "base_of 0 = 1" "base_of 1 = 3" "base_of 2 = 5" by (simp_all add: base_of_def)
  have pk: "parked ?r 0 (Ps 0) None" "parked ?r 1 (Ps 1) None" "parked ?r 2 (Ps 2) None"
    using loaded_parked [of ?r 0] loaded_parked [of ?r 1] loaded_parked [of ?r 2] bp(1-3) assms(4-6) bs by simp_all
  have pk': "parked ?r i (Ps i) None" if "i < 3" for i
  proof -
    have "i = 0 \<or> i = 1 \<or> i = 2" using that by linarith
    then show ?thesis using pk by auto
  qed
  have "p_tab (saved ?r 0) = tab_of (base_of 0)" "holds_program ?r (unat (base_of 0)) (Ps 0)"
    using pk(1) by (simp_all add: parked_def)
  moreover have "snd ?cpu = resume_pc (Ps 0) None" using assms(4) by (simp add: resume_pc_def image_of_def)
  ultimately have "sys_ok Ps img (?cpu, (\<lambda>i. None), ?k')"
    using m' bp(4) pk' by (simp add: sys_ok_def open_user_def sp_of_def)
  moreover have "blit 0x00FE [x, y] r 0x00FE = x" "blit 0x00FE [x, y] r 0x00FF = y" for x y and r :: "15 word \<Rightarrow> u8"
    by (simp_all add: blit_def)
  then have "ram m' 0x00FE = lo8 h" "ram m' 0x00FF = hi8 h"
    using bp(8) [of "0xFE"] bp(8) [of "0xFF"] by (simp_all add: kscratch_def)
  ultimately show ?thesis using m' by (intro exI [of _ ?cpu] exI [of _ ?k']) simp
qed

section \<open>What the consoles show\<close>

text \<open>The text of turn \<open>t\<close>.\<close>

definition turn_text :: "u8 list \<Rightarrow> nat \<Rightarrow> u8 list" where
  "turn_text img t =
     (if t mod 3 = 0 then label1 @ [word_of_nat (t div 3 + 0x30)] @ bytes crlf
      else if t mod 3 = 1 then label2 @ [word_of_nat (t div 3 + 0x30)] @ bytes crlf
      else if t = 2 then report_text text_ret text_sig text_pass text_fail 0 (sector_of img 0 ! 510) (sector_of img 0 ! 511)
      else [])"

lemma ucast_nat: "ucast (word_of_nat n + 0x30 :: u16) = (word_of_nat (n + 0x30) :: u8)"
proof -
  have "word_of_nat n + 0x30 = (word_of_nat (n + 0x30) :: u16)" by simp
  then show ?thesis by (simp add: word_unat_eq_iff unat_ucast_mod unat_of_nat mod_mod_cancel del: of_nat_add)
qed

lemma counter_tstate:
  "counter (tstate (Hello L e s1 s2) n) = word_of_nat n" "counter (tstate (Hello2 L e s1 s2) n) = word_of_nat n"
  by (induction n) (simp_all add: counter_def)

lemma spoken_text:
  assumes "Ps 0 = Hello L1 e1 a1 b1" "Ps 1 = Hello2 L2 e2 a2 b2" "Ps 2 = Disktest L3 e3 D"
  shows "spoken Ps img t = turn_text img t"
proof -
  consider "t mod 3 = 0" | "t mod 3 = 1" | "t mod 3 = 2" by linarith
  then show ?thesis
  proof cases
    case 3
    then have P: "Ps (t mod 3) = Disktest L3 e3 D" using assms(3) by simp
    show ?thesis
    proof (cases "t div 3")
      case 0
      then have "t = 2" using 3 div_mult_mod_eq [of t 3] by simp
      then show ?thesis using P by (simp add: spoken_def turn_text_def)
    next
      case (Suc n)
      then have "t \<noteq> 2" by auto
      then show ?thesis using P Suc 3 by (simp add: spoken_def turn_text_def)
    qed
  qed (use assms in \<open>simp_all add: spoken_def turn_text_def counter_tstate ucast_nat\<close>)
qed

text \<open>The table of the three programs.\<close>

definition trio :: "program \<Rightarrow> program \<Rightarrow> program \<Rightarrow> nat \<Rightarrow> program" where
  "trio P Q R j = (if j = 0 then P else if j = 1 then Q else R)"

interpretation slices: invariant_system "\<lambda>s s'. turn Ps s = Some s'" "sys_ok Ps img" for Ps img
proof
  fix s s'
  assume h: "turn Ps s = Some s'" "sys_ok Ps img s"
  obtain cpu ts k where s: "s = (cpu, ts, k)" by (cases s)
  show "sys_ok Ps img s'" using turn_ok [of Ps img cpu ts k, OF _ refl] h unfolding s by auto
qed

text \<open>What the invariant says of the programs' memory, the scheduler and the processor.\<close>

definition programs_intact :: "(nat \<Rightarrow> program) \<Rightarrow> kern \<Rightarrow> bool" where
  "programs_intact Ps k \<longleftrightarrow> (\<forall>i < 3. holds_program (ram (mach k)) (unat (base_of i)) (Ps i))"

lemma sys_ok_consequences:
  assumes "sys_ok Ps img (cpu, ts, k)"
  shows "programs_intact Ps k" "sched_inv k" "\<not> kmode (mach k)" "ppn (mmu (mach k)) = tab_of (base_of (unat (plist_idx k)))"
    "i < 3 \<Longrightarrow> i \<noteq> unat (plist_idx k) \<Longrightarrow> p_tab (saved (ram (mach k)) i) = tab_of (base_of i)"
proof -
  let ?j = "unat (plist_idx k)"
  have a: "open_user (mach k)" "nprocs k = 3" "?j < 3" "ppn (mmu (mach k)) = tab_of (base_of ?j)"
      "holds_program (ram (mach k)) (unat (base_of ?j)) (Ps ?j)"
      "\<And>i. i < 3 \<Longrightarrow> pstate (ram (mach k)) i = (if i = ?j then PROC_STATE_RUNNING else PROC_STATE_WAITING)"
      "\<And>i. i < 3 \<Longrightarrow> i \<noteq> ?j \<Longrightarrow> parked (ram (mach k)) i (Ps i) (ts i)"
    using assms by (simp_all add: sys_ok_def Let_def)
  show "programs_intact Ps k"
    unfolding programs_intact_def
  proof (intro allI impI)
    fix i :: nat
    assume "i < 3"
    then show "holds_program (ram (mach k)) (unat (base_of i)) (Ps i)"
      using a(5) a(7) [of i] by (cases "i = ?j") (simp_all add: parked_def)
  qed
  show "sched_inv k" using a(1-3,6) by (simp add: sched_inv_def open_user_def)
  show "\<not> kmode (mach k)" "ppn (mmu (mach k)) = tab_of (base_of ?j)" using a(1,4) by (simp_all add: open_user_def)
  show "i < 3 \<Longrightarrow> i \<noteq> ?j \<Longrightarrow> p_tab (saved (ram (mach k)) i) = tab_of (base_of i)" using a(7) by (simp add: parked_def)
qed

text \<open>A process in user mode whose stack is not in the kernel's pages.\<close>

definition ready_page0 :: "kern \<Rightarrow> bool" where
  "ready_page0 k \<longleftrightarrow> open_user (mach k) \<and> ppn (mmu (mach k)) 0 \<noteq> 0"

lemma sys_ok_page0: "sys_ok Ps img (cpu, ts, k) \<Longrightarrow> ready_page0 k"
proof -
  assume "sys_ok Ps img (cpu, ts, k)"
  then have a: "open_user (mach k)" "unat (plist_idx k) < 3" "ppn (mmu (mach k)) = tab_of (base_of (unat (plist_idx k)))"
    by (simp_all add: sys_ok_def Let_def)
  then have "1024 \<le> page0 k" using tab_page0 [OF a(3)] base_of_low [OF a(2)] by simp
  then show "ready_page0 k" using a(1) by (auto simp: ready_page0_def page0_def)
qed

text \<open>
  From the kernel's entry on: it starts, and from there every number of time slices completes. Each program
  runs from where its last yield left it, with its counter and its stack intact, and both consoles show the
  start messages and then, in turn, the lines of the programs.
\<close>

lemma kernel_takes_turns:
  assumes "kmode (mach k)" "nprocs k = 0" "disk_img (mach k) = Some img"
    "image_of (sector_of img 200) (Hello L1 e1 a1 b1)" "image_of (sector_of img 210) (Hello2 L2 e2 a2 b2)"
    "image_of (sector_of img 220) (Disktest L3 e3 D)"
  shows "\<exists>cpu k0. kmain h k = Some (Started cpu k0) \<and>
    (\<forall>n. \<exists>cpu' ts k'. turns (trio (Hello L1 e1 a1 b1) (Hello2 L2 e2 a2 b2) (Disktest L3 e3 D)) n (cpu, (\<lambda>i. None), k0) = Some (cpu', ts, k') \<and>
       unat (plist_idx k') = n mod 3 \<and>
       acia_out (mach k') = acia_out (mach k) @ map of_char (boot_text img) @ concat (map (turn_text img) [0..<n]) \<and>
       gpu_out (mach k') = gpu_out (mach k) @ map of_char (boot_text img) @ concat (map (turn_text img) [0..<n]) \<and>
       ram (mach k') 0xFE = lo8 h \<and> ram (mach k') 0xFF = hi8 h \<and> ready_page0 k')"
proof -
  let ?Ps = "trio (Hello L1 e1 a1 b1) (Hello2 L2 e2 a2 b2) (Disktest L3 e3 D)"
  have P: "?Ps 0 = Hello L1 e1 a1 b1" "?Ps 1 = Hello2 L2 e2 a2 b2" "?Ps 2 = Disktest L3 e3 D" by (simp_all add: trio_def)
  have sp: "spoken ?Ps img = turn_text img" using spoken_text [OF P] by (rule ext)
  have I: "image_of (sector_of img 200) (?Ps 0)" "image_of (sector_of img 210) (?Ps 1)" "image_of (sector_of img 220) (?Ps 2)"
    unfolding P by (rule assms(4-6))+
  from started_ok [OF assms(1-3) I, of h] obtain cpu k0 where k0: "kmain h k = Some (Started cpu k0)"
      "sys_ok ?Ps img (cpu, (\<lambda>i. None), k0)" "plist_idx k0 = 0"
      "acia_out (mach k0) = acia_out (mach k) @ map of_char (boot_text img)" "gpu_out (mach k0) = gpu_out (mach k) @ map of_char (boot_text img)"
      "ram (mach k0) 0xFE = lo8 h" "ram (mach k0) 0xFF = hi8 h"
    by blast
  show ?thesis
  proof (rule exI [of _ cpu], rule exI [of _ k0], rule conjI, rule k0(1), rule allI)
    fix n
    show "\<exists>cpu' ts k'. turns ?Ps n (cpu, (\<lambda>i. None), k0) = Some (cpu', ts, k') \<and> unat (plist_idx k') = n mod 3 \<and>
       acia_out (mach k') = acia_out (mach k) @ map of_char (boot_text img) @ concat (map (turn_text img) [0..<n]) \<and>
       gpu_out (mach k') = gpu_out (mach k) @ map of_char (boot_text img) @ concat (map (turn_text img) [0..<n]) \<and>
       ram (mach k') 0xFE = lo8 h \<and> ram (mach k') 0xFF = hi8 h \<and> ready_page0 k'"
      using turns_ok [OF k0(2,3), of n] sys_ok_page0 unfolding sp k0(4-7) vector_kept_def append_assoc by blast
  qed
qed

text \<open>A disk with the three programs, and a boot signature on its first sector.\<close>

definition demo_link :: link where
  "demo_link = \<lparr>at_exit = 0x100E, at_yield = 0x1006, at_putc = 0x1008, at_getc = 0x1010, at_puts = 0x100A,
     at_block_read = 0x100C, at_block_write = 0x1012, c_sp = 0x50, regs = (\<lambda>k. (0, 0, 0)), flags = (\<lambda>k. 0x20)\<rparr>"

definition demo_program :: "u8 list list \<Rightarrow> u8 list" where
  "demo_program ts = [0x42, 0x58, 0x00, 0x10, 0x14, 0x10, 0, 0, 0, 2, 0, 4, 0, 5, 0, 1, 0, 3, 0, 6] @ concat (map (\<lambda>t. t @ [0]) ts)"

definition demo_sector :: "u8 list list \<Rightarrow> u8 list" where
  "demo_sector ts = demo_program ts @ replicate (512 - length (demo_program ts)) 0"

definition demo_hello :: program where "demo_hello = Hello demo_link 0x1014 0x1014 0x101B"
definition demo_hello2 :: program where "demo_hello2 = Hello2 demo_link 0x1014 0x1014 0x101F"
definition demo_disktest :: program where
  "demo_disktest = Disktest demo_link 0x1014 \<lparr>d_ret = 0x1014, d_sig = 0x102B, d_pass = 0x1031, d_fail = 0x1039, d_buf = 0x1200\<rparr>"

definition demo_sectors :: "u8 list list" where
  "demo_sectors = [demo_sector [label1, bytes crlf], demo_sector [label2, bytes crlf], demo_sector [text_ret, text_sig, text_pass, text_fail]]"

definition demo_disk :: "u8 list" where
  "demo_disk = replicate 510 0 @ [0x55, 0xAA] @ replicate (199 * 512) 0 @ demo_sectors ! 0 @ replicate (9 * 512) 0 @ demo_sectors ! 1
     @ replicate (9 * 512) 0 @ demo_sectors ! 2"


lemma image_has_prefix: "image_has p x \<Longrightarrow> image_has (p @ q) x"
proof -
  obtain va bs where x: "x = (va, bs)" by (cases x)
  assume "image_has p x"
  then have h: "0x1000 \<le> unat va" "unat va + length bs \<le> 0x1200" "take (length bs) (drop (unat va - 0x1000) p) = bs"
    by (simp_all add: image_has_def x)
  have "length bs \<le> length (drop (unat va - 0x1000) p)" using arg_cong [OF h(3), of length] by simp
  then show "image_has (p @ q) x" using h by (simp add: image_has_def x)
qed

lemma image_of_prefix:
  assumes "6 \<le> length p" "valid_bbx p" "le16 (p ! 4) (p ! 5) = entry_of P" "list_all (image_has p) (needs P)" "placed P"
  shows "image_of (p @ q) P"
  using assms image_has_prefix unfolding image_of_def valid_bbx_def list_all_iff by (auto simp: nth_append)

lemma text_bytes:
  "label1 = [0x50, 0x72, 0x6F, 0x63, 0x31, 0x3A]"
  "label2 = [0x20, 0x20, 0x20, 0x20, 0x50, 0x72, 0x6F, 0x63, 0x32, 0x3A]"
  "text_ret = [0x20, 0x20, 0x20, 0x20, 0x20, 0x20, 0x20, 0x20, 0x64, 0x69, 0x73, 0x6B, 0x74, 0x65, 0x73, 0x74, 0x3A, 0x20, 0x72, 0x65, 0x74, 0x3D]"
  "text_sig = [0x20, 0x73, 0x69, 0x67, 0x3D]"
  "text_pass = [0x20, 0x50, 0x41, 0x53, 0x53, 0x0D, 0x0A]"
  "text_fail = [0x20, 0x46, 0x41, 0x49, 0x4C, 0x0D, 0x0A]"
  "bytes crlf = [0x0D, 0x0A]"
  by (simp_all add: program_texts bytes_def crlf_def)

lemma demo_images:
  "image_of (demo_sector [label1, bytes crlf]) demo_hello"
  "image_of (demo_sector [label2, bytes crlf]) demo_hello2"
  "image_of (demo_sector [text_ret, text_sig, text_pass, text_fail]) demo_disktest"
  unfolding demo_sector_def text_bytes demo_program_def demo_hello_def demo_hello2_def demo_disktest_def demo_link_def
  by (rule image_of_prefix;
      simp add: valid_bbx_def le16_def image_has_def print_needs_def text_bytes sys_numbers demo_link_def)+

lemma demo_sectors_length: "length (demo_sectors ! 0) = 512" "length (demo_sectors ! 1) = 512" "length (demo_sectors ! 2) = 512"
  by (simp_all add: demo_sectors_def demo_sector_def demo_program_def text_bytes)

lemma sector_of_middle:
  assumes "length a = unat lba * 512" "length s = 512"
  shows "sector_of (a @ s @ b) lba = s"
  by (rule nth_equalityI) (use assms in \<open>simp_all add: sector_of_def nth_append\<close>)

lemma demo_disk_sectors:
  "sector_of demo_disk 200 = demo_sectors ! 0" "sector_of demo_disk 210 = demo_sectors ! 1" "sector_of demo_disk 220 = demo_sectors ! 2"
  "sector_of demo_disk 0 ! 510 = 0x55" "sector_of demo_disk 0 ! 511 = 0xAA"
proof -
  let ?z = "\<lambda>n. replicate n (0 :: u8)"
  let ?a = "?z 510 @ [0x55, 0xAA] @ ?z (199 * 512)"
  let ?s0 = "demo_sectors ! 0" and ?s1 = "demo_sectors ! 1" and ?s2 = "demo_sectors ! 2"
  have d: "demo_disk = ?a @ ?s0 @ ?z (9 * 512) @ ?s1 @ ?z (9 * 512) @ ?s2"
    "demo_disk = (?a @ ?s0 @ ?z (9 * 512)) @ ?s1 @ ?z (9 * 512) @ ?s2"
    "demo_disk = (?a @ ?s0 @ ?z (9 * 512) @ ?s1 @ ?z (9 * 512)) @ ?s2 @ []"
    "demo_disk = [] @ (?z 510 @ [0x55, 0xAA]) @ ?z (199 * 512) @ ?s0 @ ?z (9 * 512) @ ?s1 @ ?z (9 * 512) @ ?s2"
    unfolding demo_disk_def by (simp_all only: append_assoc append_Nil append_Nil2)
  show "sector_of demo_disk 200 = ?s0"
    by (subst d(1), rule sector_of_middle) (simp_all only: length_append length_replicate demo_sectors_length, simp_all)
  show "sector_of demo_disk 210 = ?s1"
    by (subst d(2), rule sector_of_middle) (simp_all only: length_append length_replicate demo_sectors_length, simp_all)
  show "sector_of demo_disk 220 = ?s2"
    by (subst d(3), rule sector_of_middle) (simp_all only: length_append length_replicate demo_sectors_length, simp_all)
  have "sector_of demo_disk 0 = ?z 510 @ [0x55, 0xAA]" by (subst d(4), rule sector_of_middle) simp_all
  then show "sector_of demo_disk 0 ! 510 = 0x55" "sector_of demo_disk 0 ! 511 = 0xAA" by (simp_all add: nth_append)
qed

text \<open>
  The C stacks of the programs, at virtual \<open>$7EFF\<close>, are not part of the model: through the three page tables
  they are in the kernel's code area, in the pages of \<open>hello\<close> and in those of \<open>hello2\<close>.
\<close>

lemma c_stack_pages: "phys_of (base_of 0) 0x7EFF = 0x0EFF" "phys_of (base_of 1) 0x7EFF = 0x2EFF" "phys_of (base_of 2) 0x7EFF = 0x4EFF"
  by (simp_all add: base_of_def phys_of_def)

section \<open>Properties\<close>

text \<open>
  C4: no turn does damage. In every state the started system can reach by turns, all three programs' code
  and constants are as loaded, the process table satisfies the scheduler's invariant, the CPU is in user
  mode with the page table of the current process, the others' tables are as saved, and the next turn
  completes.
\<close>

theorem programs_stay_intact:
  assumes "kmode (mach k)" "nprocs k = 0" "disk_img (mach k) = Some img"
    "image_of (sector_of img 200) P" "image_of (sector_of img 210) Q" "image_of (sector_of img 220) R"
    "kmain h k = Some (Started cpu k0)" "(\<lambda>s s'. turn (trio P Q R) s = Some s')\<^sup>*\<^sup>* (cpu, (\<lambda>i. None), k0) (cpu', ts, k')"
  shows "programs_intact (trio P Q R) k' \<and> sched_inv k' \<and> \<not> kmode (mach k') \<and>
    ppn (mmu (mach k')) = tab_of (base_of (unat (plist_idx k'))) \<and>
    (\<forall>i < 3. i \<noteq> unat (plist_idx k') \<longrightarrow> p_tab (saved (ram (mach k')) i) = tab_of (base_of i)) \<and>
    (\<exists>s. turn (trio P Q R) (cpu', ts, k') = Some s)"
proof -
  have I: "image_of (sector_of img 200) (trio P Q R 0)" "image_of (sector_of img 210) (trio P Q R 1)" "image_of (sector_of img 220) (trio P Q R 2)"
    using assms(4-6) by (simp_all add: trio_def)
  have "sys_ok (trio P Q R) img (cpu, (\<lambda>i. None), k0)"
    using started_ok [OF assms(1-3) I, of h] assms(7) by auto
  then have ok: "sys_ok (trio P Q R) img (cpu', ts, k')" by (rule slices.steps_inv [OF assms(8)])
  show ?thesis using sys_ok_consequences [OF ok] turn_ok [OF ok refl] by blast
qed

theorem programs_stay_intact_witness:
  "\<exists>cpu k0. kmain 0x0300 (demo_kern (Some demo_disk) 0) = Some (Started cpu k0) \<and> programs_intact (trio demo_hello demo_hello2 demo_disktest) k0 \<and>
     (\<exists>s. turn (trio demo_hello demo_hello2 demo_disktest) (cpu, (\<lambda>i. None), k0) = Some s)"
proof -
  let ?k = "demo_kern (Some demo_disk) 0" and ?T = "trio demo_hello demo_hello2 demo_disktest"
  have k: "kmode (mach ?k)" "nprocs ?k = 0" "disk_img (mach ?k) = Some demo_disk" by simp_all
  have I: "image_of (sector_of demo_disk 200) demo_hello" "image_of (sector_of demo_disk 210) demo_hello2" "image_of (sector_of demo_disk 220) demo_disktest"
    using demo_images by (simp_all add: demo_disk_sectors demo_sectors_def)
  obtain cpu k0 where s: "kmain 0x0300 ?k = Some (Started cpu k0)"
    using started_ok [OF k, of ?T "0x0300"] I by (auto simp: trio_def)
  show ?thesis using programs_stay_intact [OF k I s rtranclp.rtrancl_refl] s by blast
qed

end
