(* ===== verification/Boot.thy ===== *)
theory Boot
  imports Kmem
begin

text \<open>
  The boot ROM, \<^verbatim>\<open>sw/boot/boot.s\<close>, from reset to the jump to the kernel: every access to memory and to a
  device is a step on the machine, in the order of the code. A, X and Y are local values; SP is \<open>$FF\<close>
  whenever a subroutine is called (the code sets it and every routine restores it), so that the two bytes
  at the stack's top are fixed addresses. \<open>None\<close> is an execution that does not come back, or comes back
  to another place. After the code, the rules with which it is verified: \<open>wp\<close> reads a step backwards,
  over \<open>view\<close>, the state without what only timing depends on.
\<close>

section \<open>The code\<close>

definition ZP_PTR :: u16 where "ZP_PTR = 0x00"
definition ZP_COUNT :: u16 where "ZP_COUNT = 0x02"
definition ZP_LBA :: u16 where "ZP_LBA = 0x04"
definition BOOT_REC_LBA :: u16 where "BOOT_REC_LBA = 100"
definition STAGE_ADDR :: u16 where "STAGE_ADDR = 0x0200"

lemmas boot_addresses = ZP_PTR_def ZP_COUNT_def ZP_LBA_def BOOT_REC_LBA_def STAGE_ADDR_def

text \<open>One access, as a step.\<close>

definition rd :: "u16 \<Rightarrow> machine \<Rightarrow> (u8 \<times> machine) option" where
  "rd a m = Some (mem_read a m)"

definition wr :: "u16 \<Rightarrow> u8 \<Rightarrow> machine \<Rightarrow> machine option" where
  "wr a v m = Some (mem_write a v m)"

text \<open>A 16-bit value from two bytes; the address \<open>(zp),y\<close>.\<close>

definition rd16 :: "u16 \<Rightarrow> machine \<Rightarrow> (u16 \<times> machine) option" where
  "rd16 a m = do { (l, m) \<leftarrow> rd a m; (h, m) \<leftarrow> rd (a + 1) m; Some (le16 l h, m) }"

text \<open>\<open>jsr\<close>, with the address it pushes, and \<open>rts\<close>, which has to come back there.\<close>

definition jsr :: "u16 \<Rightarrow> machine \<Rightarrow> machine option" where
  "jsr ra m = do { m \<leftarrow> wr 0x01FF (hi8 ra) m; wr 0x01FE (lo8 ra) m }"

definition rts :: "u16 \<Rightarrow> machine \<Rightarrow> machine option" where
  "rts ra m = do { (p, m) \<leftarrow> rd16 0x01FE m; if p = ra then Some m else None }"

text \<open>\<open>inc zp\<close>: the value written, for the branches on it.\<close>

definition inc_zp :: "u16 \<Rightarrow> machine \<Rightarrow> (u8 \<times> machine) option" where
  "inc_zp a m = do { (v, m) \<leftarrow> rd a m; m \<leftarrow> wr a (v + 1) m; Some (v + 1, m) }"

definition dec_zp :: "u16 \<Rightarrow> machine \<Rightarrow> machine option" where
  "dec_zp a m = do { (v, m) \<leftarrow> rd a m; wr a (v - 1) m }"

text \<open>
  \<open>puts_inline\<close> prints the string behind the call and returns behind its NUL: \<open>nxt\<close> is the address
  of the NUL, which \<open>rts\<close> has to find on the stack.
\<close>

definition puts_done :: "u16 \<Rightarrow> u8 \<Rightarrow> machine \<Rightarrow> machine option" where
  "puts_done nxt y m = do {
     (l, m) \<leftarrow> rd ZP_PTR m;
     (h, m) \<leftarrow> rd (ZP_PTR + 1) m;
     m \<leftarrow> wr 0x01FF (if unat y + unat l < 256 then h else h + 1) m;
     m \<leftarrow> wr 0x01FE (y + l) m;
     rts nxt m }"

partial_function (option) puts_loop :: "u16 \<Rightarrow> u8 \<Rightarrow> machine \<Rightarrow> machine option" where
  "puts_loop nxt y m = do {
     (p, m) \<leftarrow> rd16 ZP_PTR m;
     (a, m) \<leftarrow> rd (p + ucast y) m;
     if a = 0 then puts_done nxt y m
     else do {
       m \<leftarrow> wr 0x01FF a m;
       m \<leftarrow> wait_set ACIA_STATUS 0x02 m;
       (a, m) \<leftarrow> rd 0x01FF m;
       m \<leftarrow> wr ACIA_DATA a m;
       m \<leftarrow> wr 0x01FF a m;
       m \<leftarrow> wait_set GPU_STATUS 0x01 m;
       (a, m) \<leftarrow> rd 0x01FF m;
       m \<leftarrow> wr GPU_DATA a m;
       if y + 1 \<noteq> 0 then puts_loop nxt (y + 1) m
       else do { (v, m) \<leftarrow> inc_zp (ZP_PTR + 1) m; puts_loop nxt (y + 1) m } } }"

definition puts_inline :: "u16 \<Rightarrow> u16 \<Rightarrow> machine \<Rightarrow> machine option" where
  "puts_inline ra nxt m = do {
     m \<leftarrow> jsr ra m;
     (l, m) \<leftarrow> rd 0x01FE m;
     m \<leftarrow> wr ZP_PTR l m;
     (h, m) \<leftarrow> rd 0x01FF m;
     m \<leftarrow> wr (ZP_PTR + 1) h m;
     puts_loop nxt 1 m }"

text \<open>The two pages of a sector: Y counts within a page, X the pages.\<close>

function pg_loop :: "u8 \<Rightarrow> u8 \<Rightarrow> machine \<Rightarrow> machine option" where
  "pg_loop y x m = do {
     (a, m) \<leftarrow> rd DISK_DATA m;
     (p, m) \<leftarrow> rd16 ZP_PTR m;
     m \<leftarrow> wr (p + ucast y) a m;
     if y + 1 \<noteq> 0 then pg_loop (y + 1) x m
     else do {
       (v, m) \<leftarrow> inc_zp (ZP_PTR + 1) m;
       if x - 1 \<noteq> 0 then pg_loop (y + 1) (x - 1) m else Some m } }"
  by pat_completeness auto
termination
  by (relation "measure (\<lambda>(y, x, m). drain_left y x)")
    (auto simp: drain_left_y drain_left_x)

declare pg_loop.simps [simp del]

definition disk_read_to_ptr :: "u16 \<Rightarrow> machine \<Rightarrow> machine option" where
  "disk_read_to_ptr ra m = do {
     m \<leftarrow> wr DISK_CMD CMD_READ m;
     m \<leftarrow> wait_clear DISK_STATUS STATUS_BUSY m;
     m \<leftarrow> wr DISK_DPTR 0 m;
     m \<leftarrow> pg_loop 0 2 m;
     m \<leftarrow> dec_zp (ZP_PTR + 1) m;
     m \<leftarrow> dec_zp (ZP_PTR + 1) m;
     rts ra m }"

definition disk_read_to_stage :: "u16 \<Rightarrow> machine \<Rightarrow> machine option" where
  "disk_read_to_stage ra m = do {
     m \<leftarrow> wr ZP_PTR (lo8 STAGE_ADDR) m;
     m \<leftarrow> wr (ZP_PTR + 1) (hi8 STAGE_ADDR) m;
     disk_read_to_ptr ra m }"

text \<open>\<open>lda a, sta b\<close>, and four of them in a row.\<close>

definition move_byte :: "u16 \<Rightarrow> u16 \<Rightarrow> machine \<Rightarrow> machine option" where
  "move_byte a b m = do { (v, m) \<leftarrow> rd a m; wr b v m }"

definition move4 :: "u16 \<Rightarrow> u16 \<Rightarrow> machine \<Rightarrow> machine option" where
  "move4 a b m = do {
     m \<leftarrow> move_byte a b m;
     m \<leftarrow> move_byte (a + 1) (b + 1) m;
     m \<leftarrow> move_byte (a + 2) (b + 2) m;
     move_byte (a + 3) (b + 3) m }"

text \<open>\<open>ZP_LBA + 1\<close> with the carry through the four bytes, \<open>ZP_COUNT - 1\<close> with the borrow.\<close>

definition inc_lba :: "machine \<Rightarrow> machine option" where
  "inc_lba m = do {
     (v, m) \<leftarrow> inc_zp ZP_LBA m;
     if v \<noteq> 0 then Some m
     else do {
       (v, m) \<leftarrow> inc_zp (ZP_LBA + 1) m;
       if v \<noteq> 0 then Some m
       else do {
         (v, m) \<leftarrow> inc_zp (ZP_LBA + 2) m;
         if v \<noteq> 0 then Some m
         else do { (v, m) \<leftarrow> inc_zp (ZP_LBA + 3) m; Some m } } } }"

definition dec_count :: "machine \<Rightarrow> machine option" where
  "dec_count m = do {
     (v, m) \<leftarrow> rd ZP_COUNT m;
     m \<leftarrow> (if v \<noteq> 0 then Some m else dec_zp (ZP_COUNT + 1) m);
     dec_zp ZP_COUNT m }"

partial_function (option) load_kernel :: "u16 \<Rightarrow> machine \<Rightarrow> machine option" where
  "load_kernel ra m = do {
     (a, m) \<leftarrow> rd ZP_COUNT m;
     (b, m) \<leftarrow> rd (ZP_COUNT + 1) m;
     if a OR b = 0 then Some m
     else do {
       m \<leftarrow> move4 ZP_LBA DISK_LBA0 m;
       m \<leftarrow> jsr ra m;
       m \<leftarrow> disk_read_to_ptr ra m;
       (h, m) \<leftarrow> rd (ZP_PTR + 1) m;
       m \<leftarrow> wr (ZP_PTR + 1) (h + 2) m;
       m \<leftarrow> inc_lba m;
       m \<leftarrow> dec_count m;
       load_kernel ra m } }"

text \<open>The addresses the linker gives: \<open>early_brk\<close>, and the ones the calls push.\<close>

record boot_link =
  early_brk :: u16
  at_banner :: u16
  at_read_record :: u16
  at_loading :: u16
  at_read_kernel :: u16
  at_jumping :: u16
  at_bad_bbx :: u16
  at_bad_record :: u16

datatype boot_end = Jump u16 machine | Halted machine

text \<open>A string behind a call, with the address of its NUL.\<close>

definition say :: "u16 \<Rightarrow> string \<Rightarrow> machine \<Rightarrow> machine option" where
  "say ra t m = puts_inline ra (ra + 1 + word_of_nat (length t)) m"

definition banner :: string where "banner = ''BB6502 boot ROM'' @ [CHR 0x0D, CHR 0x0A]"
definition loading :: string where "loading = ''Loading kernel'' @ [CHR 0x0D, CHR 0x0A]"
definition jumping :: string where "jumping = ''Jumping to Kernel'' @ [CHR 0x0D, CHR 0x0A]"
definition bad_bbx_text :: string where "bad_bbx_text = ''[ERROR] BAD BBX HEADER (HALTING)'' @ [CHR 0x0D, CHR 0x0A]"
definition bad_record_text :: string where "bad_record_text = ''[ERROR] BAD BOOT RECORD (HALTING)'' @ [CHR 0x0D, CHR 0x0A]"

definition halt_with :: "u16 \<Rightarrow> string \<Rightarrow> machine \<Rightarrow> boot_end option" where
  "halt_with ra t m = do { m \<leftarrow> say ra t m; Some (Halted m) }"

text \<open>The comparisons of the bytes from \<open>a\<close> with a magic number, which stop at the first difference.\<close>

fun magic :: "u16 \<Rightarrow> u8 list \<Rightarrow> machine \<Rightarrow> (bool \<times> machine) option" where
  "magic a [] m = Some (True, m)"
| "magic a (b # bs) m = do { (v, m) \<leftarrow> rd a m; if v = b then magic (a + 1) bs m else Some (False, m) }"

definition load_done :: "boot_link \<Rightarrow> machine \<Rightarrow> boot_end option" where
  "load_done L m = do {
     (ok, m) \<leftarrow> magic STAGE_ADDR [0x42, 0x58] m;
     if \<not> ok then halt_with (at_bad_bbx L) bad_bbx_text m
     else do {
       m \<leftarrow> say (at_jumping L) jumping m;
       m \<leftarrow> move_byte (STAGE_ADDR + 4) ZP_PTR m;
       m \<leftarrow> move_byte (STAGE_ADDR + 5) (ZP_PTR + 1) m;
       (e, m) \<leftarrow> rd16 ZP_PTR m;
       Some (Jump e m) } }"

definition reset :: "boot_link \<Rightarrow> machine \<Rightarrow> boot_end option" where
  "reset L m = do {
     m \<leftarrow> wr 0xFE (lo8 (early_brk L)) m;
     m \<leftarrow> wr 0xFF (hi8 (early_brk L)) m;
     m \<leftarrow> say (at_banner L) banner m;
     m \<leftarrow> wr DISK_LBA0 (lo8 BOOT_REC_LBA) m;
     m \<leftarrow> wr DISK_LBA1 (hi8 BOOT_REC_LBA) m;
     m \<leftarrow> wr DISK_LBA2 0 m;
     m \<leftarrow> wr DISK_LBA3 0 m;
     m \<leftarrow> jsr (at_read_record L) m;
     m \<leftarrow> disk_read_to_stage (at_read_record L) m;
     (ok, m) \<leftarrow> magic STAGE_ADDR [66, 66, 66, 82] m;
     if \<not> ok then halt_with (at_bad_record L) bad_record_text m
     else do {
       m \<leftarrow> move4 (STAGE_ADDR + 4) ZP_LBA m;
       m \<leftarrow> move_byte (STAGE_ADDR + 8) ZP_COUNT m;
       m \<leftarrow> move_byte (STAGE_ADDR + 9) (ZP_COUNT + 1) m;
       m \<leftarrow> say (at_loading L) loading m;
       m \<leftarrow> wr ZP_PTR (lo8 STAGE_ADDR) m;
       m \<leftarrow> wr (ZP_PTR + 1) (hi8 STAGE_ADDR) m;
       m \<leftarrow> load_kernel (at_read_kernel L) m;
       load_done L m } }"

section \<open>Weakest preconditions\<close>

text \<open>
  The state as the boot ROM's code sees it: the state up to timing, without the sector buffer and the
  disk controller's bookkeeping.
\<close>

definition view :: "machine \<Rightarrow> machine" where
  "view m = (core m)\<lparr>disk_buf := (\<lambda>_. 0), disk_dptr := 0, disk_busy := False, disk_err := False, disk_pos := 0\<rparr>"

definition wp :: "'a option \<Rightarrow> ('a \<Rightarrow> bool) \<Rightarrow> bool" where
  "wp r Q \<longleftrightarrow> (\<exists>x. r = Some x \<and> Q x)"

lemma wp_simps [simp]: "wp (Some x) Q = Q x" "wp (Option.bind r f) Q = wp r (\<lambda>x. wp (f x) Q)"
  by (auto simp: wp_def bind_eq_Some_conv)

lemmas wpn = wp_simps case_prod_beta' fst_conv snd_conv

lemma wp_mono: "wp r Q \<Longrightarrow> (\<And>x. Q x \<Longrightarrow> R x) \<Longrightarrow> wp r R"
  by (auto simp: wp_def)

lemma view_core: "core m = core m' \<Longrightarrow> view m = view m'"
  by (simp add: view_def)

lemma kmode_emit [simp]: "kmode (emit bs s) = kmode s"
  by (simp add: kmode_def emit_def emit_acia_def emit_gpu_def)

lemma view_fields: "ram (view m) = ram m" "rom (view m) = rom m" "disk_lba (view m) = disk_lba m" "kmode (view m) = kmode m"
    "env (view m) = env m"
  by (simp_all add: view_def kmode_def env_def)

lemma of_view:
  assumes "view m = s\<lparr>ram := r\<rparr>" "kmode s"
  shows "kmode m" "ram m = r" "rom m = rom s" "disk_lba m = disk_lba s"
  using view_fields [of m] assms by simp_all

text \<open>
  The accesses. The view before is \<open>s\<lparr>ram := r\<rparr>\<close>, so that RAM is one argument of the rules; addresses of
  RAM are given in its own width.
\<close>

lemma wp_rd:
  assumes "view m = s\<lparr>ram := r\<rparr>" "kmode s" "a < 0x8000" "ucast a = b" "\<And>m'. view m' = s\<lparr>ram := r\<rparr> \<Longrightarrow> Q (r b, m')"
  shows "wp (rd a m) Q"
proof -
  note v = of_view [OF assms(1,2)]
  obtain m' where m': "mem_read a m = (ram (core m) (ucast a), m')" "core m' = core m"
    using mem_read_ram [OF refl, of m a] assms(3) v by auto
  then show ?thesis using assms(5) [of m'] view_core [OF m'(2)] assms(1,4) v by (simp add: rd_def)
qed

lemma rom_not_io:
  assumes "0x8100 \<le> (a :: u16)"
  shows "\<not> is_ctrl a" "a \<noteq> 0x8000" "a \<noteq> 0x8001" "a \<noteq> 0x8003" "a \<noteq> 0x80E0" "a \<noteq> 0x80E1" "a \<noteq> 0x80E2" "a \<noteq> 0x80E3" "a \<noteq> 0x80E5" "a \<noteq> 0x80E6"
    "bit a 15"
  using assms by (auto simp: is_ctrl_iff bit15_iff word_le_nat_alt)

lemma wp_rd_rom:
  assumes "view m = s\<lparr>ram := r\<rparr>" "kmode s" "0x8100 \<le> a" "\<And>m'. view m' = s\<lparr>ram := r\<rparr> \<Longrightarrow> Q (rom s (a - 0x8100), m')"
  shows "wp (rd a m) Q"
proof -
  note a = rom_not_io [OF assms(3)] and v = of_view [OF assms(1,2)]
  obtain m' where m': "mem_read a m = (read_mux a (core m), m')" "core m' = rd_spec a (core m)"
    using mem_read_at [OF refl, of m a] v a by auto
  have r: "read_mux a (core m) = rom m (a - 0x8100)" using a assms(3) by (simp add: read_mux_def)
  have "core m' = core m" using m'(2) a by (simp add: rd_spec_other)
  from view_core [OF this] show ?thesis using m'(1) r assms(1,4) v by (simp add: rd_def)
qed

lemma wp_wr:
  assumes "view m = s\<lparr>ram := r\<rparr>" "kmode s" "a < 0x8000" "ucast a = b" "\<And>m'. view m' = s\<lparr>ram := r(b := d)\<rparr> \<Longrightarrow> Q m'"
  shows "wp (wr a d m) Q"
proof -
  note v = of_view [OF assms(1,2)]
  have "core (mem_write a d m) = (core m)\<lparr>ram := (ram m)(b := d)\<rparr>"
    using mem_write_ram [OF refl, of m a d] assms(3,4) v by simp
  then have "view (mem_write a d m) = (view m)\<lparr>ram := r(b := d)\<rparr>" using v(2) by (simp add: view_def)
  then have "view (mem_write a d m) = s\<lparr>ram := r(b := d)\<rparr>" unfolding assms(1) by simp
  then show ?thesis using assms(5) by (simp add: wr_def)
qed

lemma wp_lba:
  assumes "view m = s\<lparr>ram := r\<rparr>" "kmode s" "(a, i) \<in> {(0x80E0, 0), (0x80E1, 1), (0x80E2, 2), (0x80E3, 3)}"
    "\<And>m'. view m' = s\<lparr>disk_lba := set_byte i (disk_lba s) d, ram := r\<rparr> \<Longrightarrow> Q m'"
  shows "wp (wr a d m) Q"
proof -
  note v = of_view [OF assms(1,2)]
  have a: "a \<noteq> 0x8000" "wr_spec a d (core m) = (core m)\<lparr>disk_lba := set_byte i (disk_lba m) d\<rparr>"
    using assms(3) by (auto simp: wr_spec_lba)
  have "view (mem_write a d m) = (view m)\<lparr>disk_lba := set_byte i (disk_lba s) d\<rparr>"
    using mem_write_core [OF v(1) a(1), of d] a(2) v(4) by (simp add: view_def)
  then have "view (mem_write a d m) = s\<lparr>disk_lba := set_byte i (disk_lba s) d, ram := r\<rparr>" unfolding assms(1) by simp
  then show ?thesis using assms(4) by (simp add: wr_def)
qed

text \<open>The code's small steps.\<close>

lemma wp_jsr:
  assumes "view m = s\<lparr>ram := r\<rparr>" "kmode s" "\<And>m'. view m' = s\<lparr>ram := r(0x1FF := hi8 ra, 0x1FE := lo8 ra)\<rparr> \<Longrightarrow> Q m'"
  shows "wp (jsr ra m) Q"
  unfolding jsr_def wpn
  by (rule wp_wr [OF assms(1,2)], simp, simp, rule wp_wr [OF _ assms(2)], assumption, simp, simp, rule assms(3))

lemma wp_rd16:
  assumes "view m = s\<lparr>ram := r\<rparr>" "kmode s" "a < 0x7FFF" "ucast a = b" "\<And>m'. view m' = s\<lparr>ram := r\<rparr> \<Longrightarrow> Q (le16 (r b) (r (b + 1)), m')"
  shows "wp (rd16 a m) Q"
proof -
  have u: "unat (a + 1) = unat a + 1" using assms(3) by (simp add: word_less_nat_alt unat_word_ariths)
  have a: "a < 0x8000" "a + 1 < 0x8000" using assms(3) u by (simp_all add: word_less_nat_alt)
  have "unat (ucast (a + 1) :: 15 word) = unat (b + 1)"
    using assms(3,4) u by (auto simp: word_less_nat_alt unat_word_ariths unat_ucast_mod)
  then have b: "ucast (a + 1) = b + 1" by (simp add: word_unat_eq_iff)
  show ?thesis
    unfolding rd16_def wpn
    by (rule wp_rd [OF assms(1,2) a(1) assms(4)], simp only: wpn, rule wp_rd [OF _ assms(2) a(2) b], assumption, simp only: wpn, rule assms(5))
qed

lemma wp_rts:
  assumes "view m = s\<lparr>ram := r\<rparr>" "kmode s" "r 0x1FE = lo8 ra" "r 0x1FF = hi8 ra" "\<And>m'. view m' = s\<lparr>ram := r\<rparr> \<Longrightarrow> Q m'"
  shows "wp (rts ra m) Q"
  unfolding rts_def wpn
  by (rule wp_rd16 [OF assms(1,2)], simp, simp) (simp add: assms(3-5))

lemma wp_inc_zp:
  assumes "view m = s\<lparr>ram := r\<rparr>" "kmode s" "a < 0x8000" "ucast a = b" "\<And>m'. view m' = s\<lparr>ram := r(b := r b + 1)\<rparr> \<Longrightarrow> Q (r b + 1, m')"
  shows "wp (inc_zp a m) Q"
  unfolding inc_zp_def wpn
  by (rule wp_rd [OF assms(1-4)], simp only: wpn, rule wp_wr [OF _ assms(2-4)], assumption, rule assms(5))

lemma wp_dec_zp:
  assumes "view m = s\<lparr>ram := r\<rparr>" "kmode s" "a < 0x8000" "ucast a = b" "\<And>m'. view m' = s\<lparr>ram := r(b := r b - 1)\<rparr> \<Longrightarrow> Q m'"
  shows "wp (dec_zp a m) Q"
  unfolding dec_zp_def wpn
  by (rule wp_rd [OF assms(1-4)], simp only: wpn, rule wp_wr [OF _ assms(2-4)], assumption, rule assms(5))

lemma wp_move_byte:
  assumes "view m = s\<lparr>ram := r\<rparr>" "kmode s" "a < 0x8000" "ucast a = b" "a' < 0x8000" "ucast a' = b'"
    "\<And>m'. view m' = s\<lparr>ram := r(b' := r b)\<rparr> \<Longrightarrow> Q m'"
  shows "wp (move_byte a a' m) Q"
  unfolding move_byte_def wpn
  by (rule wp_rd [OF assms(1-4)], simp only: wpn, rule wp_wr [OF _ assms(2,5,6)], assumption, rule assms(7))

text \<open>Printing a character. The transmitter stays ready while the character is pulled from the stack.\<close>

lemma wp_wait_acia:
  assumes "view m = s\<lparr>ram := r\<rparr>" "kmode s" "\<And>m'. view m' = s\<lparr>ram := r\<rparr> \<Longrightarrow> acia_tx_ready m' \<Longrightarrow> Q m'"
  shows "wp (wait_set ACIA_STATUS 0x02 m) Q"
proof -
  obtain m' where "wait_set 0x8001 2 m = Some m'" "core m' = core m" "acia_tx_ready m'" using wait_acia of_view(1) [OF assms(1,2)] by blast
  then show ?thesis using assms(3) [of m'] view_core [of m' m] assms(1) by (simp add: ACIA_STATUS_def)
qed

lemma tx_ready_read: "acia_tx_ready m \<Longrightarrow> acia_tx_ready (snd (mem_read a m))"
  using tx_wait_bus [of False a True 0 "idles m"] tx_wait_idles [of m]
  by (simp add: mem_read_def flip: tx_wait_0)

lemma wp_rd_ready:
  assumes "view m = s\<lparr>ram := r\<rparr>" "kmode s" "acia_tx_ready m" "a < 0x8000" "ucast a = b"
    "\<And>m'. view m' = s\<lparr>ram := r\<rparr> \<Longrightarrow> acia_tx_ready m' \<Longrightarrow> Q (r b, m')"
  shows "wp (rd a m) Q"
proof -
  have "wp (rd a m) (\<lambda>x. fst x = r b \<and> view (snd x) = s\<lparr>ram := r\<rparr>)" by (rule wp_rd [OF assms(1,2,4,5)]) simp
  then have "fst (mem_read a m) = r b" "view (snd (mem_read a m)) = s\<lparr>ram := r\<rparr>" by (simp_all add: rd_def)
  then show ?thesis using assms(6) [OF _ tx_ready_read [OF assms(3), of a]] by (metis prod.collapse rd_def wp_simps(1))
qed

lemma wp_wr_acia:
  assumes "view m = s\<lparr>ram := r\<rparr>" "kmode s" "acia_tx_ready m" "\<And>m'. view m' = (emit_acia [d] s)\<lparr>ram := r\<rparr> \<Longrightarrow> Q m'"
  shows "wp (wr ACIA_DATA d m) Q"
proof -
  have "acia_tx_ready (idles m)" using tx_wait_idles [of m] assms(3) by (simp flip: tx_wait_0)
  then have "core (mem_write 0x8000 d m) = emit_acia [d] (core m)"
    using of_view(1) [OF assms(1,2)] by (simp add: mem_write_def bus_write_core core_idles wr_spec_acia)
  then have "view (mem_write 0x8000 d m) = emit_acia [d] (view m)" by (simp add: view_def emit_acia_def)
  then show ?thesis using assms(4) unfolding assms(1) by (simp add: wr_def ACIA_DATA_def emit_acia_def)
qed

lemma wp_wait_gpu:
  assumes "view m = s\<lparr>ram := r\<rparr>" "kmode s" "\<And>m'. view m' = s\<lparr>ram := r\<rparr> \<Longrightarrow> Q m'"
  shows "wp (wait_set GPU_STATUS 0x01 m) Q"
proof -
  obtain m1 where m1: "mem_read 0x8003 m = (1, m1)" "core m1 = core m"
    using mem_read_at [OF refl, of m "0x8003"] of_view(1) [OF assms(1,2)] by (auto simp: read_mux_def is_ctrl_iff rd_spec_other)
  then show ?thesis using assms(3) [of m1] view_core [OF m1(2)] assms(1)
    by (simp add: GPU_STATUS_def wait_set.simps [of _ _ m])
qed

lemma wp_wr_gpu:
  assumes "view m = s\<lparr>ram := r\<rparr>" "kmode s" "\<And>m'. view m' = (emit_gpu [d] s)\<lparr>ram := r\<rparr> \<Longrightarrow> Q m'"
  shows "wp (wr GPU_DATA d m) Q"
proof -
  have "core (mem_write 0x8002 d m) = emit_gpu [d] (core m)"
    using mem_write_core [OF of_view(1) [OF assms(1,2)], of "0x8002" d] by (simp add: wr_spec_gpu)
  then have "view (mem_write 0x8002 d m) = emit_gpu [d] (view m)" by (simp add: view_def emit_gpu_def)
  then show ?thesis using assms(3) unfolding assms(1) by (simp add: wr_def GPU_DATA_def emit_gpu_def)
qed

end
