(* ===== verification/Bootload.thy ===== *)
theory Bootload
  imports Boot
begin

text \<open>
  The routines of the boot ROM: \<open>puts_inline\<close> prints the string behind its call and comes back behind it,
  \<open>disk_read_to_ptr\<close> copies a sector, and the loop of \<open>reset\<close> loads the kernel's sectors one behind
  the other, with the counters it keeps in the zero page.
\<close>

section \<open>Strings in the ROM\<close>

text \<open>The bytes behind a call at which \<open>jsr\<close> pushes \<open>ra\<close>, with the NUL.\<close>

definition rom_text :: "(u16 \<Rightarrow> u8) \<Rightarrow> u16 \<Rightarrow> u8 list \<Rightarrow> bool" where
  "rom_text r ra bs \<longleftrightarrow> 0x8100 \<le> unat ra \<and> unat ra + 1 + length bs < 0x10000 \<and> length bs < 255 \<and> 0 \<notin> set bs \<and>
     (\<forall>i \<le> length bs. r (ra + 1 + word_of_nat i - 0x8100) = (bs @ [0]) ! i)"

lemma wp_char:
  assumes "view m = s\<lparr>ram := r\<rparr>" "kmode s" "\<And>m'. view m' = (emit [a] s)\<lparr>ram := r(0x1FF := a)\<rparr> \<Longrightarrow> Q m'"
  shows "wp (wr 0x01FF a m) (\<lambda>m. wp (wait_set ACIA_STATUS 0x02 m) (\<lambda>m. wp (rd 0x01FF m) (\<lambda>x. wp (wr ACIA_DATA (fst x) (snd x)) (\<lambda>m.
    wp (wr 0x01FF (fst x) m) (\<lambda>m. wp (wait_set GPU_STATUS 0x01 m) (\<lambda>m. wp (rd 0x01FF m) (\<lambda>x. wp (wr GPU_DATA (fst x) (snd x)) Q)))))))"
proof -
  have k: "kmode (emit_acia [a] s)" "emit [a] s = emit_gpu [a] (emit_acia [a] s)" using assms(2) by (simp_all add: emit_def)
  show ?thesis
    apply (rule wp_wr [OF assms(1,2)], simp, simp)
    apply (rule wp_wait_acia, assumption, rule assms(2))
    apply (rule wp_rd_ready, assumption, rule assms(2), assumption, simp, simp, simp only: wpn fun_upd_same)
    apply (rule wp_wr_acia, assumption, rule assms(2), assumption)
    apply (rule wp_wr, assumption, rule k, simp, simp, simp only: fun_upd_upd)
    apply (rule wp_wait_gpu, assumption, rule k)
    apply (rule wp_rd, assumption, rule k, simp, simp, simp only: wpn fun_upd_same)
    apply (rule wp_wr_gpu, assumption, rule k)
    by (rule assms(3)) (simp add: k)
qed

text \<open>The 16-bit sum the code computes with a carry.\<close>

lemma add_with_carry:
  "lo8 (p + ucast y) = y + lo8 p" "hi8 (p + ucast y) = (if unat y + unat (lo8 p) < 256 then hi8 p else hi8 p + 1)"
proof -
  have y: "unat y < 256" and p: "unat p < 65536" using unat_u8_lt unat_lt_2p [of p] by simp_all
  have uy: "unat (ucast y :: u16) = unat y" using y by (simp add: unat_ucast_mod)
  have u: "unat (p + ucast y) = (unat p + unat y) mod 65536" unfolding unat_word_ariths(1) uy by simp
  have l: "unat (lo8 w) = unat w mod 256" for w by (simp add: lo8_def unat_ucast_mod)
  have h: "unat (hi8 w) = unat w div 256" for w
  proof -
    have "unat w div 256 < 256" using unat_lt_2p [of w] by simp
    then show ?thesis by (simp add: hi8_def unat_ucast_mod drop_bit_eq_div unat_div)
  qed
  have "(unat p + unat y) mod 65536 mod 256 = (unat p + unat y) mod 256" by (rule mod_mod_cancel) simp
  then have a: "unat (lo8 (p + ucast y)) = (unat y + unat p) mod 256" by (simp only: l u add.commute)
  have "unat (y + lo8 p) = (unat y + unat p mod 256) mod 256" unfolding l [symmetric] by (subst unat_word_ariths(1)) simp
  then show "lo8 (p + ucast y) = y + lo8 p" unfolding word_unat_eq_iff a by (simp only: mod_add_right_eq)
  let ?H = "unat p div 256" and ?L = "unat p mod 256"
  have "(unat p + unat y) mod (256 * 256) = 256 * ((unat p + unat y) div 256 mod 256) + (unat p + unat y) mod 256"
    by (rule mod_mult2_eq)
  then have m: "(unat p + unat y) mod 65536 div 256 = (unat p + unat y) div 256 mod 256" by simp
  have "unat p + unat y = ?L + unat y + ?H * 256" by simp
  then have d: "(unat p + unat y) div 256 = ?H + (?L + unat y) div 256" by (metis div_mult_self1 add.commute zero_neq_numeral)
  have c: "(?L + unat y) div 256 = (if unat y + ?L < 256 then 0 else 1)"
    using y by (auto simp: div_eq_0_iff intro!: div_nat_eqI)
  have H: "?H < 256" using p by simp
  show "hi8 (p + ucast y) = (if unat y + unat (lo8 p) < 256 then hi8 p else hi8 p + 1)"
    unfolding word_unat_eq_iff h u m d c l using H by (simp add: unat_word_ariths h)
qed

lemma wp_puts_done:
  assumes "view m = s\<lparr>ram := r\<rparr>" "kmode s" "r 0 = lo8 ra" "r 1 = hi8 ra" "nxt = ra + ucast y"
    "\<And>m'. view m' = s\<lparr>ram := r(0x1FF := hi8 nxt, 0x1FE := lo8 nxt)\<rparr> \<Longrightarrow> Q m'"
  shows "wp (puts_done nxt y m) Q"
proof -
  have c: "(if unat y + unat (r 0) < 256 then r 1 else r 1 + 1) = hi8 nxt" "y + r 0 = lo8 nxt"
    using add_with_carry [of ra y] by (simp_all add: assms(3-5))
  show ?thesis
    unfolding puts_done_def ZP_PTR_def
    apply (simp only: wpn)
    apply (rule wp_rd [OF assms(1,2)], simp, simp, simp only: wpn)
    apply (rule wp_rd [where b = 1], assumption, rule assms(2), simp, simp, simp only: wpn c)
    apply (rule wp_wr, assumption, rule assms(2), simp, simp)
    apply (rule wp_wr, assumption, rule assms(2), simp, simp)
    apply (rule wp_rts, assumption, rule assms(2), simp, simp)
    by (rule assms(6))
qed


lemma rom_char:
  assumes "rom_text R ra bs" "i \<le> length bs"
  shows "ra + ucast (word_of_nat (Suc i) :: u8) = ra + 1 + word_of_nat i" "0x8100 \<le> ra + 1 + word_of_nat i"
    "R (ra + 1 + word_of_nat i - 0x8100) = (bs @ [0]) ! i" "i < length bs \<Longrightarrow> (word_of_nat (Suc i) :: u8) + 1 \<noteq> 0"
    "i < length bs \<Longrightarrow> bs ! i \<noteq> 0"
proof -
  have l: "length bs < 255" "0x8100 \<le> unat ra" "unat ra + 1 + length bs < 0x10000" using assms(1) by (simp_all add: rom_text_def)
  have "(ucast (word_of_nat (Suc i) :: u8) :: u16) = word_of_nat (Suc i)" 
    using l(1) assms(2) by (simp add: word_unat_eq_iff unat_ucast_mod unat_of_nat del: of_nat_Suc)
  then show "ra + ucast (word_of_nat (Suc i) :: u8) = ra + 1 + word_of_nat i" by simp
  have "unat (ra + 1 + word_of_nat i) = unat ra + 1 + i"
    using l assms(2) by (simp add: unat_word_ariths unat_of_nat)
  then show "0x8100 \<le> ra + 1 + word_of_nat i" using l(2) by (simp add: word_le_nat_alt)
  show "R (ra + 1 + word_of_nat i - 0x8100) = (bs @ [0]) ! i" using assms by (simp add: rom_text_def)
  have "unat ((word_of_nat (Suc i) :: u8) + 1) = Suc (Suc i)" if "i < length bs"
    using that l(1) by (simp add: unat_word_ariths unat_of_nat del: of_nat_Suc)
  then show "i < length bs \<Longrightarrow> (word_of_nat (Suc i) :: u8) + 1 \<noteq> 0" by (auto simp del: of_nat_Suc)
  show "i < length bs \<Longrightarrow> bs ! i \<noteq> 0" using assms(1) by (metis nth_mem rom_text_def)
qed

lemma wp_puts_loop:
  assumes "rom_text R ra bs" "nxt = ra + 1 + word_of_nat (length bs)"
  shows "view m = s\<lparr>ram := r\<rparr> \<Longrightarrow> kmode s \<Longrightarrow> rom s = R \<Longrightarrow> r 0 = lo8 ra \<Longrightarrow> r 1 = hi8 ra \<Longrightarrow> i \<le> length bs \<Longrightarrow>
    wp (puts_loop nxt (word_of_nat (Suc i)) m) (\<lambda>m'. view m' = (emit (drop i bs) s)\<lparr>ram := r(0x1FF := hi8 nxt, 0x1FE := lo8 nxt)\<rparr>)"
proof (induction "length bs - i" arbitrary: i m s r)
  case 0
  then have i: "i = length bs" by simp
  note c = rom_char [OF assms(1) order.refl]
  have ra: "le16 (r 0) (r (0 + 1)) = ra" using "0.prems" by simp
  have z: "rom s (ra + 1 + word_of_nat (length bs) - 0x8100) = 0" using c(3) "0.prems"(3) by simp
  show ?case
    unfolding i
    apply (subst puts_loop.simps, simp only: wpn ZP_PTR_def)
    apply (rule wp_rd16 [OF "0.prems"(1,2)], simp, simp, simp only: wpn ra c(1))
    apply (rule wp_rd_rom, assumption, rule "0.prems"(2), rule c(2), simp only: wpn z if_True simp_thms)
    apply (rule wp_puts_done, assumption, rule "0.prems"(2), rule "0.prems"(4), rule "0.prems"(5), simp only: assms(2) c(1))
    by simp
next
  case (Suc n)
  then have i: "i < length bs" by simp
  note c = rom_char [OF assms(1) Suc.prems(6)]
  have ra: "le16 (r 0) (r (0 + 1)) = ra" using Suc.prems by simp
  have v: "rom s (ra + 1 + word_of_nat i - 0x8100) = bs ! i" using c(3) i Suc.prems(3) by (simp add: nth_append)
  have y: "(word_of_nat (Suc i) :: u8) + 1 = word_of_nat (Suc (Suc i))" by simp
  have ny: "(word_of_nat (Suc (Suc i)) :: u8) \<noteq> 0" using c(4) [OF i] unfolding y .
  have d: "drop i bs = bs ! i # drop (Suc i) bs" by (rule Cons_nth_drop_Suc [OF i, symmetric])
  have n: "n = length bs - Suc i" "Suc i \<le> length bs" using Suc.hyps(2) i by simp_all
  have k: "kmode (emit [bs ! i] s)" "rom (emit [bs ! i] s) = R" using Suc.prems(2,3) by simp (simp add: emit_def emit_acia_def emit_gpu_def Suc.prems(3))
  let ?r = "r(0x1FF := bs ! i)"
  have r: "?r 0 = lo8 ra" "?r 1 = hi8 ra" using Suc.prems(4,5) by simp_all
  show ?case
    apply (subst puts_loop.simps, simp only: wpn ZP_PTR_def)
    apply (rule wp_rd16 [OF Suc.prems(1,2)], simp, simp, simp only: wpn ra c(1))
    apply (rule wp_rd_rom, assumption, rule Suc.prems(2), rule c(2), simp only: wpn v c(5) [OF i] if_False)
    apply (rule wp_char, assumption, rule Suc.prems(2), simp only: y ny not_False_eq_True if_True)
    apply (rule wp_mono, rule Suc.hyps(1) [OF n(1) _ k r n(2)], assumption)
    by (simp only: d emit_append append_Cons append_Nil fun_upd_upd)
qed

lemma wp_puts_inline:
  assumes "view m = s\<lparr>ram := r\<rparr>" "kmode s" "rom_text (rom s) ra bs" "nxt = ra + 1 + word_of_nat (length bs)"
    "\<And>m'. view m' = (emit bs s)\<lparr>ram := r(0 := lo8 ra, 1 := hi8 ra, 0x1FF := hi8 nxt, 0x1FE := lo8 nxt)\<rparr> \<Longrightarrow> Q m'"
  shows "wp (puts_inline ra nxt m) Q"
proof -
  let ?r = "r(0x1FF := hi8 ra, 0x1FE := lo8 ra, 0 := lo8 ra, 1 := hi8 ra)"
  have r: "?r 0 = lo8 ra" "?r 1 = hi8 ra" by simp_all
  have e: "?r(0x1FF := hi8 nxt, 0x1FE := lo8 nxt) = r(0 := lo8 ra, 1 := hi8 ra, 0x1FF := hi8 nxt, 0x1FE := lo8 nxt)"
    by (simp add: fun_eq_iff)
  have ff: "(r(0x1FF := hi8 ra, 0x1FE := lo8 ra, 0 := lo8 ra)) 0x1FF = hi8 ra" by simp
  have one: "word_of_nat (Suc 0) = (1 :: u8)" by simp
  have L: "wp (puts_loop nxt 1 m1) (\<lambda>m'. view m' = (emit bs s)\<lparr>ram := ?r(0x1FF := hi8 nxt, 0x1FE := lo8 nxt)\<rparr>)"
    if "view m1 = s\<lparr>ram := ?r\<rparr>" for m1
    using wp_puts_loop [OF assms(3,4) that assms(2) refl r, of 0, unfolded drop_0 one, OF le0] .
  show ?thesis
    unfolding puts_inline_def ZP_PTR_def
    apply (simp only: wpn)
    apply (rule wp_jsr [OF assms(1,2)])
    apply (rule wp_rd, assumption, rule assms(2), simp, simp, simp only: wpn fun_upd_same)
    apply (rule wp_wr, assumption, rule assms(2), simp, simp)
    apply (rule wp_rd [where b = "0x1FF"], assumption, rule assms(2), simp, simp, simp only: wpn)
    apply (rule wp_wr [where b = 1], assumption, rule assms(2), simp, simp, simp only: ff)
    apply (rule wp_mono, rule L, assumption)
    by (rule assms(5)) (simp add: e)
qed

lemma wp_say:
  assumes "view m = s\<lparr>ram := r\<rparr>" "kmode s" "rom_text (rom s) ra (map of_char t)" "nxt = ra + 1 + word_of_nat (length t)"
    "\<And>m'. view m' = (emit (map of_char t) s)\<lparr>ram := r(0 := lo8 ra, 1 := hi8 ra, 0x1FF := hi8 nxt, 0x1FE := lo8 nxt)\<rparr> \<Longrightarrow> Q m'"
  shows "wp (say ra t m) Q"
  unfolding say_def by (rule wp_puts_inline [OF assms(1-3)]) (simp_all add: assms(4) [symmetric] assms(5))

section \<open>Reading a sector\<close>

text \<open>Within a transfer the controller's pointer counts, so these rules are about \<open>core\<close>.\<close>

lemma of_core:
  assumes "core m = s\<lparr>ram := r\<rparr>" "kmode s"
  shows "kmode m" "ram m = r" "kmode (s\<lparr>ram := r\<rparr>)"
proof -
  show k: "kmode (s\<lparr>ram := r\<rparr>)" using assms(2) by simp
  then show "kmode m" using kmode_core [of m] unfolding assms(1) by blast
  show "ram m = r" using core_fields(1) [of m] unfolding assms(1) by simp
qed

lemma core_rd:
  assumes "core m = s\<lparr>ram := r\<rparr>" "kmode s" "a < 0x8000" "ucast a = b" "\<And>m'. core m' = s\<lparr>ram := r\<rparr> \<Longrightarrow> Q (r b, m')"
  shows "wp (rd a m) Q"
proof -
  obtain m' where "mem_read a m = (r (ucast a), m')" "core m' = s\<lparr>ram := r\<rparr>"
    using mem_read_ram [OF assms(1) of_core(3) [OF assms(1,2)] assms(3)] by auto
  then show ?thesis using assms(5) [of m'] assms(4) by (simp add: rd_def)
qed

lemma core_rd_data:
  assumes "core m = s\<lparr>ram := r\<rparr>" "kmode s"
    "\<And>m'. core m' = s\<lparr>disk_dptr := word_of_nat (min (Suc (unat (disk_dptr s))) 511), ram := r\<rparr> \<Longrightarrow> Q (disk_buf s (disk_dptr s), m')"
  shows "wp (rd DISK_DATA m) Q"
proof -
  obtain m' where m': "mem_read 0x80E6 m = (disk_buf s (disk_dptr s), m')" "core m' = rd_spec 0x80E6 (s\<lparr>ram := r\<rparr>)"
    using mem_read_at [OF assms(1) of_core(3) [OF assms(1,2)], of "0x80E6"] by auto
  then have "core m' = s\<lparr>disk_dptr := word_of_nat (min (Suc (unat (disk_dptr s))) 511), ram := r\<rparr>" by (simp add: rd_spec_data)
  then show ?thesis using assms(3) m'(1) by (simp add: rd_def DISK_DATA_def)
qed

lemma core_wr:
  assumes "core m = s\<lparr>ram := r\<rparr>" "kmode s" "a < 0x8000" "ucast a = b" "\<And>m'. core m' = s\<lparr>ram := r(b := d)\<rparr> \<Longrightarrow> Q m'"
  shows "wp (wr a d m) Q"
proof -
  have "core (mem_write a d m) = s\<lparr>ram := r(b := d)\<rparr>"
    using mem_write_ram [OF assms(1) of_core(3) [OF assms(1,2)] assms(3), of d] assms(4) by simp
  then show ?thesis using assms(5) by (simp add: wr_def)
qed

lemma core_rd16:
  assumes "core m = s\<lparr>ram := r\<rparr>" "kmode s" "le16 (r 0) (r 1) = p" "\<And>m'. core m' = s\<lparr>ram := r\<rparr> \<Longrightarrow> Q (p, m')"
  shows "wp (rd16 ZP_PTR m) Q"
  unfolding rd16_def wpn ZP_PTR_def
  by (rule core_rd [OF assms(1,2)], simp, simp, simp only: wpn, rule core_rd [where b = 1, OF _ assms(2)], assumption, simp, simp,
      simp only: wpn assms(3), rule assms(4))

lemma core_inc_hi:
  assumes "core m = s\<lparr>ram := r\<rparr>" "kmode s" "\<And>m'. core m' = s\<lparr>ram := r(1 := r 1 + 1)\<rparr> \<Longrightarrow> Q (r 1 + 1, m')"
  shows "wp (inc_zp (ZP_PTR + 1) m) Q"
  unfolding inc_zp_def wpn ZP_PTR_def
  by (rule core_rd [where b = 1, OF assms(1,2)], simp, simp, simp only: wpn, rule core_wr [where b = 1, OF _ assms(2)], assumption, simp, simp, rule assms(3))

lemma page_addr:
  fixes p :: u16 and y :: u8
  assumes "unat p + 256 \<le> 32768"
  shows "p + ucast y < 0x8000" "ucast (p + ucast y) = (word_of_nat (unat p + unat y) :: 15 word)"
proof -
  have "ucast y = (word_of_nat (unat y) :: u16)" by simp
  then show "p + ucast y < 0x8000" "ucast (p + ucast y) = (word_of_nat (unat p + unat y) :: 15 word)"
    using ucast15_plus [of p "unat y"] assms unat_u8_lt [of y] by simp_all
qed

text \<open>From byte \<open>y\<close> to the end of a page.\<close>

lemma wp_page:
  assumes "core m = s\<lparr>ram := r\<rparr>" "kmode s" "r 0 = lo8 p" "r 1 = hi8 p" "2 \<le> unat p" "unat p + 256 \<le> 32768"
    "n = 256 - unat y" "unat (disk_dptr s) + n \<le> 512" "bs = map (\<lambda>i. disk_buf s (word_of_nat i)) [unat (disk_dptr s)..<unat (disk_dptr s) + n]"
    "\<And>m'. core m' = s\<lparr>disk_dptr := word_of_nat (min (unat (disk_dptr s) + n) 511), ram := (blit (unat p + unat y) bs r)(1 := hi8 p + 1)\<rparr> \<Longrightarrow>
      wp (if x - 1 \<noteq> 0 then pg_loop 0 (x - 1) m' else Some m') Q"
  shows "wp (pg_loop y x m) Q"
  using assms
proof (induction n arbitrary: y m s r bs)
  case 0
  then show ?case using unat_u8_lt [of y] by simp
next
  case (Suc n)
  let ?d = "disk_dptr s" and ?q = "unat p + unat y"
  let ?v = "disk_buf s ?d"
  let ?s1 = "s\<lparr>disk_dptr := word_of_nat (min (Suc (unat ?d)) 511)\<rparr>"
  note k = Suc.prems(2) and a = page_addr [OF Suc.prems(6), of y]
  have k1: "kmode ?s1" using k by simp
  have pt: "le16 (r 0) (r 1) = p" using Suc.prems(3,4) by simp
  have q: "?q < 32768" "2 \<le> ?q" using Suc.prems(5,6) unat_u8_lt [of y] by simp_all
  have B: "r(word_of_nat ?q := ?v) = blit ?q [?v] r" by (rule fun_upd_blit [OF q(1)])
  have z: "blit ?q cs r 0 = r 0" "blit ?q cs r 1 = r 1" for cs
    using q(2) by (auto simp: blit_def)
  have L: "bs = ?v # map (\<lambda>i. disk_buf s (word_of_nat i)) [Suc (unat ?d)..<Suc (unat ?d) + n]"
    using Suc.prems(9) by (simp add: upt_conv_Cons del: upt_Suc)
  show ?case
  proof (cases "y + 1 = 0")
    case True
    then have n: "n = 0" using Suc.prems(7) unat_last8 [OF True] by simp
    have e: "(blit ?q [?v] r)(1 := blit ?q [?v] r 1 + 1) = (blit ?q bs r)(1 := hi8 p + 1)" using L n z Suc.prems(4) by simp
    show ?thesis
      apply (subst pg_loop.simps, simp only: wpn)
      apply (rule core_rd_data [OF Suc.prems(1,2)], simp only: wpn)
      apply (rule core_rd16 [OF _ k1 pt], assumption, simp only: wpn)
      apply (rule core_wr [OF _ k1 a], assumption, simp only: True simp_thms if_False wpn B)
      apply (rule core_inc_hi [OF _ k1], assumption, simp only: wpn e)
      by (rule Suc.prems(10)) (simp only: n add_Suc_right add_0_right)
  next
    case False
    have uy: "unat (y + 1) = Suc (unat y)" by (rule unat_plus_one8 [OF False])
    have n: "n = 256 - unat (y + 1)" "0 < n" using Suc.prems(7) uy unat_u8_lt [of "y + 1"] by simp_all
    have dn: "unat (disk_dptr ?s1) = Suc (unat ?d)" using Suc.prems(8) n(2) unat_dptr [of "Suc (unat ?d)"] by simp
    have r: "blit ?q [?v] r 0 = lo8 p" "blit ?q [?v] r 1 = hi8 p" using z Suc.prems(3,4) by simp_all
    have B2: "blit (unat p + unat (y + 1)) cs (blit ?q [?v] r) = blit ?q (?v # cs) r" for cs
      using blit_blit_append [of ?q "[?v]" "Suc ?q" cs r] uy by simp
    have I: "wp (pg_loop (y + 1) x m1) Q" if "core m1 = ?s1\<lparr>ram := blit ?q [?v] r\<rparr>" for m1
      apply (rule Suc.IH [OF that k1 r Suc.prems(5,6) n(1) _ refl])
      subgoal using Suc.prems(8) dn by simp
      by (rule Suc.prems(10)) (simp only: dn B2 L, simp)
    show ?thesis
      apply (subst pg_loop.simps, simp only: wpn)
      apply (rule core_rd_data [OF Suc.prems(1,2)], simp only: wpn)
      apply (rule core_rd16 [OF _ k1 pt], assumption, simp only: wpn)
      apply (rule core_wr [OF _ k1 a], assumption, simp only: False simp_thms if_True wpn B)
      by (rule I)
  qed
qed


lemma next_page:
  assumes "unat p + 256 < 65536"
  shows "unat (p + 0x100) = unat p + 256" "lo8 (p + 0x100) = lo8 p" "hi8 (p + 0x100) = hi8 p + (1 :: u8)"
proof -
  show u: "unat (p + 0x100) = unat p + 256" using assms by (simp add: unat_word_ariths)
  have l: "unat (lo8 w) = unat w mod 256" for w by (simp add: lo8_def unat_ucast_mod)
  have h: "unat (hi8 w) = unat w div 256 mod 256" for w by (simp add: hi8_def unat_ucast_mod drop_bit_eq_div unat_div)
  show "lo8 (p + 0x100) = lo8 p" unfolding word_unat_eq_iff l u by simp
  have "unat (hi8 p + 1) = (unat (hi8 p) + 1) mod 256" by (simp add: unat_word_ariths)
  moreover have "(unat p + 256) div 256 = Suc (unat p div 256)" by simp
  ultimately show "hi8 (p + 0x100) = hi8 p + 1" unfolding word_unat_eq_iff h u by (simp only: mod_Suc_eq Suc_eq_plus1 mod_add_left_eq)
qed

lemma blit_hi:
  assumes "2 \<le> q"
  shows "(blit q bs (r(1 := v)))(1 := w) = (blit q bs r)(1 := w)"
  using assms by (auto simp: blit_def fun_eq_iff)

text \<open>The pages of one sector, with the disk's data in \<open>disk_buf s\<close>.\<close>

lemma wp_two_pages:
  assumes "core m = s\<lparr>disk_dptr := 0, ram := r\<rparr>" "kmode s" "r 0 = lo8 p" "r 1 = hi8 p" "2 \<le> unat p" "unat p + 512 \<le> 32768"
    "\<And>m'. core m' = s\<lparr>disk_dptr := 511, ram := (blit (unat p) (buf_bytes (disk_buf s)) r)(1 := hi8 p + 2)\<rparr> \<Longrightarrow> Q m'"
  shows "wp (pg_loop 0 2 m) Q"
proof -
  define bs1 where "bs1 = map (\<lambda>i. disk_buf s (word_of_nat i)) [0..<256]"
  define bs2 where "bs2 = map (\<lambda>i. disk_buf s (word_of_nat i)) [256..<512]"
  let ?p = "p + 0x100" and ?s0 = "s\<lparr>disk_dptr := 0\<rparr>" and ?s1 = "s\<lparr>disk_dptr := 256\<rparr>"
  let ?r1 = "(blit (unat p) bs1 r)(1 := hi8 p + 1)"
  have "unat p + 256 < 65536" using assms(6) by simp
  note n = next_page [OF this]
  have k: "kmode ?s0" "kmode ?s1" using assms(2) by simp_all
  have p: "unat p + 256 \<le> 32768" "2 \<le> unat ?p" "unat ?p + 256 \<le> 32768" using assms(5,6) n(1) by simp_all
  have z: "?r1 0 = lo8 ?p" "?r1 1 = hi8 ?p" using assms(3,5) n by (auto simp: blit_def)
  have bb: "buf_bytes (disk_buf s) = bs1 @ bs2" and l: "length bs1 = 256"
    using upt_add_eq_append [of 0 256 256] by (simp_all add: buf_bytes_def bs1_def bs2_def)
  have q: "2 \<le> unat p + 256" by simp
  have R: "(blit (unat ?p + unat (0 :: u8)) bs2 ?r1)(1 := hi8 ?p + 1) = (blit (unat p) (buf_bytes (disk_buf s)) r)(1 := hi8 p + 2)"
    unfolding n bb unat_0 add_0_right blit_hi [OF q] by (subst blit_blit_append) (simp_all add: l add.assoc)
  have d0: "256 = 256 - unat (0 :: u8)" "unat (disk_dptr ?s0) + 256 \<le> 512" "bs1 = map (\<lambda>i. disk_buf ?s0 (word_of_nat i)) [unat (disk_dptr ?s0)..<unat (disk_dptr ?s0) + 256]"
    by (simp_all add: bs1_def)
  have d1: "unat (disk_dptr ?s1) + 256 \<le> 512" "bs2 = map (\<lambda>i. disk_buf ?s1 (word_of_nat i)) [unat (disk_dptr ?s1)..<unat (disk_dptr ?s1) + 256]"
    by (simp_all add: bs2_def)
  have second: "wp (pg_loop 0 1 m1) Q" if c: "core m1 = ?s1\<lparr>ram := ?r1\<rparr>" for m1
  proof (rule wp_page [OF c k(2) z p(2,3) d0(1) d1])
    fix m'
    assume "core m' = ?s1\<lparr>disk_dptr := word_of_nat (min (unat (disk_dptr ?s1) + 256) 511), ram := (blit (unat ?p + unat (0 :: u8)) bs2 ?r1)(1 := hi8 ?p + 1)\<rparr>"
    then show "wp (if (1 :: u8) - 1 \<noteq> 0 then pg_loop 0 (1 - 1) m' else Some m') Q"
      unfolding R by simp (rule assms(7), simp)
  qed
  have c0: "core m = ?s0\<lparr>ram := r\<rparr>" using assms(1) .
  show ?thesis
  proof (rule wp_page [OF c0 k(1) assms(3,4,5) p(1) d0])
    fix m'
    assume "core m' = ?s0\<lparr>disk_dptr := word_of_nat (min (unat (disk_dptr ?s0) + 256) 511), ram := (blit (unat p + unat (0 :: u8)) bs1 r)(1 := hi8 p + 1)\<rparr>"
    then show "wp (if (2 :: u8) - 1 \<noteq> 0 then pg_loop 0 (2 - 1) m' else Some m') Q"
      using second [of m'] by simp
  qed
qed

text \<open>\<open>disk_read_to_ptr\<close>, with a disk: the sector whose number is in the controller comes to where \<open>ZP_PTR\<close> points.\<close>

lemma wp_disk_read:
  assumes "view m = s\<lparr>ram := r\<rparr>" "kmode s" "r 0 = lo8 p" "r 1 = hi8 p" "0x200 \<le> unat p" "unat p + 512 \<le> 32768"
    "r 0x1FE = lo8 ra" "r 0x1FF = hi8 ra" "disk_img s = Some img" "lba_ok (disk_lba s)"
    "\<And>m'. view m' = s\<lparr>ram := blit (unat p) (sector_of img (disk_lba s)) r\<rparr> \<Longrightarrow> Q m'"
  shows "wp (disk_read_to_ptr ra m) Q"
proof -
  let ?c = "core m"
  let ?s1 = "disk_do_read ?c" and ?bs = "sector_of img (disk_lba s)"
  note v = of_view [OF assms(1,2)]
  have i: "disk_img m = Some img" using arg_cong [OF assms(1), of disk_img] assms(9) by (simp add: view_def)
  have k: "kmode ?c" "kmode ?s1" and b: "\<not> disk_busy ?s1" using v(1) by simp_all
  have bb: "buf_bytes (disk_buf ?s1) = ?bs"
  proof -
    have "?c\<lparr>disk_lba := disk_lba ?c\<rparr> = ?c" by simp
    then have "?c\<lparr>disk_lba := disk_lba s\<rparr> = ?c" using v(4) by simp
    then show ?thesis using buf_bytes_read [OF assms(10), of ?c img] i by simp
  qed
  have c1: "core (mem_write DISK_CMD CMD_READ m) = ?s1"
    using mem_write_at [OF refl k(1), of "0x80E4" 1] by (simp add: disk_regs wr_spec_cmd)
  obtain m2 where m2: "wait_clear DISK_STATUS STATUS_BUSY (mem_write DISK_CMD CMD_READ m) = Some m2" "core m2 = ?s1"
    using wait_disk [OF c1 k(2) b] by (auto simp: runs_def)
  have rs: "ram ?s1 = r" using v(2) by (simp add: disk_do_read_def Let_def split: option.splits)
  have c3: "core (mem_write DISK_DPTR 0 m2) = ?s1\<lparr>disk_dptr := 0, ram := r\<rparr>"
    using mem_write_at [OF m2(2) k(2), of "0x80E7" 0] by (simp add: disk_regs wr_spec_cmd rs [symmetric])
  let ?r2 = "(blit (unat p) ?bs r)(1 := hi8 p + 2)"
  have fin: "view m' = s\<lparr>ram := R\<rparr>" if "core m' = ?s1\<lparr>disk_dptr := 511, ram := R\<rparr>" for m' R
  proof -
    have "view m' = (view m)\<lparr>ram := R\<rparr>" using i by (simp add: view_def that disk_do_read_def Let_def)
    then show ?thesis unfolding assms(1) by simp
  qed
  have R: "?r2(1 := ?r2 1 - 1, 1 := (?r2(1 := ?r2 1 - 1)) 1 - 1) = blit (unat p) ?bs r"
    using assms(4,5) by (auto simp: fun_eq_iff blit_def)
  have st: "blit (unat p) ?bs r 0x1FE = lo8 ra" "blit (unat p) ?bs r 0x1FF = hi8 ra" using assms(5,7,8) by (auto simp: blit_def)
  have p2: "2 \<le> unat p" using assms(5) by simp
  show ?thesis
    unfolding disk_read_to_ptr_def wpn wr_def m2(1)
  proof (rule wp_two_pages [OF c3 k(2) assms(3,4) p2 assms(6), unfolded bb])
    fix m4
    assume "core m4 = ?s1\<lparr>disk_dptr := 511, ram := ?r2\<rparr>"
    then have m4: "view m4 = s\<lparr>ram := ?r2\<rparr>" by (rule fin)
    show "wp (dec_zp (ZP_PTR + 1) m4) (\<lambda>x. wp (dec_zp (ZP_PTR + 1) x) (\<lambda>x. wp (rts ra x) Q))"
      unfolding ZP_PTR_def
      apply (rule wp_dec_zp [where b = 1, OF m4 assms(2)], simp, simp)
      apply (rule wp_dec_zp [where b = 1, OF _ assms(2)], assumption, simp, simp, simp only: R)
      apply (rule wp_rts [OF _ assms(2) st], assumption)
      by (rule assms(11))
  qed
qed

section \<open>Numbers in the zero page\<close>

definition le32 :: "u8 \<Rightarrow> u8 \<Rightarrow> u8 \<Rightarrow> u8 \<Rightarrow> u32" where
  "le32 a b c d = ucast a OR push_bit 8 (ucast b) OR push_bit 16 (ucast c) OR push_bit 24 (ucast d)"

lemma get_byte_le32 [simp]:
  "get_byte 0 (le32 a b c d) = a" "get_byte 1 (le32 a b c d) = b" "get_byte 2 (le32 a b c d) = c" "get_byte 3 (le32 a b c d) = d"
  by (rule bit_word_eqI; auto simp: le32_def get_byte_def bit_simps dest: bit_imp_le_length)+

lemma le32_bytes: "le32 (get_byte 0 w) (get_byte 1 w) (get_byte 2 w) (get_byte 3 w) = w"
proof (rule bit_word_eqI)
  fix n
  assume "n < LENGTH(32)"
  then consider "n < 8" | "8 \<le> n" "n < 16" | "16 \<le> n" "n < 24" | "24 \<le> n" "n < 32" by fastforce
  then show "bit (le32 (get_byte 0 w) (get_byte 1 w) (get_byte 2 w) (get_byte 3 w)) n = bit w n"
    by cases (auto simp: le32_def get_byte_def bit_simps)
qed

lemma le32_sum: "le32 a b c d = ucast a + 0x100 * ucast b + 0x10000 * ucast c + 0x1000000 * ucast d"
proof -
  have "le32 a b c d = ucast a + push_bit 8 (ucast b) + push_bit 16 (ucast c) + push_bit 24 (ucast d)"
    unfolding le32_def or.assoc
    by (subst disjunctive_add [symmetric], auto simp: bit_simps dest: bit_imp_le_length)+ 
  then show ?thesis by (simp add: push_bit_eq_mult mult.commute)
qed


lemma ucast_up_inc: "(a :: u8) + 1 \<noteq> 0 \<Longrightarrow> ucast (a + 1) = (ucast a + 1 :: u32)"
  using unat_plus_one8 [of a] unat_u8_lt [of a] by (simp add: word_unat_eq_iff unat_ucast_mod unat_word_ariths)

lemma ucast_up_last: "(a :: u8) + 1 = 0 \<Longrightarrow> ucast a = (0xFF :: u32)"
  using unat_last8 [of a] by (simp add: word_unat_eq_iff unat_ucast_mod)

lemma le32_inc:
  "le32 a b c d + 1 =
     (if a + 1 \<noteq> 0 then le32 (a + 1) b c d
      else if b + 1 \<noteq> 0 then le32 (a + 1) (b + 1) c d
      else if c + 1 \<noteq> 0 then le32 (a + 1) (b + 1) (c + 1) d
      else le32 (a + 1) (b + 1) (c + 1) (d + 1))"
proof -
  have z: "ucast (x + 1) = (0 :: u32)" if "x + 1 = 0" for x :: u8 using that by simp
  have d: "0x1000000 * ucast (d + 1) = (0x1000000 * ucast d + 0x1000000 :: u32)"
  proof (cases "d + 1 = 0")
    case True
    then show ?thesis using z ucast_up_last by simp
  qed (simp add: ucast_up_inc distrib_left)
  show ?thesis
    unfolding le32_sum
    by (cases "a + 1 = 0"; cases "b + 1 = 0"; cases "c + 1 = 0")
      (simp_all add: z ucast_up_last ucast_up_inc d distrib_left)
qed

lemma le16_sum: "le16 l h = ucast l + 0x100 * ucast h"
proof -
  have "le16 l h = ucast l + push_bit 8 (ucast h)"
    unfolding le16_def by (subst disjunctive_add [symmetric]) (auto simp: bit_simps dest: bit_imp_le_length)
  then show ?thesis by (simp add: push_bit_eq_mult mult.commute)
qed

lemma ucast_down_one: "(a :: u8) \<noteq> 0 \<Longrightarrow> ucast (a - 1) = (ucast a - 1 :: u16)"
proof -
  assume a: "a \<noteq> 0"
  then have "unat (a - 1) = unat a - 1" "1 \<le> unat a" by (simp_all add: unat_minus_one unat_gt_0 Suc_leI)
  then show ?thesis using unat_u8_lt [of a] by (simp add: word_unat_eq_iff unat_ucast_mod unat_sub_if')
qed

lemma le16_dec: "le16 l h - 1 = (if l \<noteq> 0 then le16 (l - 1) h else le16 (l - 1) (h - 1))"
proof -
  have m: "ucast (- 1 :: u8) = (0xFF :: u16)" by (simp add: word_unat_eq_iff unat_ucast_mod unat_m1_8)
  show ?thesis
  proof (cases "l = 0")
    case l: True
    show ?thesis
    proof (cases "h = 0")
      case True
      then show ?thesis using l m by (simp add: le16_sum)
    next
      case False
      then show ?thesis using l m by (simp add: le16_sum ucast_down_one right_diff_distrib)
    qed
  qed (simp add: le16_sum ucast_down_one)
qed

lemma le16_zero: "l OR h = 0 \<longleftrightarrow> le16 l h = 0"
proof -
  have "le16 0 0 = 0" by (simp add: le16_def)
  then have "le16 l h = 0 \<longleftrightarrow> l = 0 \<and> h = 0" using le16_inject [of l h 0 0] by simp
  then show ?thesis by (simp add: or_eq_0_iff)
qed

text \<open>The LBA in \<open>ZP_LBA\<close>, as a number.\<close>

definition zp_lba :: "(15 word \<Rightarrow> u8) \<Rightarrow> u32" where
  "zp_lba r = le32 (r 4) (r 5) (r 6) (r 7)"

lemma wp_set_lba:
  assumes "view m = s\<lparr>ram := r\<rparr>" "kmode s" "\<And>m'. view m' = s\<lparr>disk_lba := zp_lba r, ram := r\<rparr> \<Longrightarrow> Q m'"
  shows "wp (move4 ZP_LBA DISK_LBA0 m) Q"
proof -
  let ?s1 = "s\<lparr>disk_lba := set_byte 0 (disk_lba s) (r 4)\<rparr>"
  let ?s2 = "s\<lparr>disk_lba := set_byte 1 (disk_lba ?s1) (r 5)\<rparr>"
  let ?s3 = "s\<lparr>disk_lba := set_byte 2 (disk_lba ?s2) (r 6)\<rparr>"
  have k: "kmode ?s1" "kmode ?s2" "kmode ?s3" using assms(2) by simp_all
  have l: "set_byte 3 (disk_lba ?s3) (r 7) = zp_lba r"
    using set_byte_lba [of "disk_lba s" "zp_lba r"] get_byte_le32 [of "r 4" "r 5" "r 6" "r 7"] by (simp add: zp_lba_def get_byte_def)
  show ?thesis
    unfolding move4_def move_byte_def wpn ZP_LBA_def DISK_LBA0_def
    apply (rule wp_rd [where b = 4, OF assms(1,2)], simp, simp, simp only: wpn)
    apply (rule wp_lba [where i = 0, OF _ assms(2)], assumption, simp)
    apply (rule wp_rd [where b = 5, OF _ k(1)], assumption, simp, simp, simp only: wpn)
    apply (rule wp_lba [where i = 1, OF _ k(1)], assumption, simp)
    apply (rule wp_rd [where b = 6 and s = ?s2, OF _ k(2)], simp, simp, simp, simp only: wpn)
    apply (rule wp_lba [where i = 2, OF _ k(2)], assumption, simp)
    apply (rule wp_rd [where b = 7 and s = ?s3, OF _ k(3)], simp, simp, simp, simp only: wpn)
    apply (rule wp_lba [where i = 3, OF _ k(3)], assumption, simp)
    by (rule assms(3)) (simp add: l [simplified])
qed

lemma wp_inc_lba:
  assumes "view m = s\<lparr>ram := r\<rparr>" "kmode s"
    "\<And>m' r'. view m' = s\<lparr>ram := r'\<rparr> \<Longrightarrow> zp_lba r' = zp_lba r + 1 \<Longrightarrow> (\<forall>a. a \<notin> {4, 5, 6, 7} \<longrightarrow> r' a = r a) \<Longrightarrow> Q m'"
  shows "wp (inc_lba m) Q"
proof -
  note i = le32_inc [of "r 4" "r 5" "r 6" "r 7", folded zp_lba_def]
  have f: "(r(4 := v)) 5 = r 5" "(r(4 := v, 5 := w)) 6 = r 6" "(r(4 := v, 5 := w, 6 := x)) 7 = r 7" for v w x by simp_all
  have q4: "wp (Some m') Q" if "view m' = s\<lparr>ram := r(4 := 0, 5 := 0, 6 := 0, 7 := r 7 + 1)\<rparr>" "r 4 + 1 = 0" "r 5 + 1 = 0" "r 6 + 1 = 0" for m'
    unfolding wpn by (rule assms(3) [OF that(1)]) (use i that in \<open>simp_all add: zp_lba_def\<close>)
  have q3: "wp (Some m') Q" if "view m' = s\<lparr>ram := r(4 := 0, 5 := 0, 6 := r 6 + 1)\<rparr>" "r 4 + 1 = 0" "r 5 + 1 = 0" "r 6 + 1 \<noteq> 0" for m'
    unfolding wpn by (rule assms(3) [OF that(1)]) (use i that in \<open>simp_all add: zp_lba_def\<close>)
  have q2: "wp (Some m') Q" if "view m' = s\<lparr>ram := r(4 := 0, 5 := r 5 + 1)\<rparr>" "r 4 + 1 = 0" "r 5 + 1 \<noteq> 0" for m'
    unfolding wpn by (rule assms(3) [OF that(1)]) (use i that in \<open>simp_all add: zp_lba_def\<close>)
  have q1: "wp (Some m') Q" if "view m' = s\<lparr>ram := r(4 := r 4 + 1)\<rparr>" "r 4 + 1 \<noteq> 0" for m'
    unfolding wpn by (rule assms(3) [OF that(1)]) (use i that in \<open>simp_all add: zp_lba_def\<close>)
  have step: "wp (if b then x else y) Q" if "b \<Longrightarrow> wp x Q" "\<not> b \<Longrightarrow> wp y Q" for b and x y :: "machine option" using that by simp
  show ?thesis
    unfolding inc_lba_def wpn ZP_LBA_def
    apply (rule wp_inc_zp [where b = 4, OF assms(1,2)], simp, simp, simp only: wpn)
    apply (rule step, rule q1, assumption, assumption, simp only: wpn not_not)
    apply (rule wp_inc_zp [where b = 5, OF _ assms(2)], assumption, simp, simp, simp only: f wpn)
    apply (rule step, rule q2, assumption, assumption, assumption, simp only: wpn not_not)
    apply (rule wp_inc_zp [where b = 6, OF _ assms(2)], assumption, simp, simp, simp only: f wpn)
    apply (rule step, rule q3, assumption, assumption, assumption, assumption, simp only: wpn not_not)
    apply (rule wp_inc_zp [where b = 7, OF _ assms(2)], assumption, simp, simp, simp only: f wpn)
    by (rule q4 [unfolded wpn])
qed

lemma wp_dec_count:
  assumes "view m = s\<lparr>ram := r\<rparr>" "kmode s"
    "\<And>m' r'. view m' = s\<lparr>ram := r'\<rparr> \<Longrightarrow> le16 (r' 2) (r' 3) = le16 (r 2) (r 3) - 1 \<Longrightarrow> (\<forall>a. a \<notin> {2, 3} \<longrightarrow> r' a = r a) \<Longrightarrow> Q m'"
  shows "wp (dec_count m) Q"
proof -
  have last: "wp (dec_zp ZP_COUNT m1) Q" if "view m1 = s\<lparr>ram := r1\<rparr>" "r1 = r \<and> r 2 \<noteq> 0 \<or> r1 = r(3 := r 3 - 1) \<and> r 2 = 0" for m1 r1
    unfolding ZP_COUNT_def
    by (rule wp_dec_zp [where b = 2, OF that(1) assms(2)], simp, simp, rule assms(3), assumption)
      (use that(2) le16_dec [of "r 2" "r 3"] in auto)
  show ?thesis
  proof (cases "r 2 = 0")
    case True
    show ?thesis
      unfolding dec_count_def wpn
      apply (subst ZP_COUNT_def, rule wp_rd [where b = 2, OF assms(1,2)], simp, simp, simp only: wpn True simp_thms if_False)
      apply (subst ZP_COUNT_def, rule wp_dec_zp [where b = 3, OF _ assms(2)], assumption, simp, simp)
      by (rule last, assumption) (simp add: True)
  next
    case False
    show ?thesis
      unfolding dec_count_def wpn
      apply (subst ZP_COUNT_def, rule wp_rd [where b = 2, OF assms(1,2)], simp, simp, simp only: wpn False simp_thms if_True)
      by (rule last, assumption) (simp add: False)
  qed
qed


lemma next_sector:
  assumes "unat p + 512 < 65536"
  shows "unat (p + 0x200) = unat p + 512" "lo8 (p + 0x200) = lo8 p" "hi8 (p + 0x200) = hi8 p + (2 :: u8)"
proof -
  have a: "unat p + 256 < 65536" using assms by simp
  note n = next_page [OF a]
  have b: "unat (p + 0x100) + 256 < 65536" using assms n(1) by simp
  have e: "p + 0x100 + 0x100 = p + 0x200" by simp
  show "unat (p + 0x200) = unat p + 512" "lo8 (p + 0x200) = lo8 p" "hi8 (p + 0x200) = hi8 p + (2 :: u8)"
    using next_page [OF b, unfolded e] n by (simp_all add: add.assoc)
qed

section \<open>Loading\<close>

definition sectors_at :: "(15 word \<Rightarrow> u8) \<Rightarrow> nat \<Rightarrow> u8 list \<Rightarrow> u32 \<Rightarrow> nat \<Rightarrow> bool" where
  "sectors_at r q img l n \<longleftrightarrow> (\<forall>i < n. \<forall>j < 512. r (word_of_nat (q + 512 * i + j)) = sector_of img (l + word_of_nat i) ! j)"

text \<open>What the loop writes: its variables, the stack's top, and the sectors.\<close>

definition load_area :: "nat \<Rightarrow> nat \<Rightarrow> nat \<Rightarrow> bool" where
  "load_area q n a \<longleftrightarrow> a < 8 \<or> a = 0x1FE \<or> a = 0x1FF \<or> (q \<le> a \<and> a < q + 512 * n)"

lemma sectors_Suc:
  assumes "\<And>j. j < 512 \<Longrightarrow> r' (word_of_nat (q + j)) = sector_of img l ! j" "sectors_at r' (q + 512) img (l + 1) n"
  shows "sectors_at r' q img l (Suc n)"
  unfolding sectors_at_def
proof (intro allI impI)
  fix i j :: nat
  assume h: "i < Suc n" "j < 512"
  show "r' (word_of_nat (q + 512 * i + j)) = sector_of img (l + word_of_nat i) ! j"
  proof (cases i)
    case 0
    then show ?thesis using assms(1) [OF h(2)] by simp
  next
    case (Suc i')
    have e: "q + 512 * i + j = q + 512 + 512 * i' + j" "l + word_of_nat i = l + 1 + word_of_nat i'" using Suc by simp_all
    have "i' < n" using h(1) Suc by simp
    then show ?thesis using assms(2) h(2) unfolding sectors_at_def e by blast
  qed
qed


lemma le16_zero_nat: "n < 65536 \<Longrightarrow> le16 l h = word_of_nat n \<Longrightarrow> l OR h = 0 \<longleftrightarrow> n = 0"
  unfolding le16_zero by (simp add: word_unat_eq_iff unat_of_nat)

text \<open>One sector of the loop, up to the advanced pointer.\<close>

lemma wp_load_one:
  assumes "view m = s\<lparr>ram := r\<rparr>" "kmode s" "disk_img s = Some img" "r 0 = lo8 p" "r 1 = hi8 p" "0x200 \<le> unat p" "unat p + 512 \<le> 32768"
    "lba_ok (zp_lba r)" "r' = (blit (unat p) (sector_of img (zp_lba r)) (r(0x1FF := hi8 ra, 0x1FE := lo8 ra)))(1 := hi8 p + 2)"
    "\<And>m'. view m' = s\<lparr>disk_lba := zp_lba r, ram := r'\<rparr> \<Longrightarrow> Q m'"
  shows "wp (move4 ZP_LBA DISK_LBA0 m) (\<lambda>m. wp (jsr ra m) (\<lambda>m. wp (disk_read_to_ptr ra m) (\<lambda>m.
    wp (rd (ZP_PTR + 1) m) (\<lambda>x. wp (wr (ZP_PTR + 1) (fst x + 2) (snd x)) Q))))"
proof -
  let ?s = "s\<lparr>disk_lba := zp_lba r\<rparr>" and ?r1 = "r(0x1FF := hi8 ra, 0x1FE := lo8 ra)"
  let ?r2 = "blit (unat p) (sector_of img (zp_lba r)) ?r1"
  have k: "kmode ?s" "disk_img ?s = Some img" "lba_ok (disk_lba ?s)" using assms(2,3,8) by simp_all
  have z: "?r1 0 = lo8 p" "?r1 1 = hi8 p" "?r1 0x1FE = lo8 ra" "?r1 0x1FF = hi8 ra" using assms(4,5) by simp_all
  have d: "disk_lba ?s = zp_lba r" by simp
  have h: "?r2 1 = hi8 p" using assms(5,6) by (simp add: blit_def)
  show ?thesis
    apply (rule wp_set_lba [OF assms(1,2)])
    apply (rule wp_jsr [OF _ k(1)], assumption)
    apply (rule wp_disk_read [OF _ k(1) z(1,2) assms(6,7) z(3,4) k(2,3)], assumption)
    apply (subst ZP_PTR_def, rule wp_rd [where b = 1, OF _ k(1)], assumption, simp, simp, simp only: wpn)
    apply (subst ZP_PTR_def, rule wp_wr [where b = 1, OF _ k(1)], assumption, simp, simp)
    by (rule assms(10)) (simp only: d h assms(9))
qed

lemma wp_load_kernel:
  assumes "view m = s\<lparr>ram := r\<rparr>" "kmode s" "disk_img s = Some img" "r 0 = lo8 p" "r 1 = hi8 p" "le16 (r 2) (r 3) = word_of_nat n"
    "zp_lba r = l" "n < 65536" "0x200 \<le> unat p" "unat p + 512 * n \<le> 32768" "\<And>i. i < n \<Longrightarrow> lba_ok (l + word_of_nat i)"
  shows "wp (load_kernel ra m) (\<lambda>m'. \<exists>l' r'. view m' = s\<lparr>disk_lba := l', ram := r'\<rparr> \<and> sectors_at r' (unat p) img l n \<and>
    (\<forall>a. \<not> load_area (unat p) n (unat a) \<longrightarrow> r' a = r a))"
  using assms
proof (induction n arbitrary: m s r p l)
  case 0
  note z = le16_zero_nat [OF "0.prems"(8,6)]
  show ?case
    apply (subst load_kernel.simps, simp only: wpn ZP_COUNT_def)
    apply (rule wp_rd [where b = 2, OF "0.prems"(1,2)], simp, simp, simp only: wpn)
    apply (rule wp_rd [where b = 3, OF _ "0.prems"(2)], assumption, simp, simp, simp only: wpn z simp_thms if_True)
    by (intro exI [of _ "disk_lba s"] exI [of _ r]) (simp add: sectors_at_def)
next
  case (Suc n)
  note P = Suc.prems
  note z = le16_zero_nat [OF P(8,6)]
  have nz: "(Suc n = 0) = False" by simp
  have p: "unat p + 512 \<le> 32768" "unat p + 512 < 65536" using P(10) by simp_all
  note np = next_sector [OF p(2)]
  have l0: "lba_ok (zp_lba r)" using P(11) [of 0] P(7) by simp
  let ?bs = "sector_of img (zp_lba r)" and ?s1 = "s\<lparr>disk_lba := zp_lba r\<rparr>"
  let ?r3 = "(blit (unat p) ?bs (r(0x1FF := hi8 ra, 0x1FE := lo8 ra)))(1 := hi8 p + 2)"
  have k1: "kmode ?s1" "disk_img ?s1 = Some img" using P(2,3) by simp_all
  have r3: "?r3 a = r a" if "unat a < 8" "a \<noteq> 1" for a
    using that P(9) by (auto simp: blit_def)
  have u: "unat (0 :: 15 word) = 0" "unat (2 :: 15 word) = 2" "unat (3 :: 15 word) = 3" "unat (4 :: 15 word) = 4" "unat (5 :: 15 word) = 5"
    "unat (6 :: 15 word) = 6" "unat (7 :: 15 word) = 7" by simp_all
  have rest: "wp (load_kernel ra m1) (\<lambda>m'. \<exists>l' r'. view m' = s\<lparr>disk_lba := l', ram := r'\<rparr> \<and> sectors_at r' (unat p) img l (Suc n) \<and>
      (\<forall>a. \<not> load_area (unat p) (Suc n) (unat a) \<longrightarrow> r' a = r a))"
    if q: "zp_lba r4 = zp_lba ?r3 + 1" "\<forall>a. a \<notin> {4, 5, 6, 7} \<longrightarrow> r4 a = ?r3 a"
      and m1: "view m1 = ?s1\<lparr>ram := r5\<rparr>" and c: "le16 (r5 2) (r5 3) = le16 (r4 2) (r4 3) - 1" "\<forall>a. a \<notin> {2, 3} \<longrightarrow> r5 a = r4 a" for m1 r4 r5
  proof -
    have r5: "r5 a = ?r3 a" if "a \<notin> {2, 3, 4, 5, 6, 7}" for a using that q(2) c(2) by simp
    have z5: "r5 0 = lo8 (p + 0x200)" "r5 1 = hi8 (p + 0x200)" using r5 [of 0] r5 [of 1] r3 [of 0] P(4) np by simp_all
    have n5: "le16 (r5 2) (r5 3) = word_of_nat n"
      using c(1) q(2) r3 [of 2] r3 [of 3] P(6) by simp
    have "zp_lba ?r3 = zp_lba r" using r3 by (simp add: zp_lba_def)
    moreover have "zp_lba r5 = zp_lba r4" using c(2) by (simp add: zp_lba_def)
    ultimately have l5: "zp_lba r5 = l + 1" using q(1) P(7) by simp
    have b: "n < 65536" "0x200 \<le> unat (p + 0x200)" "unat (p + 0x200) + 512 * n \<le> 32768" using P(8-10) np by simp_all
    have lb: "lba_ok (l + 1 + word_of_nat i)" if "i < n" for i using P(11) [of "Suc i"] that by (simp add: add.assoc)
    have S: "r5 (word_of_nat (unat p + j)) = sector_of img l ! j" if "j < 512" for j
    proof -
      have "unat p + j < 32768" using p that by simp
      then have w: "unat (word_of_nat (unat p + j) :: 15 word) = unat p + j" by (rule unat_of_nat_15)
      then have "word_of_nat (unat p + j) \<notin> {2, 3, 4, 5, 6, 7, 1 :: 15 word}" using P(9) by (auto simp del: of_nat_add)
      then show ?thesis using r5 that w P(7) by (simp add: blit_def del: of_nat_add)
    qed
    have K: "r5 a = r a" if "\<not> load_area (unat p) (Suc n) (unat a)" for a
    proof -
      have "8 \<le> unat a" "unat a \<noteq> 0x1FE" "unat a \<noteq> 0x1FF" "unat a < unat p \<or> unat p + 512 \<le> unat a"
        using that by (auto simp: load_area_def)
      moreover from this have "a \<notin> {1, 2, 3, 4, 5, 6, 7, 0x1FE, 0x1FF}" by auto
      ultimately show ?thesis using r5 [of a] by (auto simp: blit_def)
    qed
    show ?thesis
    proof (rule wp_mono [OF Suc.IH [OF m1 k1 z5 n5 l5 b lb]])
      fix m'
      assume "\<exists>l' r'. view m' = ?s1\<lparr>disk_lba := l', ram := r'\<rparr> \<and> sectors_at r' (unat (p + 0x200)) img (l + 1) n \<and>
        (\<forall>a. \<not> load_area (unat (p + 0x200)) n (unat a) \<longrightarrow> r' a = r5 a)"
      then obtain l' r' where h: "view m' = s\<lparr>disk_lba := l', ram := r'\<rparr>" "sectors_at r' (unat p + 512) img (l + 1) n"
          "\<And>a. \<not> load_area (unat p + 512) n (unat a) \<Longrightarrow> r' a = r5 a" by (auto simp: np)
      have "r' (word_of_nat (unat p + j)) = sector_of img l ! j" if j: "j < 512" for j
      proof -
        have "unat p + j < 32768" using p j by simp
        then have "unat (word_of_nat (unat p + j) :: 15 word) = unat p + j" by (rule unat_of_nat_15)
        then have "\<not> load_area (unat p + 512) n (unat (word_of_nat (unat p + j) :: 15 word))" using P(9) j by (simp add: load_area_def)
        then show ?thesis using h(3) S [OF j] by simp
      qed
      moreover have "r' a = r a" if "\<not> load_area (unat p) (Suc n) (unat a)" for a
        using h(3) [of a] K [OF that] that by (auto simp: load_area_def)
      ultimately show "\<exists>l' r'. view m' = s\<lparr>disk_lba := l', ram := r'\<rparr> \<and> sectors_at r' (unat p) img l (Suc n) \<and>
          (\<forall>a. \<not> load_area (unat p) (Suc n) (unat a) \<longrightarrow> r' a = r a)"
        using h(1) sectors_Suc [OF _ h(2)] by blast
    qed
  qed
  show ?case
    apply (subst load_kernel.simps, simp only: wpn)
    apply (subst ZP_COUNT_def, rule wp_rd [where b = 2, OF P(1,2)], simp, simp, simp only: wpn)
    apply (subst ZP_COUNT_def, rule wp_rd [where b = 3, OF _ P(2)], assumption, simp, simp, simp only: wpn z nz if_False)
    apply (rule wp_load_one [OF _ P(2-5,9) p(1) l0 refl], assumption)
    apply (rule wp_inc_lba [OF _ k1(1)], assumption)
    apply (rule wp_dec_count [OF _ k1(1)], assumption)
    by (rule rest)
qed

end
