(* ===== verification/Reset.thy ===== *)
theory Reset
  imports Bootload
begin

text \<open>
  The boot ROM as a whole: \<open>reset\<close> prints its banner, reads the boot record, loads the kernel it names
  and jumps to the entry point of the kernel's header, or says what is wrong and halts.
\<close>

section \<open>From reset to the jump\<close>

lemma wp_magic:
  assumes "view m = s\<lparr>ram := r\<rparr>" "kmode s" "unat a + length bs < 32768"
    "\<And>m'. view m' = s\<lparr>ram := r\<rparr> \<Longrightarrow> Q (\<forall>i < length bs. r (word_of_nat (unat a + i)) = bs ! i, m')"
  shows "wp (magic a bs m) Q"
  using assms
proof (induction bs arbitrary: a m)
  case (Cons b bs)
  have a: "a < 0x8000" "unat a < 32768" using Cons.prems(3) by (simp_all add: word_less_nat_alt)
  have ua: "ucast a = (word_of_nat (unat a) :: 15 word)" by simp
  have a1: "unat (a + 1) = unat a + 1" using Cons.prems(3) by (simp add: unat_word_ariths)
  have all: "(\<forall>i < length (b # bs). r (word_of_nat (unat a + i)) = (b # bs) ! i) \<longleftrightarrow>
      r (word_of_nat (unat a)) = b \<and> (\<forall>i < length bs. r (word_of_nat (unat (a + 1) + i)) = bs ! i)"
    unfolding a1 by (auto simp: less_Suc_eq_0_disj simp del: of_nat_add of_nat_Suc)
  show ?case
    unfolding magic.simps wpn
  proof (rule wp_rd [OF Cons.prems(1,2) a(1) ua], simp only: wpn)
    fix m1
    assume m1: "view m1 = s\<lparr>ram := r\<rparr>"
    show "wp (if r (word_of_nat (unat a)) = b then magic (a + 1) bs m1 else Some (False, m1)) Q"
    proof (cases "r (word_of_nat (unat a)) = b")
      case True
      have "wp (magic (a + 1) bs m1) Q"
        by (rule Cons.IH [OF m1 Cons.prems(2)]) (use Cons.prems(3,4) a1 all True in simp_all)
      then show ?thesis using True by simp
    next
      case False
      then have "(\<forall>i < length (b # bs). r (word_of_nat (unat a + i)) = (b # bs) ! i) = False" unfolding all by simp
      then have "Q (False, m1)" using Cons.prems(4) [OF m1] by (simp only:)
      then show ?thesis using False by simp
    qed
  qed
qed simp


lemma wp_tell:
  assumes "view m = s\<lparr>ram := r\<rparr>" "kmode s" "rom_text (rom s) ra (map of_char t)"
    "\<And>m' r'. view m' = (emit (map of_char t) s)\<lparr>ram := r'\<rparr> \<Longrightarrow> \<forall>a. a \<notin> {0, 1, 0x1FE, 0x1FF} \<longrightarrow> r' a = r a \<Longrightarrow> Q m'"
  shows "wp (say ra t m) Q"
  by (rule wp_say [OF assms(1-3) refl], rule assms(4), assumption) auto

lemma emit_rest [simp]:
  "rom (emit bs s) = rom s" "disk_img (emit bs s) = disk_img s" "emit bs (s\<lparr>ram := r\<rparr>) = (emit bs s)\<lparr>ram := r\<rparr>"
  "emit bs (s\<lparr>disk_lba := l\<rparr>) = (emit bs s)\<lparr>disk_lba := l\<rparr>" "disk_lba (emit bs s) = disk_lba s"
  by (simp_all add: emit_def emit_acia_def emit_gpu_def)

text \<open>Where the ROM has its strings.\<close>

definition boot_rom :: "(u16 \<Rightarrow> u8) \<Rightarrow> boot_link \<Rightarrow> bool" where
  "boot_rom R L \<longleftrightarrow> rom_text R (at_banner L) (map of_char banner) \<and> rom_text R (at_loading L) (map of_char loading) \<and>
     rom_text R (at_jumping L) (map of_char jumping) \<and> rom_text R (at_bad_bbx L) (map of_char bad_bbx_text) \<and>
     rom_text R (at_bad_record L) (map of_char bad_record_text)"

lemma wp_set_100:
  assumes "view m = s\<lparr>ram := r\<rparr>" "kmode s" "\<And>m'. view m' = s\<lparr>disk_lba := 100, ram := r\<rparr> \<Longrightarrow> Q m'"
  shows "wp (wr DISK_LBA0 (lo8 BOOT_REC_LBA) m) (\<lambda>m. wp (wr DISK_LBA1 (hi8 BOOT_REC_LBA) m) (\<lambda>m. wp (wr DISK_LBA2 0 m) (\<lambda>m. wp (wr DISK_LBA3 0 m) Q)))"
proof -
  let ?s1 = "s\<lparr>disk_lba := set_byte 0 (disk_lba s) 100\<rparr>"
  let ?s2 = "s\<lparr>disk_lba := set_byte 1 (disk_lba ?s1) 0\<rparr>"
  let ?s3 = "s\<lparr>disk_lba := set_byte 2 (disk_lba ?s2) 0\<rparr>"
  have k: "kmode ?s1" "kmode ?s2" "kmode ?s3" using assms(2) by simp_all
  have b: "lo8 BOOT_REC_LBA = (100 :: u8)" "hi8 BOOT_REC_LBA = (0 :: u8)" "get_byte 0 (100 :: u32) = (100 :: u8)"
    "get_byte 1 (100 :: u32) = (0 :: u8)" "get_byte 2 (100 :: u32) = (0 :: u8)" "get_byte 3 (100 :: u32) = (0 :: u8)" by code_simp+
  have l: "set_byte 3 (disk_lba ?s3) 0 = 100"
    using set_byte_lba [of "disk_lba s" 100] b by (simp add: get_byte_def)
  show ?thesis
    unfolding b DISK_LBA0_def DISK_LBA1_def DISK_LBA2_def DISK_LBA3_def
    apply (rule wp_lba [where i = 0, OF assms(1,2)], simp)
    apply (rule wp_lba [where i = 1, OF _ k(1)], assumption, simp)
    apply (rule wp_lba [where i = 2 and s = ?s2, OF _ k(2)], simp, simp)
    apply (rule wp_lba [where i = 3 and s = ?s3, OF _ k(3)], simp, simp)
    by (rule assms(3)) (simp add: l [simplified])
qed


text \<open>Up to the test of the boot record: it is at the staging address, and the rest of RAM as it was.\<close>

definition boot_area :: "nat \<Rightarrow> nat \<Rightarrow> bool" where
  "boot_area n a \<longleftrightarrow> a < 8 \<or> a = 0xFE \<or> a = 0xFF \<or> a = 0x1FE \<or> a = 0x1FF \<or> 0x200 \<le> a \<and> a < 0x200 + 512 * n"

definition staged :: "(15 word \<Rightarrow> u8) \<Rightarrow> u8 list \<Rightarrow> bool" where
  "staged r bs \<longleftrightarrow> (\<forall>i < length bs. r (word_of_nat (512 + i)) = bs ! i)"

lemma wp_magic_staged:
  assumes "view m = s\<lparr>ram := r\<rparr>" "kmode s" "staged r bs" "length mg \<le> length bs" "length mg = n" "n \<le> 512"
    "\<And>m'. view m' = s\<lparr>ram := r\<rparr> \<Longrightarrow> Q (take n bs = mg, m')"
  shows "wp (magic STAGE_ADDR mg m) Q"
proof -
  have u: "unat STAGE_ADDR = 512" by (simp add: STAGE_ADDR_def)
  have "(\<forall>i < length mg. r (word_of_nat (unat STAGE_ADDR + i)) = mg ! i) \<longleftrightarrow> (\<forall>i < length mg. bs ! i = mg ! i)"
    using assms(3,4) unfolding u staged_def by auto
  also have "\<dots> \<longleftrightarrow> take n bs = mg" using assms(4,5) by (auto simp: list_eq_iff_nth_eq)
  finally have e: "(\<forall>i < length mg. r (word_of_nat (unat STAGE_ADDR + i)) = mg ! i) = (take n bs = mg)" .
  show ?thesis
    by (rule wp_magic [OF assms(1,2)]) (use assms(5,6) u in simp, simp only: e assms(7))
qed

lemma wp_reset_record:
  assumes "view m = s\<lparr>ram := r\<rparr>" "kmode s" "disk_img s = Some img" "boot_rom (rom s) L"
    "\<And>m' r'. view m' = (emit (map of_char banner) s)\<lparr>disk_lba := 100, ram := r'\<rparr> \<Longrightarrow> staged r' (sector_of img 100) \<Longrightarrow>
       \<forall>a. \<not> boot_area 1 (unat a) \<longrightarrow> r' a = r a \<Longrightarrow> r' 0xFE = lo8 (early_brk L) \<Longrightarrow> r' 0xFF = hi8 (early_brk L) \<Longrightarrow> 
       wp (Q (take 4 (sector_of img 100) = [66, 66, 66, 82], m')) P"
  shows "wp (do {
     m \<leftarrow> wr 0xFE (lo8 (early_brk L)) m;
     m \<leftarrow> wr 0xFF (hi8 (early_brk L)) m;
     m \<leftarrow> say (at_banner L) banner m;
     m \<leftarrow> wr DISK_LBA0 (lo8 BOOT_REC_LBA) m;
     m \<leftarrow> wr DISK_LBA1 (hi8 BOOT_REC_LBA) m;
     m \<leftarrow> wr DISK_LBA2 0 m;
     m \<leftarrow> wr DISK_LBA3 0 m;
     m \<leftarrow> jsr (at_read_record L) m;
     m \<leftarrow> disk_read_to_stage (at_read_record L) m;
     x \<leftarrow> magic STAGE_ADDR [66, 66, 66, 82] m;
     Q x }) P"
proof -
  let ?s1 = "emit (map of_char banner) s" and ?ra = "at_read_record L" and ?bs = "sector_of img 100"
  let ?s2 = "?s1\<lparr>disk_lba := 100\<rparr>"
  have k: "kmode ?s1" "kmode ?s2" "disk_img ?s2 = Some img" "lba_ok (disk_lba ?s2)" "disk_lba ?s2 = 100" using assms(2,3) by (simp_all add: lba_ok_def)
  have t: "rom_text (rom s) (at_banner L) (map of_char banner)" using assms(4) by (simp add: boot_rom_def)
  have sa: "lo8 STAGE_ADDR = lo8 (0x200 :: u16)" "hi8 STAGE_ADDR = hi8 (0x200 :: u16)" by (simp_all add: STAGE_ADDR_def)
  have p: "0x200 \<le> unat (0x200 :: u16)" "unat (0x200 :: u16) + 512 \<le> 32768" "unat (0x200 :: u16) = 512" by simp_all
  have fin: "wp (magic STAGE_ADDR [66, 66, 66, 82] m') (\<lambda>x. wp (Q x) P)"
    if v: "view m' = ?s2\<lparr>ram := blit (unat (0x200 :: u16)) ?bs r3\<rparr>"
      and r3: "r3 = r2(0x1FF := hi8 ?ra, 0x1FE := lo8 ?ra, 0 := lo8 0x200, 1 := hi8 0x200)"
      and r2: "\<forall>a. a \<notin> {0, 1, 0x1FE, 0x1FF} \<longrightarrow> r2 a = (r(0xFE := lo8 (early_brk L), 0xFF := hi8 (early_brk L))) a" for m' r2 r3
  proof -
    let ?r4 = "blit (unat (0x200 :: u16)) ?bs r3"
    have st: "staged ?r4 ?bs"
    proof -
      have "?r4 (word_of_nat (512 + i)) = ?bs ! i" if "i < 512" for i
      proof -
        have "unat (word_of_nat (512 + i) :: 15 word) = 512 + i" by (rule unat_of_nat_15) (use that in simp)
        then show ?thesis using that by (simp add: blit_def del: of_nat_add)
      qed
      then show ?thesis by (simp add: staged_def)
    qed
    have keep: "\<forall>a. \<not> boot_area 1 (unat a) \<longrightarrow> ?r4 a = r a"
    proof (intro allI impI)
      fix a :: "15 word"
      assume h: "\<not> boot_area 1 (unat a)"
      then have "a \<notin> {0, 1, 0xFE, 0xFF, 0x1FE, 0x1FF}" by (auto simp: boot_area_def)
      then show "?r4 a = r a" using r2 r3 h by (auto simp: blit_def boot_area_def)
    qed
    have brk: "?r4 0xFE = lo8 (early_brk L)" "?r4 0xFF = hi8 (early_brk L)" using r2 r3 by (simp_all add: blit_def)
    have n: "length [66, 66, 66, 82 :: u8] \<le> length ?bs" "length [66, 66, 66, 82 :: u8] = 4" "4 \<le> (512 :: nat)" by simp_all
    show ?thesis
      by (rule wp_magic_staged [OF v k(2) st n], rule assms(5) [OF _ st keep brk], assumption)
  qed
  show ?thesis
    unfolding wpn
    apply (rule wp_wr [where b = "0xFE", OF assms(1,2)], simp, simp)
    apply (rule wp_wr [where b = "0xFF", OF _ assms(2)], assumption, simp, simp)
    apply (rule wp_tell [OF _ assms(2) t], assumption)
    apply (rule wp_set_100 [OF _ k(1)], assumption)
    apply (rule wp_jsr [OF _ k(2)], assumption)
    unfolding disk_read_to_stage_def wpn sa
    apply (subst ZP_PTR_def, rule wp_wr [where b = 0, OF _ k(2)], assumption, simp, simp)
    apply (subst ZP_PTR_def, rule wp_wr [where b = 1, OF _ k(2)], assumption, simp, simp)
    apply (rule wp_disk_read [OF _ k(2) _ _ p(1,2) _ _ k(3,4), where r = "_(0x1FF := _, 0x1FE := _, 0 := _, 1 := _)"], assumption, simp, simp, simp, simp, simp only: k(5))
    by (rule fin, assumption, rule refl, assumption)
qed


text \<open>The end: the program header that has been loaded is tested.\<close>

lemma unat_staged: "staged r bs \<Longrightarrow> i < length bs \<Longrightarrow> b = word_of_nat (512 + i) \<Longrightarrow> r b = bs ! i"
  by (simp add: staged_def)

lemma wp_load_done:
  assumes "view m = s\<lparr>ram := r\<rparr>" "kmode s" "boot_rom (rom s) L" "staged r bs" "length bs = 512"
    "\<And>m' r'. take 2 bs = [0x42, 0x58] \<Longrightarrow> view m' = (emit (map of_char jumping) s)\<lparr>ram := r'\<rparr> \<Longrightarrow>
       \<forall>a. a \<notin> {0, 1, 0x1FE, 0x1FF} \<longrightarrow> r' a = r a \<Longrightarrow> Q (Jump (le16 (bs ! 4) (bs ! 5)) m')"
    "\<And>m' r'. take 2 bs \<noteq> [0x42, 0x58] \<Longrightarrow> view m' = (emit (map of_char bad_bbx_text) s)\<lparr>ram := r'\<rparr> \<Longrightarrow> Q (Halted m')"
  shows "wp (load_done L m) Q"
proof -
  have t: "rom_text (rom s) (at_jumping L) (map of_char jumping)" "rom_text (rom s) (at_bad_bbx L) (map of_char bad_bbx_text)"
    using assms(3) by (simp_all add: boot_rom_def)
  have n: "length [0x42, 0x58 :: u8] \<le> length bs" "length [0x42, 0x58 :: u8] = 2" "2 \<le> (512 :: nat)" using assms(5) by simp_all
  have k: "kmode (emit (map of_char jumping) s)" using assms(2) by simp
  show ?thesis
    unfolding load_done_def wpn
  proof (rule wp_magic_staged [OF assms(1,2,4) n])
    fix m1
    assume m1: "view m1 = s\<lparr>ram := r\<rparr>"
    show "wp (if \<not> fst (take 2 bs = [0x42, 0x58], m1) then halt_with (at_bad_bbx L) bad_bbx_text (snd (take 2 bs = [0x42, 0x58], m1))
        else do {
          m \<leftarrow> say (at_jumping L) jumping (snd (take 2 bs = [0x42, 0x58], m1));
          m \<leftarrow> move_byte (STAGE_ADDR + 4) ZP_PTR m;
          m \<leftarrow> move_byte (STAGE_ADDR + 5) (ZP_PTR + 1) m;
          x \<leftarrow> rd16 ZP_PTR m;
          Some (Jump (fst x) (snd x)) }) Q"
    proof (cases "take 2 bs = [0x42, 0x58]")
      case True
      have "wp (do {
          m \<leftarrow> say (at_jumping L) jumping m1;
          m \<leftarrow> move_byte (STAGE_ADDR + 4) ZP_PTR m;
          m \<leftarrow> move_byte (STAGE_ADDR + 5) (ZP_PTR + 1) m;
          x \<leftarrow> rd16 ZP_PTR m;
          Some (Jump (fst x) (snd x)) }) Q"
        unfolding wpn
      proof (rule wp_tell [OF m1 assms(2) t(1)])
        fix m2 r2
        assume m2: "view m2 = (emit (map of_char jumping) s)\<lparr>ram := r2\<rparr>" "\<forall>a. a \<notin> {0, 1, 0x1FE, 0x1FF} \<longrightarrow> r2 a = r a"
        have e: "r2 0x204 = bs ! 4" "r2 0x205 = bs ! 5"
          using m2(2) unat_staged [OF assms(4), of 4 "0x204"] unat_staged [OF assms(4), of 5 "0x205"] assms(5) by simp_all
        have f: "le16 ((r2(0 := r2 0x204, 1 := (r2(0 := r2 0x204)) 0x205)) 0) ((r2(0 := r2 0x204, 1 := (r2(0 := r2 0x204)) 0x205)) (0 + 1)) = le16 (bs ! 4) (bs ! 5)"
          using e by simp
        have g: "\<forall>a. a \<notin> {0, 1, 0x1FE, 0x1FF} \<longrightarrow> (r2(0 := r2 0x204, 1 := (r2(0 := r2 0x204)) 0x205)) a = r a" using m2(2) by simp
        show "wp (move_byte (STAGE_ADDR + 4) ZP_PTR m2) (\<lambda>m. wp (move_byte (STAGE_ADDR + 5) (ZP_PTR + 1) m) (\<lambda>m. wp (rd16 ZP_PTR m) (\<lambda>x. Q (Jump (fst x) (snd x)))))"
          unfolding STAGE_ADDR_def ZP_PTR_def
          apply (rule wp_move_byte [where b = "0x204" and b' = 0, OF m2(1) k], simp, simp, simp, simp)
          apply (rule wp_move_byte [where b = "0x205" and b' = 1, OF _ k], assumption, simp, simp, simp, simp)
          apply (rule wp_rd16 [where b = 0, OF _ k], assumption, simp, simp, simp only: wpn f)
          by (rule assms(6) [OF True _ g], assumption)
      qed
      then show ?thesis using True by simp
    next
      case False
      have "wp (halt_with (at_bad_bbx L) bad_bbx_text m1) Q"
        unfolding halt_with_def wpn by (rule wp_tell [OF m1 assms(2) t(2)], rule assms(7) [OF False], assumption)
      then show ?thesis using False by simp
    qed
  qed
qed

text \<open>The kernel's place on the disk, in the boot record.\<close>

definition record_lba :: "u8 list \<Rightarrow> u32" where "record_lba bs = le32 (bs ! 4) (bs ! 5) (bs ! 6) (bs ! 7)"
definition record_count :: "u8 list \<Rightarrow> nat" where "record_count bs = unat (le16 (bs ! 8) (bs ! 9))"

lemma wp_read_record:
  assumes "view m = s\<lparr>ram := r\<rparr>" "kmode s" "staged r bs" "length bs = 512"
    "\<And>m' r'. view m' = s\<lparr>ram := r'\<rparr> \<Longrightarrow> zp_lba r' = record_lba bs \<Longrightarrow> le16 (r' 2) (r' 3) = word_of_nat (record_count bs) \<Longrightarrow>
       \<forall>a. a \<notin> {2, 3, 4, 5, 6, 7} \<longrightarrow> r' a = r a \<Longrightarrow> Q m'"
  shows "wp (move4 (STAGE_ADDR + 4) ZP_LBA m) (\<lambda>m. wp (move_byte (STAGE_ADDR + 8) ZP_COUNT m) (\<lambda>m. wp (move_byte (STAGE_ADDR + 9) (ZP_COUNT + 1) m) Q))"
proof -
  have b: "r 0x204 = bs ! 4" "r 0x205 = bs ! 5" "r 0x206 = bs ! 6" "r 0x207 = bs ! 7" "r 0x208 = bs ! 8" "r 0x209 = bs ! 9"
    by (rule unat_staged [OF assms(3)]; simp add: assms(4))+
  show ?thesis
    unfolding move4_def wpn STAGE_ADDR_def ZP_LBA_def ZP_COUNT_def
    apply (rule wp_move_byte [where b = "0x204" and b' = 4, OF assms(1,2)], simp, simp, simp, simp)
    apply (rule wp_move_byte [where b = "0x205" and b' = 5, OF _ assms(2)], assumption, simp, simp, simp, simp)
    apply (rule wp_move_byte [where b = "0x206" and b' = 6, OF _ assms(2)], assumption, simp, simp, simp, simp)
    apply (rule wp_move_byte [where b = "0x207" and b' = 7, OF _ assms(2)], assumption, simp, simp, simp, simp)
    apply (rule wp_move_byte [where b = "0x208" and b' = 2, OF _ assms(2)], assumption, simp, simp, simp, simp)
    apply (rule wp_move_byte [where b = "0x209" and b' = 3, OF _ assms(2)], assumption, simp, simp, simp, simp)
    by (rule assms(5), assumption) (simp_all add: zp_lba_def record_lba_def record_count_def b)
qed


text \<open>What is at the staging address when the loop has ended.\<close>

definition kernel_start :: "u8 list \<Rightarrow> u8 list" where
  "kernel_start img = (let b = sector_of img 100 in if record_count b = 0 then b else sector_of img (record_lba b))"

lemma staged_start:
  assumes "sectors_at r' 512 img (record_lba b) (record_count b)" "\<forall>a. \<not> load_area 512 (record_count b) (unat a) \<longrightarrow> r' a = r2 a"
    "staged r2 b" "b = sector_of img 100"
  shows "staged r' (kernel_start img)"
proof (cases "record_count b = 0")
  case True
  have "r' (word_of_nat (512 + i)) = b ! i" if "i < 512" for i
  proof -
    have "unat (word_of_nat (512 + i) :: 15 word) = 512 + i" by (rule unat_of_nat_15) (use that in simp)
    then have "\<not> load_area 512 (record_count b) (unat (word_of_nat (512 + i) :: 15 word))" using True by (simp add: load_area_def)
    then show ?thesis using assms(2-4) that by (simp add: staged_def)
  qed
  then show ?thesis using True assms(4) by (simp add: kernel_start_def staged_def)
next
  case False
  have "r' (word_of_nat (512 + 512 * 0 + i)) = sector_of img (record_lba b + word_of_nat 0) ! i" if "i < 512" for i
    using assms(1) False that unfolding sectors_at_def by blast
  then show ?thesis using False assms(4) by (simp add: kernel_start_def staged_def)
qed

text \<open>The record is good: the rest of \<open>reset\<close>.\<close>

lemma wp_reset_kernel:
  assumes "view m = s\<lparr>ram := r\<rparr>" "kmode s" "disk_img s = Some img" "boot_rom (rom s) L" "staged r b" "b = sector_of img 100"
    "record_count b \<le> 63" "\<And>i. i < record_count b \<Longrightarrow> lba_ok (record_lba b + word_of_nat i)"
    "\<And>m' l r'. take 2 (kernel_start img) = [0x42, 0x58] \<Longrightarrow> view m' = (emit (map of_char (loading @ jumping)) s)\<lparr>disk_lba := l, ram := r'\<rparr> \<Longrightarrow>
       sectors_at r' 512 img (record_lba b) (record_count b) \<Longrightarrow> \<forall>a. \<not> load_area 512 (record_count b) (unat a) \<longrightarrow> r' a = r a \<Longrightarrow>
       Q (Jump (le16 (kernel_start img ! 4) (kernel_start img ! 5)) m')"
    "\<And>m' l r'. take 2 (kernel_start img) \<noteq> [0x42, 0x58] \<Longrightarrow>
       view m' = (emit (map of_char (loading @ bad_bbx_text)) s)\<lparr>disk_lba := l, ram := r'\<rparr> \<Longrightarrow> Q (Halted m')"
  shows "wp (do {
      m \<leftarrow> move4 (STAGE_ADDR + 4) ZP_LBA m;
      m \<leftarrow> move_byte (STAGE_ADDR + 8) ZP_COUNT m;
      m \<leftarrow> move_byte (STAGE_ADDR + 9) (ZP_COUNT + 1) m;
      m \<leftarrow> say (at_loading L) loading m;
      m \<leftarrow> wr ZP_PTR (lo8 STAGE_ADDR) m;
      m \<leftarrow> wr (ZP_PTR + 1) (hi8 STAGE_ADDR) m;
      m \<leftarrow> load_kernel (at_read_kernel L) m;
      load_done L m }) Q"
proof -
  let ?n = "record_count b" and ?l = "record_lba b" and ?s1 = "emit (map of_char loading) s"
  have t: "rom_text (rom s) (at_loading L) (map of_char loading)" using assms(4) by (simp add: boot_rom_def)
  have k: "kmode ?s1" "disk_img ?s1 = Some img" "boot_rom (rom ?s1) L" using assms(2-4) by simp_all
  have lb: "length b = 512" by (simp add: assms(6))
  have ls: "length (kernel_start img) = 512" by (simp add: kernel_start_def Let_def)
  have sa: "lo8 STAGE_ADDR = (lo8 (0x200 :: u16) :: u8)" "hi8 STAGE_ADDR = (hi8 (0x200 :: u16) :: u8)" by (simp_all add: STAGE_ADDR_def)
  have p: "?n < 65536" "0x200 \<le> unat (0x200 :: u16)" "unat (0x200 :: u16) + 512 * ?n \<le> 32768" using assms(7) by simp_all
  have u: "unat (0x200 :: u16) = 512" by simp
  have loop: "wp (load_kernel (at_read_kernel L) m3) (\<lambda>m. wp (load_done L m) Q)"
    if m3: "view m3 = ?s1\<lparr>ram := r2(0 := lo8 0x200, 1 := hi8 0x200)\<rparr>" and r2: "\<forall>a. a \<notin> {0, 1, 0x1FE, 0x1FF} \<longrightarrow> r2 a = r1 a"
      and r1: "zp_lba r1 = ?l" "le16 (r1 2) (r1 3) = word_of_nat ?n" "\<forall>a. a \<notin> {2, 3, 4, 5, 6, 7} \<longrightarrow> r1 a = r a" for m3 r1 r2
  proof -
    let ?r3 = "r2(0 := lo8 0x200, 1 := hi8 0x200)"
    have z: "?r3 0 = lo8 0x200" "?r3 1 = hi8 0x200" by simp_all
    have c: "le16 (?r3 2) (?r3 3) = word_of_nat ?n" "zp_lba ?r3 = ?l" using r1(1,2) r2 by (simp_all add: zp_lba_def)
    have low: "?r3 a = r a" if "\<not> load_area 512 0 (unat a)" for a
    proof -
      have "a \<notin> {0, 1, 2, 3, 4, 5, 6, 7, 0x1FE, 0x1FF}" using that by (auto simp: load_area_def)
      then show ?thesis using r2 r1(3) by simp
    qed
    have st: "staged ?r3 b"
    proof -
      have "?r3 (word_of_nat (512 + i)) = b ! i" if "i < 512" for i
      proof -
        have "unat (word_of_nat (512 + i) :: 15 word) = 512 + i" by (rule unat_of_nat_15) (use that in simp)
        then have "\<not> load_area 512 0 (unat (word_of_nat (512 + i) :: 15 word))" by (simp add: load_area_def)
        then show ?thesis using low assms(5) that lb by (simp add: staged_def del: of_nat_add)
      qed
      then show ?thesis using lb by (simp add: staged_def)
    qed
    show ?thesis
    proof (rule wp_mono [OF wp_load_kernel [OF m3 k(1,2) z c p assms(8), unfolded u]])
      fix m4
      assume "\<exists>l' r'. view m4 = ?s1\<lparr>disk_lba := l', ram := r'\<rparr> \<and> sectors_at r' 512 img ?l ?n \<and> (\<forall>a. \<not> load_area 512 ?n (unat a) \<longrightarrow> r' a = ?r3 a)"
      then obtain l' r' where m4: "view m4 = ?s1\<lparr>disk_lba := l', ram := r'\<rparr>" "sectors_at r' 512 img ?l ?n"
          "\<forall>a. \<not> load_area 512 ?n (unat a) \<longrightarrow> r' a = ?r3 a" by blast
      let ?s2 = "?s1\<lparr>disk_lba := l'\<rparr>"
      have k2: "kmode ?s2" "boot_rom (rom ?s2) L" using k by simp_all
      note ss = staged_start [OF m4(2,3) st assms(6)]
      show "wp (load_done L m4) Q"
      proof (rule wp_load_done [OF m4(1) k2 ss ls])
        fix m5 r5
        assume h: "take 2 (kernel_start img) = [0x42, 0x58]" "view m5 = (emit (map of_char jumping) ?s2)\<lparr>ram := r5\<rparr>"
          "\<forall>a. a \<notin> {0, 1, 0x1FE, 0x1FF} \<longrightarrow> r5 a = r' a"
        have same: "r5 a = r' a" if "8 \<le> unat a" "unat a \<noteq> 0x1FE" "unat a \<noteq> 0x1FF" for a
        proof -
          have "a \<notin> {0, 1, 0x1FE, 0x1FF}" using that by auto
          then show ?thesis using h(3) by simp
        qed
        have "sectors_at r5 512 img ?l ?n"
          unfolding sectors_at_def
        proof (intro allI impI)
          fix i j :: nat
          assume ij: "i < ?n" "j < 512"
          have "512 + 512 * i + j < 32768" using ij assms(7) by simp
          then have "unat (word_of_nat (512 + 512 * i + j) :: 15 word) = 512 + 512 * i + j" by (rule unat_of_nat_15)
          then show "r5 (word_of_nat (512 + 512 * i + j)) = sector_of img (?l + word_of_nat i) ! j"
            using same m4(2) ij unfolding sectors_at_def by (simp del: of_nat_add of_nat_mult)
        qed
        moreover have "\<forall>a. \<not> load_area 512 ?n (unat a) \<longrightarrow> r5 a = r a"
        proof (intro allI impI)
          fix a :: "15 word"
          assume a: "\<not> load_area 512 ?n (unat a)"
          then have b: "8 \<le> unat a" "unat a \<noteq> 0x1FE" "unat a \<noteq> 0x1FF" "\<not> load_area 512 0 (unat a)" by (simp_all add: load_area_def)
          show "r5 a = r a" using same [OF b(1-3)] m4(3) a low [OF b(4)] by simp
        qed
        ultimately show "Q (Jump (le16 (kernel_start img ! 4) (kernel_start img ! 5)) m5)"
          using assms(9) [OF h(1), of m5 r5 l'] h(2) by (simp add: emit_append)
      next
        fix m5 r5
        assume h: "take 2 (kernel_start img) \<noteq> [0x42, 0x58]" "view m5 = (emit (map of_char bad_bbx_text) ?s2)\<lparr>ram := r5\<rparr>"
        then show "Q (Halted m5)" using assms(10) [OF h(1), of m5 r5 l'] by (simp add: emit_append)
      qed
    qed assumption
  qed
  show ?thesis
    unfolding wpn
    apply (rule wp_read_record [OF assms(1,2,5) lb])
    apply (rule wp_tell [OF _ assms(2) t], assumption)
    apply (subst ZP_PTR_def, rule wp_wr [where b = 0, OF _ k(1)], assumption, simp, simp)
    apply (subst ZP_PTR_def, rule wp_wr [where b = 1, OF _ k(1)], assumption, simp, simp)
    by (simp only: sa, rule loop)
qed


lemma view_result:
  assumes "view m' = (emit bs (view m))\<lparr>disk_lba := l, ram := r'\<rparr>"
  shows "ram m' = r'" "kmode m' = kmode m" "disk_img m' = disk_img m" "acia_out m' = acia_out m @ bs" "gpu_out m' = gpu_out m @ bs"
  using arg_cong [OF assms, of ram] arg_cong [OF assms, of kmode] arg_cong [OF assms, of disk_img] arg_cong [OF assms, of acia_out]
    arg_cong [OF assms, of gpu_out]
  by (simp_all add: view_def emit_def emit_acia_def emit_gpu_def kmode_def)

text \<open>Where the record and the kernel fit what the code can load: below \<open>$8000\<close>, on a disk the controller can address.\<close>

definition record_fits :: "u8 list \<Rightarrow> bool" where
  "record_fits b \<longleftrightarrow> record_count b \<le> 63 \<and> (\<forall>i < record_count b. lba_ok (record_lba b + word_of_nat i))"

lemma wp_reset:
  assumes "kmode m" "disk_img m = Some img" "boot_rom (rom m) L" "b = sector_of img 100" "record_fits b"
    "\<And>m' l r'. take 4 b = [66, 66, 66, 82] \<Longrightarrow> take 2 (kernel_start img) = [0x42, 0x58] \<Longrightarrow>
       view m' = (emit (map of_char (banner @ loading @ jumping)) (view m))\<lparr>disk_lba := l, ram := r'\<rparr> \<Longrightarrow>
       sectors_at r' 512 img (record_lba b) (record_count b) \<Longrightarrow> \<forall>a. \<not> boot_area (max 1 (record_count b)) (unat a) \<longrightarrow> r' a = ram m a \<Longrightarrow>
       r' 0xFE = lo8 (early_brk L) \<Longrightarrow> r' 0xFF = hi8 (early_brk L) \<Longrightarrow> Q (Jump (le16 (kernel_start img ! 4) (kernel_start img ! 5)) m')"
    "\<And>m' l r'. take 4 b = [66, 66, 66, 82] \<Longrightarrow> take 2 (kernel_start img) \<noteq> [0x42, 0x58] \<Longrightarrow>
       view m' = (emit (map of_char (banner @ loading @ bad_bbx_text)) (view m))\<lparr>disk_lba := l, ram := r'\<rparr> \<Longrightarrow> Q (Halted m')"
    "\<And>m' l r'. take 4 b \<noteq> [66, 66, 66, 82] \<Longrightarrow>
       view m' = (emit (map of_char (banner @ bad_record_text)) (view m))\<lparr>disk_lba := l, ram := r'\<rparr> \<Longrightarrow> Q (Halted m')"
  shows "wp (reset L m) Q"
proof -
  let ?s = "view m"
  have v: "view m = ?s\<lparr>ram := ram m\<rparr>" by (simp add: view_def)
  have k: "kmode ?s" "disk_img ?s = Some img" "boot_rom (rom ?s) L" using assms(1-3) by (simp_all add: view_fields) (simp add: view_def)
  let ?s1 = "(emit (map of_char banner) ?s)\<lparr>disk_lba := 100\<rparr>"
  have k1: "kmode ?s1" "disk_img ?s1 = Some img" "boot_rom (rom ?s1) L" using k by simp_all
  have t: "rom_text (rom ?s1) (at_bad_record L) (map of_char bad_record_text)" using k by (simp add: boot_rom_def)
  have n: "record_count b \<le> 63" "\<And>i. i < record_count b \<Longrightarrow> lba_ok (record_lba b + word_of_nat i)" using assms(5) by (simp_all add: record_fits_def)
  show ?thesis
    unfolding reset_def
  proof (rule wp_reset_record [OF v k])
    fix m1 r1
    assume m1: "view m1 = ?s1\<lparr>ram := r1\<rparr>" and st: "staged r1 (sector_of img 100)" and keep: "\<forall>a. \<not> boot_area 1 (unat a) \<longrightarrow> r1 a = ram m a"
      and brk: "r1 0xFE = lo8 (early_brk L)" "r1 0xFF = hi8 (early_brk L)"
    have bad: "wp (halt_with (at_bad_record L) bad_record_text m1) Q" if "take 4 b \<noteq> [66, 66, 66, 82]"
      unfolding halt_with_def wpn
    proof (rule wp_tell [OF m1 k1(1) t])
      fix m2 r2
      assume "view m2 = (emit (map of_char bad_record_text) ?s1)\<lparr>ram := r2\<rparr>"
      then show "Q (Halted m2)" using assms(8) [OF that, of m2 r2 100] by (simp add: emit_append)
    qed
    have good: "wp (do {
        m \<leftarrow> move4 (STAGE_ADDR + 4) ZP_LBA m1;
        m \<leftarrow> move_byte (STAGE_ADDR + 8) ZP_COUNT m;
        m \<leftarrow> move_byte (STAGE_ADDR + 9) (ZP_COUNT + 1) m;
        m \<leftarrow> say (at_loading L) loading m;
        m \<leftarrow> wr ZP_PTR (lo8 STAGE_ADDR) m;
        m \<leftarrow> wr (ZP_PTR + 1) (hi8 STAGE_ADDR) m;
        m \<leftarrow> load_kernel (at_read_kernel L) m;
        load_done L m }) Q" if ok: "take 4 b = [66, 66, 66, 82]"
    proof (rule wp_reset_kernel [OF m1 k1 _ assms(4) n])
      show "staged r1 b" using st assms(4) by simp
    next
      fix m2 l r2
      assume h: "take 2 (kernel_start img) = [0x42, 0x58]" "view m2 = (emit (map of_char (loading @ jumping)) ?s1)\<lparr>disk_lba := l, ram := r2\<rparr>"
        "sectors_at r2 512 img (record_lba b) (record_count b)" "\<forall>a. \<not> load_area 512 (record_count b) (unat a) \<longrightarrow> r2 a = r1 a"
      have "r2 a = ram m a" if "\<not> boot_area (max 1 (record_count b)) (unat a)" for a
      proof -
        have "\<not> load_area 512 (record_count b) (unat a)" "\<not> boot_area 1 (unat a)"
          using that by (auto simp: boot_area_def load_area_def max_def split: if_splits)
        then show ?thesis using h(4) keep by simp
      qed
      moreover have "r2 0xFE = lo8 (early_brk L)" "r2 0xFF = hi8 (early_brk L)" using h(4) brk by (simp_all add: load_area_def)
      ultimately show "Q (Jump (le16 (kernel_start img ! 4) (kernel_start img ! 5)) m2)"
        using assms(6) [OF ok h(1), of m2 r2 l] h(2,3) by (simp add: emit_append)
    next
      fix m2 l r2
      assume h: "take 2 (kernel_start img) \<noteq> [0x42, 0x58]" "view m2 = (emit (map of_char (loading @ bad_bbx_text)) ?s1)\<lparr>disk_lba := l, ram := r2\<rparr>"
      then show "Q (Halted m2)" using assms(7) [OF ok h(1), of m2 r2 l] by (simp add: emit_append)
    qed assumption
    show "wp (case (take 4 (sector_of img 100) = [66, 66, 66, 82], m1) of (ok, m) \<Rightarrow>
        if \<not> ok then halt_with (at_bad_record L) bad_record_text m
        else do {
          m \<leftarrow> move4 (STAGE_ADDR + 4) ZP_LBA m;
          m \<leftarrow> move_byte (STAGE_ADDR + 8) ZP_COUNT m;
          m \<leftarrow> move_byte (STAGE_ADDR + 9) (ZP_COUNT + 1) m;
          m \<leftarrow> say (at_loading L) loading m;
          m \<leftarrow> wr ZP_PTR (lo8 STAGE_ADDR) m;
          m \<leftarrow> wr (ZP_PTR + 1) (hi8 STAGE_ADDR) m;
          m \<leftarrow> load_kernel (at_read_kernel L) m;
          load_done L m }) Q"
      using bad good assms(4) by (cases "take 4 b = [66, 66, 66, 82]") simp_all
  qed
qed

text \<open>With the two tests passed, the kernel is in memory and the processor at its entry point.\<close>

definition kernel_loaded :: "u8 list \<Rightarrow> machine \<Rightarrow> bool" where
  "kernel_loaded img m \<longleftrightarrow> (let b = sector_of img 100 in sectors_at (ram m) 512 img (record_lba b) (record_count b))"

definition bootable :: "u8 list \<Rightarrow> bool" where
  "bootable img \<longleftrightarrow> (let b = sector_of img 100 in take 4 b = [66, 66, 66, 82] \<and> record_fits b \<and> take 2 (kernel_start img) = [0x42, 0x58])"

lemma reset_jumps:
  assumes "kmode m" "disk_img m = Some img" "boot_rom (rom m) L" "bootable img"
  shows "\<exists>m'. reset L m = Some (Jump (le16 (kernel_start img ! 4) (kernel_start img ! 5)) m') \<and> kmode m' \<and> disk_img m' = Some img \<and>
    kernel_loaded img m' \<and> (\<forall>a. \<not> boot_area (max 1 (record_count (sector_of img 100))) (unat a) \<longrightarrow> ram m' a = ram m a) \<and>
    le16 (ram m' 0xFE) (ram m' 0xFF) = early_brk L \<and>
    acia_out m' = acia_out m @ map of_char (banner @ loading @ jumping) \<and> gpu_out m' = gpu_out m @ map of_char (banner @ loading @ jumping)"
proof -
  have b: "take 4 (sector_of img 100) = [66, 66, 66, 82]" "record_fits (sector_of img 100)" "take 2 (kernel_start img) = [0x42, 0x58]"
    using assms(4) by (simp_all add: bootable_def Let_def)
  let ?P = "\<lambda>e. \<exists>m'. e = Jump (le16 (kernel_start img ! 4) (kernel_start img ! 5)) m' \<and> kmode m' \<and> disk_img m' = Some img \<and>
    kernel_loaded img m' \<and> (\<forall>a. \<not> boot_area (max 1 (record_count (sector_of img 100))) (unat a) \<longrightarrow> ram m' a = ram m a) \<and>
    le16 (ram m' 0xFE) (ram m' 0xFF) = early_brk L \<and>
    acia_out m' = acia_out m @ map of_char (banner @ loading @ jumping) \<and> gpu_out m' = gpu_out m @ map of_char (banner @ loading @ jumping)"
  have "wp (reset L m) ?P"
  proof (rule wp_reset [OF assms(1-3) refl b(2)])
    fix m' l r'
    assume h: "view m' = (emit (map of_char (banner @ loading @ jumping)) (view m))\<lparr>disk_lba := l, ram := r'\<rparr>"
      "sectors_at r' 512 img (record_lba (sector_of img 100)) (record_count (sector_of img 100))"
      "\<forall>a. \<not> boot_area (max 1 (record_count (sector_of img 100))) (unat a) \<longrightarrow> r' a = ram m a"
      "r' 0xFE = lo8 (early_brk L)" "r' 0xFF = hi8 (early_brk L)"
    note v = view_result [OF h(1)]
    show "?P (Jump (le16 (kernel_start img ! 4) (kernel_start img ! 5)) m')"
      using v h(2-5) assms(1,2) by (simp add: kernel_loaded_def Let_def)
  qed (use b in simp_all)
  then show ?thesis by (auto simp: wp_def)
qed

lemma reset_halts:
  assumes "kmode m" "disk_img m = Some img" "boot_rom (rom m) L" "record_fits (sector_of img 100)" "\<not> bootable img"
    "t = banner @ (if take 4 (sector_of img 100) = [66, 66, 66, 82] then loading @ bad_bbx_text else bad_record_text)"
  shows "\<exists>m'. reset L m = Some (Halted m') \<and> acia_out m' = acia_out m @ map of_char t \<and> gpu_out m' = gpu_out m @ map of_char t"
proof -
  have "wp (reset L m) (\<lambda>e. \<exists>m'. e = Halted m' \<and> acia_out m' = acia_out m @ map of_char t \<and> gpu_out m' = gpu_out m @ map of_char t)"
    by (rule wp_reset [OF assms(1-3) refl assms(4)])
      (use assms(4-6) in \<open>auto simp: bootable_def Let_def dest: view_result(4,5)\<close>)
  then show ?thesis by (auto simp: wp_def)
qed

end
