(* ===== verification/Vectors.thy ===== *)
theory Vectors
  imports Yield
begin

text \<open>
  What the vectors of the boot ROM lead to (\<^verbatim>\<open>sw/boot/boot.s\<close>) besides \<open>reset\<close> and \<open>ret_user_mode\<close>:
  \<open>nmi_handler\<close> and \<open>early_brk_rti\<close>, which only return, and \<open>brk_trampoline\<close>, which goes on through the
  zero page. A fault of the MMU arrives as an NMI (\<^verbatim>\<open>tb.v\<close>).
\<close>

section \<open>The code\<close>

definition rti :: "kern \<Rightarrow> (u8 \<times> u16) \<times> kern" where
  "rti k =
     (case pull k of (st, k) \<Rightarrow> case pull k of (l, k) \<Rightarrow> case pull k of (h, k) \<Rightarrow> ((st, le16 l h), k))"

definition nmi_handler :: "kern \<Rightarrow> (u8 \<times> u16) \<times> kern" where "nmi_handler = rti"
definition early_brk_rti :: "kern \<Rightarrow> (u8 \<times> u16) \<times> kern" where "early_brk_rti = rti"

text \<open>\<open>jmp ($00FE)\<close>\<close>

definition brk_trampoline :: "machine \<Rightarrow> u16 \<times> machine" where
  "brk_trampoline m = (case mem_read 0x00FE m of (l, m) \<Rightarrow> case mem_read 0x00FF m of (h, m) \<Rightarrow> (le16 l h, m))"

text \<open>
  The 65C02's NMI before the instruction at \<open>pc\<close>: it pushes \<open>pc\<close> and the status with its B bit clear, then
  fetches the vector.
\<close>

definition nmi :: "u16 \<Rightarrow> u8 \<Rightarrow> kern \<Rightarrow> kern" where
  "nmi pc st k =
     (let k = push (st AND 0xEF OR 0x20) (push (lo8 pc) (push (hi8 pc) k))
      in k\<lparr>mach := snd (bus_cycle False False 0xFFFB 0 (snd (bus_cycle False False 0xFFFA 0 (mach k))))\<rparr>)"

section \<open>The stack in kernel mode\<close>

lemma vector_fetch:
  assumes "kmode m" "a \<noteq> 0x80E6"
  shows "ram (snd (bus_cycle False False a 0 m)) = ram m \<and> env (snd (bus_cycle False False a 0 m)) = env m"
  using core_env [OF bus_read_core [OF assms(1), of False a 0]] assms(2) by (simp add: rd_spec_other)

text \<open>An NMI in kernel mode and a handler that only returns: nothing has happened but three bytes below the stack pointer.\<close>

lemma nmi_rti:
  assumes "kmode (mach k)"
  shows "\<exists>m'. rti (nmi pc st k) = ((st AND 0xEF OR 0x20, pc), k\<lparr>mach := m'\<rparr>) \<and> env m' = env (mach k) \<and>
    ram m' = (ram (mach k))(0x100 + ucast (SP k) := hi8 pc, 0x100 + ucast (SP k - 1) := lo8 pc, 0x100 + ucast (SP k - 2) := st AND 0xEF OR 0x20)"
proof -
  let ?s = "st AND 0xEF OR 0x20"
  obtain m1 where m1: "push (hi8 pc) k = k\<lparr>mach := m1, SP := SP k - 1\<rparr>" "ram m1 = (ram (mach k))(0x100 + ucast (SP k) := hi8 pc)"
      "env m1 = env (mach k)" using push_kernel [OF assms] by blast
  have k1: "kmode m1" by (rule kmode_env [OF m1(3) assms])
  let ?k1 = "k\<lparr>mach := m1, SP := SP k - 1\<rparr>"
  obtain m2 where m2: "push (lo8 pc) ?k1 = k\<lparr>mach := m2, SP := SP k - 2\<rparr>" "ram m2 = (ram m1)(0x100 + ucast (SP k - 1) := lo8 pc)"
      "env m2 = env m1" using push_kernel [of ?k1 "lo8 pc"] k1 by (auto simp: diff_diff_eq)
  have k2: "kmode m2" by (rule kmode_env [OF m2(3) k1])
  let ?k2 = "k\<lparr>mach := m2, SP := SP k - 2\<rparr>"
  obtain m3 where m3: "push ?s ?k2 = k\<lparr>mach := m3, SP := SP k - 3\<rparr>" "ram m3 = (ram m2)(0x100 + ucast (SP k - 2) := ?s)"
      "env m3 = env m2" using push_kernel [of ?k2 ?s] k2 by (auto simp: diff_diff_eq)
  have k3: "kmode m3" by (rule kmode_env [OF m3(3) k2])
  let ?m4 = "snd (bus_cycle False False 0xFFFA 0 m3)"
  note v1 = vector_fetch [OF k3, of "0xFFFA"]
  have k4: "kmode ?m4" using kmode_env [OF _ k3] v1 by simp
  let ?m5 = "snd (bus_cycle False False 0xFFFB 0 ?m4)"
  note v2 = vector_fetch [OF k4, of "0xFFFB"]
  have k5: "kmode ?m5" using kmode_env [OF _ k4] v2 by simp
  let ?k5 = "k\<lparr>mach := ?m5, SP := SP k - 3\<rparr>"
  have n: "nmi pc st k = ?k5" by (simp add: nmi_def m1(1) m2(1) m3(1) Let_def)
  let ?r = "(ram (mach k))(0x100 + ucast (SP k) := hi8 pc, 0x100 + ucast (SP k - 1) := lo8 pc, 0x100 + ucast (SP k - 2) := ?s)"
  have r5: "ram ?m5 = ?r" "env ?m5 = env (mach k)" using v1 v2 m1(2,3) m2(2,3) m3(2,3) by simp_all
  have ne: "(ucast (SP k - 2) :: 15 word) \<noteq> ucast (SP k - 1)" "(ucast (SP k - 2) :: 15 word) \<noteq> ucast (SP k)" "(ucast (SP k - 1) :: 15 word) \<noteq> ucast (SP k)"
    by (simp_all add: stack_slots)
  obtain m6 where m6: "pull ?k5 = (ram ?m5 (0x100 + ucast (SP k - 2)), k\<lparr>mach := m6, SP := SP k - 2\<rparr>)" "ram m6 = ram ?m5" "env m6 = env ?m5"
    using pull_kernel [of ?k5] k5 by (auto simp: diff_add_eq)
  have k6: "kmode m6" by (rule kmode_env [OF m6(3) k5])
  let ?k6 = "k\<lparr>mach := m6, SP := SP k - 2\<rparr>"
  obtain m7 where m7: "pull ?k6 = (ram m6 (0x100 + ucast (SP k - 1)), k\<lparr>mach := m7, SP := SP k - 1\<rparr>)" "ram m7 = ram m6" "env m7 = env m6"
    using pull_kernel [of ?k6] k6 by (auto simp: diff_add_eq)
  have k7: "kmode m7" by (rule kmode_env [OF m7(3) k6])
  let ?k7 = "k\<lparr>mach := m7, SP := SP k - 1\<rparr>"
  obtain m8 where m8: "pull ?k7 = (ram m7 (0x100 + ucast (SP k)), k\<lparr>mach := m8, SP := SP k\<rparr>)" "ram m8 = ram m7" "env m8 = env m7"
    using pull_kernel [of ?k7] k7 by (auto simp: diff_add_eq)
  have "rti ?k5 = ((?s, le16 (lo8 pc) (hi8 pc)), k\<lparr>mach := m8\<rparr>)"
    using ne by (simp add: rti_def m6(1,2) m7(1,2) m8(1) r5(1))
  then show ?thesis using n r5 m6(2,3) m7(2,3) m8(2,3) by (intro exI [of _ m8]) simp
qed

text \<open>A BRK or an IRQ in kernel mode goes on at the address the kernel put into its own zero page.\<close>

lemma trampoline_kernel:
  assumes "kmode m"
  shows "\<exists>m'. brk_trampoline m = (le16 (ram m 0xFE) (ram m 0xFF), m') \<and> ram m' = ram m \<and> env m' = env m"
proof -
  obtain m1 where m1: "mem_read 0x00FE m = (ram m 0xFE, m1)" "ram m1 = ram m" "env m1 = env m"
    using rd_ram [OF assms, of "0x00FE"] by auto
  obtain m2 where m2: "mem_read 0x00FF m1 = (ram m1 0xFF, m2)" "ram m2 = ram m1" "env m2 = env m1"
    using rd_ram [OF kmode_env [OF m1(3) assms], of "0x00FF"] by auto
  show ?thesis using m1 m2 by (intro exI [of _ m2]) (simp add: brk_trampoline_def)
qed

section \<open>Faults\<close>

lemma fault_cycle:
  assumes "\<not> kernel (mmu m)" "fault_any (mmu m) (\<not> we) a"
  shows "NMI (snd (bus_cycle True we a d m)) \<and> kmode (snd (bus_cycle True we a d m))"
  using assms by (simp add: bus_cycle_def Let_def mmu_posedge mmu_negedge_def kmode_def)

text \<open>C37: An access of a process that the MMU does not allow raises the NMI, and as \<open>nmi_handler\<close> only
  returns, the process goes on at the instruction it was at, with its registers and its stack pointer, but in kernel
  mode: every address below \<open>$8000\<close> now reads physical memory untranslated. Three bytes of the kernel's stack page,
  at the process's stack pointer, have been overwritten, and since the faulting access nothing else in memory (that
  access itself, if it was a write, has been carried out untranslated: \<open>faulting_write_lands\<close>).\<close>

theorem fault_resumes:
  assumes "\<not> kernel (mmu (mach k))" "fault_any (mmu (mach k)) (\<not> we) a"
  shows "\<exists>m1 m2. m1 = snd (bus_cycle True we a d (mach k)) \<and> NMI m1 \<and>
    nmi_handler (nmi pc st (k\<lparr>mach := m1\<rparr>)) = ((st AND 0xEF OR 0x20, pc), k\<lparr>mach := m2\<rparr>) \<and> kmode m2 \<and>
    (\<forall>b < 0x8000. read_mux b m2 = ram m2 (ucast b)) \<and>
    ram m2 = (ram m1)(0x100 + ucast (SP k) := hi8 pc, 0x100 + ucast (SP k - 1) := lo8 pc, 0x100 + ucast (SP k - 2) := st AND 0xEF OR 0x20)"
proof -
  let ?m1 = "snd (bus_cycle True we a d (mach k))"
  note f = fault_cycle [OF assms, of d]
  obtain m2 where m2: "rti (nmi pc st (k\<lparr>mach := ?m1\<rparr>)) = ((st AND 0xEF OR 0x20, pc), k\<lparr>mach := m2\<rparr>)" "env m2 = env ?m1"
      "ram m2 = (ram ?m1)(0x100 + ucast (SP k) := hi8 pc, 0x100 + ucast (SP k - 1) := lo8 pc, 0x100 + ucast (SP k - 2) := st AND 0xEF OR 0x20)"
    using nmi_rti [of "k\<lparr>mach := ?m1\<rparr>" pc st] f by auto
  have "kmode m2" by (rule kmode_env [OF m2(2)]) (simp add: f)
  then show ?thesis using f m2 by (intro exI [of _ ?m1] exI [of _ m2]) (simp add: nmi_handler_def read_mux_ram)
qed

lemma fault_resumes_witness:
  "let k = demo_kern None 1; k = k\<lparr>mach := (mach k)\<lparr>mmu := mmu_reset\<lparr>kernel := False\<rparr>\<rparr>, SP := 0xF0\<rparr>
   in \<exists>m1 m2. m1 = snd (bus_cycle True True 0x1234 7 (mach k)) \<and> NMI m1 \<and>
     nmi_handler (nmi 0x0203 0x30 (k\<lparr>mach := m1\<rparr>)) = ((0x20, 0x0203), k\<lparr>mach := m2\<rparr>) \<and> kmode m2 \<and>
     ram m2 = (ram m1)(0x1F0 := 2, 0x1EF := 3, 0x1EE := 0x20)"
proof -
  let ?k = "(demo_kern None 1)\<lparr>mach := (mach (demo_kern None 1))\<lparr>mmu := mmu_reset\<lparr>kernel := False\<rparr>\<rparr>, SP := 0xF0\<rparr>"
  have 1: "\<not> kernel (mmu (mach ?k))" by simp
  have 2: "fault_any (mmu (mach ?k)) (\<not> True) 0x1234" by (simp add: fault_any_def fault_u_def mmu_reset_def ram_access_def)
  have "lo8 0x0203 = 3" "hi8 0x0203 = 2" by (simp_all add: lo8_def hi8_def)
  then show ?thesis using fault_resumes [OF 1 2, of 7 "0x0203" "0x30"] by (simp add: Let_def) blast
qed

end
