(* ===== verification/System.thy ===== *)
theory System
  imports Turns Reset Vectors
begin

text \<open>
  The computer from power-on to its programs: the boot ROM, the kernel's \<^verbatim>\<open>crt0.s\<close>, \<open>main\<close> and the time
  slices. The kernel's code in memory is not interpreted: it is \<open>kentry\<close>, at the address the linker
  gave it, and a jump to any other address is no execution of this model.
\<close>

section \<open>Model\<close>

text \<open>
  \<open>kentry\<close> of \<^verbatim>\<open>crt0.s\<close>. The kernel's variables are in the part of the image that the linker fills with
  zeros (\<^verbatim>\<open>kernel.cfg\<close>); \<open>sp\<close> is the C stack's pointer in the zero page, \<open>ra\<close> the return addresses
  of the assembly code's JSR instructions.
\<close>

definition kentry :: "u16 \<Rightarrow> u16 \<Rightarrow> (call_site \<Rightarrow> u16) \<Rightarrow> machine \<Rightarrow> boot option" where
  "kentry sp h ra m =
     kmain h \<lparr>mach = mem_write (sp + 1) 0x7E (mem_write sp 0xFF m), nprocs = 0, plist_idx = 0, SP = 0xFF, ret_at = ra\<rparr>"

definition power_up :: "boot_link \<Rightarrow> u16 \<Rightarrow> u16 \<Rightarrow> u16 \<Rightarrow> (call_site \<Rightarrow> u16) \<Rightarrow> machine \<Rightarrow> boot option" where
  "power_up L entry sp h ra m = do {
     r \<leftarrow> reset L m;
     case r of Halted m \<Rightarrow> None | Jump a m \<Rightarrow> if a = entry then kentry sp h ra m else None }"

section \<open>Facts\<close>

lemma kentry_zp:
  assumes "kmode m" "unat sp < 0x20" "m' = mem_write (sp + 1) 0x7E (mem_write sp 0xFF m)"
  shows "kmode m'" "disk_img m' = disk_img m" "acia_out m' = acia_out m" "gpu_out m' = gpu_out m"
    "ram m' = (ram m)(ucast sp := 0xFF, ucast (sp + 1) := 0x7E)"
proof -
  let ?m1 = "mem_write sp 0xFF m"
  have u: "unat (sp + 1) = unat sp + 1" using assms(2) by (simp add: unat_word_ariths)
  have a: "sp < 0x8000" "sp + 1 < 0x8000" using assms(2) u by (simp_all add: word_less_nat_alt)
  have e: "env ?m1 = env m" by (rule wr_ram(2) [OF assms(1) a(1)])
  then have k: "kmode ?m1" using assms(1) by (simp add: env_simps)
  have "env m' = env m" using wr_ram(2) [OF k a(2), of "0x7E"] e unfolding assms(3) by (rule trans)
  then show "kmode m'" "disk_img m' = disk_img m" "acia_out m' = acia_out m" "gpu_out m' = gpu_out m"
    using assms(1) by (simp_all add: env_simps)
  show "ram m' = (ram m)(ucast sp := 0xFF, ucast (sp + 1) := 0x7E)"
    using wr_ram(1) [OF k a(2), of "0x7E"] wr_ram(1) [OF assms(1) a(1), of "0xFF"] unfolding assms(3) by simp
qed

text \<open>A BRK of a process goes through the kernel's zero page, whatever the process has in its own.\<close>

lemma brk_vector:
  assumes "ready_page0 k"
  shows "fst (brk_trampoline (mach (brk pc st k))) = le16 (ram (mach k) 0xFE) (ram (mach k) 0xFF)"
proof -
  let ?p = "unat (ppn (mmu (mach k)) 0) * 1024 + 256"
  have o: "\<not> kmode (mach k)" "bit (u_bits (mmu (mach k))) 0" "bit (w_bits (mmu (mach k))) 0"
    and n: "ppn (mmu (mach k)) 0 \<noteq> 0"
    using assms by (simp_all add: ready_page0_def open_user_def)
  have b: "?p + 256 \<le> 32768" "0x400 \<le> ?p" using stack_page_bounds [OF n] by simp_all
  obtain m1 where m1: "brk pc st k = k\<lparr>mach := m1, SP := SP k - 3\<rparr>" "ram m1 = brk_ram ?p (SP k) pc st (ram (mach k))"
      "env m1 = env (to_kernel (mach k))"
    using brk_spec [OF o refl] by blast
  have "kmode m1" using m1(3) by (simp add: env_iff to_kernel_def kmode_def)
  then have "fst (brk_trampoline m1) = le16 (ram m1 0xFE) (ram m1 0xFF)" using trampoline_kernel by fastforce
  moreover have "ram m1 0xFE = ram (mach k) 0xFE" "ram m1 0xFF = ram (mach k) 0xFF"
    using brk_ram_below [OF _ b(1), of "0xFE"] brk_ram_below [OF _ b(1), of "0xFF"] b(2) by (simp_all add: m1(2))
  ultimately show ?thesis by (simp add: m1(1))
qed

definition brk_reaches :: "u16 \<Rightarrow> kern \<Rightarrow> bool" where
  "brk_reaches h k \<longleftrightarrow> (\<forall>pc st. fst (brk_trampoline (mach (brk pc st k))) = h)"

text \<open>The processor's mode at power-on is the kernel's.\<close>

lemma power_on_kmode: "kmode (power_on r0 ro b0 img rx gp)"
  by (simp add: kmode_def mmu_reset_def)

text \<open>A disk from which the computer starts, with its five parts.\<close>

definition system_disk_ok :: "u8 list \<Rightarrow> u16 \<Rightarrow> program \<Rightarrow> program \<Rightarrow> program \<Rightarrow> bool" where
  "system_disk_ok img entry P Q R \<longleftrightarrow>
     bootable img \<and> le16 (kernel_start img ! 4) (kernel_start img ! 5) = entry \<and>
     image_of (sector_of img 200) P \<and> image_of (sector_of img 210) Q \<and> image_of (sector_of img 220) R"

lemma power_up_ok:
  assumes "system_disk_ok img entry (Hello L1 e1 a1 b1) (Hello2 L2 e2 a2 b2) (Disktest L3 e3 D)" "boot_rom R L" "unat sp < 0x20"
    "m = power_on ram0 R buf0 (Some img) rx gp" "txt0 = map of_char (banner @ loading @ jumping) @ map of_char (boot_text img)"
  shows "\<exists>cpu k0. power_up L entry sp h ra m = Some (Started cpu k0) \<and>
    (\<forall>n. \<exists>cpu' ts k'. turns (trio (Hello L1 e1 a1 b1) (Hello2 L2 e2 a2 b2) (Disktest L3 e3 D)) n (cpu, (\<lambda>i. None), k0) = Some (cpu', ts, k') \<and>
       unat (plist_idx k') = n mod 3 \<and>
       acia_out (mach k') = txt0 @ concat (map (turn_text img) [0..<n]) \<and> gpu_out (mach k') = txt0 @ concat (map (turn_text img) [0..<n]) \<and>
       brk_reaches h k')"
proof -
  have m: "kmode m" "disk_img m = Some img" "boot_rom (rom m) L" "acia_out m = []" "gpu_out m = []"
    using assms(2) by (simp_all add: assms(4) power_on_kmode)
  have d: "bootable img" "le16 (kernel_start img ! 4) (kernel_start img ! 5) = entry"
    and I: "image_of (sector_of img 200) (Hello L1 e1 a1 b1)" "image_of (sector_of img 210) (Hello2 L2 e2 a2 b2)" "image_of (sector_of img 220) (Disktest L3 e3 D)"
    using assms(1) by (simp_all add: system_disk_ok_def)
  obtain m1 where m1: "reset L m = Some (Jump entry m1)" "kmode m1" "disk_img m1 = Some img"
      "acia_out m1 = map of_char (banner @ loading @ jumping)" "gpu_out m1 = map of_char (banner @ loading @ jumping)" "kernel_loaded img m1"
    using reset_jumps [OF m(1-3) d(1)] unfolding d(2) m(4,5) append_Nil by blast
  define k where "k = \<lparr>mach = mem_write (sp + 1) 0x7E (mem_write sp 0xFF m1), nprocs = 0, plist_idx = 0, SP = 0xFF, ret_at = ra\<rparr>"
  have k: "kmode (mach k)" "nprocs k = 0" "disk_img (mach k) = Some img" "acia_out (mach k) = map of_char (banner @ loading @ jumping)"
    "gpu_out (mach k) = map of_char (banner @ loading @ jumping)"
    using kentry_zp [OF m1(2) assms(3) refl] m1(3-5) by (simp_all add: k_def)
  have p: "power_up L entry sp h ra m = kmain h k" by (simp add: power_up_def m1(1) kentry_def k_def)
  let ?Ps = "trio (Hello L1 e1 a1 b1) (Hello2 L2 e2 a2 b2) (Disktest L3 e3 D)"
  obtain cpu k0 where c: "kmain h k = Some (Started cpu k0)"
    "\<forall>n. \<exists>cpu' ts k'. turns ?Ps n (cpu, (\<lambda>i. None), k0) = Some (cpu', ts, k') \<and> unat (plist_idx k') = n mod 3 \<and>
       acia_out (mach k') = txt0 @ concat (map (turn_text img) [0..<n]) \<and> gpu_out (mach k') = txt0 @ concat (map (turn_text img) [0..<n]) \<and>
       ram (mach k') 0xFE = lo8 h \<and> ram (mach k') 0xFF = hi8 h \<and> ready_page0 k'"
    using kernel_takes_turns [OF k(1-3) I, of h] unfolding k(4,5) assms(5) append_assoc by blast
  have V: "brk_reaches h k" if "ram (mach k) 0xFE = lo8 h" "ram (mach k) 0xFF = hi8 h" "ready_page0 k" for k
    using brk_vector [OF that(3)] that(1,2) by (simp add: brk_reaches_def)
  show ?thesis unfolding p
  proof (rule exI [of _ cpu], rule exI [of _ k0], rule conjI, rule c(1), rule allI)
    fix n
    show "\<exists>cpu' ts k'. turns ?Ps n (cpu, (\<lambda>i. None), k0) = Some (cpu', ts, k') \<and> unat (plist_idx k') = n mod 3 \<and>
       acia_out (mach k') = txt0 @ concat (map (turn_text img) [0..<n]) \<and> gpu_out (mach k') = txt0 @ concat (map (turn_text img) [0..<n]) \<and>
       brk_reaches h k'"
      using c(2) V by blast
  qed
qed

section \<open>A system\<close>

lemma sector_of_at:
  assumes "img = a @ s @ b" "length a = unat lba * 512" "length s = 512"
  shows "sector_of img lba = s"
  unfolding assms(1) by (rule sector_of_middle [OF assms(2,3)])

definition demo_record :: "u8 list" where
  "demo_record = [66, 66, 66, 82, 101, 0, 0, 0, 7, 0] @ replicate 502 0"

definition demo_kernel :: "u8 list" where
  "demo_kernel = [0x42, 0x58, 0x00, 0x02, 0x06, 0x02] @ replicate 506 0"

definition system_disk :: "u8 list" where
  "system_disk = replicate 510 0 @ [0x55, 0xAA] @ replicate (99 * 512) 0 @ demo_record @ demo_kernel @ replicate (98 * 512) 0 @ demo_sectors ! 0
     @ replicate (9 * 512) 0 @ demo_sectors ! 1 @ replicate (9 * 512) 0 @ demo_sectors ! 2"

lemma system_disk_sectors:
  "sector_of system_disk 100 = demo_record" "sector_of system_disk 101 = demo_kernel" "sector_of system_disk 200 = demo_sectors ! 0"
  "sector_of system_disk 210 = demo_sectors ! 1" "sector_of system_disk 220 = demo_sectors ! 2"
  "sector_of system_disk 0 ! 510 = 0x55" "sector_of system_disk 0 ! 511 = 0xAA"
proof -
  let ?z = "\<lambda>n. replicate n (0 :: u8)"
  let ?a = "?z 510 @ [0x55, 0xAA] @ ?z (99 * 512)" and ?c = "?z (98 * 512)" and ?g = "?z (9 * 512)"
  let ?s0 = "demo_sectors ! 0" and ?s1 = "demo_sectors ! 1" and ?s2 = "demo_sectors ! 2"
  have d: "system_disk = ?a @ demo_record @ demo_kernel @ ?c @ ?s0 @ ?g @ ?s1 @ ?g @ ?s2"
    "system_disk = (?a @ demo_record) @ demo_kernel @ ?c @ ?s0 @ ?g @ ?s1 @ ?g @ ?s2"
    "system_disk = (?a @ demo_record @ demo_kernel @ ?c) @ ?s0 @ ?g @ ?s1 @ ?g @ ?s2"
    "system_disk = (?a @ demo_record @ demo_kernel @ ?c @ ?s0 @ ?g) @ ?s1 @ ?g @ ?s2"
    "system_disk = (?a @ demo_record @ demo_kernel @ ?c @ ?s0 @ ?g @ ?s1 @ ?g) @ ?s2 @ []"
    "system_disk = [] @ (?z 510 @ [0x55, 0xAA]) @ ?z (99 * 512) @ demo_record @ demo_kernel @ ?c @ ?s0 @ ?g @ ?s1 @ ?g @ ?s2"
    unfolding system_disk_def by (simp_all only: append_assoc append_Nil append_Nil2)
  have l: "length demo_record = 512" "length demo_kernel = 512" by (simp_all add: demo_record_def demo_kernel_def)
  note len = length_append length_replicate demo_sectors_length l
  show "sector_of system_disk 100 = demo_record" by (rule sector_of_at [OF d(1)], simp_all only: len, simp_all)
  show "sector_of system_disk 101 = demo_kernel" by (rule sector_of_at [OF d(2)], simp_all only: len, simp_all)
  show "sector_of system_disk 200 = ?s0" by (rule sector_of_at [OF d(3)], simp_all only: len, simp_all)
  show "sector_of system_disk 210 = ?s1" by (rule sector_of_at [OF d(4)], simp_all only: len, simp_all)
  show "sector_of system_disk 220 = ?s2" by (rule sector_of_at [OF d(5)], simp_all only: len, simp_all)
  have "sector_of system_disk 0 = ?z 510 @ [0x55, 0xAA]" by (rule sector_of_at [OF d(6)]) simp_all
  then show "sector_of system_disk 0 ! 510 = 0x55" "sector_of system_disk 0 ! 511 = 0xAA" by (simp_all add: nth_append)
qed

text \<open>A ROM with the five strings one behind the other.\<close>

definition rom_of :: "u8 list \<Rightarrow> u16 \<Rightarrow> u8" where
  "rom_of bs a = (if unat a < length bs then bs ! unat a else 0)"

definition demo_strings :: "u8 list" where
  "demo_strings = 0 # concat (map (\<lambda>t. map of_char t @ [0]) [banner, loading, jumping, bad_bbx_text, bad_record_text])"

definition demo_boot :: boot_link where
  "demo_boot = \<lparr>early_brk = 0xA000, at_banner = 0x8100, at_read_record = 0x9000, at_loading = 0x8112, at_read_kernel = 0x9003,
     at_jumping = 0x8123, at_bad_bbx = 0x8137, at_bad_record = 0x815A\<rparr>"

lemma rom_text_of:
  assumes "bs = pre @ t @ 0 # post" "unat ra + 1 = 0x8100 + length pre" "unat ra + 1 + length t < 0x10000" "length t < 255" "0 \<notin> set t" "0x8100 \<le> unat ra"
  shows "rom_text (rom_of bs) ra t"
proof -
  have "rom_of bs (ra + 1 + word_of_nat i - 0x8100) = (t @ [0]) ! i" if "i \<le> length t" for i
  proof -
    have "unat (ra + 1 + word_of_nat i) = unat ra + 1 + i"
      using that assms(3) by (simp add: unat_word_ariths unat_of_nat)
    then have "unat (ra + 1 + word_of_nat i - 0x8100) = length pre + i"
      using assms(2) by (subst unat_sub) (simp_all add: word_le_nat_alt)
    then show ?thesis using that by (auto simp: rom_of_def assms(1) nth_append)
  qed
  then show ?thesis using assms(3-6) by (simp add: rom_text_def)
qed


lemma demo_boot_rom: "boot_rom (rom_of demo_strings) demo_boot"
proof -
  let ?b = "\<lambda>t. map of_char t :: u8 list"
  have s: "demo_strings = [0] @ ?b banner @ 0 # ?b loading @ 0 # ?b jumping @ 0 # ?b bad_bbx_text @ 0 # ?b bad_record_text @ [0]"
    "demo_strings = ([0] @ ?b banner @ [0]) @ ?b loading @ 0 # ?b jumping @ 0 # ?b bad_bbx_text @ 0 # ?b bad_record_text @ [0]"
    "demo_strings = ([0] @ ?b banner @ 0 # ?b loading @ [0]) @ ?b jumping @ 0 # ?b bad_bbx_text @ 0 # ?b bad_record_text @ [0]"
    "demo_strings = ([0] @ ?b banner @ 0 # ?b loading @ 0 # ?b jumping @ [0]) @ ?b bad_bbx_text @ 0 # ?b bad_record_text @ [0]"
    "demo_strings = ([0] @ ?b banner @ 0 # ?b loading @ 0 # ?b jumping @ 0 # ?b bad_bbx_text @ [0]) @ ?b bad_record_text @ 0 # []"
    by (simp_all add: demo_strings_def)
  have l: "length banner = 17" "length loading = 16" "length jumping = 19" "length bad_bbx_text = 34" "length bad_record_text = 35"
    by (simp_all add: banner_def loading_def jumping_def bad_bbx_text_def bad_record_text_def)
  have z: "0 \<notin> set (?b banner)" "0 \<notin> set (?b loading)" "0 \<notin> set (?b jumping)" "0 \<notin> set (?b bad_bbx_text)" "0 \<notin> set (?b bad_record_text)"
    by (simp_all add: banner_def loading_def jumping_def bad_bbx_text_def bad_record_text_def del: set_map)
  have "rom_text (rom_of demo_strings) (at_banner demo_boot) (?b banner)"
    by (rule rom_text_of [OF s(1) _ _ _ z(1)]) (simp_all add: l demo_boot_def)
  moreover have "rom_text (rom_of demo_strings) (at_loading demo_boot) (?b loading)"
    by (rule rom_text_of [OF s(2) _ _ _ z(2)]) (simp_all add: l demo_boot_def)
  moreover have "rom_text (rom_of demo_strings) (at_jumping demo_boot) (?b jumping)"
    by (rule rom_text_of [OF s(3) _ _ _ z(3)]) (simp_all add: l demo_boot_def)
  moreover have "rom_text (rom_of demo_strings) (at_bad_bbx demo_boot) (?b bad_bbx_text)"
    by (rule rom_text_of [OF s(4) _ _ _ z(4)]) (simp_all add: l demo_boot_def)
  moreover have "rom_text (rom_of demo_strings) (at_bad_record demo_boot) (?b bad_record_text)"
    by (rule rom_text_of [OF s(5) _ _ _ z(5)]) (simp_all add: l demo_boot_def)
  ultimately show ?thesis by (simp add: boot_rom_def)
qed

lemma demo_record_fields:
  "take 4 demo_record = [66, 66, 66, 82]" "record_lba demo_record = 101" "record_count demo_record = 7" "record_fits demo_record"
proof -
  show l: "record_lba demo_record = 101" by (simp add: record_lba_def demo_record_def le32_def)
  show n: "record_count demo_record = 7" by (simp add: record_count_def demo_record_def le16_def)
  have "lba_ok (101 + word_of_nat i)" if "i < 7" for i
  proof -
    have "unat (101 + word_of_nat i :: u32) = 101 + i" using that by (simp add: unat_word_ariths unat_of_nat)
    then show ?thesis using that by (simp add: lba_ok_def)
  qed
  then show "record_fits demo_record" by (simp add: record_fits_def l n)
  show "take 4 demo_record = [66, 66, 66, 82]" by (simp add: demo_record_def)
qed

lemma system_disk_fine: "system_disk_ok system_disk 0x0206 demo_hello demo_hello2 demo_disktest"
proof -
  have k: "kernel_start system_disk = demo_kernel"
    by (simp add: kernel_start_def system_disk_sectors demo_record_fields Let_def)
  have "take 2 demo_kernel = [0x42, 0x58]" "le16 (demo_kernel ! 4) (demo_kernel ! 5) = 0x0206" by (simp_all add: demo_kernel_def le16_def)
  then show ?thesis
    using demo_images by (simp add: system_disk_ok_def bootable_def k system_disk_sectors demo_record_fields demo_sectors_def Let_def)
qed

section \<open>Properties\<close>

text \<open>
  C1: the computer does what it is built to do. Switched on with this boot ROM, whatever its memory holds,
  and a disk with a boot record, a kernel and the three programs in their places, it starts; from there
  every number of time slices completes, each program running from where its last yield left it with its
  counter and stack intact; and both consoles show the boot ROM's messages, the kernel's, and then, in
  turn, the lines of \<open>hello\<close> and \<open>hello2\<close> with their counters, and once the report of \<open>disktest\<close> on the
  first sector of the disk.
\<close>

theorem computer_runs:
  assumes "system_disk_ok img entry (Hello L1 e1 a1 b1) (Hello2 L2 e2 a2 b2) (Disktest L3 e3 D)" "boot_rom R L" "unat sp < 0x20"
  shows "\<exists>cpu k0. power_up L entry sp h ra (power_on ram0 R buf0 (Some img) rx gp) = Some (Started cpu k0) \<and>
    (\<forall>n. \<exists>cpu' ts k'. turns (trio (Hello L1 e1 a1 b1) (Hello2 L2 e2 a2 b2) (Disktest L3 e3 D)) n (cpu, (\<lambda>i. None), k0) = Some (cpu', ts, k') \<and>
       unat (plist_idx k') = n mod 3 \<and>
       (let t = bytes (banner @ loading @ jumping @ boot_text img) @ concat (map (turn_text img) [0..<n])
        in acia_out (mach k') = t \<and> gpu_out (mach k') = t))"
proof -
  have t: "bytes (banner @ loading @ jumping @ boot_text img) = map of_char (banner @ loading @ jumping) @ map of_char (boot_text img)"
    by (simp add: bytes_def)
  let ?m = "power_on ram0 R buf0 (Some img) rx gp"
  obtain cpu k0 where c: "power_up L entry sp h ra ?m = Some (Started cpu k0)"
    "\<forall>n. \<exists>cpu' ts k'. turns (trio (Hello L1 e1 a1 b1) (Hello2 L2 e2 a2 b2) (Disktest L3 e3 D)) n (cpu, (\<lambda>i. None), k0) = Some (cpu', ts, k') \<and>
       unat (plist_idx k') = n mod 3 \<and> acia_out (mach k') = bytes (banner @ loading @ jumping @ boot_text img) @ concat (map (turn_text img) [0..<n]) \<and>
       gpu_out (mach k') = bytes (banner @ loading @ jumping @ boot_text img) @ concat (map (turn_text img) [0..<n])"
    using power_up_ok [OF assms refl t, of h ra ram0 buf0 rx gp] by blast
  then show ?thesis unfolding Let_def by blast
qed

theorem computer_runs_witness:
  "\<exists>cpu k0 cpu' ts k'. power_up demo_boot 0x0206 0 0x0300 (\<lambda>s. 0x0400) (power_on (\<lambda>a. 0xEE) (rom_of demo_strings) (\<lambda>a. 0) (Some system_disk) (\<lambda>n. None) (\<lambda>n. 0)) =
       Some (Started cpu k0) \<and>
     turns (trio demo_hello demo_hello2 demo_disktest) 4 (cpu, (\<lambda>i. None), k0) = Some (cpu', ts, k') \<and>
     acia_out (mach k') = bytes (banner @ loading @ jumping @ boot_text system_disk) @
       bytes (''Proc1:0'' @ crlf @ ''    Proc2:0'' @ crlf @ ''        disktest: ret=00 sig=55 AA PASS'' @ crlf @ ''Proc1:1'' @ crlf)"
proof -
  have T: "concat (map (turn_text system_disk) [0..<4]) =
      bytes (''Proc1:0'' @ crlf @ ''    Proc2:0'' @ crlf @ ''        disktest: ret=00 sig=55 AA PASS'' @ crlf @ ''Proc1:1'' @ crlf)"
    by (simp add: upt_rec turn_text_def system_disk_sectors report_text_def text_bytes hex_digits_def alphabet_def)
      (simp add: bytes_def crlf_def)
  have sp: "unat (0 :: u16) < 0x20" by simp
  show ?thesis
    using computer_runs [OF system_disk_fine [unfolded demo_hello_def demo_hello2_def demo_disktest_def] demo_boot_rom sp,
      of "0x0300" "\<lambda>s. 0x0400" "\<lambda>a. 0xEE" "\<lambda>a. 0" "\<lambda>n. None" "\<lambda>n. 0", folded demo_hello_def demo_hello2_def demo_disktest_def, unfolded Let_def]
    unfolding T [symmetric] by blast
qed

text \<open>
  C6: the boot ROM loads what the boot record names. With a good record on sector 100 and a kernel behind
  it, all of the kernel's sectors are at \<open>$0200\<close> in order, the processor is at the entry point of the
  kernel's header, \<open>early_brk\<close> is in the BRK vector, nothing of RAM has changed but the sectors, the
  ROM's zero page and the top of the stack, and both consoles show the three messages.
\<close>

theorem boot_loads_kernel:
  assumes "kmode m" "disk_img m = Some img" "boot_rom (rom m) L" "bootable img" "b = sector_of img 100" "s = sector_of img (record_lba b)"
    "0 < record_count b"
  shows "\<exists>m'. reset L m = Some (Jump (le16 (s ! 4) (s ! 5)) m') \<and>
    (\<forall>i < record_count b. \<forall>j < 512. ram m' (word_of_nat (0x200 + 512 * i + j)) = sector_of img (record_lba b + word_of_nat i) ! j) \<and>
    (\<forall>a. \<not> boot_area (record_count b) (unat a) \<longrightarrow> ram m' a = ram m a) \<and> le16 (ram m' 0xFE) (ram m' 0xFF) = early_brk L \<and>
    acia_out m' = acia_out m @ bytes (banner @ loading @ jumping) \<and> gpu_out m' = gpu_out m @ bytes (banner @ loading @ jumping)"
proof -
  have k: "kernel_start img = s" "max 1 (record_count b) = record_count b" using assms(5-7) by (simp_all add: kernel_start_def Let_def)
  show ?thesis
    using reset_jumps [OF assms(1-4), unfolded kernel_loaded_def sectors_at_def Let_def, folded assms(5), unfolded k] unfolding bytes_def by auto
qed

theorem boot_loads_kernel_witness:
  "\<exists>m'. reset demo_boot (power_on (\<lambda>a. 0xEE) (rom_of demo_strings) (\<lambda>a. 0) (Some system_disk) (\<lambda>n. None) (\<lambda>n. 0)) = Some (Jump 0x0206 m') \<and>
     ram m' 0x0201 = 0x58 \<and> ram m' 0x0FFF = 0 \<and> ram m' 0x1000 = 0xEE \<and> le16 (ram m' 0xFE) (ram m' 0xFF) = 0xA000 \<and>
     acia_out m' = bytes (banner @ loading @ jumping)"
proof -
  let ?m = "power_on (\<lambda>a. 0xEE) (rom_of demo_strings) (\<lambda>a. 0) (Some system_disk) (\<lambda>n. None) (\<lambda>n. 0)"
  have m: "kmode ?m" "disk_img ?m = Some system_disk" "boot_rom (rom ?m) demo_boot" by (simp_all add: power_on_kmode demo_boot_rom)
  have b: "bootable system_disk" using system_disk_fine by (simp add: system_disk_ok_def)
  have s: "demo_record = sector_of system_disk 100" "demo_kernel = sector_of system_disk (record_lba demo_record)"
    by (simp_all add: system_disk_sectors demo_record_fields)
  have n: "0 < record_count demo_record" by (simp add: demo_record_fields)
  obtain m' where m': "reset demo_boot ?m = Some (Jump (le16 (demo_kernel ! 4) (demo_kernel ! 5)) m')"
      "\<forall>i < 7. \<forall>j < 512. ram m' (word_of_nat (0x200 + 512 * i + j)) = sector_of system_disk (101 + word_of_nat i) ! j"
      "\<forall>a. \<not> boot_area 7 (unat a) \<longrightarrow> ram m' a = ram ?m a" "le16 (ram m' 0xFE) (ram m' 0xFF) = early_brk demo_boot"
      "acia_out m' = acia_out ?m @ bytes (banner @ loading @ jumping)"
    using boot_loads_kernel [OF m b s n] unfolding demo_record_fields by blast
  have "ram m' 0x1000 = 0xEE" using m'(3) by (simp add: boot_area_def)
  moreover have "ram m' 0x0201 = 0x58" using m'(2) [rule_format, of 0 1] by (simp add: system_disk_sectors) (simp add: demo_kernel_def)
  moreover have "ram m' 0x0FFF = 0"
  proof -
    have "sector_of system_disk 107 ! 511 = 0"
    proof -
      have "unat (107 :: u32) * 512 + 511 < length system_disk" by (simp add: system_disk_def demo_record_def demo_kernel_def demo_sectors_length)
      then show ?thesis by (simp add: sector_of_def system_disk_def demo_record_def demo_kernel_def nth_append)
    qed
    then show ?thesis using m'(2) [rule_format, of 6 511] by simp
  qed
  ultimately show ?thesis using m' by (simp add: demo_kernel_def le16_def demo_boot_def)
qed

text \<open>
  C36: the boot ROM starts nothing it cannot vouch for. On every disk whose record stays within memory and
  the disk, it comes to an end; without the record's magic number, or without the header's on what has
  been loaded (an empty kernel included), it says so on both consoles and halts.
\<close>

theorem boot_reports_errors:
  assumes "kmode m" "disk_img m = Some img" "boot_rom (rom m) L" "b = sector_of img 100" "record_fits b"
    "take 4 b \<noteq> [66, 66, 66, 82] \<or> take 2 (if record_count b = 0 then b else sector_of img (record_lba b)) \<noteq> [0x42, 0x58]"
    "t = bytes (banner @ (if take 4 b \<noteq> [66, 66, 66, 82] then bad_record_text else loading @ bad_bbx_text))"
  shows "\<exists>m'. reset L m = Some (Halted m') \<and> acia_out m' = acia_out m @ t \<and> gpu_out m' = gpu_out m @ t"
proof -
  have "\<not> bootable img" using assms(4,6) by (auto simp: bootable_def kernel_start_def Let_def)
  then show ?thesis
    using reset_halts [OF assms(1-3) _ _ refl] assms(4,5,7) unfolding bytes_def by (cases "take 4 b = [66, 66, 66, 82]") auto
qed

theorem boot_reports_errors_witness:
  "\<exists>m'. reset demo_boot (power_on (\<lambda>a. 0xEE) (rom_of demo_strings) (\<lambda>a. 0) (Some []) (\<lambda>n. None) (\<lambda>n. 0)) = Some (Halted m') \<and>
     acia_out m' = bytes (banner @ ''[ERROR] BAD BOOT RECORD (HALTING)'' @ crlf)"
proof -
  let ?m = "power_on (\<lambda>a. 0xEE) (rom_of demo_strings) (\<lambda>a. 0) (Some []) (\<lambda>n. None) (\<lambda>n. 0)"
  have m: "kmode ?m" "disk_img ?m = Some []" "boot_rom (rom ?m) demo_boot" by (simp_all add: power_on_kmode demo_boot_rom)
  have z: "sector_of [] 100 ! i = 0" if "i < 512" for i using that by (simp add: sector_of_def)
  have b: "take 4 (sector_of [] 100) \<noteq> [66, 66, 66, 82]"
  proof
    assume "take 4 (sector_of [] 100) = [66, 66, 66, 82]"
    from arg_cong [OF this, of "\<lambda>l. l ! 0"] z [of 0] show False by simp
  qed
  have "record_count (sector_of [] 100) = 0" by (simp add: record_count_def z le16_def)
  then have f: "record_fits (sector_of [] 100)" by (simp add: record_fits_def)
  show ?thesis using boot_reports_errors [OF m refl f disjI1 [OF b] refl] b by (auto simp: bad_record_text_def crlf_def)
qed

text \<open>
  C5: the kernel stays reachable. From power-on, through the boot ROM, which first puts its own handler into
  the vector, the kernel's start and after every number of time slices of the programs, a BRK at any address
  of the running program, with any status and stack pointer, reaches the handler the kernel has
  installed: the CPU pushes the frame in the program's memory, the MMU changes to kernel mode at the vector
  fetch, and the boot ROM's trampoline reads the kernel's zero page and not the program's.
\<close>

theorem brk_reaches_kernel:
  assumes "system_disk_ok img entry (Hello L1 e1 a1 b1) (Hello2 L2 e2 a2 b2) (Disktest L3 e3 D)" "boot_rom R L" "unat sp < 0x20"
  shows "\<exists>cpu k0. power_up L entry sp h ra (power_on ram0 R buf0 (Some img) rx gp) = Some (Started cpu k0) \<and>
    (\<forall>n. \<exists>cpu' ts k'. turns (trio (Hello L1 e1 a1 b1) (Hello2 L2 e2 a2 b2) (Disktest L3 e3 D)) n (cpu, (\<lambda>i. None), k0) = Some (cpu', ts, k') \<and>
       (\<forall>pc st. fst (brk_trampoline (mach (brk pc st k'))) = h))"
  unfolding brk_reaches_def [symmetric] using power_up_ok [OF assms refl refl, of h ra ram0 buf0 rx gp] by blast

theorem brk_reaches_kernel_witness:
  "\<exists>cpu k0 cpu' ts k'. power_up demo_boot 0x0206 0 0x0300 (\<lambda>s. 0x0400) (power_on (\<lambda>a. 0xEE) (rom_of demo_strings) (\<lambda>a. 0) (Some system_disk) (\<lambda>n. None) (\<lambda>n. 0)) =
       Some (Started cpu k0) \<and>
     turns (trio demo_hello demo_hello2 demo_disktest) 1000 (cpu, (\<lambda>i. None), k0) = Some (cpu', ts, k') \<and>
     fst (brk_trampoline (mach (brk 0x1008 0 k'))) = 0x0300"
proof -
  have sp: "unat (0 :: u16) < 0x20" by simp
  show ?thesis
    using brk_reaches_kernel [OF system_disk_fine [unfolded demo_hello_def demo_hello2_def demo_disktest_def] demo_boot_rom sp,
      of "0x0300" "\<lambda>s. 0x0400" "\<lambda>a. 0xEE" "\<lambda>a. 0" "\<lambda>n. None" "\<lambda>n. 0", folded demo_hello_def demo_hello2_def demo_disktest_def] by blast
qed

end
