(* ===== verification/Image.thy ===== *)
theory Image
  imports System
begin

text \<open>
  How the disk image is built: the boot record of \<^verbatim>\<open>tools/mkbootrec.py\<close>, the number of sectors of the kernel
  (\<^verbatim>\<open>sw/kernel/kernel.mk\<close>) and the \<^verbatim>\<open>dd\<close> commands of the \<^verbatim>\<open>Makefile\<close>, with the sector numbers of \<^verbatim>\<open>common.mk\<close>.
  The file system that \<^verbatim>\<open>mformat\<close> and \<^verbatim>\<open>mcopy\<close> make is the argument \<open>base\<close>; the files that the linker makes
  are the other arguments.
\<close>

section \<open>Model\<close>

text \<open>\<open>struct.pack("<4sIH", b"BBBR", lba, n)\<close>, an error for numbers out of range, and the padding.\<close>

definition bootrec :: "int \<Rightarrow> int \<Rightarrow> u8 list option" where
  "bootrec lba n =
     (if 0 \<le> lba \<and> lba < 2 ^ 32 \<and> 0 \<le> n \<and> n < 2 ^ 16
      then (let l = word_of_int lba :: u32; c = word_of_int n :: u16;
                record = [66, 66, 66, 82, get_byte 0 l, get_byte 1 l, get_byte 2 l, get_byte 3 l, lo8 c, hi8 c]
            in Some (record @ replicate (512 - length record) 0))
      else None)"

definition KERNEL_SIZE_FN :: "u8 list \<Rightarrow> nat" where
  "KERNEL_SIZE_FN f = (length f + 511) div 512"

text \<open>\<open>dd of=img bs=512 seek=n conv=notrunc\<close>\<close>

definition dd_at :: "nat \<Rightarrow> u8 list \<Rightarrow> u8 list \<Rightarrow> u8 list" where
  "dd_at n f img = put_bytes (n * 512) f img"

definition disk_image :: "u8 list \<Rightarrow> u8 list \<Rightarrow> u8 list \<Rightarrow> u8 list \<Rightarrow> u8 list \<Rightarrow> u8 list option" where
  "disk_image base kfile prog prog2 prog3 =
     (case bootrec 101 (int (KERNEL_SIZE_FN kfile)) of None \<Rightarrow> None
      | Some r \<Rightarrow> Some (dd_at 220 prog3 (dd_at 210 prog2 (dd_at 200 prog (dd_at 101 kfile (dd_at 100 r base))))))"

section \<open>Facts\<close>

text \<open>The file \<open>f\<close> over what was there.\<close>

definition over :: "u8 list \<Rightarrow> u8 list \<Rightarrow> u8 list" where
  "over f s = take 512 f @ drop (length f) s"

lemma length_over [simp]: "length s = 512 \<Longrightarrow> length (over f s) = 512"
  by (simp add: over_def)

lemma over_nth: "length s = 512 \<Longrightarrow> j < 512 \<Longrightarrow> over f s ! j = (if j < length f then f ! j else s ! j)"
  by (auto simp: over_def nth_append)

lemma dd_other: "unat lba < n \<or> n * 512 + length f \<le> unat lba * 512 \<Longrightarrow> sector_of (dd_at n f img) lba = sector_of img lba"
  by (rule nth_equalityI) (auto simp: sector_of_byte_at dd_at_def byte_at_put)

lemma dd_first: "unat lba = n \<Longrightarrow> sector_of (dd_at n f img) lba = over f (sector_of img lba)"
  by (rule nth_equalityI) (auto simp: over_nth, auto simp: sector_of_byte_at dd_at_def byte_at_put)

lemma dd_byte:
  assumes "unat lba = n + i" "512 * i + j < length f" "j < 512"
  shows "sector_of (dd_at n f img) lba ! j = f ! (512 * i + j)"
  using assms by (simp add: sector_of_byte_at dd_at_def byte_at_put algebra_simps)

lemma bootrec_fields:
  assumes "bootrec lba n = Some r"
  shows "length r = 512" "take 4 r = [66, 66, 66, 82]" "record_lba r = word_of_int lba" "int (record_count r) = n"
proof -
  have n: "0 \<le> n" "n < 2 ^ 16" and r: "r = [66, 66, 66, 82, get_byte 0 (word_of_int lba), get_byte 1 (word_of_int lba), get_byte 2 (word_of_int lba),
      get_byte 3 (word_of_int lba), lo8 (word_of_int n), hi8 (word_of_int n)] @ replicate 502 0"
    using assms by (auto simp: bootrec_def Let_def split: if_splits)
  show "length r = 512" "take 4 r = [66, 66, 66, 82]" by (simp_all add: r)
  show "record_lba r = word_of_int lba" using le32_bytes [of "word_of_int lba"] by (simp add: r record_lba_def)
  have "unat (word_of_int n :: u16) = nat n" using n by (simp add: unat_eq_nat_uint uint_word_of_int)
  then show "int (record_count r) = n" using n by (simp add: r record_count_def)
qed

text \<open>What is where on the image.\<close>

lemma disk_image_sectors:
  assumes "disk_image base kfile p1 p2 p3 = Some img" "length kfile \<le> 63 * 512" "length p1 \<le> 5120" "length p2 \<le> 5120"
  shows "sector_of img 200 = over p1 (sector_of base 200)" "sector_of img 210 = over p2 (sector_of base 210)"
    "sector_of img 220 = over p3 (sector_of base 220)" "sector_of img 0 = sector_of base 0"
    "\<exists>r. bootrec 101 (int (KERNEL_SIZE_FN kfile)) = Some r \<and> sector_of img 100 = r"
    "sector_of img 101 = over kfile (sector_of base 101)"
    "unat lba = 101 + i \<Longrightarrow> 512 * i + j < length kfile \<Longrightarrow> j < 512 \<Longrightarrow> sector_of img lba ! j = kfile ! (512 * i + j)"
proof -
  obtain r where r: "bootrec 101 (int (KERNEL_SIZE_FN kfile)) = Some r"
    and i: "img = dd_at 220 p3 (dd_at 210 p2 (dd_at 200 p1 (dd_at 101 kfile (dd_at 100 r base))))"
    using assms(1) by (auto simp: disk_image_def split: option.splits)
  note l = bootrec_fields(1) [OF r]
  have k: "length kfile < 50000" "length kfile + 51712 \<le> 102400" using assms(2) by simp_all
  show "sector_of img 200 = over p1 (sector_of base 200)" "sector_of img 210 = over p2 (sector_of base 210)"
    "sector_of img 220 = over p3 (sector_of base 220)" "sector_of img 0 = sector_of base 0"
    "sector_of img 101 = over kfile (sector_of base 101)"
    unfolding i using l k assms(3,4) by (simp_all add: dd_other dd_first)
  have "sector_of img 100 = over r (sector_of base 100)" unfolding i using l by (simp add: dd_other dd_first)
  also have "\<dots> = r" using l by (simp add: over_def)
  finally show "\<exists>r. bootrec 101 (int (KERNEL_SIZE_FN kfile)) = Some r \<and> sector_of img 100 = r" using r by blast
  show "sector_of img lba ! j = kfile ! (512 * i + j)" if "unat lba = 101 + i" "512 * i + j < length kfile" "j < 512"
  proof -
    have "unat lba < 200" using that assms(2) by simp
    then have "sector_of img lba = sector_of (dd_at 101 kfile (dd_at 100 r base)) lba" unfolding i by (simp add: dd_other)
    then show ?thesis using dd_byte [OF that] by simp
  qed
qed

lemma disk_image_some: "length kfile \<le> 63 * 512 \<Longrightarrow> \<exists>img. disk_image base kfile p1 p2 p3 = Some img"
  by (simp add: disk_image_def bootrec_def KERNEL_SIZE_FN_def Let_def)

lemma image_bootable:
  assumes "disk_image base kfile p1 p2 p3 = Some img" "length kfile \<le> 63 * 512" "length p1 \<le> 5120" "length p2 \<le> 5120"
    "6 \<le> length kfile" "take 2 kfile = [0x42, 0x58]"
  shows "bootable img" "kernel_start img = over kfile (sector_of base 101)" "record_lba (sector_of img 100) = 101"
    "record_count (sector_of img 100) = KERNEL_SIZE_FN kfile"
proof -
  note S = disk_image_sectors [OF assms(1-4)]
  obtain r where r: "bootrec 101 (int (KERNEL_SIZE_FN kfile)) = Some r" "sector_of img 100 = r" using S(5) by blast
  have f: "take 4 r = [66, 66, 66, 82]" "record_lba r = 101" and n: "record_count r = KERNEL_SIZE_FN kfile"
    using bootrec_fields [OF r(1)] by simp_all
  then show "record_lba (sector_of img 100) = 101" "record_count (sector_of img 100) = KERNEL_SIZE_FN kfile" by (simp_all add: r(2))
  have k: "KERNEL_SIZE_FN kfile \<noteq> 0" "KERNEL_SIZE_FN kfile \<le> 63" using assms(2,5) by (auto simp: KERNEL_SIZE_FN_def div_eq_0_iff)
  show ks: "kernel_start img = over kfile (sector_of base 101)" using k(1) by (simp add: kernel_start_def r(2) f n S(6) Let_def)
  have "lba_ok (101 + word_of_nat i)" if "i < 63" for i
  proof -
    have "unat (101 + word_of_nat i :: u32) = 101 + i" using that by (simp add: unat_word_ariths unat_of_nat)
    then show ?thesis using that by (simp add: lba_ok_def)
  qed
  then have "record_fits r" using k(2) by (simp add: record_fits_def n f(2))
  moreover have "take 2 (kernel_start img) = [0x42, 0x58]"
    unfolding ks using assms(5,6) by (simp add: over_def min_def take_map)
  ultimately show "bootable img" by (simp add: bootable_def r(2) f(1) Let_def)
qed

section \<open>Property\<close>

text \<open>
  C7: what the build puts on the disk is what the machine starts. From any file system, a kernel file of at
  most 63 sectors with its header and three program files, the first two of at most ten sectors, none of
  them overwrites another: the image is a disk the system starts from, the kernel and the three programs in
  their places, the file system's first sector untouched; and the boot ROM loads exactly the bytes of the kernel file to
  \<open>$0200\<close> and jumps to the entry point the linker wrote into its header.
\<close>

theorem built_disk_boots:
  assumes "length kfile \<le> 63 * 512" "6 \<le> length kfile" "take 2 kfile = [0x42, 0x58]" "length p1 \<le> 5120" "length p2 \<le> 5120"
    "image_of (over p1 (sector_of base 200)) P" "image_of (over p2 (sector_of base 210)) Q" "image_of (over p3 (sector_of base 220)) R"
    "entry = le16 (kfile ! 4) (kfile ! 5)"
  shows "\<exists>img. disk_image base kfile p1 p2 p3 = Some img \<and> system_disk_ok img entry P Q R \<and> sector_of img 0 = sector_of base 0 \<and>
    (\<forall>m L. kmode m \<longrightarrow> disk_img m = Some img \<longrightarrow> boot_rom (rom m) L \<longrightarrow>
       (\<exists>m'. reset L m = Some (Jump entry m') \<and> (\<forall>i < length kfile. ram m' (word_of_nat (0x200 + i)) = kfile ! i)))"
proof -
  obtain img where img: "disk_image base kfile p1 p2 p3 = Some img" using disk_image_some [OF assms(1)] by blast
  note S = disk_image_sectors [OF img assms(1,4,5)] and B = image_bootable [OF img assms(1,4,5,2,3)]
  have e: "le16 (kernel_start img ! 4) (kernel_start img ! 5) = entry" using assms(2,9) by (simp add: B(2) over_nth)
  have ok: "system_disk_ok img entry P Q R" using assms(6-8) B(1) e by (simp add: system_disk_ok_def S)
  have "\<exists>m'. reset L m = Some (Jump entry m') \<and> (\<forall>i < length kfile. ram m' (word_of_nat (0x200 + i)) = kfile ! i)"
    if m: "kmode m" "disk_img m = Some img" "boot_rom (rom m) L" for m L
  proof -
    obtain m' where m': "reset L m = Some (Jump entry m')" "kernel_loaded img m'" using reset_jumps [OF m B(1)] unfolding e by blast
    have "ram m' (word_of_nat (0x200 + i)) = kfile ! i" if "i < length kfile" for i
    proof -
      have q: "i div 512 < KERNEL_SIZE_FN kfile" "i div 512 < 63" using that assms(1) by (simp_all add: KERNEL_SIZE_FN_def)
      have u: "unat (101 + word_of_nat (i div 512) :: u32) = 101 + i div 512" using q(2) by (simp add: unat_word_ariths unat_of_nat)
      have s: "512 * (i div 512) + i mod 512 = i" by simp
      have "ram m' (word_of_nat (512 + 512 * (i div 512) + i mod 512)) = sector_of img (101 + word_of_nat (i div 512)) ! (i mod 512)"
        by (rule m'(2) [unfolded kernel_loaded_def sectors_at_def Let_def B(3,4), rule_format, OF q(1)]) simp
      also have "\<dots> = kfile ! i" using S(7) [OF u, of "i mod 512"] that unfolding s by simp
      finally show ?thesis unfolding add.assoc s .
    qed
    then show ?thesis using m'(1) by blast
  qed
  then show ?thesis using img ok S(4) by blast
qed

lemma demo_over: "length f = 512 \<Longrightarrow> over f s = f" if "length s = 512"
  using that by (simp add: over_def)

theorem built_disk_boots_witness:
  "\<exists>img m'. disk_image (replicate 512 0xF6) demo_kernel (demo_sectors ! 0) (demo_sectors ! 1) (demo_sectors ! 2) = Some img \<and>
     system_disk_ok img 0x0206 demo_hello demo_hello2 demo_disktest \<and>
     reset demo_boot (power_on (\<lambda>a. 0xEE) (rom_of demo_strings) (\<lambda>a. 0) (Some img) (\<lambda>n. None) (\<lambda>n. 0)) = Some (Jump 0x0206 m') \<and>
     ram m' 0x0201 = 0x58"
proof -
  have k: "length demo_kernel \<le> 63 * 512" "6 \<le> length demo_kernel" "take 2 demo_kernel = [0x42, 0x58]" "0x0206 = le16 (demo_kernel ! 4) (demo_kernel ! 5)"
    by (simp_all add: demo_kernel_def le16_def)
  have p: "length (demo_sectors ! 0) \<le> 5120" "length (demo_sectors ! 1) \<le> 5120" unfolding demo_sectors_length by simp_all
  note o = demo_over [OF length_sector_of]
  have i: "image_of (over (demo_sectors ! 0) (sector_of (replicate 512 0xF6) 200)) demo_hello"
    "image_of (over (demo_sectors ! 1) (sector_of (replicate 512 0xF6) 210)) demo_hello2"
    "image_of (over (demo_sectors ! 2) (sector_of (replicate 512 0xF6) 220)) demo_disktest"
    unfolding o [OF demo_sectors_length(1)] o [OF demo_sectors_length(2)] o [OF demo_sectors_length(3)]
    using demo_images by (simp_all add: demo_sectors_def)
  obtain img where img: "disk_image (replicate 512 0xF6) demo_kernel (demo_sectors ! 0) (demo_sectors ! 1) (demo_sectors ! 2) = Some img"
      "system_disk_ok img 0x0206 demo_hello demo_hello2 demo_disktest"
      "\<forall>m L. kmode m \<longrightarrow> disk_img m = Some img \<longrightarrow> boot_rom (rom m) L \<longrightarrow>
         (\<exists>m'. reset L m = Some (Jump 0x0206 m') \<and> (\<forall>i < length demo_kernel. ram m' (word_of_nat (0x200 + i)) = demo_kernel ! i))"
    using built_disk_boots [OF k(1-3) p i k(4)] by blast
  let ?m = "power_on (\<lambda>a. 0xEE) (rom_of demo_strings) (\<lambda>a. 0) (Some img) (\<lambda>n. None) (\<lambda>n. 0)"
  have m: "kmode ?m" "disk_img ?m = Some img" "boot_rom (rom ?m) demo_boot" by (simp_all add: power_on_kmode demo_boot_rom)
  obtain m' where m': "reset demo_boot ?m = Some (Jump 0x0206 m')" "\<forall>i < length demo_kernel. ram m' (word_of_nat (0x200 + i)) = demo_kernel ! i"
    using img(3) m by blast
  have "ram m' 0x0201 = 0x58" using m'(2) [rule_format, of 1] by (simp add: demo_kernel_def)
  then show ?thesis using img(1,2) m'(1) by blast
qed

end
