(* ===== verification/Clib.thy ===== *)
theory Clib
  imports Prelude
begin

text \<open>
  The parts of the C library the debugger (\<^verbatim>\<open>rtl/dbg/debugger.c\<close>) computes with: \<open>printf\<close>
  conversions, character classes, \<open>strtoul\<close>/\<open>strtol\<close>, \<open>strtok\<close> and \<open>strstr\<close>, on strings without
  their terminating NUL. \<open>long\<close> has 64 bits and \<open>int\<close> 32.
\<close>

section \<open>printf\<close>

fun digits :: "string \<Rightarrow> nat \<Rightarrow> nat \<Rightarrow> string" where
  "digits ds b n = (if n < b \<or> b < 2 then [ds ! n] else digits ds b (n div b) @ [ds ! (n mod b)])"

declare digits.simps [simp del]

definition pad :: "char \<Rightarrow> nat \<Rightarrow> string \<Rightarrow> string" where
  "pad c w s = replicate (w - length s) c @ s"

definition fmt_x :: "nat \<Rightarrow> nat \<Rightarrow> string" where  \<comment> \<open>\<open>%0wx\<close>\<close>
  "fmt_x w n = pad CHR ''0'' w (digits ''0123456789abcdef'' 16 n)"

definition fmt_X :: "nat \<Rightarrow> nat \<Rightarrow> string" where  \<comment> \<open>\<open>%0wX\<close>\<close>
  "fmt_X w n = pad CHR ''0'' w (digits ''0123456789ABCDEF'' 16 n)"

definition fmt_u :: "nat \<Rightarrow> nat \<Rightarrow> string" where  \<comment> \<open>\<open>%wu\<close>\<close>
  "fmt_u w n = pad CHR '' '' w (digits ''0123456789'' 10 n)"

definition fmt_d :: "int \<Rightarrow> string" where  \<comment> \<open>\<open>%d\<close>\<close>
  "fmt_d i = (if i < 0 then ''-'' else []) @ digits ''0123456789'' 10 (nat \<bar>i\<bar>)"

definition hexw :: "string \<Rightarrow> nat \<Rightarrow> nat \<Rightarrow> string" where
  "hexw ds w n = map (\<lambda>i. ds ! (n div 16 ^ i mod 16)) (rev [0..<w])"

lemma hexw_0: "hexw ds w 0 = replicate w (ds ! 0)"
  by (induction w) (simp_all add: hexw_def)

lemma hexw_Suc: "hexw ds (Suc w) n = hexw ds w (n div 16) @ [ds ! (n mod 16)]"
proof -
  have "rev [0..<Suc w] = map Suc (rev [0..<w]) @ [0]"
    by (simp add: upt_conv_Cons rev_map del: upt_Suc flip: map_Suc_upt)
  then show ?thesis by (simp add: hexw_def div_mult2_eq o_def del: upt_Suc)
qed

lemma length_hexw [simp]: "length (hexw ds w n) = w"
  by (simp add: hexw_def)

lemma pad_digits:
  assumes "n < 16 ^ w" "0 < w"
  shows "pad (ds ! 0) w (digits ds 16 n) = hexw ds w n"
  using assms
proof (induction w arbitrary: n)
  case (Suc w)
  show ?case
  proof (cases "n < 16")
    case True
    then show ?thesis by (simp add: digits.simps [of ds 16 n] pad_def hexw_Suc hexw_0)
  next
    case False
    then have w: "0 < w" using Suc.prems by (cases w) auto
    have "n div 16 < 16 ^ w" using Suc.prems by (simp add: less_mult_imp_div_less mult.commute)
    then show ?thesis
      using Suc.IH [of "n div 16"] w False by (simp add: digits.simps [of ds 16 n] hexw_Suc) (simp add: pad_def)
  qed
qed simp

lemma fmt_X_hexw: "n < 16 ^ w \<Longrightarrow> 0 < w \<Longrightarrow> fmt_X w n = hexw ''0123456789ABCDEF'' w n"
  using pad_digits [of n w "''0123456789ABCDEF''"] by (simp add: fmt_X_def)

lemma fmt_x_hexw: "n < 16 ^ w \<Longrightarrow> 0 < w \<Longrightarrow> fmt_x w n = hexw ''0123456789abcdef'' w n"
  using pad_digits [of n w "''0123456789abcdef''"] by (simp add: fmt_x_def)

lemma hexw_inject:
  assumes "hexw ds w m = hexw ds w n" "distinct ds" "length ds = 16" "m < 16 ^ w" "n < 16 ^ w"
  shows "m = n"
  using assms(1,4,5)
proof (induction w arbitrary: m n)
  case (Suc w)
  then have d: "m mod 16 = n mod 16"
    using assms(2,3) by (simp add: hexw_Suc nth_eq_iff_index_eq)
  have "m div 16 < 16 ^ w" "n div 16 < 16 ^ w"
    using Suc.prems by (simp_all add: less_mult_imp_div_less mult.commute)
  then have "m div 16 = n div 16" using Suc by (simp add: hexw_Suc)
  with d show ?case by (metis div_mult_mod_eq)
qed simp


section \<open>Numbers from strings\<close>

definition ccode :: "char \<Rightarrow> nat" where
  "ccode c = of_char c"

definition isspace :: "char \<Rightarrow> bool" where
  "isspace c \<longleftrightarrow> ccode c = 32 \<or> 9 \<le> ccode c \<and> ccode c \<le> 13"

definition isdigit :: "char \<Rightarrow> bool" where
  "isdigit c \<longleftrightarrow> 48 \<le> ccode c \<and> ccode c \<le> 57"

definition isupper :: "char \<Rightarrow> bool" where
  "isupper c \<longleftrightarrow> 65 \<le> ccode c \<and> ccode c \<le> 90"

definition islower :: "char \<Rightarrow> bool" where
  "islower c \<longleftrightarrow> 97 \<le> ccode c \<and> ccode c \<le> 122"

definition isalpha :: "char \<Rightarrow> bool" where
  "isalpha c \<longleftrightarrow> isupper c \<or> islower c"

definition digit_val :: "char \<Rightarrow> nat option" where
  "digit_val c = (if isdigit c then Some (ccode c - 48) else if islower c then Some (ccode c - 87)
     else if isupper c then Some (ccode c - 55) else None)"

definition is_digit :: "nat \<Rightarrow> char \<Rightarrow> bool" where
  "is_digit b c = (case digit_val c of None \<Rightarrow> False | Some d \<Rightarrow> d < b)"

fun scan :: "nat \<Rightarrow> nat \<Rightarrow> string \<Rightarrow> nat \<times> string" where
  "scan b acc [] = (acc, [])"
| "scan b acc (c # cs) =
     (case digit_val c of
        None \<Rightarrow> (acc, c # cs)
      | Some d \<Rightarrow> if d < b then scan b (acc * b + d) cs else (acc, c # cs))"

definition starts :: "(char \<Rightarrow> bool) \<Rightarrow> string \<Rightarrow> bool" where
  "starts P s = (case s of [] \<Rightarrow> False | c # cs \<Rightarrow> P c)"

definition sign :: "string \<Rightarrow> bool \<times> string" where
  "sign s = (if starts (\<lambda>c. c = CHR ''-'') s then (True, tl s)
     else if starts (\<lambda>c. c = CHR ''+'') s then (False, tl s) else (False, s))"

definition has_0x :: "string \<Rightarrow> bool" where
  "has_0x s \<longleftrightarrow> take 2 s = ''0x'' \<or> take 2 s = ''0X''"

definition radix :: "nat \<Rightarrow> string \<Rightarrow> nat \<times> string" where
  "radix b s =
     (if (b = 0 \<or> b = 16) \<and> has_0x s \<and> starts (is_digit 16) (drop 2 s) then (16, drop 2 s)
      else if b = 0 then (if starts (\<lambda>c. c = CHR ''0'') s then 8 else 10, s) else (b, s))"

text \<open>The subject sequence of \<open>strtoul\<close>/\<open>strtol\<close>: sign, magnitude and the rest; \<open>None\<close> for no conversion.\<close>

definition c_number :: "nat \<Rightarrow> string \<Rightarrow> (bool \<times> nat \<times> string) option" where
  "c_number b s =
     (case sign (dropWhile isspace s) of (neg, s) \<Rightarrow>
      case radix b s of (b, s) \<Rightarrow>
        if starts (is_digit b) s then (case scan b 0 s of (v, rest) \<Rightarrow> Some (neg, v, rest)) else None)"

definition strtoul :: "nat \<Rightarrow> string \<Rightarrow> (u64 \<times> bool) option" where  \<comment> \<open>value and \<open>errno != 0\<close>\<close>
  "strtoul b s = (case c_number b s of
      None \<Rightarrow> None
    | Some (neg, v, rest) \<Rightarrow>
        Some (if v < 2 ^ 64 then (if neg then - word_of_nat v else word_of_nat v, False) else (- 1, True)))"

definition strtol :: "nat \<Rightarrow> string \<Rightarrow> (int \<times> bool \<times> string) option" where  \<comment> \<open>value, \<open>errno != 0\<close>, rest\<close>
  "strtol b s = (case c_number b s of
      None \<Rightarrow> None
    | Some (neg, v, rest) \<Rightarrow>
        Some (if neg then (if v \<le> 2 ^ 63 then (- int v, False, rest) else (- (2 ^ 63), True, rest))
              else if v < 2 ^ 63 then (int v, False, rest) else (2 ^ 63 - 1, True, rest)))"

lemma scan_digits:
  assumes "\<And>k. k < b \<Longrightarrow> digit_val (ds ! k) = Some k" "2 \<le> b"
  shows "scan b acc (digits ds b n @ s) = scan b (acc * b ^ length (digits ds b n) + n) s"
proof (induction n arbitrary: s rule: less_induct)
  case (less n)
  show ?case
  proof (cases "n < b")
    case True
    then show ?thesis using assms by (simp add: digits.simps [of ds b n])
  next
    case False
    let ?L = "length (digits ds b (n div b))"
    have d: "digits ds b n = digits ds b (n div b) @ [ds ! (n mod b)]"
      using False assms(2) by (simp add: digits.simps [of ds b n])
    have m: "n mod b < b" and q: "n div b < n" using False assms(2) by simp_all
    have "acc * b ^ Suc ?L + n = (acc * b ^ ?L + n div b) * b + n mod b"
      by (simp add: algebra_simps)
    then show ?thesis
      using less.IH [OF q, of "(ds ! (n mod b)) # s"] assms(1) [OF m] m by (simp add: d)
  qed
qed

lemma digit_alphabets:
  "k < 16 \<Longrightarrow> digit_val (''0123456789abcdef'' ! k) = Some k"
  "k < 16 \<Longrightarrow> digit_val (''0123456789ABCDEF'' ! k) = Some k"
  "k < 10 \<Longrightarrow> digit_val (''0123456789'' ! k) = Some k"
proof -
  have "map digit_val ''0123456789abcdef'' = map Some [0..<16]" "map digit_val ''0123456789ABCDEF'' = map Some [0..<16]"
      "map digit_val ''0123456789'' = map Some [0..<10]"
    by code_simp+
  from this [THEN arg_cong, of "\<lambda>l. l ! k"]
  show "k < 16 \<Longrightarrow> digit_val (''0123456789abcdef'' ! k) = Some k"
    "k < 16 \<Longrightarrow> digit_val (''0123456789ABCDEF'' ! k) = Some k"
    "k < 10 \<Longrightarrow> digit_val (''0123456789'' ! k) = Some k"
    by (simp_all add: nth_map [where f = digit_val] nth_map [where f = Some] del: list.map)
qed

lemma scan_stop: "\<not> starts (is_digit b) s \<Longrightarrow> scan b acc s = (acc, s)"
  by (cases s) (auto simp: starts_def is_digit_def split: option.splits)

lemma digits_nonempty [simp]: "digits ds b n \<noteq> []"
  by (subst digits.simps) simp

lemma digits_set:
  assumes "2 \<le> b"
  shows "set (digits ds b n) \<subseteq> (!) ds ` {..<b}"
proof (induction n rule: less_induct)
  case (less n)
  then show ?case using assms by (subst digits.simps) auto
qed

lemma starts_append [simp]: "s \<noteq> [] \<Longrightarrow> starts P (s @ t) = starts P s"
  by (cases s) (simp_all add: starts_def)

lemma starts_digits:
  assumes "\<And>k. k < b \<Longrightarrow> P (ds ! k)" "2 \<le> b"
  shows "starts P (digits ds b n)"
proof -
  obtain c cs where c: "digits ds b n = c # cs" by (metis digits_nonempty neq_Nil_conv)
  then have "c \<in> (!) ds ` {..<b}" using digits_set [OF assms(2), of ds n] by auto
  then show ?thesis using assms(1) c by (auto simp: starts_def)
qed

lemma starts_not: "starts P s \<Longrightarrow> (\<And>c. P c \<Longrightarrow> \<not> Q c) \<Longrightarrow> \<not> starts Q s"
  by (cases s) (auto simp: starts_def)

lemma dropWhile_starts: "starts (\<lambda>c. \<not> P c) s \<Longrightarrow> dropWhile P s = s"
  by (cases s) (auto simp: starts_def)

section \<open>Tokens and substrings\<close>

definition is_delim :: "char \<Rightarrow> bool" where
  "is_delim c \<longleftrightarrow> c = CHR '' '' \<or> c = CHR 0x09 \<or> c = CHR 0x0A"

definition strtok :: "string \<Rightarrow> (string \<times> string) option" where
  "strtok s = (case dropWhile is_delim s of
      [] \<Rightarrow> None
    | c # cs \<Rightarrow> Some (takeWhile (\<lambda>c. \<not> is_delim c) (c # cs), drop 1 (dropWhile (\<lambda>c. \<not> is_delim c) (c # cs))))"

fun strstr :: "string \<Rightarrow> string \<Rightarrow> string option" where
  "strstr s needle =
     (if take (length needle) s = needle then Some s
      else case s of [] \<Rightarrow> None | c # cs \<Rightarrow> strstr cs needle)"

declare strstr.simps [simp del]

end
