(* ===== verification/Disasm.thy ===== *)
theory Disasm
  imports Clib
begin

text \<open>
  The debugger's disassembler: the opcode table of \<^verbatim>\<open>rtl/dbg/debugger.h\<close> (all 256 entries) and
  \<^verbatim>\<open>dbgDisasmInstrFromPc\<close> of \<^verbatim>\<open>rtl/dbg/debugger.c\<close>. The reader it is handed is a function
  argument here too.
\<close>

section \<open>The opcode table\<close>

datatype addrmode =
  AM_IMP | AM_ACC | AM_IMM | AM_ZP | AM_ZPX | AM_ZPY | AM_ABS | AM_ABSX | AM_ABSY | AM_IND
| AM_INDX | AM_INDY | AM_REL | AM_ZPI | AM_ABSXI | AM_ZPREL

record opcode_t =
  mnemonic :: string
  mode :: addrmode
  bytes :: nat

definition opc :: "string \<Rightarrow> addrmode \<Rightarrow> nat \<Rightarrow> opcode_t" where
  "opc mn am n = \<lparr>mnemonic = mn, mode = am, bytes = n\<rparr>"

definition optable :: "opcode_t list" where
  "optable =
  [opc ''BRK'' AM_IMM 2, opc ''ORA'' AM_INDX 2, opc ''NOP'' AM_IMM 2, opc ''NOP'' AM_IMP 1,
   opc ''TSB'' AM_ZP 2, opc ''ORA'' AM_ZP 2, opc ''ASL'' AM_ZP 2, opc ''RMB0'' AM_ZP 2,
   opc ''PHP'' AM_IMP 1, opc ''ORA'' AM_IMM 2, opc ''ASL'' AM_ACC 1, opc ''NOP'' AM_IMP 1,
   opc ''TSB'' AM_ABS 3, opc ''ORA'' AM_ABS 3, opc ''ASL'' AM_ABS 3, opc ''BBR0'' AM_ZPREL 3,
   opc ''BPL'' AM_REL 2, opc ''ORA'' AM_INDY 2, opc ''ORA'' AM_ZPI 2, opc ''NOP'' AM_IMP 1,
   opc ''TRB'' AM_ZP 2, opc ''ORA'' AM_ZPX 2, opc ''ASL'' AM_ZPX 2, opc ''RMB1'' AM_ZP 2,
   opc ''CLC'' AM_IMP 1, opc ''ORA'' AM_ABSY 3, opc ''INC'' AM_ACC 1, opc ''NOP'' AM_IMP 1,
   opc ''TRB'' AM_ABS 3, opc ''ORA'' AM_ABSX 3, opc ''ASL'' AM_ABSX 3, opc ''BBR1'' AM_ZPREL 3,
   opc ''JSR'' AM_ABS 3, opc ''AND'' AM_INDX 2, opc ''NOP'' AM_IMM 2, opc ''NOP'' AM_IMP 1,
   opc ''BIT'' AM_ZP 2, opc ''AND'' AM_ZP 2, opc ''ROL'' AM_ZP 2, opc ''RMB2'' AM_ZP 2,
   opc ''PLP'' AM_IMP 1, opc ''AND'' AM_IMM 2, opc ''ROL'' AM_ACC 1, opc ''NOP'' AM_IMP 1,
   opc ''BIT'' AM_ABS 3, opc ''AND'' AM_ABS 3, opc ''ROL'' AM_ABS 3, opc ''BBR2'' AM_ZPREL 3,
   opc ''BMI'' AM_REL 2, opc ''AND'' AM_INDY 2, opc ''AND'' AM_ZPI 2, opc ''NOP'' AM_IMP 1,
   opc ''BIT'' AM_ZPX 2, opc ''AND'' AM_ZPX 2, opc ''ROL'' AM_ZPX 2, opc ''RMB3'' AM_ZP 2,
   opc ''SEC'' AM_IMP 1, opc ''AND'' AM_ABSY 3, opc ''DEC'' AM_ACC 1, opc ''NOP'' AM_IMP 1,
   opc ''BIT'' AM_ABSX 3, opc ''AND'' AM_ABSX 3, opc ''ROL'' AM_ABSX 3, opc ''BBR3'' AM_ZPREL 3,
   opc ''RTI'' AM_IMP 1, opc ''EOR'' AM_INDX 2, opc ''NOP'' AM_IMM 2, opc ''NOP'' AM_IMP 1,
   opc ''NOP'' AM_ZP 2, opc ''EOR'' AM_ZP 2, opc ''LSR'' AM_ZP 2, opc ''RMB4'' AM_ZP 2,
   opc ''PHA'' AM_IMP 1, opc ''EOR'' AM_IMM 2, opc ''LSR'' AM_ACC 1, opc ''NOP'' AM_IMP 1,
   opc ''JMP'' AM_ABS 3, opc ''EOR'' AM_ABS 3, opc ''LSR'' AM_ABS 3, opc ''BBR4'' AM_ZPREL 3,
   opc ''BVC'' AM_REL 2, opc ''EOR'' AM_INDY 2, opc ''EOR'' AM_ZPI 2, opc ''NOP'' AM_IMP 1,
   opc ''NOP'' AM_ZPX 2, opc ''EOR'' AM_ZPX 2, opc ''LSR'' AM_ZPX 2, opc ''RMB5'' AM_ZP 2,
   opc ''CLI'' AM_IMP 1, opc ''EOR'' AM_ABSY 3, opc ''PHY'' AM_IMP 1, opc ''NOP'' AM_IMP 1,
   opc ''NOP'' AM_ABS 3, opc ''EOR'' AM_ABSX 3, opc ''LSR'' AM_ABSX 3, opc ''BBR5'' AM_ZPREL 3,
   opc ''RTS'' AM_IMP 1, opc ''ADC'' AM_INDX 2, opc ''NOP'' AM_IMM 2, opc ''NOP'' AM_IMP 1,
   opc ''STZ'' AM_ZP 2, opc ''ADC'' AM_ZP 2, opc ''ROR'' AM_ZP 2, opc ''RMB6'' AM_ZP 2,
   opc ''PLA'' AM_IMP 1, opc ''ADC'' AM_IMM 2, opc ''ROR'' AM_ACC 1, opc ''NOP'' AM_IMP 1,
   opc ''JMP'' AM_IND 3, opc ''ADC'' AM_ABS 3, opc ''ROR'' AM_ABS 3, opc ''BBR6'' AM_ZPREL 3,
   opc ''BVS'' AM_REL 2, opc ''ADC'' AM_INDY 2, opc ''ADC'' AM_ZPI 2, opc ''NOP'' AM_IMP 1,
   opc ''STZ'' AM_ZPX 2, opc ''ADC'' AM_ZPX 2, opc ''ROR'' AM_ZPX 2, opc ''RMB7'' AM_ZP 2,
   opc ''SEI'' AM_IMP 1, opc ''ADC'' AM_ABSY 3, opc ''PLY'' AM_IMP 1, opc ''NOP'' AM_IMP 1,
   opc ''JMP'' AM_ABSXI 3, opc ''ADC'' AM_ABSX 3, opc ''ROR'' AM_ABSX 3, opc ''BBR7'' AM_ZPREL 3,
   opc ''BRA'' AM_REL 2, opc ''STA'' AM_INDX 2, opc ''NOP'' AM_IMM 2, opc ''NOP'' AM_IMP 1,
   opc ''STY'' AM_ZP 2, opc ''STA'' AM_ZP 2, opc ''STX'' AM_ZP 2, opc ''SMB0'' AM_ZP 2,
   opc ''DEY'' AM_IMP 1, opc ''BIT'' AM_IMM 2, opc ''TXA'' AM_IMP 1, opc ''NOP'' AM_IMP 1,
   opc ''STY'' AM_ABS 3, opc ''STA'' AM_ABS 3, opc ''STX'' AM_ABS 3, opc ''BBS0'' AM_ZPREL 3,
   opc ''BCC'' AM_REL 2, opc ''STA'' AM_INDY 2, opc ''STA'' AM_ZPI 2, opc ''NOP'' AM_IMP 1,
   opc ''STY'' AM_ZPX 2, opc ''STA'' AM_ZPX 2, opc ''STX'' AM_ZPY 2, opc ''SMB1'' AM_ZP 2,
   opc ''TYA'' AM_IMP 1, opc ''STA'' AM_ABSY 3, opc ''TXS'' AM_IMP 1, opc ''NOP'' AM_IMP 1,
   opc ''STZ'' AM_ABS 3, opc ''STA'' AM_ABSX 3, opc ''STZ'' AM_ABSX 3, opc ''BBS1'' AM_ZPREL 3,
   opc ''LDY'' AM_IMM 2, opc ''LDA'' AM_INDX 2, opc ''LDX'' AM_IMM 2, opc ''NOP'' AM_IMP 1,
   opc ''LDY'' AM_ZP 2, opc ''LDA'' AM_ZP 2, opc ''LDX'' AM_ZP 2, opc ''SMB2'' AM_ZP 2,
   opc ''TAY'' AM_IMP 1, opc ''LDA'' AM_IMM 2, opc ''TAX'' AM_IMP 1, opc ''NOP'' AM_IMP 1,
   opc ''LDY'' AM_ABS 3, opc ''LDA'' AM_ABS 3, opc ''LDX'' AM_ABS 3, opc ''BBS2'' AM_ZPREL 3,
   opc ''BCS'' AM_REL 2, opc ''LDA'' AM_INDY 2, opc ''LDA'' AM_ZPI 2, opc ''NOP'' AM_IMP 1,
   opc ''LDY'' AM_ZPX 2, opc ''LDA'' AM_ZPX 2, opc ''LDX'' AM_ZPY 2, opc ''SMB3'' AM_ZP 2,
   opc ''CLV'' AM_IMP 1, opc ''LDA'' AM_ABSY 3, opc ''TSX'' AM_IMP 1, opc ''NOP'' AM_IMP 1,
   opc ''LDY'' AM_ABSX 3, opc ''LDA'' AM_ABSX 3, opc ''LDX'' AM_ABSY 3, opc ''BBS3'' AM_ZPREL 3,
   opc ''CPY'' AM_IMM 2, opc ''CMP'' AM_INDX 2, opc ''NOP'' AM_IMM 2, opc ''NOP'' AM_IMP 1,
   opc ''CPY'' AM_ZP 2, opc ''CMP'' AM_ZP 2, opc ''DEC'' AM_ZP 2, opc ''SMB4'' AM_ZP 2,
   opc ''INY'' AM_IMP 1, opc ''CMP'' AM_IMM 2, opc ''DEX'' AM_IMP 1, opc ''WAI'' AM_IMP 1,
   opc ''CPY'' AM_ABS 3, opc ''CMP'' AM_ABS 3, opc ''DEC'' AM_ABS 3, opc ''BBS4'' AM_ZPREL 3,
   opc ''BNE'' AM_REL 2, opc ''CMP'' AM_INDY 2, opc ''CMP'' AM_ZPI 2, opc ''NOP'' AM_IMP 1,
   opc ''NOP'' AM_ZPX 2, opc ''CMP'' AM_ZPX 2, opc ''DEC'' AM_ZPX 2, opc ''SMB5'' AM_ZP 2,
   opc ''CLD'' AM_IMP 1, opc ''CMP'' AM_ABSY 3, opc ''PHX'' AM_IMP 1, opc ''STP'' AM_IMP 1,
   opc ''NOP'' AM_ABS 3, opc ''CMP'' AM_ABSX 3, opc ''DEC'' AM_ABSX 3, opc ''BBS5'' AM_ZPREL 3,
   opc ''CPX'' AM_IMM 2, opc ''SBC'' AM_INDX 2, opc ''NOP'' AM_IMM 2, opc ''NOP'' AM_IMP 1,
   opc ''CPX'' AM_ZP 2, opc ''SBC'' AM_ZP 2, opc ''INC'' AM_ZP 2, opc ''SMB6'' AM_ZP 2,
   opc ''INX'' AM_IMP 1, opc ''SBC'' AM_IMM 2, opc ''NOP'' AM_IMP 1, opc ''NOP'' AM_IMP 1,
   opc ''CPX'' AM_ABS 3, opc ''SBC'' AM_ABS 3, opc ''INC'' AM_ABS 3, opc ''BBS6'' AM_ZPREL 3,
   opc ''BEQ'' AM_REL 2, opc ''SBC'' AM_INDY 2, opc ''SBC'' AM_ZPI 2, opc ''NOP'' AM_IMP 1,
   opc ''NOP'' AM_ZPX 2, opc ''SBC'' AM_ZPX 2, opc ''INC'' AM_ZPX 2, opc ''SMB7'' AM_ZP 2,
   opc ''SED'' AM_IMP 1, opc ''SBC'' AM_ABSY 3, opc ''PLX'' AM_IMP 1, opc ''NOP'' AM_IMP 1,
   opc ''NOP'' AM_ABS 3, opc ''SBC'' AM_ABSX 3, opc ''INC'' AM_ABSX 3, opc ''BBS7'' AM_ZPREL 3]"

section \<open>One instruction\<close>

definition operand_text :: "addrmode \<Rightarrow> u16 \<Rightarrow> u8 \<Rightarrow> u8 \<Rightarrow> string" where
  "operand_text am pc b1 b2 =
     (let addr = le16 b1 b2; x2 = fmt_X 2 (unat b1); x4 = fmt_X 4 (unat addr) in
      case am of
        AM_IMP \<Rightarrow> []
      | AM_ACC \<Rightarrow> '' A''
      | AM_IMM \<Rightarrow> '' #$'' @ x2
      | AM_ZP \<Rightarrow> '' $'' @ x2
      | AM_ZPX \<Rightarrow> '' $'' @ x2 @ '',X''
      | AM_ZPY \<Rightarrow> '' $'' @ x2 @ '',Y''
      | AM_ABS \<Rightarrow> '' $'' @ x4
      | AM_ABSX \<Rightarrow> '' $'' @ x4 @ '',X''
      | AM_ABSY \<Rightarrow> '' $'' @ x4 @ '',Y''
      | AM_IND \<Rightarrow> '' ($'' @ x4 @ '')''
      | AM_INDX \<Rightarrow> '' ($'' @ x2 @ '',X)''
      | AM_INDY \<Rightarrow> '' ($'' @ x2 @ ''),Y''
      | AM_REL \<Rightarrow> '' $'' @ fmt_X 4 (unat (pc + 2 + scast b1))
      | AM_ZPI \<Rightarrow> '' ($'' @ x2 @ '')''
      | AM_ABSXI \<Rightarrow> '' ($'' @ x4 @ '',X)''
      | AM_ZPREL \<Rightarrow> '' $'' @ x2 @ '',$'' @ fmt_X 4 (unat (pc + 3 + scast b2)))"

definition dbgDisasmInstrFromPc :: "u16 \<Rightarrow> (u16 \<Rightarrow> u8) \<Rightarrow> string \<times> nat" where
  "dbgDisasmInstrFromPc pc read =
     (let op = optable ! unat (read pc) in
      (mnemonic op @ operand_text (mode op) pc (read (pc + 1)) (read (pc + 2)), bytes op))"

section \<open>The table\<close>

lemma length_optable [simp]: "length optable = 256"
  by (simp add: optable_def)

lemma op_in_table: "optable ! unat (b :: u8) \<in> set optable"
  using unat_u8_lt [of b] by (intro nth_mem) simp

primrec mode_bytes :: "addrmode \<Rightarrow> nat" where
  "mode_bytes AM_IMP = 1" | "mode_bytes AM_ACC = 1" | "mode_bytes AM_IMM = 2" | "mode_bytes AM_ZP = 2"
| "mode_bytes AM_ZPX = 2" | "mode_bytes AM_ZPY = 2" | "mode_bytes AM_ABS = 3" | "mode_bytes AM_ABSX = 3"
| "mode_bytes AM_ABSY = 3" | "mode_bytes AM_IND = 3" | "mode_bytes AM_INDX = 2" | "mode_bytes AM_INDY = 2"
| "mode_bytes AM_REL = 2" | "mode_bytes AM_ZPI = 2" | "mode_bytes AM_ABSXI = 3" | "mode_bytes AM_ZPREL = 3"

definition op_ok :: "opcode_t \<Rightarrow> bool" where
  "op_ok op \<longleftrightarrow> bytes op = mode_bytes (mode op) \<and> length (mnemonic op) \<in> {3, 4} \<and> CHR '' '' \<notin> set (mnemonic op)
     \<and> (mode op = AM_ZPREL \<longrightarrow> length (mnemonic op) = 4) \<and> (length (mnemonic op) = 4 \<longrightarrow> mode op \<in> {AM_ZP, AM_ZPREL})"

lemma optable_ok: "list_all op_ok optable"
  by (simp add: optable_def opc_def op_ok_def)

definition mode_class :: "addrmode \<Rightarrow> nat" where
  "mode_class am = (case am of AM_IMP \<Rightarrow> 0 | AM_ACC \<Rightarrow> 1 | AM_IMM \<Rightarrow> 2 | AM_ZP \<Rightarrow> 3 | AM_ZPX \<Rightarrow> 4 | AM_ZPY \<Rightarrow> 5
     | AM_ABS \<Rightarrow> 6 | AM_REL \<Rightarrow> 6 | AM_ABSX \<Rightarrow> 7 | AM_ABSY \<Rightarrow> 8 | AM_IND \<Rightarrow> 9 | AM_INDX \<Rightarrow> 10 | AM_INDY \<Rightarrow> 11
     | AM_ZPI \<Rightarrow> 12 | AM_ABSXI \<Rightarrow> 13 | AM_ZPREL \<Rightarrow> 14)"

definition op_key :: "opcode_t \<Rightarrow> string \<times> nat" where
  "op_key op = (mnemonic op, mode_class (mode op))"

lemma distinct_groups:
  assumes "\<And>c. c \<in> g ` set xs \<Longrightarrow> distinct (filter (\<lambda>x. g x = c) xs)"
  shows "distinct xs"
  using assms
proof (induction xs)
  case (Cons a xs)
  have a: "distinct (a # filter (\<lambda>x. g x = g a) xs)" using Cons.prems [of "g a"] by simp
  have "distinct (filter (\<lambda>x. g x = c) xs)" if "c \<in> g ` set xs" for c
    using Cons.prems [of c] that by (auto split: if_splits)
  with a Cons.IH show ?case by auto
qed simp

definition official :: "opcode_t list" where
  "official = filter (\<lambda>op. mnemonic op \<noteq> ''NOP'') optable"

lemma keys_group:
  "\<forall>c \<in> set ''ABCDEIJLOPRSTW''. distinct (filter (\<lambda>k. hd (fst k) = c) (map op_key official))"
  by code_simp

lemma keys_first: "set (map (\<lambda>op. hd (mnemonic op)) official) \<subseteq> set ''ABCDEIJLOPRSTW''"
  by (simp add: official_def optable_def opc_def)

lemma keys_distinct: "distinct (map op_key official)"
proof (rule distinct_groups [where g = "\<lambda>k. hd (fst k)"])
  fix c
  assume "c \<in> (\<lambda>k. hd (fst k)) ` set (map op_key official)"
  then have "c \<in> set (map (\<lambda>op. hd (mnemonic op)) official)" by (auto simp: op_key_def)
  then show "distinct (filter (\<lambda>k. hd (fst k) = c) (map op_key official))"
    using keys_group keys_first by blast
qed


lemma distinct_filter_index:
  assumes "distinct (map f (filter P xs))" "i < length xs" "j < length xs" "P (xs ! i)" "P (xs ! j)" "f (xs ! i) = f (xs ! j)"
  shows "i = j"
proof -
  have lt: False if "i < j" "j < length xs" "P (xs ! i)" "P (xs ! j)" "f (xs ! i) = f (xs ! j)" for i j
  proof -
    have "xs = take j xs @ xs ! j # drop (Suc j) xs" using that(2) by (simp add: id_take_nth_drop)
    then have "distinct (map f (filter P (take j xs @ xs ! j # drop (Suc j) xs)))" using assms(1) by simp
    then have "f (xs ! j) \<notin> f ` {x \<in> set (take j xs). P x}" using that(4) by auto
    moreover have "xs ! i \<in> set (take j xs)" using that(1,2) by (auto simp: in_set_conv_nth intro!: exI [of _ i])
    ultimately have "f (xs ! i) \<in> f ` {x \<in> set (take j xs). P x}" using that(3) by (intro imageI) simp
    with \<open>f (xs ! j) \<notin> _\<close> show False using that(5) by simp
  qed
  show ?thesis using lt [of i j] lt [of j i] assms(2-6) by (cases i j rule: linorder_cases) auto
qed

lemma opcode_unique:
  assumes "mnemonic (optable ! unat b) \<noteq> ''NOP''" "op_key (optable ! unat b) = op_key (optable ! unat (c :: u8))"
  shows "b = c"
proof -
  have "mnemonic (optable ! unat c) \<noteq> ''NOP''" using assms by (simp add: op_key_def)
  then have "unat b = unat c"
    using distinct_filter_index [OF keys_distinct [unfolded official_def], of "unat b" "unat c"] assms
      unat_u8_lt [of b] unat_u8_lt [of c] by simp
  then show ?thesis by (simp add: word_unat_eq_iff)
qed

section \<open>Reading the text back\<close>

definition hexdig :: "nat \<Rightarrow> char" where
  "hexdig n = ''0123456789ABCDEF'' ! (n mod 16)"

lemma hexdig_set: "hexdig n \<in> set ''0123456789ABCDEF''"
  unfolding hexdig_def by (rule nth_mem) simp

lemma hexdig_neq [simp]: "hexdig n \<noteq> CHR '',''" "hexdig n \<noteq> CHR '')''" "hexdig n \<noteq> CHR ''X''" "hexdig n \<noteq> CHR ''Y''"
    "CHR '','' \<noteq> hexdig n" "CHR '')'' \<noteq> hexdig n" "CHR ''X'' \<noteq> hexdig n" "CHR ''Y'' \<noteq> hexdig n"
  using hexdig_set [of n] by auto

lemma hex2: "fmt_X 2 (unat (b :: u8)) = [hexdig (unat b div 16), hexdig (unat b)]"
  using unat_u8_lt [of b] by (simp add: fmt_X_hexw hexw_def hexdig_def numeral_2_eq_2)

lemma hex4: "fmt_X 4 (unat (a :: u16)) =
    [hexdig (unat a div 4096), hexdig (unat a div 256), hexdig (unat a div 16), hexdig (unat a)]"
proof -
  have "rev [0..<4] = [3, 2, 1, 0 :: nat]" by code_simp
  then show ?thesis using unat_u16_lt [of a] by (simp add: fmt_X_hexw hexw_def hexdig_def)
qed

lemma hex_length [simp]: "length (fmt_X 2 (unat (b :: u8))) = 2" "length (fmt_X 4 (unat (a :: u16))) = 4"
  by (simp_all add: hex2 hex4)

lemma hex2_inject [simp]: "fmt_X 2 (unat (b :: u8)) = fmt_X 2 (unat c) \<longleftrightarrow> b = c"
  using hexw_inject [of "''0123456789ABCDEF''" 2 "unat b" "unat c"] unat_u8_lt [of b] unat_u8_lt [of c]
  by (auto simp: fmt_X_hexw word_unat_eq_iff)

lemma hex4_inject [simp]: "fmt_X 4 (unat (a :: u16)) = fmt_X 4 (unat c) \<longleftrightarrow> a = c"
  using hexw_inject [of "''0123456789ABCDEF''" 4 "unat a" "unat c"] unat_u16_lt [of a] unat_u16_lt [of c]
  by (auto simp: fmt_X_hexw word_unat_eq_iff)

lemma scast8_inject [simp]: "(scast (b :: u8) :: u16) = scast c \<longleftrightarrow> b = c"
proof -
  have "ucast (scast b :: u16) = b" for b :: u8 by (rule bit_word_eqI) (simp add: bit_simps)
  then show ?thesis by metis
qed

lemma operand_length: "length (operand_text am pc b1 b2) \<le> 10"
  by (cases am) (simp_all add: operand_text_def Let_def)

lemma operand_start: "operand_text am pc b1 b2 = [] \<or> (\<exists>s. operand_text am pc b1 b2 = CHR '' '' # s)"
  by (cases am) (simp_all add: operand_text_def Let_def)

definition class_of_text :: "string \<Rightarrow> nat" where
  "class_of_text s =
     (if s = [] then 0 else if length s = 2 then 1 else if s ! 1 = CHR ''#'' then 2
      else if s ! 1 = CHR ''$'' then
        (if length s = 4 then 3
         else if length s = 6 then (if s ! 4 \<noteq> CHR '','' then 6 else if s ! 5 = CHR ''X'' then 4 else 5)
         else if length s = 8 then (if s ! 7 = CHR ''X'' then 7 else 8) else 14)
      else if length s = 6 then 12 else if length s = 10 then 13
      else if s ! 5 = CHR '','' then 10 else if s ! 5 = CHR '')'' then 11 else 9)"

lemma hex4_chars: "\<exists>p q r s. fmt_X 4 (unat (a :: u16)) = [p, q, r, s] \<and> r \<noteq> CHR '','' \<and> r \<noteq> CHR '')''"
  using hex4 [of a] hexdig_neq by blast

lemma class_of_operand: "class_of_text (operand_text am pc b1 b2) = mode_class am"
proof -
  obtain p q where x2: "fmt_X 2 (unat b1) = [p, q]" using hex2 by blast
  obtain a b c d where x4: "fmt_X 4 (unat (le16 b1 b2)) = [a, b, c, d]" "c \<noteq> CHR '',''" "c \<noteq> CHR '')''"
    using hex4_chars by blast
  obtain a' b' c' d' where t1: "fmt_X 4 (unat (pc + 2 + scast b1)) = [a', b', c', d']" "c' \<noteq> CHR '',''"
    using hex4_chars by blast
  obtain e f g h where t2: "fmt_X 4 (unat (pc + 3 + scast b2)) = [e, f, g, h]" using hex4_chars by blast
  show ?thesis
    unfolding operand_text_def Let_def x2 x4(1) t1(1) t2 class_of_text_def mode_class_def
    by (cases am) (simp_all add: x4 t1)
qed

lemma operand_bytes:
  assumes "operand_text m pc b1 b2 = operand_text m pc c1 c2"
  shows "(1 < mode_bytes m \<longrightarrow> b1 = c1) \<and> (2 < mode_bytes m \<longrightarrow> b2 = c2)"
  using assms by (cases m) (simp_all add: operand_text_def Let_def)

lemma split_text:
  assumes "CHR '' '' \<notin> set mn"
  shows "takeWhile (\<lambda>c. c \<noteq> CHR '' '') (mn @ operand_text am pc b1 b2) = mn"
proof -
  have "x \<noteq> CHR '' ''" if "x \<in> set mn" for x using assms that by auto
  then have "takeWhile (\<lambda>c. c \<noteq> CHR '' '') (mn @ t) = mn @ takeWhile (\<lambda>c. c \<noteq> CHR '' '') t" for t
    by (rule takeWhile_append2)
  note this [of "operand_text am pc b1 b2"]
  moreover have "takeWhile (\<lambda>c. c \<noteq> CHR '' '') (operand_text am pc b1 b2) = []"
    using operand_start [of am pc b1 b2] by auto
  ultimately show ?thesis by simp
qed

lemma op_facts:
  fixes b :: u8
  defines "op \<equiv> optable ! unat b"
  shows "bytes op = mode_bytes (mode op)" "length (mnemonic op) \<le> 4" "CHR '' '' \<notin> set (mnemonic op)"
  using optable_ok op_in_table [of b] by (auto simp: list_all_iff op_ok_def op_def)

lemma disasm_bytes:
  "snd (dbgDisasmInstrFromPc pc read) = mode_bytes (mode (optable ! unat (read pc)))"
  by (simp add: dbgDisasmInstrFromPc_def Let_def op_facts)

lemma mode_bytes_range: "1 \<le> mode_bytes am \<and> mode_bytes am \<le> 3"
  by (cases am) simp_all

section \<open>Properties\<close>

text \<open>
  C34: the text \<open>dbgDisasmInstrFromPc\<close> writes fits, with its NUL, into the smallest buffer a
  caller passes (\<open>char buf[32]\<close> in \<open>dbgShouldStop\<close>), and the length it returns is the number of
  bytes the opcode's addressing mode takes, between 1 and 3: for every address and every memory.
\<close>

theorem disasm_bounds:
  "length (fst (dbgDisasmInstrFromPc pc read)) + 1 \<le> 32 \<and>
   snd (dbgDisasmInstrFromPc pc read) = mode_bytes (mode (optable ! unat (read pc))) \<and>
   snd (dbgDisasmInstrFromPc pc read) \<in> {1..3}"
  using op_facts(2) [of "read pc"] operand_length [of "mode (optable ! unat (read pc))" pc "read (pc + 1)" "read (pc + 2)"]
    mode_bytes_range [of "mode (optable ! unat (read pc))"]
  by (simp add: disasm_bytes) (simp add: dbgDisasmInstrFromPc_def Let_def)

text \<open>
  C33: nothing is lost in the text. If two memories disassemble to the same text at the same
  address, and the instruction is not one of the undefined opcodes shown as \<open>NOP\<close>, then they
  hold the same instruction there: the same length and the same bytes.
\<close>

theorem disasm_determines_code:
  assumes "fst (dbgDisasmInstrFromPc pc read) = fst (dbgDisasmInstrFromPc pc read')"
    "mnemonic (optable ! unat (read pc)) \<noteq> ''NOP''" "i < snd (dbgDisasmInstrFromPc pc read)"
  shows "read (pc + word_of_nat i) = read' (pc + word_of_nat i) \<and>
    snd (dbgDisasmInstrFromPc pc read') = snd (dbgDisasmInstrFromPc pc read)"
proof -
  let ?op = "\<lambda>r. optable ! unat (r pc)"
  let ?t = "\<lambda>r. operand_text (mode (?op r)) pc (r (pc + 1)) (r (pc + 2))"
  have tx: "mnemonic (?op read) @ ?t read = mnemonic (?op read') @ ?t read'"
    using assms(1) by (simp add: dbgDisasmInstrFromPc_def Let_def)
  have mn: "mnemonic (?op read) = mnemonic (?op read')"
    using split_text [OF op_facts(3)] tx by metis
  then have t: "?t read = ?t read'" using tx by simp
  then have "mode_class (mode (?op read)) = mode_class (mode (?op read'))" by (metis class_of_operand)
  then have r: "read pc = read' pc" using opcode_unique assms(2) mn by (simp add: op_key_def)
  have "(1 < mode_bytes (mode (?op read)) \<longrightarrow> read (pc + 1) = read' (pc + 1)) \<and>
      (2 < mode_bytes (mode (?op read)) \<longrightarrow> read (pc + 2) = read' (pc + 2))"
    by (rule operand_bytes) (use t r in simp)
  moreover have i: "i < mode_bytes (mode (?op read))" using assms(3) by (simp add: disasm_bytes)
  then have "i \<in> {0, 1, 2}" using mode_bytes_range [of "mode (?op read)"] by auto
  ultimately show ?thesis using r i by (auto simp: disasm_bytes)
qed

text \<open>\<open>LDA ($12),Y\<close> at \<open>$0200\<close>, in two memories.\<close>

definition demo_code :: "u8 \<Rightarrow> u16 \<Rightarrow> u8" where
  "demo_code rest a = (if a = 0x0200 then 0xB1 else if a = 0x0201 then 0x12 else rest)"

theorem disasm_determines_code_witness:
  "dbgDisasmInstrFromPc 0x0200 (demo_code 0) = (''LDA ($12),Y'', 2) \<and>
   demo_code 0 (0x0200 + word_of_nat 1) = demo_code 0xFF (0x0200 + word_of_nat 1)"
proof -
  have op: "optable ! 177 = \<lparr>mnemonic = ''LDA'', mode = AM_INDY, bytes = 2\<rparr>" by code_simp
  have d: "dbgDisasmInstrFromPc 0x0200 (demo_code r) = (''LDA ($12),Y'', 2)" for r
    using hex2 [of "0x12"] by (simp add: dbgDisasmInstrFromPc_def demo_code_def op operand_text_def hexdig_def)
  show ?thesis
    using disasm_determines_code [of "0x0200" "demo_code 0" "demo_code 0xFF" 1] d [of 0] d [of "0xFF"]
    by (simp add: demo_code_def op)
qed

end
