(* ===== verification/Breakpoints.thy ===== *)
theory Breakpoints
  imports Clib "HOL-Library.Monad_Syntax"
begin

text \<open>
  The debugger's breakpoint list (\<^verbatim>\<open>rtl/dbg/debugger.c\<close>): the growing array \<open>dbgBpList\<close> with its
  capacity and count, and \<open>dbgSetBp\<close>, \<open>dbgRmvBp\<close>, \<open>dbgCheckIfAtBp\<close>. A cell of the array the program
  has not written since \<open>realloc\<close> is \<open>None\<close>; reading such a cell, or one outside the array, makes
  the operation \<open>None\<close> (undefined behaviour). A breakpoint's name is its own copy of the symbol, at
  most 31 characters. Whether the allocations of the list and of the name succeed are arguments.
\<close>

section \<open>The code\<close>

record breakpoint_t =
  address :: u16
  symbol :: "string option"  \<comment> \<open>\<open>hasSymbol\<close> and \<open>symbol\<close>\<close>

record bps =
  bpList :: "breakpoint_t option list"
  bpListSize :: nat
  nofBps :: nat

definition MAX_SYMBOL_LENGTH :: nat where "MAX_SYMBOL_LENGTH = 32"

definition no_bps :: bps where
  "no_bps = \<lparr>bpList = [], bpListSize = 0, nofBps = 0\<rparr>"

definition cell :: "bps \<Rightarrow> nat \<Rightarrow> breakpoint_t option" where
  "cell b i = (if i < length (bpList b) then bpList b ! i else None)"

definition first_alloc :: "bool \<Rightarrow> bps \<Rightarrow> bps option" where
  "first_alloc ok b =
     (if bpListSize b = 0
      then if ok then Some (b\<lparr>bpListSize := 10, bpList := replicate 10 (Some \<lparr>address = 0, symbol = None\<rparr>)\<rparr>) else None
      else Some b)"

definition grow :: "bool \<Rightarrow> bps \<Rightarrow> bool \<times> bps" where
  "grow ok b =
     (if nofBps b \<ge> bpListSize b
      then if ok then (True, b\<lparr>bpListSize := bpListSize b * 2, bpList := bpList b @ replicate (bpListSize b) None\<rparr>)
           else (False, b)
      else (True, b))"

definition dbgSetBp :: "bool \<Rightarrow> bool \<Rightarrow> u16 \<Rightarrow> string option \<Rightarrow> bps \<Rightarrow> (bool \<times> bps) option" where
  "dbgSetBp ok ok2 addr nm b = do {
     b \<leftarrow> first_alloc ok b;
     (case grow ok b of (grown, b) \<Rightarrow>
       if \<not> grown then Some (False, b)
       else if nofBps b < length (bpList b) \<and> (nm = None \<or> ok2)
       then Some (True, b\<lparr>bpList := (bpList b)[nofBps b :=
                Some \<lparr>address = addr, symbol = map_option (take (MAX_SYMBOL_LENGTH - 1)) nm\<rparr>],
              nofBps := nofBps b + 1\<rparr>)
       else None)
   }"

function rmv_loop :: "u16 \<Rightarrow> nat \<Rightarrow> bool \<Rightarrow> bps \<Rightarrow> (bool \<times> bps) option" where
  "rmv_loop bp i found b =
     (if i < nofBps b
      then case cell b i of
             None \<Rightarrow> None
           | Some e \<Rightarrow>
               if address e \<noteq> bp then rmv_loop bp (i + 1) found b
               else rmv_loop bp i True
                      (b\<lparr>bpList := take i (bpList b) @ take (nofBps b - i - 1) (drop (i + 1) (bpList b)) @ drop (nofBps b - 1) (bpList b),
                        nofBps := nofBps b - 1\<rparr>)
      else Some (found, b))"
  by pat_completeness auto
termination by (relation "measure (\<lambda>(bp, i, found, b). nofBps b - i)") auto

declare rmv_loop.simps [simp del]

definition dbgRmvBp :: "u16 \<Rightarrow> bps \<Rightarrow> (bool \<times> bps) option" where
  "dbgRmvBp bp b = rmv_loop bp 0 False b"

function check_loop :: "u16 \<Rightarrow> u16 \<Rightarrow> nat \<Rightarrow> bps \<Rightarrow> nat option option" where
  "check_loop from to i b =
     (if i < nofBps b
      then case cell b i of
             None \<Rightarrow> None
           | Some e \<Rightarrow> if from \<le> address e \<and> address e \<le> to then Some (Some i) else check_loop from to (i + 1) b
      else Some None)"
  by pat_completeness auto
termination by (relation "measure (\<lambda>(from, to, i, b). nofBps b - i)") auto

declare check_loop.simps [simp del]

definition dbgCheckIfAtBp :: "u16 \<Rightarrow> nat \<Rightarrow> bps \<Rightarrow> nat option option" where
  "dbgCheckIfAtBp pc instrlen b = check_loop pc (pc + word_of_nat instrlen) 0 b"

section \<open>The list it stands for\<close>

definition entries :: "bps \<Rightarrow> breakpoint_t list" where
  "entries b = map the (take (nofBps b) (bpList b))"

definition bps_ok :: "bps \<Rightarrow> bool" where
  "bps_ok b \<longleftrightarrow> length (bpList b) = bpListSize b \<and> nofBps b \<le> bpListSize b \<and>
     (\<forall>i < nofBps b. bpList b ! i \<noteq> None) \<and> (bpListSize b = 0 \<or> (\<exists>k. bpListSize b = 10 * 2 ^ k))"

lemma no_bps_ok: "bps_ok no_bps" "entries no_bps = []"
  by (simp_all add: bps_ok_def no_bps_def entries_def)

lemma length_entries: "bps_ok b \<Longrightarrow> length (entries b) = nofBps b"
  by (simp add: bps_ok_def entries_def)

lemma cell_entry: "bps_ok b \<Longrightarrow> i < nofBps b \<Longrightarrow> cell b i = Some (entries b ! i)"
  by (auto simp: cell_def bps_ok_def entries_def)

lemma entries_cells: "bps_ok b \<Longrightarrow> map Some (entries b) = take (nofBps b) (bpList b)"
  by (rule nth_equalityI) (auto simp: bps_ok_def entries_def)

lemma bps_okI:
  assumes "length (bpList b) = bpListSize b" "nofBps b \<le> bpListSize b" "take (nofBps b) (bpList b) = map Some es"
    "bpListSize b = 0 \<or> (\<exists>k. bpListSize b = 10 * 2 ^ k)"
  shows "bps_ok b" "entries b = es"
proof -
  have l: "length es = nofBps b" using assms(1-3) by (metis length_map length_take min.absorb2)
  have "bpList b ! i = Some (es ! i)" if "i < nofBps b" for i
    using that assms(3) l by (metis nth_map nth_take)
  then show "bps_ok b" using assms by (simp add: bps_ok_def)
  show "entries b = es" using assms(3) by (simp add: entries_def o_def)
qed

lemma set_spec:
  assumes "bps_ok b"
  shows "\<exists>b'. dbgSetBp True True addr nm b = Some (True, b') \<and> bps_ok b' \<and>
    entries b' = entries b @ [\<lparr>address = addr, symbol = map_option (take 31) nm\<rparr>]"
proof -
  let ?e = "\<lparr>address = addr, symbol = map_option (take 31) nm\<rparr>"
  obtain b1 where b1: "first_alloc True b = Some b1" "bps_ok b1" "entries b1 = entries b" "nofBps b1 = nofBps b" "0 < bpListSize b1"
  proof (cases "bpListSize b = 0")
    case True
    then have n: "nofBps b = 0" "bpList b = []" using assms by (simp_all add: bps_ok_def)
    have "(10 :: nat) = 10 * 2 ^ 0" by simp
    then show ?thesis
      using that [of "b\<lparr>bpListSize := 10, bpList := replicate 10 (Some \<lparr>address = 0, symbol = None\<rparr>)\<rparr>"] True n
      by (auto simp: first_alloc_def bps_ok_def entries_def)
  next
    case False
    then show ?thesis using that [of b] assms by (simp add: first_alloc_def)
  qed
  obtain b2 where b2: "grow True b1 = (True, b2)" "length (bpList b2) = bpListSize b2" "nofBps b2 = nofBps b" "nofBps b2 < bpListSize b2"
      "take (nofBps b2) (bpList b2) = map Some (entries b)" "\<exists>k. bpListSize b2 = 10 * 2 ^ k"
  proof (cases "nofBps b1 \<ge> bpListSize b1")
    case True
    obtain k where "bpListSize b1 = 10 * 2 ^ k" using b1(2,5) by (auto simp: bps_ok_def)
    have "\<exists>j. 2 * 2 ^ k = (2 :: nat) ^ j" by (rule exI [of _ "Suc k"]) simp
    then show ?thesis
      using that [of "b1\<lparr>bpListSize := bpListSize b1 * 2, bpList := bpList b1 @ replicate (bpListSize b1) None\<rparr>"]
        True b1 entries_cells [OF b1(2)] \<open>bpListSize b1 = _\<close> by (simp add: grow_def bps_ok_def)
  next
    case False
    then show ?thesis using that [of b1] b1 entries_cells [OF b1(2)] by (auto simp: grow_def bps_ok_def)
  qed
  let ?b = "b2\<lparr>bpList := (bpList b2)[nofBps b2 := Some ?e], nofBps := nofBps b2 + 1\<rparr>"
  have s: "dbgSetBp True True addr nm b = Some (True, ?b)"
    using b2 by (simp add: dbgSetBp_def b1(1) MAX_SYMBOL_LENGTH_def)
  have t: "take (nofBps ?b) (bpList ?b) = map Some (entries b @ [?e])"
    using b2 by (simp add: take_Suc_conv_app_nth)
  show ?thesis using bps_okI [of ?b, OF _ _ t] b2 s by auto
qed

lemma set_no_memory:
  "bps_ok b \<Longrightarrow> 0 < bpListSize b \<Longrightarrow> nofBps b = bpListSize b \<Longrightarrow> dbgSetBp False ok2 addr nm b = Some (False, b)"
  by (simp add: dbgSetBp_def first_alloc_def grow_def)

lemma rmv_loop_spec:
  assumes "bps_ok b" "i \<le> nofBps b"
  shows "\<exists>b'. rmv_loop bp i found b = Some (found \<or> (\<exists>e \<in> set (drop i (entries b)). address e = bp), b') \<and>
    bps_ok b' \<and> bpListSize b' = bpListSize b \<and>
    entries b' = take i (entries b) @ filter (\<lambda>e. address e \<noteq> bp) (drop i (entries b))"
  using assms
proof (induction bp i found b rule: rmv_loop.induct)
  case (1 bp i found b)
  note ok = "1.prems"(1)
  show ?case
  proof (cases "i < nofBps b")
    case False
    then show ?thesis using "1.prems" by (subst rmv_loop.simps) (simp add: length_entries)
  next
    case i: True
    let ?e = "entries b ! i"
    note c = cell_entry [OF ok i]
    have d: "drop i (entries b) = ?e # drop (Suc i) (entries b)" "take (Suc i) (entries b) = take i (entries b) @ [?e]"
      using i by (simp_all add: length_entries [OF ok] Cons_nth_drop_Suc take_Suc_conv_app_nth)
    show ?thesis
    proof (cases "address ?e = bp")
      case False
      then show ?thesis
        using "1.IH"(1) [OF i c] ok i d by (simp add: rmv_loop.simps [of bp i found b] c)
    next
      case True
      let ?b = "b\<lparr>bpList := take i (bpList b) @ take (nofBps b - i - 1) (drop (i + 1) (bpList b)) @ drop (nofBps b - 1) (bpList b),
                  nofBps := nofBps b - 1\<rparr>"
      have l: "length (bpList b) = bpListSize b" "nofBps b \<le> bpListSize b" using ok by (simp_all add: bps_ok_def)
      have "take (nofBps ?b) (bpList ?b) = take i (bpList b) @ take (nofBps b - i - 1) (drop (i + 1) (bpList b))"
        using i l by simp
      also have "\<dots> = map Some (take i (entries b) @ drop (Suc i) (entries b))"
        using i by (simp add: entries_cells [OF ok] drop_take min_def flip: take_map drop_map)
      finally have t: "take (nofBps ?b) (bpList ?b) = map Some (take i (entries b) @ drop (Suc i) (entries b))" .
      have s: "length (bpList ?b) = bpListSize ?b" "nofBps ?b \<le> bpListSize ?b"
          "bpListSize ?b = 0 \<or> (\<exists>k. bpListSize ?b = 10 * 2 ^ k)"
        using i l ok by (simp_all add: bps_ok_def)
      define b1 where "b1 = ?b"
      have b: "bps_ok b1" "entries b1 = take i (entries b) @ drop (Suc i) (entries b)" "i \<le> nofBps b1" "bpListSize b1 = bpListSize b"
        using bps_okI [OF s(1,2) t s(3)] i by (simp_all add: b1_def)
      have r: "rmv_loop bp i found b = rmv_loop bp i True b1"
        using i True by (simp add: rmv_loop.simps [of bp i found b] c b1_def)
      have "\<not> address ?e \<noteq> bp" using True by simp
      from "1.IH"(2) [OF i c this, folded b1_def, OF b(1,3)] show ?thesis
        unfolding r using i d True by (simp add: b length_entries [OF ok])
    qed
  qed
qed

lemma rmv_spec:
  assumes "bps_ok b"
  shows "\<exists>b'. dbgRmvBp bp b = Some (\<exists>e \<in> set (entries b). address e = bp, b') \<and> bps_ok b' \<and>
    entries b' = filter (\<lambda>e. address e \<noteq> bp) (entries b)"
  using rmv_loop_spec [OF assms, of 0 bp False] by (auto simp: dbgRmvBp_def)

fun first_at :: "('a \<Rightarrow> bool) \<Rightarrow> 'a list \<Rightarrow> nat option" where
  "first_at P [] = None"
| "first_at P (x # xs) = (if P x then Some 0 else map_option Suc (first_at P xs))"

lemma first_at_None: "first_at P xs = None \<longleftrightarrow> (\<forall>x \<in> set xs. \<not> P x)"
  by (induction xs) auto

lemma first_at_Some: "first_at P xs = Some i \<longleftrightarrow> i < length xs \<and> P (xs ! i) \<and> (\<forall>j < i. \<not> P (xs ! j))"
  by (induction xs arbitrary: i) (auto simp: less_Suc_eq_0_disj nth_Cons split: nat.splits if_splits)

lemma check_loop_spec:
  assumes "bps_ok b" "i \<le> nofBps b"
  shows "check_loop from to i b = Some (map_option ((+) i) (first_at (\<lambda>e. from \<le> address e \<and> address e \<le> to) (drop i (entries b))))"
  using assms
proof (induction "from" to i b rule: check_loop.induct)
  case (1 "from" to i b)
  show ?case
  proof (cases "i < nofBps b")
    case False
    then show ?thesis using "1.prems" by (subst check_loop.simps) (simp add: length_entries)
  next
    case i: True
    note c = cell_entry [OF "1.prems"(1) i]
    have d: "drop i (entries b) = entries b ! i # drop (Suc i) (entries b)"
      using i by (simp add: length_entries [OF "1.prems"(1)] Cons_nth_drop_Suc)
    show ?thesis
      using "1.IH" [OF i c] "1.prems" i by (auto simp: check_loop.simps [of "from" to i b] c d option.map_comp o_def)
  qed
qed

lemma plus_0: "(+) 0 = (\<lambda>x :: nat. x)"
  by auto

lemma check_spec:
  assumes "bps_ok b"
  shows "dbgCheckIfAtBp pc n b = Some (first_at (\<lambda>e. pc \<le> address e \<and> address e \<le> pc + word_of_nat n) (entries b))"
  using check_loop_spec [OF assms, of 0] by (simp add: dbgCheckIfAtBp_def option.map_ident plus_0)


section \<open>The interface the debugger relies on\<close>

locale bp_store =
  fixes inv :: "'s \<Rightarrow> bool" and lst :: "'s \<Rightarrow> breakpoint_t list"
    and set_bp :: "u16 \<Rightarrow> string option \<Rightarrow> 's \<Rightarrow> (bool \<times> 's) option"
    and rmv_bp :: "u16 \<Rightarrow> 's \<Rightarrow> (bool \<times> 's) option"
    and at_bp :: "u16 \<Rightarrow> nat \<Rightarrow> 's \<Rightarrow> nat option option"
  assumes set_law: "inv b \<Longrightarrow> \<exists>b'. set_bp a n b = Some (True, b') \<and> inv b' \<and>
      lst b' = lst b @ [\<lparr>address = a, symbol = map_option (take 31) n\<rparr>]"
    and rmv_law: "inv b \<Longrightarrow> \<exists>b'. rmv_bp a b = Some (\<exists>e \<in> set (lst b). address e = a, b') \<and> inv b' \<and>
      lst b' = filter (\<lambda>e. address e \<noteq> a) (lst b)"
    and at_law: "inv b \<Longrightarrow> at_bp pc k b = Some (first_at (\<lambda>e. pc \<le> address e \<and> address e \<le> pc + word_of_nat k) (lst b))"
begin

lemma at_exact: "inv b \<Longrightarrow> at_bp pc 0 b = Some (first_at (\<lambda>e. address e = pc) (lst b))"
  by (simp add: at_law) (metis order_antisym order_refl)

lemma at_after_set:
  assumes "inv b" "set_bp a n b = Some (True, b')"
  shows "\<exists>i < length (lst b'). at_bp a 0 b' = Some (Some i) \<and> address (lst b' ! i) = a"
proof -
  have b': "inv b'" "lst b' = lst b @ [\<lparr>address = a, symbol = map_option (take 31) n\<rparr>]"
    using set_law [OF assms(1), of a n] assms(2) by auto
  then obtain i where "first_at (\<lambda>e. address e = a) (lst b') = Some i"
    using first_at_None [of "\<lambda>e. address e = a" "lst b'"] by fastforce
  then show ?thesis using at_exact [OF b'(1), of a] by (auto simp: first_at_Some)
qed

lemma at_after_rmv:
  assumes "inv b" "rmv_bp a b = Some (r, b')"
  shows "at_bp a 0 b' = Some None \<and> (r \<longleftrightarrow> at_bp a 0 b \<noteq> Some None)"
proof -
  have b': "inv b'" "lst b' = filter (\<lambda>e. address e \<noteq> a) (lst b)" "r \<longleftrightarrow> (\<exists>e \<in> set (lst b). address e = a)"
    using rmv_law [OF assms(1), of a] assms(2) by auto
  then show ?thesis using at_exact [OF b'(1), of a] at_exact [OF assms(1), of a]
    by (auto simp: first_at_None)
qed

lemma rmv_other:
  assumes "inv b" "rmv_bp a b = Some (r, b')" "pc \<noteq> a"
  shows "at_bp pc 0 b' = Some None \<longleftrightarrow> at_bp pc 0 b = Some None"
proof -
  have b': "inv b'" "lst b' = filter (\<lambda>e. address e \<noteq> a) (lst b)"
    using rmv_law [OF assms(1), of a] assms(2) by auto
  then show ?thesis using at_exact [OF b'(1), of pc] at_exact [OF assms(1), of pc] assms(3)
    by (auto simp: first_at_None)
qed

end

interpretation bl: bp_store bps_ok entries "dbgSetBp True True" dbgRmvBp dbgCheckIfAtBp
  by unfold_locales (rule set_spec rmv_spec check_spec; assumption)+

section \<open>Sequences of commands\<close>

text \<open>The operations, each with what the allocations it may ask for return.\<close>

datatype bp_op = SetOp u16 "string option" bool bool | RmvOp u16

fun bp_step :: "bp_op \<Rightarrow> bps \<Rightarrow> bps option" where
  "bp_step (SetOp a n ok ok2) b = map_option snd (dbgSetBp ok ok2 a n b)"
| "bp_step (RmvOp a) b = map_option snd (dbgRmvBp a b)"

definition bp_run :: "bp_op list \<Rightarrow> bps \<Rightarrow> bps option" where
  "bp_run = run_ops bp_step"

text \<open>
  On a list with a capacity: only the growth of the list may be refused, and then the list stays; without the first
  memory, or without memory for a name, the operation is undefined.
\<close>

fun bp_apply :: "bp_op \<Rightarrow> nat \<times> breakpoint_t list \<Rightarrow> (nat \<times> breakpoint_t list) option" where
  "bp_apply (SetOp a n ok ok2) (c, es) =
     (if c = 0 \<and> \<not> ok then None
      else if c \<noteq> 0 \<and> length es = c \<and> \<not> ok then Some (c, es)
      else if n \<noteq> None \<and> \<not> ok2 then None
      else Some (if c = 0 then 10 else if length es = c then 2 * c else c,
                 es @ [\<lparr>address = a, symbol = map_option (take 31) n\<rparr>]))"
| "bp_apply (RmvOp a) (c, es) = Some (c, filter (\<lambda>e. address e \<noteq> a) es)"

definition bp_abs :: "bps \<Rightarrow> nat \<times> breakpoint_t list" where
  "bp_abs b = (bpListSize b, entries b)"

lemma set_names:
  assumes "n = None \<or> ok2"
  shows "dbgSetBp ok ok2 a n b = dbgSetBp ok True a n b"
proof -
  have e: "(n = None \<or> ok2) = (n = None \<or> True)" using assms by simp
  show ?thesis unfolding dbgSetBp_def e ..
qed

lemma set_no_name:
  assumes "bps_ok b" "n \<noteq> None" "ok \<or> bpListSize b \<noteq> 0 \<and> nofBps b < bpListSize b"
  shows "dbgSetBp ok False a n b = None"
proof -
  have "nofBps b \<le> bpListSize b" using assms(1) by (simp add: bps_ok_def)
  then show ?thesis using assms(2,3) by (auto simp: dbgSetBp_def first_alloc_def grow_def)
qed

lemma set_no_growth: "bpListSize b \<noteq> 0 \<Longrightarrow> nofBps b < bpListSize b \<Longrightarrow> dbgSetBp ok ok2 a n b = dbgSetBp True ok2 a n b"
  by (simp add: dbgSetBp_def first_alloc_def grow_def)

lemma set_size:
  assumes "bps_ok b" "dbgSetBp True True a n b = Some (True, b')"
  shows "bpListSize b' = (if bpListSize b = 0 then 10 else if nofBps b = bpListSize b then 2 * bpListSize b else bpListSize b)"
proof -
  have "nofBps b \<le> bpListSize b" using assms(1) by (simp add: bps_ok_def)
  then show ?thesis using assms(2) by (auto simp: dbgSetBp_def first_alloc_def grow_def split: if_splits)
qed

lemma rmv_size: "bps_ok b \<Longrightarrow> dbgRmvBp a b = Some (r, b') \<Longrightarrow> bpListSize b' = bpListSize b"
  using rmv_loop_spec [of b 0 a False] by (auto simp: dbgRmvBp_def)

lemma set_refines:
  assumes "bps_ok b"
  shows "map_option bp_abs (bp_step (SetOp a n ok ok2) b) = bp_apply (SetOp a n ok ok2) (bp_abs b)"
    "bp_step (SetOp a n ok ok2) b = Some b' \<Longrightarrow> bps_ok b'"
proof -
  have l: "length (entries b) = nofBps b" "nofBps b \<le> bpListSize b"
    using assms by (simp_all add: length_entries bps_ok_def)
  obtain b1 where b1: "dbgSetBp True True a n b = Some (True, b1)" "bps_ok b1"
      "entries b1 = entries b @ [\<lparr>address = a, symbol = map_option (take 31) n\<rparr>]" using set_spec [OF assms] by blast
  note size = set_size [OF assms b1(1)]
  consider (none) "bpListSize b = 0" "\<not> ok" | (full) "bpListSize b \<noteq> 0" "nofBps b = bpListSize b" "\<not> ok"
    | (name) "bpListSize b \<noteq> 0 \<and> nofBps b < bpListSize b \<or> ok" "n \<noteq> None" "\<not> ok2"
    | (good) "bpListSize b \<noteq> 0 \<and> nofBps b < bpListSize b \<or> ok" "n = None \<or> ok2"
    using l by linarith
  then have "map_option bp_abs (bp_step (SetOp a n ok ok2) b) = bp_apply (SetOp a n ok ok2) (bp_abs b) \<and>
      (bp_step (SetOp a n ok ok2) b = Some b' \<longrightarrow> bps_ok b')"
  proof cases
    case none
    then show ?thesis by (simp add: bp_abs_def dbgSetBp_def first_alloc_def)
  next
    case full
    then show ?thesis using set_no_memory [OF assms, of ok2 a n] l assms by (auto simp: bp_abs_def)
  next
    case name
    then show ?thesis using set_no_name [OF assms, of n ok a] l by (auto simp: bp_abs_def)
  next
    case good
    then have "dbgSetBp ok ok2 a n b = Some (True, b1)"
      using set_names [of n ok2 ok a b] set_no_growth [of b ok True a n] b1(1) by (cases ok) auto
    then show ?thesis using good l b1 size by (auto simp: bp_abs_def)
  qed
  then show "map_option bp_abs (bp_step (SetOp a n ok ok2) b) = bp_apply (SetOp a n ok ok2) (bp_abs b)"
    "bp_step (SetOp a n ok ok2) b = Some b' \<Longrightarrow> bps_ok b'" by auto
qed

lemma rmv_refines:
  assumes "bps_ok b"
  shows "map_option bp_abs (bp_step (RmvOp a) b) = bp_apply (RmvOp a) (bp_abs b)" "bp_step (RmvOp a) b = Some b' \<Longrightarrow> bps_ok b'"
  using rmv_spec [OF assms, of a] rmv_size [OF assms, of a] by (auto simp: bp_abs_def)

interpretation bp: refinement bp_step bp_apply bp_abs bps_ok
proof unfold_locales
  show "map_option bp_abs (bp_step x b) = bp_apply x (bp_abs b)" if "bps_ok b" for x b
    using that by (cases x) (simp_all only: set_refines(1) rmv_refines(1))
  show "bps_ok b'" if "bps_ok b" "bp_step x b = Some b'" for x b b'
    using that set_refines(2) rmv_refines(2) by (cases x) blast+
qed

text \<open>Sequences for which the two allocations that the code does not check succeed.\<close>

fun name_granted :: "bp_op \<Rightarrow> bool" where
  "name_granted (SetOp a n ok ok2) \<longleftrightarrow> n = None \<or> ok2"
| "name_granted (RmvOp a) \<longleftrightarrow> True"

fun first_granted :: "bp_op list \<Rightarrow> bool" where
  "first_granted [] \<longleftrightarrow> True"
| "first_granted (RmvOp a # xs) \<longleftrightarrow> first_granted xs"
| "first_granted (SetOp a n ok ok2 # xs) \<longleftrightarrow> ok"

lemma apply_defined:
  "list_all name_granted xs \<Longrightarrow> c \<noteq> 0 \<or> first_granted xs \<Longrightarrow> run_ops bp_apply xs (c, es) \<noteq> None"
proof (induction xs arbitrary: c es)
  case (Cons x xs)
  show ?case
  proof (cases x)
    case (RmvOp a)
    then show ?thesis using Cons by simp
  next
    case (SetOp a n ok ok2)
    then show ?thesis using Cons by auto
  qed
qed simp

text \<open>What a sequence does to a list if nothing is refused.\<close>

fun granted :: "bp_op \<Rightarrow> bool" where
  "granted (SetOp a n ok ok2) \<longleftrightarrow> ok \<and> ok2"
| "granted (RmvOp a) \<longleftrightarrow> True"

fun bp_list :: "bp_op \<Rightarrow> breakpoint_t list \<Rightarrow> breakpoint_t list" where
  "bp_list (SetOp a n ok ok2) es = es @ [\<lparr>address = a, symbol = map_option (take 31) n\<rparr>]"
| "bp_list (RmvOp a) es = filter (\<lambda>e. address e \<noteq> a) es"

lemma apply_granted: "list_all granted xs \<Longrightarrow> map_option snd (run_ops bp_apply xs (c, es)) = Some (fold bp_list xs es)"
proof (induction xs arbitrary: c es)
  case (Cons x xs)
  then show ?case by (cases x) auto
qed simp

text \<open>The two counters stay within the \<open>int\<close> they have in the code.\<close>

lemma apply_bounds:
  "length es \<le> l \<Longrightarrow> c \<le> max 10 (2 * l) \<Longrightarrow> run_ops bp_apply xs (c, es) = Some (c', es') \<Longrightarrow>
     length es' \<le> l + length xs \<and> c' \<le> max 10 (2 * (l + length xs))"
proof (induction xs arbitrary: c es l)
  case (Cons x xs)
  obtain c1 es1 where s: "bp_apply x (c, es) = Some (c1, es1)" "run_ops bp_apply xs (c1, es1) = Some (c', es')"
    using Cons.prems(3) by (auto split: option.splits)
  have "length es1 \<le> Suc l \<and> c1 \<le> max 10 (2 * Suc l)"
  proof (cases x)
    case (SetOp a n ok ok2)
    then show ?thesis using s(1) Cons.prems(1,2) by (auto split: if_splits)
  next
    case (RmvOp a)
    then show ?thesis using s(1) Cons.prems(1,2) length_filter_le [of "\<lambda>e. address e \<noteq> a" es] by auto
  qed
  then show ?case using Cons.IH [of es1 "Suc l" c1] s(2) by simp
qed simp

lemma bp_run_refines: "bps_ok b \<Longrightarrow> list_all granted ops \<Longrightarrow> \<exists>b'. bp_run ops b = Some b' \<and> bps_ok b' \<and> entries b' = fold bp_list ops (entries b)"
  using bp.run_abs [of b ops] bp.run_keeps [of b ops] apply_granted [of ops "bpListSize b" "entries b"]
  by (cases "run_ops bp_step ops b") (auto simp: bp_run_def bp_abs_def)

section \<open>Properties\<close>

text \<open>
  C15: the array refines the list, whichever allocations fail. For every sequence of settings and removals from the
  empty array, with any outcome of each allocation, the code does what \<open>bp_apply\<close> does to a list with a
  capacity, and is undefined exactly where it is: never if the first allocation of the list and those of the
  names, which the code does not check, succeed (no cell is read that was not written, nor one outside
  the array), so that a refused growth only leaves the list as it is. If every allocation succeeds, a setting
  appends (the name cut to 31 characters) and a removal drops every entry at its address. Below \<open>2^30\<close> operations
  capacity and count fit the \<open>int\<close>s of the code.
\<close>

theorem breakpoints_refine:
  "map_option bp_abs (bp_run ops no_bps) = run_ops bp_apply ops (0, []) \<and>
   (list_all name_granted ops \<and> first_granted ops \<longrightarrow> bp_run ops no_bps \<noteq> None) \<and>
   (list_all granted ops \<longrightarrow> map_option entries (bp_run ops no_bps) = Some (fold bp_list ops [])) \<and>
   (\<forall>b. bp_run ops no_bps = Some b \<longrightarrow> bps_ok b \<and> (length ops < 2 ^ 30 \<longrightarrow> bpListSize b < 2 ^ 31 \<and> nofBps b < 2 ^ 31))"
proof (intro conjI impI allI)
  show r: "map_option bp_abs (bp_run ops no_bps) = run_ops bp_apply ops (0, [])"
    using bp.run_abs [OF no_bps_ok(1), of ops] by (simp add: bp_run_def bp_abs_def no_bps_ok(2)) (simp add: no_bps_def)
  show "bp_run ops no_bps \<noteq> None" if "list_all name_granted ops \<and> first_granted ops"
    using apply_defined [of ops 0 "[]"] that r by auto
  show "map_option entries (bp_run ops no_bps) = Some (fold bp_list ops [])" if "list_all granted ops"
    using bp_run_refines [OF no_bps_ok(1) that] by (auto simp: no_bps_ok(2))
  fix b
  assume b: "bp_run ops no_bps = Some b"
  then show ok: "bps_ok b" using bp.run_keeps [OF no_bps_ok(1)] by (simp add: bp_run_def)
  have "run_ops bp_apply ops (0, []) = Some (bpListSize b, entries b)" using r b by (simp add: bp_abs_def)
  from apply_bounds [OF _ _ this, of 0] have "nofBps b \<le> length ops" "bpListSize b \<le> max 10 (2 * length ops)"
    by (simp_all add: length_entries [OF ok])
  then show "bpListSize b < 2 ^ 31" "nofBps b < 2 ^ 31" if "length ops < 2 ^ 30" using that by auto
qed

text \<open>Three settings, the memory for the third refused.\<close>

theorem breakpoints_refine_witness:
  "(\<exists>b. bp_run [SetOp 0x0300 (Some ''main'') True True, RmvOp 0x0200, SetOp 0x0400 None False False] no_bps = Some b \<and>
     length (entries b) = 2 \<and> bpListSize b < 2 ^ 31) \<and>
   bp_run [SetOp 0x0300 (Some ''main'') True False] no_bps = None"
proof
  let ?o = "[SetOp 0x0300 (Some ''main'') True True, RmvOp 0x0200, SetOp 0x0400 None False False]"
  obtain b where b: "bp_run ?o no_bps = Some b" using breakpoints_refine [of ?o] by auto
  have "bp_abs b = (10, [\<lparr>address = 0x0300, symbol = Some ''main''\<rparr>, \<lparr>address = 0x0400, symbol = None\<rparr>])"
    using breakpoints_refine [of ?o] b by simp
  then show "\<exists>b. bp_run ?o no_bps = Some b \<and> length (entries b) = 2 \<and> bpListSize b < 2 ^ 31"
    using b by (intro exI [of _ b]) (simp add: bp_abs_def)
  show "bp_run [SetOp 0x0300 (Some ''main'') True False] no_bps = None"
    using breakpoints_refine [of "[SetOp 0x0300 (Some ''main'') True False]"] by auto
qed

text \<open>
  Removal. \<open>dbgRmvBp\<close> returns true exactly if execution would have stopped at the address,
  it no longer stops there afterwards, and it stops at every other address as before.
\<close>

theorem breakpoint_removed:
  assumes "bps_ok b"
  shows "\<exists>r b'. dbgRmvBp a b = Some (r, b') \<and> (r \<longleftrightarrow> dbgCheckIfAtBp a 0 b \<noteq> Some None) \<and>
    dbgCheckIfAtBp a 0 b' = Some None \<and>
    (\<forall>pc. pc \<noteq> a \<longrightarrow> (dbgCheckIfAtBp pc 0 b' = Some None \<longleftrightarrow> dbgCheckIfAtBp pc 0 b = Some None))"
proof -
  obtain r b' where r: "dbgRmvBp a b = Some (r, b')" using bl.rmv_law [OF assms, of a] by auto
  show ?thesis using bl.at_after_rmv [OF assms r] bl.rmv_other [OF assms r] r by blast
qed

definition demo_bps :: bps where
  "demo_bps = the (bp_run [SetOp 0x0300 (Some ''main'') True True, SetOp 0x0400 None True True, SetOp 0x0300 None True True] no_bps)"

lemma demo_bps_ok: "bps_ok demo_bps"
proof -
  have "list_all granted [SetOp 0x0300 (Some ''main'') True True, SetOp 0x0400 None True True, SetOp 0x0300 None True True]" by simp
  from bp_run_refines [OF no_bps_ok(1) this] show ?thesis unfolding demo_bps_def by auto
qed

theorem breakpoint_removed_witness:
  "\<exists>b'. dbgRmvBp 0x0300 demo_bps = Some (True, b') \<and> dbgCheckIfAtBp 0x0300 0 b' = Some None"
proof -
  note ok = demo_bps_ok
  have "dbgCheckIfAtBp 0x0300 0 demo_bps = Some (Some 0)" by code_simp
  then show ?thesis using breakpoint_removed [OF ok, of "0x0300"] by auto
qed

text \<open>
  C39: what \<open>dbgCheckIfAtBp(pc, n)\<close> looks for. If \<open>pc + n\<close> does not pass \<open>$FFFF\<close> it is the first
  entry with an address from \<open>pc\<close> to \<open>pc + n\<close>, the upper end included: called with an
  instruction's length, as \<open>dbgShouldStop\<close> does when stepping, it also reports a breakpoint on
  the instruction after it. If \<open>pc + n\<close> wraps, no entry is ever found, not even one at \<open>pc\<close>.
\<close>

theorem check_range:
  assumes "bps_ok b" "n < 65536"
  shows "dbgCheckIfAtBp pc n b =
    Some (if unat pc + n < 65536
          then first_at (\<lambda>e. unat pc \<le> unat (address e) \<and> unat (address e) \<le> unat pc + n) (entries b)
          else None)"
proof -
  have u: "unat (pc + word_of_nat n) = (unat pc + n) mod 65536"
    using assms(2) by (simp add: unat_word_ariths unat_of_nat)
  show ?thesis
  proof (cases "unat pc + n < 65536")
    case True
    then show ?thesis using u by (simp add: bl.at_law [OF assms(1)] word_le_nat_alt)
  next
    case False
    then have "(unat pc + n) mod 65536 = unat pc + n - 65536"
      using unat_u16_lt [of pc] assms(2) by (simp add: le_mod_geq)
    then have "(unat pc + n) mod 65536 < unat pc" using False assms(2) by linarith
    then have "\<not> (pc \<le> x \<and> x \<le> pc + word_of_nat n)" for x
      using u by (simp add: word_le_nat_alt)
    then have "first_at (\<lambda>e. pc \<le> address e \<and> address e \<le> pc + word_of_nat n) (entries b) = None"
      by (auto simp: first_at_None)
    then show ?thesis using False by (simp add: bl.at_law [OF assms(1)])
  qed
qed

theorem check_range_witness:
  "dbgCheckIfAtBp 0x02FE 2 demo_bps = Some (Some 0) \<and> (0x02FE :: u16) + 2 = 0x0300"
proof -
  note ok = demo_bps_ok
  have "first_at (\<lambda>e. unat (0x02FE :: u16) \<le> unat (address e) \<and> unat (address e) \<le> unat (0x02FE :: u16) + 2) (entries demo_bps) = Some 0"
    by code_simp
  then show ?thesis using check_range [OF ok, of 2 "0x02FE"] by simp
qed

end
