(* ===== verification/Commands.thy ===== *)
theory Commands
  imports Clib
begin

text \<open>
  How the debugger reads a command line (\<^verbatim>\<open>rtl/dbg/debugger.c\<close>): \<open>dbgGetCmdTokens\<close>,
  \<open>dbgParseCommand\<close>, \<open>dbgStrToInt\<close> and \<open>dbg_strStartsWith\<close>.
\<close>

section \<open>The code\<close>

fun tok_loop :: "nat \<Rightarrow> string \<Rightarrow> string list" where
  "tok_loop 0 s = []"
| "tok_loop (Suc n) s = (case strtok s of None \<Rightarrow> [] | Some (t, s') \<Rightarrow> t # tok_loop n s')"

definition dbgGetCmdTokens :: "string \<Rightarrow> nat \<Rightarrow> string list" where
  "dbgGetCmdTokens cmdString tokenArraySize = (if tokenArraySize = 0 then [] else tok_loop (tokenArraySize - 1) cmdString)"

datatype command_t =
  CMD_INVALIDCMD | CMD_REMOVEBP | CMD_BREAKPOINT | CMD_CONTINUE | CMD_DISASSEMBLE | CMD_HELP
| CMD_LISTBREAKPOINTS | CMD_MEMORY | CMD_REGISTERS | CMD_STEP | CMD_QUIT | CMD_LOADSRC
| CMD_LOADSYMS | CMD_RESET

definition dbgParseCommand :: "string \<Rightarrow> command_t" where
  "dbgParseCommand cmd =
     (if cmd = ''b'' then CMD_BREAKPOINT
      else if cmd = ''bp'' then CMD_BREAKPOINT
      else if cmd = ''break'' then CMD_BREAKPOINT
      else if cmd = ''breakpoint'' then CMD_BREAKPOINT
      else if cmd = ''c'' then CMD_CONTINUE
      else if cmd = ''cont'' then CMD_CONTINUE
      else if cmd = ''continue'' then CMD_CONTINUE
      else if cmd = ''d'' then CMD_DISASSEMBLE
      else if cmd = ''dis'' then CMD_DISASSEMBLE
      else if cmd = ''disas'' then CMD_DISASSEMBLE
      else if cmd = ''disassemble'' then CMD_DISASSEMBLE
      else if cmd = ''h'' then CMD_HELP
      else if cmd = ''help'' then CMD_HELP
      else if cmd = ''l'' then CMD_LISTBREAKPOINTS
      else if cmd = ''ls'' then CMD_LISTBREAKPOINTS
      else if cmd = ''list'' then CMD_LISTBREAKPOINTS
      else if cmd = ''lbp'' then CMD_LISTBREAKPOINTS
      else if cmd = ''listbp'' then CMD_LISTBREAKPOINTS
      else if cmd = ''ld'' then CMD_LOADSRC
      else if cmd = ''lds'' then CMD_LOADSRC
      else if cmd = ''load'' then CMD_LOADSRC
      else if cmd = ''ldsrc'' then CMD_LOADSRC
      else if cmd = ''m'' then CMD_MEMORY
      else if cmd = ''mem'' then CMD_MEMORY
      else if cmd = ''memory'' then CMD_MEMORY
      else if cmd = ''r'' then CMD_REGISTERS
      else if cmd = ''reg'' then CMD_REGISTERS
      else if cmd = ''regis'' then CMD_REGISTERS
      else if cmd = ''register'' then CMD_REGISTERS
      else if cmd = ''registers'' then CMD_REGISTERS
      else if cmd = ''rb'' then CMD_REMOVEBP
      else if cmd = ''rbp'' then CMD_REMOVEBP
      else if cmd = ''rmb'' then CMD_REMOVEBP
      else if cmd = ''rmbp'' then CMD_REMOVEBP
      else if cmd = ''remb'' then CMD_REMOVEBP
      else if cmd = ''rembp'' then CMD_REMOVEBP
      else if cmd = ''remove'' then CMD_REMOVEBP
      else if cmd = ''removebp'' then CMD_REMOVEBP
      else if cmd = ''reset'' then CMD_RESET
      else if cmd = ''rst'' then CMD_RESET
      else if cmd = ''s'' then CMD_STEP
      else if cmd = ''step'' then CMD_STEP
      else if cmd = ''q'' then CMD_QUIT
      else if cmd = ''quit'' then CMD_QUIT
      else if cmd = ''exit'' then CMD_QUIT
      else CMD_INVALIDCMD)"

definition INT_MAX :: int where "INT_MAX = 2 ^ 31 - 1"
definition INT_MIN :: int where "INT_MIN = - (2 ^ 31)"

definition dbgStrToInt :: "string \<Rightarrow> int option" where
  "dbgStrToInt s = (case strtol 10 s of
      None \<Rightarrow> None
    | Some (val, erange, rest) \<Rightarrow>
        if erange \<or> val > INT_MAX \<or> val < INT_MIN then None else if rest \<noteq> [] then None else Some val)"

fun sw_loop :: "nat \<Rightarrow> nat \<Rightarrow> string \<Rightarrow> string \<Rightarrow> bool" where
  "sw_loop i 0 s1 s2 = True"
| "sw_loop i (Suc n) s1 s2 = (if s1 ! i \<noteq> s2 ! i then False else sw_loop (i + 1) n s1 s2)"

definition dbg_strStartsWith :: "string \<Rightarrow> string \<Rightarrow> bool" where
  "dbg_strStartsWith s1 s2 = (if length s1 > length s2 then False else sw_loop 0 (length s1) s1 s2)"

section \<open>Tokens\<close>

lemma sw_loop_iff: "i + n \<le> length s1 \<Longrightarrow> i + n \<le> length s2 \<Longrightarrow>
    sw_loop i n s1 s2 \<longleftrightarrow> take n (drop i s1) = take n (drop i s2)"
proof (induction i n s1 s2 rule: sw_loop.induct)
  case (2 i n s1 s2)
  then have "drop i s1 = s1 ! i # drop (Suc i) s1" "drop i s2 = s2 ! i # drop (Suc i) s2"
    by (simp_all add: Cons_nth_drop_Suc)
  then show ?case using 2 by simp
qed simp

lemma starts_with_iff: "dbg_strStartsWith s1 s2 \<longleftrightarrow> take (length s1) s2 = s1"
  using sw_loop_iff [of 0 "length s1" s1 s2] by (auto simp: dbg_strStartsWith_def)

definition token :: "string \<Rightarrow> bool" where
  "token w \<longleftrightarrow> w \<noteq> [] \<and> (\<forall>c \<in> set w. \<not> is_delim c)"

definition gap :: "string \<Rightarrow> bool" where
  "gap g \<longleftrightarrow> (\<forall>c \<in> set g. is_delim c)"

text \<open>A line: words, each after a gap, and a last gap.\<close>

fun layout :: "(string \<times> string) list \<Rightarrow> string \<Rightarrow> string" where
  "layout [] z = z"
| "layout ((g, w) # gws) z = g @ w @ layout gws z"

fun spaced :: "(string \<times> string) list \<Rightarrow> bool" where
  "spaced [] = True"
| "spaced ((g, w) # gws) = (gap g \<and> token w \<and> (case gws of [] \<Rightarrow> True | (h, v) # _ \<Rightarrow> h \<noteq> []) \<and> spaced gws)"

lemma strtok_gap: "gap g \<Longrightarrow> strtok (g @ s) = strtok s"
  by (simp add: strtok_def gap_def dropWhile_append2)

lemma strtok_gap_only: "gap g \<Longrightarrow> strtok g = None"
  using strtok_gap [of g "[]"] by (simp add: strtok_def)

lemma strtok_token:
  assumes "token w" "s = [] \<or> is_delim (hd s)"
  shows "strtok (w @ s) = Some (w, drop 1 s)"
proof -
  obtain c cs where w: "w = c # cs" "\<not> is_delim c" using assms(1) by (cases w) (auto simp: token_def)
  have n: "\<forall>c \<in> set w. \<not> is_delim c" using assms(1) by (simp add: token_def)
  have s: "takeWhile (\<lambda>c. \<not> is_delim c) s = []" "dropWhile (\<lambda>c. \<not> is_delim c) s = s"
    using assms(2) by (cases s; auto)+
  have "dropWhile is_delim (w @ s) = w @ s" by (simp add: w)
  then show ?thesis using n s by (simp add: strtok_def w takeWhile_append2 dropWhile_append2)
qed

lemma gap_tl: "gap g \<Longrightarrow> gap (drop 1 g)"
  by (cases g) (auto simp: gap_def)

lemma tok_loop_layout:
  assumes "spaced gws" "gap z"
  shows "tok_loop n (layout gws z) = take n (map snd gws)"
  using assms
proof (induction n arbitrary: gws z)
  case (Suc n)
  show ?case
  proof (cases gws)
    case Nil
    then show ?thesis using strtok_gap_only [OF Suc.prems(2)] by simp
  next
    case (Cons gw rest)
    obtain g w where gw: "gw = (g, w)" by fastforce
    have ok: "gap g" "token w" "spaced rest" using Suc.prems Cons gw by simp_all
    have r: "\<exists>rest' z'. drop 1 (layout rest z) = layout rest' z' \<and> spaced rest' \<and> gap z' \<and> map snd rest' = map snd rest \<and>
        (layout rest z = [] \<or> is_delim (hd (layout rest z)))"
    proof (cases rest)
      case Nil
      then show ?thesis using Suc.prems(2) gap_tl [OF Suc.prems(2)]
        by (intro exI [of _ "[]"] exI [of _ "drop 1 z"]) (cases z; auto simp: gap_def)
    next
      case (Cons hv r)
      obtain c h v where hv: "hv = (c # h, v)"
        using Suc.prems \<open>gws = _\<close> gw Cons by (cases hv; cases "fst hv") auto
      then show ?thesis using Suc.prems(2) ok(3) Cons
        by (intro exI [of _ "(h, v) # r"] exI [of _ z]) (auto simp: gap_def)
    qed
    then obtain rest' z' where r: "drop 1 (layout rest z) = layout rest' z'" "spaced rest'" "gap z'"
        "map snd rest' = map snd rest" "layout rest z = [] \<or> is_delim (hd (layout rest z))" by blast
    have "strtok (layout gws z) = Some (w, drop 1 (layout rest z))"
      using strtok_token [OF ok(2) r(5)] strtok_gap [OF ok(1)] gw Cons by simp
    then show ?thesis using Suc.IH [OF r(2,3)] r(1,4) gw Cons by simp
  qed
qed simp

lemma strtok_Some:
  assumes "strtok s = Some (w, s')"
  shows "token w"
proof -
  obtain c cs where c: "dropWhile is_delim s = c # cs" using assms by (auto simp: strtok_def split: list.splits)
  then have "\<not> is_delim c" by (metis dropWhile_eq_Cons_conv)
  moreover have "w = takeWhile (\<lambda>c. \<not> is_delim c) (c # cs)" using assms c by (simp add: strtok_def)
  ultimately show ?thesis by (auto simp: token_def dest: set_takeWhileD)
qed

lemma tok_loop_tokens: "list_all token (tok_loop n s) \<and> length (tok_loop n s) \<le> n"
  by (induction n s rule: tok_loop.induct) (auto dest: strtok_Some split: option.splits)

section \<open>Numbers\<close>

lemma digit_props:
  assumes "k < 10"
  shows "isdigit (''0123456789'' ! k)" "\<not> isspace (''0123456789'' ! k)" "''0123456789'' ! k \<noteq> CHR ''-''" "''0123456789'' ! k \<noteq> CHR ''+''"
proof -
  have "list_all (\<lambda>c. isdigit c \<and> \<not> isspace c \<and> c \<noteq> CHR ''-'' \<and> c \<noteq> CHR ''+'') ''0123456789''" by code_simp
  then have "\<forall>c \<in> set ''0123456789''. isdigit c \<and> \<not> isspace c \<and> c \<noteq> CHR ''-'' \<and> c \<noteq> CHR ''+''"
    unfolding list_all_iff .
  moreover have "''0123456789'' ! k \<in> set ''0123456789''" using assms by (intro nth_mem) simp
  ultimately show "isdigit (''0123456789'' ! k)" "\<not> isspace (''0123456789'' ! k)" "''0123456789'' ! k \<noteq> CHR ''-''"
    "''0123456789'' ! k \<noteq> CHR ''+''" by blast+
qed

lemma decimal:
  fixes n :: nat
  defines "s \<equiv> digits ''0123456789'' 10 n"
  shows "starts (is_digit 10) s" "dropWhile isspace s = s" "sign s = (False, s)" "scan 10 0 s = (n, [])"
proof -
  have a: "starts P s" if "\<And>k. k < 10 \<Longrightarrow> P (''0123456789'' ! k)" for P
    unfolding s_def by (rule starts_digits) (use that in simp_all)
  show "starts (is_digit 10) s" by (rule a) (simp add: is_digit_def digit_alphabets)
  show "dropWhile isspace s = s" by (rule dropWhile_starts, rule a) (simp add: digit_props)
  have "starts (\<lambda>c. c \<noteq> CHR ''-'' \<and> c \<noteq> CHR ''+'') s" by (rule a) (simp add: digit_props)
  then show "sign s = (False, s)" by (auto simp: sign_def dest: starts_not)
  show "scan 10 0 s = (n, [])"
    using scan_digits [of 10 "''0123456789''" 0 n "[]"] by (simp add: s_def digit_alphabets)
qed

lemma c_number_fmt_d:
  "c_number 10 (fmt_d i) = Some (i < 0, nat \<bar>i\<bar>, [])"
proof -
  note d = decimal [of "nat \<bar>i\<bar>"]
  have "sign (dropWhile isspace (fmt_d i)) = (i < 0, digits ''0123456789'' 10 (nat \<bar>i\<bar>))"
    using d(2,3) by (auto simp: fmt_d_def sign_def starts_def isspace_def ccode_def)
  then show ?thesis using d(1,4) by (simp add: c_number_def radix_def)
qed

lemma str_to_int_fmt:
  "dbgStrToInt (fmt_d i) = (if INT_MIN \<le> i \<and> i \<le> INT_MAX then Some i else None)"
proof -
  have "strtol 10 (fmt_d i) = Some (if i < 0 then (if nat \<bar>i\<bar> \<le> 2 ^ 63 then (i, False, []) else (- (2 ^ 63), True, []))
      else if nat \<bar>i\<bar> < 2 ^ 63 then (i, False, []) else (2 ^ 63 - 1, True, []))"
    by (cases "i < 0") (simp_all add: strtol_def c_number_fmt_d)
  then show ?thesis by (cases "i < 0") (auto simp: dbgStrToInt_def INT_MIN_def INT_MAX_def nat_less_iff nat_le_iff)
qed

section \<open>Properties\<close>

text \<open>
  A command line of words separated by blanks, tabs and newlines, whatever the gaps, is split
  into exactly its words, of which the first nine are kept.
\<close>

theorem command_tokens:
  assumes "spaced gws" "gap z"
  shows "dbgGetCmdTokens (layout gws z) 10 = take 9 (map snd gws)"
  using tok_loop_layout [OF assms, of 9] by (simp add: dbgGetCmdTokens_def)

theorem command_tokens_witness:
  "dbgGetCmdTokens ''  m  0x10 0x20 '' 10 = [''m'', ''0x10'', ''0x20'']"
  using command_tokens [of "[(''  '', ''m''), (''  '', ''0x10''), ('' '', ''0x20'')]" "'' ''"]
  by (simp add: gap_def token_def is_delim_def)

text \<open>
  \<open>dbgStrToInt\<close> reads back every number \<open>printf("%d")\<close> writes that fits an \<open>int\<close>, and rejects
  every one that does not, also those outside \<open>long\<close> that \<open>strtol\<close> saturates.
\<close>

theorem str_to_int:
  "dbgStrToInt (fmt_d i) = (if INT_MIN \<le> i \<and> i \<le> INT_MAX then Some i else None)"
  by (rule str_to_int_fmt)

end
