(* ===== verification/Symbols.thy ===== *)
theory Symbols
  imports Clib "HOL-Library.Sublist"
begin

text \<open>
  The debug symbol loader (\<open>dbgReadDbgSyms\<close> and \<open>dbg_strIsAllCaps\<close> of \<^verbatim>\<open>rtl/dbg/debugger.c\<close>): it
  reads an ld65 \<^verbatim>\<open>--dbgfile\<close> line by line, takes name and value of every code label, and appends
  them to a table that doubles when it is full. The file is the string of its characters (or
  \<open>None\<close> when it cannot be opened). What the allocations of one call return is the argument \<open>ok\<close>, a function of
  the capacity asked for: 64 for the first, and no capacity is asked for twice.
\<close>

section \<open>The code\<close>

record symtab =
  dbgSymbols :: "(string \<times> u16) list"  \<comment> \<open>the first \<open>dbgNofSyms\<close> entries\<close>
  symCapacity :: nat  \<comment> \<open>0 while \<open>dbgSymbols\<close> is \<open>NULL\<close>\<close>

definition no_syms :: symtab where
  "no_syms = \<lparr>dbgSymbols = [], symCapacity = 0\<rparr>"

definition is_nl :: "char \<Rightarrow> bool" where
  "is_nl c \<longleftrightarrow> c = CHR 0x0A"

text \<open>One \<open>fgets(line, 512, f)\<close>: the line as a C string and the rest of the file.\<close>

definition fgets :: "nat \<Rightarrow> string \<Rightarrow> string \<times> string" where
  "fgets n s =
     (let l = takeWhile (\<lambda>c. \<not> is_nl c) s;
          k = min (n - 1) (if length l < length s then length l + 1 else length l) in
      (takeWhile (\<lambda>c. c \<noteq> CHR 0x00) (take k s), drop k s))"

lemma fgets_shorter:
  assumes "fgets 512 f = (line, f')" "f \<noteq> []"
  shows "length f' < length f"
proof -
  have "length (takeWhile (\<lambda>c. \<not> is_nl c) f) < length f \<or> takeWhile (\<lambda>c. \<not> is_nl c) f \<noteq> []"
    using assms(2) by (cases f) auto
  then show ?thesis using assms by (auto simp: fgets_def Let_def)
qed

fun caps_loop :: "string \<Rightarrow> bool" where
  "caps_loop [] = True"
| "caps_loop (c # cs) =
     (if isdigit c then caps_loop cs
      else if isalpha c \<and> \<not> isupper c then False else caps_loop cs)"

definition dbg_strIsAllCaps :: "string \<Rightarrow> bool" where
  "dbg_strIsAllCaps s = caps_loop s"

definition scanf_x :: "string \<Rightarrow> u32 option" where  \<comment> \<open>\<open>%x\<close> into an \<open>unsigned int\<close>\<close>
  "scanf_x s =
     (let t = snd (sign (dropWhile isspace s)) in
      if has_0x t \<and> \<not> starts (is_digit 16) (drop 2 t) then None
      else map_option (\<lambda>(v, _). ucast v) (strtoul 16 s))"

definition sym_head :: "string \<Rightarrow> bool" where
  "sym_head line \<longleftrightarrow> take 3 line = ''sym'' \<and> starts (\<lambda>c. c = CHR 0x09 \<or> c = CHR '' '') (drop 3 line)"

definition sym_name :: "string \<Rightarrow> string option" where
  "sym_name line = (case strstr line (''name='' @ [CHR 0x22]) of
      None \<Rightarrow> None
    | Some p \<Rightarrow> (case take 31 (takeWhile (\<lambda>c. c \<noteq> CHR 0x22) (drop 6 p)) of [] \<Rightarrow> None | c # cs \<Rightarrow> Some (c # cs)))"

definition sym_val :: "string \<Rightarrow> u32 option" where
  "sym_val line = (case strstr line ''val=0x'' of None \<Rightarrow> None | Some p \<Rightarrow> scanf_x (drop 6 p))"

definition parse_line :: "string \<Rightarrow> (string \<times> u16) option" where
  "parse_line line =
     (if \<not> sym_head line \<or> strstr line ''type=lab'' = None then None
      else case sym_name line of
        None \<Rightarrow> None
      | Some name \<Rightarrow> (case sym_val line of
            None \<Rightarrow> None
          | Some addr \<Rightarrow> if dbg_strIsAllCaps name then None else Some (name, ucast addr)))"

text \<open>
  \<open>dbgSymCapacity * 2\<close> is an \<open>int\<close>; past \<open>INT_MAX\<close> the size it becomes is one that no allocation grants.
\<close>

definition append_sym :: "(nat \<Rightarrow> bool) \<Rightarrow> string \<times> u16 \<Rightarrow> symtab \<Rightarrow> symtab option" where
  "append_sym ok e t =
     (if length (dbgSymbols t) \<ge> symCapacity t
      then let c = symCapacity t * 2 in
        if c < 2 ^ 31 \<and> ok c then Some (t\<lparr>symCapacity := c, dbgSymbols := dbgSymbols t @ [e]\<rparr>) else None
      else Some (t\<lparr>dbgSymbols := dbgSymbols t @ [e]\<rparr>))"

function read_loop :: "(nat \<Rightarrow> bool) \<Rightarrow> string \<Rightarrow> symtab \<Rightarrow> symtab" where
  "read_loop ok f t =
     (if f = [] then t
      else case fgets 512 f of (line, f') \<Rightarrow>
        (case parse_line line of
           None \<Rightarrow> read_loop ok f' t
         | Some e \<Rightarrow> (case append_sym ok e t of None \<Rightarrow> t | Some t \<Rightarrow> read_loop ok f' t)))"
  by pat_completeness auto
termination
  by (relation "measure (\<lambda>(ok, f, t). length f)") (auto dest!: fgets_shorter dest: sym)

declare read_loop.simps [simp del]

definition dbgReadDbgSyms :: "(nat \<Rightarrow> bool) \<Rightarrow> string option \<Rightarrow> symtab \<Rightarrow> symtab" where
  "dbgReadDbgSyms ok file t =
     (case file of
        None \<Rightarrow> t
      | Some f \<Rightarrow>
          if symCapacity t = 0 then (if ok 64 then read_loop ok f (t\<lparr>symCapacity := 64\<rparr>) else t)
          else read_loop ok f t)"


section \<open>Searching a line\<close>

text \<open>A line of fields \<open>key=value\<close>, separated by commas, and the search for \<open>key=w\<close> in it.\<close>

lemma prefix_take: "take (length n) s = n \<longleftrightarrow> prefix n s"
  by (metis append_eq_conv_conj append_take_drop_id prefix_def)

lemma strstr_nil: "n \<noteq> [] \<Longrightarrow> strstr [] n = None"
  by (subst strstr.simps) simp

lemma strstr_cons: "strstr (c # s) n = (if prefix n (c # s) then Some (c # s) else strstr s n)"
  by (subst strstr.simps) (simp add: prefix_take)

lemma prefix_at_eq:
  assumes "c \<notin> set key" "c \<notin> set x"
  shows "prefix (key @ c # w) (x @ c # v) \<longleftrightarrow> key = x \<and> prefix w v"
  using assms
proof (induction key arbitrary: x)
  case Nil
  then show ?case by (cases x) auto
next
  case (Cons a key)
  then show ?case by (cases x) auto
qed

lemma suffix_cons: "suffix key (c # u) \<longleftrightarrow> key = c # u \<or> suffix key u"
  by (metis suffix_Cons)

lemma strstr_eq:
  assumes "CHR ''='' \<notin> set key" "key \<noteq> []" "CHR ''='' \<notin> set u"
  shows "strstr (u @ CHR ''='' # v) (key @ CHR ''='' # w) =
    (if suffix key u \<and> prefix w v then Some (key @ CHR ''='' # v) else strstr v (key @ CHR ''='' # w))"
  using assms(3)
proof (induction u)
  case Nil
  have "\<not> prefix (key @ CHR ''='' # w) (CHR ''='' # v)" using assms(1,2) by (cases key) auto
  then show ?case using assms(2) by (simp add: strstr_cons)
next
  case (Cons c u)
  have p: "prefix (key @ CHR ''='' # w) (c # u @ CHR ''='' # v) \<longleftrightarrow> key = c # u \<and> prefix w v"
    using prefix_at_eq [OF assms(1) Cons.prems, of w v] by simp
  have "key = c # u \<Longrightarrow> \<not> suffix key u" using suffix_length_le by fastforce
  then show ?case using Cons p by (auto simp: strstr_cons suffix_cons)
qed

lemma strstr_no_eq: "c \<notin> set u \<Longrightarrow> c \<in> set n \<Longrightarrow> strstr u n = None"
proof (induction u)
  case Nil
  then show ?case by (auto intro: strstr_nil)
next
  case (Cons a u)
  then have "\<not> prefix n (a # u)" using set_mono_prefix by fastforce
  then show ?case using Cons by (simp add: strstr_cons)
qed

fun fields_text :: "(string \<times> string) list \<Rightarrow> string" where
  "fields_text [] = []"
| "fields_text ((k, v) # fs) = k @ CHR ''='' # v @ (if fs = [] then [] else CHR '','' # fields_text fs)"

definition good_field :: "string \<times> string \<Rightarrow> bool" where
  "good_field f \<longleftrightarrow> CHR ''='' \<notin> set (fst f) \<and> CHR '','' \<notin> set (fst f) \<and> CHR ''='' \<notin> set (snd f)"

text \<open>What a search finds: the first field with that key and that start of its value, and the rest of the line.\<close>

fun find_field :: "string \<Rightarrow> string \<Rightarrow> (string \<times> string) list \<Rightarrow> string \<Rightarrow> string option" where
  "find_field key w [] z = None"
| "find_field key w ((k, v) # fs) z =
     (if suffix key k \<and> prefix w v then Some (key @ CHR ''='' # v @ (if fs = [] then z else CHR '','' # fields_text fs @ z))
      else find_field key w fs z)"

lemma suffix_sep:
  assumes "c \<notin> set key"
  shows "suffix key (a @ c # k) \<longleftrightarrow> suffix key k"
proof -
  have "suffix key ((a @ [c]) @ k) \<longleftrightarrow> suffix key k \<or> (\<exists>x. key = x @ k \<and> (x = [] \<or> (\<exists>z. x = z @ [c] \<and> suffix z a)))"
    using suffix_append [of key "a @ [c]" k] suffix_snoc [of _ a c] by auto
  then show ?thesis using assms by auto
qed

lemma strstr_fields:
  assumes "CHR ''='' \<notin> set key" "CHR '','' \<notin> set key" "CHR 0x09 \<notin> set key" "key \<noteq> []" "CHR '','' \<notin> set w" "CHR 0x0A \<notin> set w" "list_all good_field fs"
    "z = [] \<or> z = [CHR 0x0A]" "CHR ''='' \<notin> set u" "c = CHR '','' \<or> c = CHR 0x09"
  shows "strstr (u @ c # fields_text fs @ z) (key @ CHR ''='' # w) = find_field key w fs z"
  using assms(7,9,10)
proof (induction fs arbitrary: u c)
  case Nil
  then show ?case using strstr_no_eq [of "CHR ''=''" "u @ c # z" "key @ CHR ''='' # w"] assms(8) by auto
next
  case (Cons f fs)
  obtain k v where f: "f = (k, v)" by (cases f)
  have g: "CHR ''='' \<notin> set k" "CHR ''='' \<notin> set v" "list_all good_field fs" using Cons.prems(1) by (simp_all add: f) (simp_all add: good_field_def)
  let ?r = "if fs = [] then z else CHR '','' # fields_text fs @ z"
  have "prefix w (v @ d # x) \<longleftrightarrow> prefix w v" if "d \<notin> set w" for d x
    using that by (induction w arbitrary: v) (case_tac v; auto)+
  then have w: "prefix w (v @ ?r) \<longleftrightarrow> prefix w v" using assms(5,6,8) by auto
  have s: "suffix key (u @ c # k) \<longleftrightarrow> suffix key k" using suffix_sep [of c key u k] assms(2,3) Cons.prems(3) by blast
  have "strstr ((u @ c # k) @ CHR ''='' # (v @ ?r)) (key @ CHR ''='' # w) =
      (if suffix key k \<and> prefix w v then Some (key @ CHR ''='' # v @ ?r) else strstr (v @ ?r) (key @ CHR ''='' # w))"
    using strstr_eq [OF assms(1,4), of "u @ c # k" "v @ ?r" w] Cons.prems(2,3) g(1) s w by auto
  moreover have "strstr (v @ ?r) (key @ CHR ''='' # w) = find_field key w fs z"
  proof (cases "fs = []")
    case True
    then show ?thesis using strstr_no_eq [of "CHR ''=''" "v @ z" "key @ CHR ''='' # w"] g(2) assms(8) by auto
  next
    case False
    then show ?thesis using Cons.IH [OF g(3,2), of "CHR '',''"] by simp
  qed
  moreover have "u @ c # fields_text (f # fs) @ z = (u @ c # k) @ CHR ''='' # (v @ ?r)" by (simp add: f)
  ultimately show ?case by (simp add: f)
qed

section \<open>The table\<close>

lemma caps_loop_iff: "caps_loop s \<longleftrightarrow> (\<forall>c \<in> set s. \<not> islower c)"
  by (induction s) (auto simp: isalpha_def isdigit_def isupper_def islower_def)

definition sym_ok :: "string \<times> u16 \<Rightarrow> bool" where
  "sym_ok e \<longleftrightarrow> 1 \<le> length (fst e) \<and> length (fst e) \<le> 31 \<and> CHR 0x22 \<notin> set (fst e) \<and> (\<exists>c \<in> set (fst e). islower c)"

definition symtab_ok :: "symtab \<Rightarrow> bool" where
  "symtab_ok t \<longleftrightarrow> list_all sym_ok (dbgSymbols t) \<and> length (dbgSymbols t) \<le> symCapacity t \<and> symCapacity t < 2 ^ 31 \<and>
     (symCapacity t = 0 \<or> (\<exists>k. symCapacity t = 64 * 2 ^ k))"

lemma sym_name_ok:
  assumes "sym_name line = Some n"
  shows "1 \<le> length n \<and> length n \<le> 31 \<and> CHR 0x22 \<notin> set n"
proof -
  obtain p where p: "n = take 31 (takeWhile (\<lambda>c. c \<noteq> CHR 0x22) p)"
    using assms that by (cases "strstr line (''name='' @ [CHR 0x22])") (auto simp: sym_name_def split: list.splits)
  have "n \<noteq> []" using assms by (auto simp: sym_name_def split: option.splits list.splits)
  then have "1 \<le> length n" by (simp add: Suc_le_eq)
  with p show ?thesis by (auto dest: in_set_takeD set_takeWhileD)
qed

lemma parse_line_ok: "parse_line line = Some e \<Longrightarrow> sym_ok e"
  using sym_name_ok by (auto simp: parse_line_def sym_ok_def dbg_strIsAllCaps_def caps_loop_iff split: if_splits option.splits)

lemma append_sym_ok:
  assumes "symtab_ok t" "sym_ok e" "0 < symCapacity t" "append_sym ok e t = Some t'"
  shows "symtab_ok t' \<and> 0 < symCapacity t' \<and> dbgSymbols t' = dbgSymbols t @ [e]"
proof -
  have "\<exists>j. 64 * 2 ^ k * 2 = 64 * (2 :: nat) ^ j" for k by (rule exI [of _ "Suc k"]) simp
  then show ?thesis using assms by (auto simp: append_sym_def symtab_ok_def Let_def split: if_splits)
qed

text \<open>One round of the loop: the line adds nothing, adds an entry, or ends the load.\<close>

lemma read_loop_cases:
  assumes "f \<noteq> []" "fgets 512 f = (line, f')"
  obtains "parse_line line = None" "read_loop ok f t = read_loop ok f' t"
  | e where "parse_line line = Some e" "append_sym ok e t = None" "read_loop ok f t = t"
  | e t' where "parse_line line = Some e" "append_sym ok e t = Some t'" "read_loop ok f t = read_loop ok f' t'"
proof (cases "parse_line line")
  case None
  then show ?thesis using assms that(1) by (simp add: read_loop.simps [of ok f t])
next
  case (Some e)
  then show ?thesis using assms that(2,3)
    by (cases "append_sym ok e t") (simp_all add: read_loop.simps [of ok f t])
qed

lemma read_loop_nil [simp]: "read_loop ok [] t = t"
  by (simp add: read_loop.simps)

lemma read_loop_ok:
  assumes "symtab_ok t" "0 < symCapacity t"
  shows "symtab_ok (read_loop ok f t) \<and> 0 < symCapacity (read_loop ok f t) \<and>
    prefix (dbgSymbols t) (dbgSymbols (read_loop ok f t))"
  using assms
proof (induction "length f" arbitrary: f t rule: less_induct)
  case less
  show ?case
  proof (cases "f = []")
    case False
    obtain line f' where g: "fgets 512 f = (line, f')" by fastforce
    note IH = less.hyps [OF fgets_shorter [OF g False]]
    show ?thesis
    proof (cases rule: read_loop_cases [OF False g, of ok t])
      case 1
      then show ?thesis using IH [OF less.prems] by simp
    next
      case (2 e)
      then show ?thesis using less.prems by simp
    next
      case (3 e t')
      note a = append_sym_ok [OF less.prems(1) parse_line_ok [OF 3(1)] less.prems(2) 3(2)]
      have "prefix (dbgSymbols t) (dbgSymbols t')" using a by simp
      then show ?thesis using IH [of t'] a 3(3) by (auto dest: append_prefixD)
    qed
  qed (use less.prems in simp)
qed

lemma append_sym_granted: "append_sym ok e t = Some t' \<Longrightarrow> append_sym (\<lambda>_. True) e t = Some t'"
  by (auto simp: append_sym_def Let_def split: if_splits)

lemma read_loop_cut:
  assumes "symtab_ok t" "0 < symCapacity t"
  shows "prefix (dbgSymbols (read_loop ok f t)) (dbgSymbols (read_loop (\<lambda>_. True) f t))"
  using assms
proof (induction "length f" arbitrary: f t rule: less_induct)
  case less
  show ?case
  proof (cases "f = []")
    case False
    obtain line f' where g: "fgets 512 f = (line, f')" by fastforce
    note IH = less.hyps [OF fgets_shorter [OF g False]]
    show ?thesis
    proof (cases rule: read_loop_cases [OF False g, of ok t])
      case 1
      moreover have "read_loop (\<lambda>_. True) f t = read_loop (\<lambda>_. True) f' t"
        using False g 1(1) by (simp add: read_loop.simps [of "\<lambda>_. True" f t])
      ultimately show ?thesis using IH [OF less.prems] by simp
    next
      case (2 e)
      then show ?thesis using read_loop_ok [OF less.prems] by simp
    next
      case (3 e t')
      have "read_loop (\<lambda>_. True) f t = read_loop (\<lambda>_. True) f' t'"
        using False g 3(1) append_sym_granted [OF 3(2)] by (simp add: read_loop.simps [of "\<lambda>_. True" f t])
      then show ?thesis
        using IH [of t'] append_sym_ok [OF less.prems(1) parse_line_ok [OF 3(1)] less.prems(2) 3(2)] 3(3) by simp
    qed
  qed simp
qed

lemma first_capacity: "symtab_ok t \<Longrightarrow> symCapacity t = 0 \<Longrightarrow> symtab_ok (t\<lparr>symCapacity := 64\<rparr>)"
  by (auto simp: symtab_ok_def intro!: exI [of _ 0])

lemma read_syms_keeps:
  assumes "symtab_ok t"
  shows "symtab_ok (dbgReadDbgSyms ok file t) \<and> prefix (dbgSymbols t) (dbgSymbols (dbgReadDbgSyms ok file t)) \<and>
    prefix (dbgSymbols (dbgReadDbgSyms ok file t)) (dbgSymbols (dbgReadDbgSyms (\<lambda>_. True) file t))"
proof (cases "file")
  case (Some f)
  define s where "s = (if symCapacity t = 0 then t\<lparr>symCapacity := 64\<rparr> else t)"
  have s: "symtab_ok s" "0 < symCapacity s" "dbgSymbols s = dbgSymbols t"
    using assms first_capacity [OF assms] by (auto simp: s_def)
  have "dbgReadDbgSyms ok file t = (if symCapacity t = 0 \<and> \<not> ok 64 then t else read_loop ok f s)"
      "dbgReadDbgSyms (\<lambda>_. True) file t = read_loop (\<lambda>_. True) f s"
    by (auto simp: dbgReadDbgSyms_def s_def Some)
  then show ?thesis
    using read_loop_ok [OF s(1,2), of ok f] read_loop_ok [OF s(1,2), of "\<lambda>_. True" f] read_loop_cut [OF s(1,2), of ok f] s(3) assms
    by auto
qed (use assms in \<open>simp add: dbgReadDbgSyms_def\<close>)

lemma read_syms_ok: "symtab_ok t \<Longrightarrow> symtab_ok (dbgReadDbgSyms ok file t)"
  using read_syms_keeps by blast

section \<open>Symbol files\<close>

text \<open>
  The format the loader is written for, as its comment gives it:
  \<^verbatim>\<open>sym\tid=N,name="symname",...,val=0xXXXX,...,type=lab\<close>. A \<^verbatim>\<open>sym\<close> line is a list of fields in any
  number and order; the three the loader reads are a constructor each, and \<open>Field\<close> is any other
  (\<^verbatim>\<open>id\<close>, \<^verbatim>\<open>addrsize\<close>, \<^verbatim>\<open>size\<close>, \<^verbatim>\<open>scope\<close>, \<^verbatim>\<open>parent\<close>, \<^verbatim>\<open>def\<close>, \<^verbatim>\<open>ref\<close>, \<^verbatim>\<open>seg\<close>, \<^verbatim>\<open>exp\<close>, ...). Every other line
  of the file (\<^verbatim>\<open>file\<close>, \<^verbatim>\<open>seg\<close>, \<^verbatim>\<open>scope\<close>, \<^verbatim>\<open>line\<close>, ...) is \<open>Other\<close>.
\<close>

datatype sym_type = Lab | Equ | Imp

datatype sym_field = Name string | Val u32 | Type sym_type | Field string string

datatype dbg_line = Sym "sym_field list" | Other string

definition dec :: "nat \<Rightarrow> string" where "dec n = digits ''0123456789'' 10 n"
definition hex :: "nat \<Rightarrow> string" where "hex n = digits ''0123456789ABCDEF'' 16 n"

fun type_text :: "sym_type \<Rightarrow> string" where
  "type_text Lab = ''lab''"
| "type_text Equ = ''equ''"
| "type_text Imp = ''imp''"

fun field_text :: "sym_field \<Rightarrow> string \<times> string" where
  "field_text (Name n) = (''name'', CHR 0x22 # n @ [CHR 0x22])"
| "field_text (Val v) = (''val'', ''0x'' @ hex (unat v))"
| "field_text (Type y) = (''type'', type_text y)"
| "field_text (Field k v) = (k, v)"

fun line_text :: "dbg_line \<Rightarrow> string" where
  "line_text (Sym fs) = ''sym'' @ CHR 0x09 # fields_text (map field_text fs)"
| "line_text (Other l) = l"

definition file_text :: "dbg_line list \<Rightarrow> string" where
  "file_text ls = concat (map (\<lambda>l. line_text l @ [CHR 0x0A]) ls)"

definition printable :: "string \<Rightarrow> bool" where
  "printable s \<longleftrightarrow> (\<forall>c \<in> set s. 32 \<le> ccode c)"

fun field_ok :: "sym_field \<Rightarrow> bool" where
  "field_ok (Name n) \<longleftrightarrow> printable n \<and> CHR 0x22 \<notin> set n \<and> CHR ''='' \<notin> set n"
| "field_ok (Val v) \<longleftrightarrow> True"
| "field_ok (Type y) \<longleftrightarrow> True"
| "field_ok (Field k v) \<longleftrightarrow> printable k \<and> printable v \<and> CHR ''='' \<notin> set k \<and> CHR '','' \<notin> set k \<and> CHR ''='' \<notin> set v \<and>
     \<not> suffix ''name'' k \<and> \<not> suffix ''val'' k \<and> \<not> suffix ''type'' k"

fun line_ok :: "dbg_line \<Rightarrow> bool" where
  "line_ok (Sym fs) \<longleftrightarrow> list_all field_ok fs \<and> length (line_text (Sym fs)) < 511"
| "line_ok (Other l) \<longleftrightarrow> CHR 0x0A \<notin> set l \<and> CHR 0x00 \<notin> set l \<and> \<not> sym_head l \<and> length l < 511"

text \<open>
  What a line should add: a label with a name and a value, whose name (cut to 31 characters) is not
  all capitals and digits, with the low 16 bits of its value. Equates and imports add nothing.
\<close>

fun the_name :: "sym_field list \<Rightarrow> string option" where
  "the_name [] = None"
| "the_name (f # fs) = (case f of Name n \<Rightarrow> Some n | _ \<Rightarrow> the_name fs)"

fun the_val :: "sym_field list \<Rightarrow> u32 option" where
  "the_val [] = None"
| "the_val (f # fs) = (case f of Val v \<Rightarrow> Some v | _ \<Rightarrow> the_val fs)"

definition label_of :: "sym_field list \<Rightarrow> (string \<times> u16) option" where
  "label_of fs =
     (case (the_name fs, the_val fs) of
        (Some n, Some v) \<Rightarrow>
          if Type Lab \<in> set fs \<and> (\<exists>c \<in> set (take 31 n). islower c) then Some (take 31 n, ucast v) else None
      | _ \<Rightarrow> None)"

fun loaded :: "dbg_line \<Rightarrow> (string \<times> u16) list" where
  "loaded (Sym fs) = (case label_of fs of None \<Rightarrow> [] | Some e \<Rightarrow> [e])"
| "loaded (Other l) = []"

lemma digits_all:
  assumes "\<forall>c \<in> set ds. P c" "2 \<le> b" "b \<le> length ds" "c \<in> set (digits ds b n)"
  shows "P c"
proof -
  obtain k where "k < b" "c = ds ! k" using digits_set [OF assms(2), of ds n] assms(4) by auto
  then show ?thesis using assms(1,3) by simp
qed

lemma hex_chars: "c \<in> set (hex n) \<Longrightarrow> 32 \<le> ccode c \<and> c \<noteq> CHR ''x'' \<and> c \<noteq> CHR ''X'' \<and> c \<noteq> CHR ''=''"
  unfolding hex_def
  by (rule digits_all [where P = "\<lambda>c. 32 \<le> ccode c \<and> c \<noteq> CHR ''x'' \<and> c \<noteq> CHR ''X'' \<and> c \<noteq> CHR ''=''"
        and ds = "''0123456789ABCDEF''" and b = 16])
    (simp_all add: ccode_def)

lemma hexdigit_props:
  assumes "k < 16"
  shows "\<not> isspace (''0123456789ABCDEF'' ! k) \<and> ''0123456789ABCDEF'' ! k \<noteq> CHR ''-'' \<and> ''0123456789ABCDEF'' ! k \<noteq> CHR ''+''"
proof -
  have "list_all (\<lambda>c. \<not> isspace c \<and> c \<noteq> CHR ''-'' \<and> c \<noteq> CHR ''+'') ''0123456789ABCDEF''" by code_simp
  then show ?thesis using assms unfolding list_all_length by simp
qed

text \<open>The text after a field: nothing, a comma or the end of the line.\<close>

definition field_end :: "string \<Rightarrow> bool" where
  "field_end s \<longleftrightarrow> s = [] \<or> hd s = CHR '','' \<or> hd s = CHR 0x0A"

lemma field_end_simps [simp]:
  "field_end []" "field_end (CHR '','' # s)" "field_end (CHR 0x0A # s)"
  by (simp_all add: field_end_def)

lemma hexdigit_x: "field_end s \<Longrightarrow> \<not> has_0x (hex n @ s)"
proof -
  assume s: "field_end s"
  obtain a r where h: "hex n = a # r" unfolding hex_def by (metis digits_nonempty neq_Nil_conv)
  show ?thesis
  proof (cases "r @ s")
    case Nil
    then show ?thesis by (simp add: has_0x_def h)
  next
    case (Cons b q)
    have "b \<noteq> CHR ''x'' \<and> b \<noteq> CHR ''X''"
    proof (cases r)
      case Nil
      then show ?thesis using s Cons by (auto simp: field_end_def)
    next
      case (Cons b' r')
      then show ?thesis using hex_chars [of b n] h \<open>r @ s = b # q\<close> by simp
    qed
    then show ?thesis by (simp add: has_0x_def h Cons numeral_2_eq_2)
  qed
qed

lemma scanf_hex:
  assumes "field_end s"
  shows "scanf_x (hex (unat (v :: u32)) @ s) = Some v"
proof -
  define z where "z = hex (unat v) @ s"
  have d: "digit_val (''0123456789ABCDEF'' ! k) = Some k" if "k < 16" for k using digit_alphabets(2) that by simp
  have st: "starts P z" if "\<And>k. k < 16 \<Longrightarrow> P (''0123456789ABCDEF'' ! k)" for P
    using starts_digits [of 16 P "''0123456789ABCDEF''" "unat v"] that by (simp add: hex_def z_def)
  have "starts (\<lambda>c. \<not> isspace c) z" "starts (\<lambda>c. c \<noteq> CHR ''-'' \<and> c \<noteq> CHR ''+'') z"
    by (rule st, use hexdigit_props in blast)+
  then have sg: "dropWhile isspace z = z" "sign z = (False, z)"
    by (auto simp: sign_def dropWhile_starts dest: starts_not)
  have "\<not> starts (is_digit 16) s"
    using assms by (cases s) (auto simp: field_end_def starts_def is_digit_def digit_val_def isdigit_def islower_def isupper_def ccode_def)
  then have "scan 16 (unat v) s = (unat v, s)" by (rule scan_stop)
  then have "scan 16 0 z = (unat v, s)"
    using scan_digits [of 16 "''0123456789ABCDEF''" 0 "unat v" s] d by (simp add: z_def hex_def)
  moreover have "\<not> has_0x z" using hexdigit_x [OF assms, of "unat v"] by (simp add: z_def)
  moreover have "starts (is_digit 16) z" by (rule st) (simp add: is_digit_def d)
  moreover have "unat v < 2 ^ 32" using unsigned_less [of v, where ?'a = nat] by simp
  moreover have "(ucast (word_of_nat (unat v) :: u64) :: u32) = v"
    using \<open>unat v < 2 ^ 32\<close> by (simp add: word_unat_eq_iff unat_ucast_mod unat_of_nat)
  ultimately have "scanf_x z = Some v"
    by (simp add: scanf_x_def strtoul_def c_number_def radix_def sg Let_def)
  then show ?thesis by (simp add: z_def)
qed

lemma field_good:
  assumes "field_ok f"
  shows "good_field (field_text f)"
proof (cases f)
  case (Val v)
  have "CHR ''='' \<notin> set (hex (unat v))" using hex_chars by blast
  then show ?thesis by (simp add: Val good_field_def)
next
  case (Type y)
  then show ?thesis by (cases y) (simp_all add: good_field_def)
qed (use assms in \<open>simp_all add: good_field_def\<close>)

lemma search_line:
  assumes "list_all field_ok fs" "CHR ''='' \<notin> set key" "CHR '','' \<notin> set key" "CHR 0x09 \<notin> set key" "key \<noteq> []"
    "CHR '','' \<notin> set w" "CHR 0x0A \<notin> set w"
  shows "strstr (line_text (Sym fs) @ [CHR 0x0A]) (key @ CHR ''='' # w) =
    find_field key w (map field_text fs) [CHR 0x0A]"
proof -
  have "list_all good_field (map field_text fs)" using assms(1) field_good by (auto simp: list_all_iff)
  then show ?thesis
    using strstr_fields [OF assms(2-7), of "map field_text fs" "[CHR 0x0A]" "''sym''" "CHR 0x09"] by simp
qed

lemma find_type: "list_all field_ok fs \<Longrightarrow> find_field ''type'' ''lab'' (map field_text fs) z = None \<longleftrightarrow> Type Lab \<notin> set fs"
proof (induction fs)
  case (Cons f fs)
  then show ?case
  proof (cases f)
    case (Type y)
    then show ?thesis using Cons by (cases y) (simp_all add: suffix_Cons)
  qed (simp_all add: suffix_Cons)
qed simp

lemma find_name:
  "list_all field_ok fs \<Longrightarrow>
     (case the_name fs of
        None \<Rightarrow> find_field ''name'' [CHR 0x22] (map field_text fs) z = None
      | Some n \<Rightarrow> (\<exists>r. find_field ''name'' [CHR 0x22] (map field_text fs) z = Some (''name='' @ CHR 0x22 # n @ CHR 0x22 # r)) \<and>
          CHR 0x22 \<notin> set n)"
proof (induction fs)
  case (Cons f fs)
  then show ?case by (cases f; cases "the_name fs") (simp_all add: suffix_Cons)
qed simp

lemma find_val:
  "list_all field_ok fs \<Longrightarrow> field_end z \<Longrightarrow>
     (case the_val fs of
        None \<Rightarrow> find_field ''val'' ''0x'' (map field_text fs) z = None
      | Some v \<Rightarrow> (\<exists>r. find_field ''val'' ''0x'' (map field_text fs) z = Some (''val=0x'' @ hex (unat v) @ r) \<and> field_end r))"
proof (induction fs)
  case (Cons f fs)
  then show ?case
  proof (cases f)
    case (Val v)
    then show ?thesis using Cons.prems(2) by simp
  qed (cases "the_val fs"; simp add: suffix_Cons)+
qed simp

lemma takeWhile_until: "c \<notin> set l \<Longrightarrow> takeWhile (\<lambda>x. x \<noteq> c) (l @ c # r) = l"
  by (induction l) auto

lemma parse_sym:
  assumes "list_all field_ok fs"
  shows "parse_line (line_text (Sym fs) @ [CHR 0x0A]) = label_of fs"
proof -
  let ?l = "line_text (Sym fs) @ [CHR 0x0A]"
  have t: "strstr ?l ''type=lab'' = None \<longleftrightarrow> Type Lab \<notin> set fs"
    using search_line [OF assms, of "''type''" "''lab''"] find_type [OF assms] by simp
  have n: "sym_name ?l = (case the_name fs of None \<Rightarrow> None | Some n \<Rightarrow> if take 31 n = [] then None else Some (take 31 n))"
  proof (cases "the_name fs")
    case None
    then show ?thesis
      using search_line [OF assms, of "''name''" "[CHR 0x22]"] find_name [OF assms, of "[CHR 0x0A]"] by (simp add: sym_name_def)
  next
    case (Some n)
    then obtain r where "strstr ?l (''name='' @ [CHR 0x22]) = Some (''name='' @ CHR 0x22 # n @ CHR 0x22 # r)" "CHR 0x22 \<notin> set n"
      using search_line [OF assms, of "''name''" "[CHR 0x22]"] find_name [OF assms, of "[CHR 0x0A]"] by auto
    moreover from this(2) have "takeWhile (\<lambda>c. c \<noteq> CHR 0x22) (n @ CHR 0x22 # r) = n"
      by (rule takeWhile_until)
    ultimately show ?thesis using Some by (simp add: sym_name_def split: list.split)
  qed
  have v: "sym_val ?l = the_val fs"
  proof (cases "the_val fs")
    case None
    then show ?thesis
      using search_line [OF assms, of "''val''" "''0x''"] find_val [OF assms, of "[CHR 0x0A]"] by (simp add: sym_val_def)
  next
    case (Some v)
    then obtain r where "strstr ?l ''val=0x'' = Some (''val=0x'' @ hex (unat v) @ r)" "field_end r"
      using search_line [OF assms, of "''val''" "''0x''"] find_val [OF assms, of "[CHR 0x0A]"] by auto
    then show ?thesis using scanf_hex [of r v] Some by (simp add: sym_val_def)
  qed
  have h: "sym_head ?l" by (simp add: sym_head_def starts_def)
  have "dbg_strIsAllCaps m \<longleftrightarrow> \<not> (\<exists>c \<in> set m. islower c)" for m by (auto simp: dbg_strIsAllCaps_def caps_loop_iff)
  then show ?thesis
    unfolding parse_line_def label_of_def using h t n v by (auto split: option.split)
qed

lemma parse_other:
  assumes "\<not> sym_head l"
  shows "parse_line (l @ [CHR 0x0A]) = None"
proof (cases "length l \<ge> 4")
  case True
  then have "take 3 (l @ [CHR 0x0A]) = take 3 l" "starts P (drop 3 (l @ [CHR 0x0A])) = starts P (drop 3 l)" for P
    using starts_append [of "drop 3 l" P "[CHR 0x0A]"] by simp_all
  then show ?thesis using assms by (simp add: parse_line_def sym_head_def)
next
  case False
  then have "drop 3 (l @ [CHR 0x0A]) = [] \<or> drop 3 (l @ [CHR 0x0A]) = [CHR 0x0A]" by (cases "length l = 3") auto
  then have "\<not> sym_head (l @ [CHR 0x0A])" by (auto simp: sym_head_def starts_def)
  then show ?thesis by (simp add: parse_line_def)
qed

lemma fields_text_set: "c \<in> set (fields_text fs) \<Longrightarrow> c = CHR ''='' \<or> c = CHR '','' \<or> (\<exists>f \<in> set fs. c \<in> set (fst f) \<or> c \<in> set (snd f))"
  by (induction fs rule: fields_text.induct) (auto split: if_splits)

lemma field_chars: "field_ok f \<Longrightarrow> c \<in> set (fst (field_text f)) \<or> c \<in> set (snd (field_text f)) \<Longrightarrow> 32 \<le> ccode c"
proof (cases f)
  case (Type y)
  then show "field_ok f \<Longrightarrow> c \<in> set (fst (field_text f)) \<or> c \<in> set (snd (field_text f)) \<Longrightarrow> 32 \<le> ccode c"
    by (cases y) (auto simp: ccode_def)
next
  case (Val v)
  then show "field_ok f \<Longrightarrow> c \<in> set (fst (field_text f)) \<or> c \<in> set (snd (field_text f)) \<Longrightarrow> 32 \<le> ccode c"
    using hex_chars [of c "unat v"] by (auto simp: ccode_def)
qed (auto simp: printable_def ccode_def)

lemma line_chars:
  assumes "line_ok l"
  shows "CHR 0x0A \<notin> set (line_text l) \<and> CHR 0x00 \<notin> set (line_text l)"
proof (cases l)
  case (Sym fs)
  have "32 \<le> ccode c \<or> c = CHR 0x09" if c: "c \<in> set (line_text l)" for c
  proof -
    have ok: "\<And>f. f \<in> set fs \<Longrightarrow> field_ok f" using assms Sym by (simp add: list_all_iff)
    consider "c \<in> set ''sym''" | "c = CHR 0x09" | "c = CHR ''=''" | "c = CHR '',''"
      | f where "f \<in> set fs" "c \<in> set (fst (field_text f)) \<or> c \<in> set (snd (field_text f))"
      using c fields_text_set [of c "map field_text fs"] Sym by auto
    then show ?thesis by cases (use field_chars ok in \<open>auto simp: ccode_def\<close>)
  qed
  from this [of "CHR 0x0A"] this [of "CHR 0x00"] show ?thesis by (auto simp: ccode_def)
qed (use assms in simp)

lemma fgets_line:
  assumes "line_ok l"
  shows "fgets 512 (line_text l @ CHR 0x0A # f) = (line_text l @ [CHR 0x0A], f)"
proof -
  have l: "CHR 0x0A \<notin> set (line_text l)" "CHR 0x00 \<notin> set (line_text l)" using line_chars [OF assms] by simp_all
  have n: "length (line_text l) < 511" using assms by (cases l) simp_all
  have "takeWhile (\<lambda>c. \<not> is_nl c) (line_text l @ CHR 0x0A # f) = line_text l"
    using takeWhile_until [OF l(1), of f] by (simp add: is_nl_def)
  moreover have "takeWhile (\<lambda>c. c \<noteq> CHR 0x00) (line_text l @ [CHR 0x0A]) = line_text l @ [CHR 0x0A]"
    using l by (subst takeWhile_eq_all_conv) auto
  ultimately show ?thesis using n by (simp add: fgets_def Let_def)
qed

lemma parse_loaded:
  assumes "line_ok l"
  shows "loaded l = (case parse_line (line_text l @ [CHR 0x0A]) of None \<Rightarrow> [] | Some e \<Rightarrow> [e])"
proof (cases l)
  case (Sym fs)
  then show ?thesis using parse_sym [of fs] assms by simp
qed (use parse_other assms in simp)

text \<open>A table with room for another entry below \<open>2^30\<close> never asks for a capacity of \<open>2^31\<close>.\<close>

lemma append_sym_room:
  assumes "symtab_ok t" "0 < symCapacity t" "length (dbgSymbols t) < 2 ^ 30"
  obtains t' where "append_sym (\<lambda>_. True) e t = Some t'"
proof -
  obtain k where k: "symCapacity t = 64 * 2 ^ k" using assms(1,2) by (auto simp: symtab_ok_def)
  have "symCapacity t * 2 < 2 ^ 31" if "symCapacity t \<le> length (dbgSymbols t)" using that assms(3) by simp
  then show ?thesis using that by (cases "append_sym (\<lambda>_. True) e t") (auto simp: append_sym_def Let_def split: if_splits)
qed

lemma read_file:
  assumes "list_all line_ok ls" "symtab_ok t" "0 < symCapacity t" "length (dbgSymbols t) + length ls \<le> 2 ^ 30"
  shows "dbgSymbols (read_loop (\<lambda>_. True) (file_text ls) t) = dbgSymbols t @ concat (map loaded ls)"
  using assms
proof (induction ls arbitrary: t)
  case Nil
  then show ?case by (simp add: file_text_def)
next
  case (Cons l ls)
  let ?L = "line_text l @ [CHR 0x0A]"
  have ok: "line_ok l" "list_all line_ok ls" using Cons.prems(1) by simp_all
  have f: "fgets 512 (file_text (l # ls)) = (?L, file_text ls)" using fgets_line [OF ok(1)] by (simp add: file_text_def)
  have ne: "file_text (l # ls) \<noteq> []" by (simp add: file_text_def)
  show ?case
  proof (cases rule: read_loop_cases [OF ne f, of "\<lambda>_. True" t])
    case 1
    then show ?thesis using Cons.IH [OF ok(2) Cons.prems(2,3)] Cons.prems(4) parse_loaded [OF ok(1)] by simp
  next
    case (2 e)
    then show ?thesis using append_sym_room [OF Cons.prems(2,3), of e] Cons.prems(4) by auto
  next
    case (3 e t')
    note a = append_sym_ok [OF Cons.prems(2) parse_line_ok [OF 3(1)] Cons.prems(3) 3(2)]
    have "length (dbgSymbols t') + length ls \<le> 2 ^ 30" using a Cons.prems(4) by simp
    then show ?thesis using Cons.IH [OF ok(2), of t'] a 3 parse_loaded [OF ok(1)] by simp
  qed
qed

section \<open>Properties\<close>

text \<open>
  C26: loading a symbol file appends to the table, in order, what its lines say and nothing else:
  each \<^verbatim>\<open>sym\<close> line of type \<^verbatim>\<open>lab\<close> that has a name with a lower-case letter and a value adds the name (its
  first 31 characters) and the value (its low 16 bits); equates, imports, all-capitals names, labels
  without a value and the lines of other kinds add nothing. The lines may be in any order, the
  fields of a line too, with any other fields between them. Lines fit the 512-byte buffer, field
  texts are printable without \<^verbatim>\<open>=\<close>, and no other field's key ends in \<^verbatim>\<open>name\<close>, \<^verbatim>\<open>val\<close> or \<^verbatim>\<open>type\<close> (the
  loader searches the text of the line); the allocations succeed.
\<close>

theorem symbol_file_roundtrip:
  assumes "list_all line_ok ls" "symtab_ok t" "length (dbgSymbols t) + length ls \<le> 2 ^ 30"
  shows "dbgSymbols (dbgReadDbgSyms (\<lambda>_. True) (Some (file_text ls)) t) = dbgSymbols t @ concat (map loaded ls)"
proof (cases "symCapacity t = 0")
  case True
  then show ?thesis
    using read_file [OF assms(1) first_capacity [OF assms(2)]] assms(3) by (simp add: dbgReadDbgSyms_def)
next
  case False
  then show ?thesis using read_file [OF assms(1,2)] assms(3) by (simp add: dbgReadDbgSyms_def)
qed

definition demo_sym :: "nat \<Rightarrow> string \<Rightarrow> u32 \<Rightarrow> sym_type \<Rightarrow> dbg_line" where
  "demo_sym i n v y = Sym [Field ''id'' (dec i), Name n, Field ''addrsize'' ''absolute'', Field ''scope'' ''0'', Field ''def'' ''12+40'',
     Field ''ref'' ''57'', Val v, Field ''seg'' ''3'', Type y]"

definition demo_dbg_file :: "dbg_line list" where
  "demo_dbg_file =
     [Other ''version'', Other ''seg'', demo_sym 0 ''_main'' 0x0206 Lab, demo_sym 1 ''UARTINREG'' 0xC000 Lab,
      demo_sym 2 ''tmp_ptr'' 0x0051 Equ, Sym [Field ''id'' ''3'', Name ''_puts'', Field ''addrsize'' ''absolute'', Field ''scope'' ''0'', Type Imp, Field ''exp'' ''9''],
      Sym [Field ''id'' ''4'', Name ''do_yield'', Field ''addrsize'' ''absolute'', Field ''size'' ''61'', Field ''parent'' ''1'', Val 0x10A3C, Type Lab],
      Other ''symbolic'']"

theorem symbol_file_roundtrip_witness:
  "dbgSymbols (dbgReadDbgSyms (\<lambda>_. True) (Some (file_text demo_dbg_file)) no_syms) =
     [(''_main'', 0x0206), (''do_yield'', 0x0A3C)]"
proof -
  have "list_all line_ok demo_dbg_file"
    by (simp add: demo_dbg_file_def demo_sym_def printable_def ccode_def suffix_Cons sym_head_def starts_def dec_def hex_def digits.simps)
  moreover have "symtab_ok no_syms" "dbgSymbols no_syms = []" by (simp_all add: symtab_ok_def no_syms_def)
  moreover have "concat (map loaded demo_dbg_file) = [(''_main'', 0x0206), (''do_yield'', 0x0A3C)]" by code_simp
  moreover have "length demo_dbg_file \<le> 2 ^ 30" by (simp add: demo_dbg_file_def)
  ultimately show ?thesis using symbol_file_roundtrip [of demo_dbg_file no_syms] by simp
qed

text \<open>
  C40: whatever the files of a session contain, and whichever of the allocations of each load fail
  (the first or any later one), the table stays well formed: every name has 1 to 31 characters (so it
  fits \<open>symbolname\<close> with its NUL), no double quote, and a lower-case letter; there are never more
  entries than the capacity, which is 0 or \<open>64 * 2^k\<close> and fits an \<open>int\<close>. A further file with
  any allocations failing keeps every entry the table has, and what it adds is the beginning of
  what it adds when none fails.
\<close>

theorem symbols_well_formed:
  "let t = fold (\<lambda>(ok, file). dbgReadDbgSyms ok file) files no_syms; t' = dbgReadDbgSyms ok file t in
     symtab_ok t \<and> symtab_ok t' \<and> prefix (dbgSymbols t) (dbgSymbols t') \<and>
     prefix (dbgSymbols t') (dbgSymbols (dbgReadDbgSyms (\<lambda>_. True) file t))"
proof -
  have "symtab_ok t \<Longrightarrow> symtab_ok (fold (\<lambda>(ok, file). dbgReadDbgSyms ok file) files t)" for t
    by (induction files arbitrary: t) (auto simp: read_syms_ok)
  moreover have "symtab_ok no_syms" by (simp add: symtab_ok_def no_syms_def)
  ultimately have "symtab_ok (fold (\<lambda>(ok, file). dbgReadDbgSyms ok file) files no_syms)" by blast
  from read_syms_keeps [OF this, of ok "file"] this show ?thesis by (simp add: Let_def)
qed

end
