(* ===== verification/Vpi.thy ===== *)
theory Vpi
  imports Bus
begin

text \<open>
  The debugger's window on the simulated machine (\<^verbatim>\<open>rtl/dbg/bbdbg_vpi.c\<close>): memory through the
  MMU, the MMU's own registers, the CPU registers and the plusargs. A VPI handle read with
  \<open>readInt\<close> is the value of the model's signal; the CPU's register file belongs to a submodule and
  is an argument. The caches of handles do not change what is read and are not modelled.
\<close>

section \<open>The code\<close>

definition MAX_SYM_FILES :: nat where "MAX_SYM_FILES = 16"
definition RAM_WORDS :: u32 where "RAM_WORDS = 32768"
definition ROM_BASE :: u16 where "ROM_BASE = 0x8100"
definition PAGE_MASK :: u32 where "PAGE_MASK = 0x03FF"
definition SIM_MMU_NPAGES :: nat where "SIM_MMU_NPAGES = 32"

definition simMmuIsKernel :: "machine \<Rightarrow> bool" where
  "simMmuIsKernel m = kernel (mmu m)"

definition simMmuPpn :: "nat \<Rightarrow> machine \<Rightarrow> u8" where
  "simMmuPpn vpage m = ucast (ppn (mmu m) (word_of_nat (vpage mod SIM_MMU_NPAGES)))"

definition simReadMem :: "u16 \<Rightarrow> machine \<Rightarrow> u8 option" where
  "simReadMem addr m =
     (if addr < 0x8000 then
        (let paddr = (if simMmuIsKernel m then ucast addr
                      else push_bit 10 (ucast (simMmuPpn (unat (drop_bit 10 addr)) m)) OR (ucast addr AND PAGE_MASK)) :: u32
         in Some (ram m (ucast (paddr AND (RAM_WORDS - 1)))))
      else if addr \<ge> ROM_BASE then Some (rom m (addr - ROM_BASE))
      else None)"

record sim_regs_t =
  rA :: u8
  rX :: u8
  rY :: u8
  rSP :: u8
  rP :: u8

text \<open>The register file \<open>tb.dut.regfile.regs\<close> (X, Y, A, S) and the flags \<open>tb.dut.P\<close>.\<close>

definition simGetRegs :: "(nat \<Rightarrow> u8) \<Rightarrow> u8 \<Rightarrow> sim_regs_t" where
  "simGetRegs regs p = \<lparr>rA = regs 2, rX = regs 0, rY = regs 1, rSP = regs 3, rP = p\<rparr>"

fun parsePlusargs :: "string list \<Rightarrow> string list \<times> string option \<Rightarrow> string list \<times> string option" where
  "parsePlusargs [] st = st"
| "parsePlusargs (a # args) (symFiles, srcFile) =
     (if take 9 a = ''+dbg_sym='' \<and> length symFiles < MAX_SYM_FILES then parsePlusargs args (symFiles @ [drop 9 a], srcFile)
      else if take 9 a = ''+dbg_src='' then parsePlusargs args (symFiles, Some (drop 9 a))
      else parsePlusargs args (symFiles, srcFile))"

section \<open>What the debugger sees\<close>

lemma masks: "(0x7FFF :: u32) = mask 15" "(0x3FF :: u32) = mask 10"
  by (simp_all add: mask_eq_exp_minus_1)

lemma paddr_kernel: "(ucast ((ucast (a :: u16) :: u32) AND 0x7FFF) :: 15 word) = ucast a"
  unfolding masks by (rule bit_word_eqI) (auto simp: bit_simps)

lemma paddr_user:
  "(ucast ((push_bit 10 (ucast (ucast (p :: 5 word) :: u8)) OR (ucast (a :: u16) AND 0x3FF) :: u32) AND 0x7FFF) :: 15 word)
     = word_cat p (page_off a)"
  unfolding masks page_off_def
  by (rule bit_word_eqI) (auto simp: bit_simps dest: bit_imp_le_length)

lemma vpage_vpn: "(word_of_nat (unat (drop_bit 10 a) mod 32) :: 5 word) = vpn a"
  by (simp add: word_unat_eq_iff unat_vpn unat_drop_bit unat_of_nat)

section \<open>Properties\<close>

text \<open>
  C19: the debugger reads memory as the CPU does. \<open>simReadMem\<close> returns, in kernel and in user
  mode, the byte the test bench puts on the bus when the CPU reads that address, for every
  address outside the I/O window; there it reads nothing, so no device register is touched.
\<close>

theorem debugger_sees_cpu:
  "simReadMem addr m = (if 0x8000 \<le> addr \<and> addr < 0x8100 then None else Some (read_mux addr m))"
proof (cases "addr < 0x8000")
  case True
  then have "\<not> bit addr 15" by (simp add: bit15_iff)
  moreover have "\<not> 0x8000 \<le> addr" using True by simp
  moreover have "simReadMem addr m = Some (ram m (ram_addr (mmu m) addr))"
  proof (cases "kernel (mmu m)")
    case k: True
    then show ?thesis using True
      by (simp add: simReadMem_def simMmuIsKernel_def RAM_WORDS_def paddr_kernel ram_addr_kernel)
  next
    case k: False
    then show ?thesis using True
      by (simp add: simReadMem_def simMmuIsKernel_def RAM_WORDS_def PAGE_MASK_def simMmuPpn_def SIM_MMU_NPAGES_def
          vpage_vpn paddr_user ram_addr_def)
  qed
  ultimately show ?thesis by (simp add: read_mux_def)
next
  case False
  then have b: "bit addr 15" by (simp add: bit15_iff)
  show ?thesis
  proof (cases "addr < 0x8100")
    case True
    then show ?thesis using False by (simp add: simReadMem_def ROM_BASE_def not_less [symmetric])
  next
    case h: False
    then have "\<not> is_ctrl addr" "addr \<notin> {0x8000, 0x8001, 0x8003, 0x80E0, 0x80E1, 0x80E2, 0x80E3, 0x80E5, 0x80E6}"
      by (auto simp: is_ctrl_iff word_le_nat_alt word_less_nat_alt)
    moreover have "0x8100 \<le> addr" using h by simp
    ultimately show ?thesis using False b h by (simp add: simReadMem_def ROM_BASE_def read_mux_def)
  qed
qed

lemma plusargs_le: "length fs \<le> 16 \<Longrightarrow> length (fst (parsePlusargs args (fs, src))) \<le> 16"
  by (induction args "(fs, src)" arbitrary: fs src rule: parsePlusargs.induct) (auto simp: MAX_SYM_FILES_def)

end
