(* ===== verification/Debugger.thy ===== *)
theory Debugger
  imports Disasm Breakpoints Commands Symbols Vpi
begin

text \<open>
  The debugger of \<^verbatim>\<open>rtl/dbg/debugger.c\<close>: its global variables are the record \<open>dbg\<close>, its entry
  points \<open>dbgOnFetch\<close>, \<open>dbgOnTx\<close> and \<open>dbgOnFault\<close> and its commands are functions on it. The
  simulated machine is an argument, as simulation time stands still while the debugger runs.

  What the user types is input: the lines read by \<open>wgetnstr\<close> (\<open>input\<close>), the answers to the
  program-exited prompt (\<open>answers\<close>), and the keys the terminal pane receives between polls
  (\<open>arrive\<close>). Waiting for input that never comes is \<open>None\<close>. The text echoed to the console is
  the string \<open>console\<close>; window layout, colours and refreshes are not modelled. \<open>heap\<close> says whether
  allocations succeed, \<open>rx_opens\<close> whether the input file can be opened, and \<open>keyEnter\<close> and
  \<open>keyBackspace\<close> are the codes curses.h gives those keys.
\<close>

section \<open>State\<close>

datatype runmode_t = DBG_STOPPED | DBG_STEPPING | DBG_RUNNING

record dbg =
  initialised :: bool
  quitting :: bool
  stepFirst :: bool
  termDirty :: bool
  interrupted :: bool
  dmode :: runmode_t
  stepsLeft :: int
  fetchCount :: u32
  dpc :: u16
  bplist :: bps
  syms :: symtab
  console :: string
  terminal :: string
  input :: "string list"
  answers :: "char list"
  tkeys :: "int list"
  arrive :: "nat \<Rightarrow> int list"
  polls :: nat
  rx_opens :: bool
  rx_file :: "nat list"
  reset_req :: bool
  finished :: bool
  heap :: bool
  keyEnter :: int
  keyBackspace :: int
  sim_regs :: sim_regs_t

definition TAB :: string where "TAB = [CHR 0x09]"
definition NL :: string where "NL = [CHR 0x0A]"

definition echo :: "string \<Rightarrow> dbg \<Rightarrow> dbg" where
  "echo s d = d\<lparr>console := console d @ s\<rparr>"

definition dbgConsoleGetCmd :: "nat \<Rightarrow> dbg \<Rightarrow> (string \<times> dbg) option" where
  "dbgConsoleGetCmd bufsiz d =
     (case input d of
        [] \<Rightarrow> None
      | l # ls \<Rightarrow> Some (take (bufsiz - 1) l, echo ''>>'' (d\<lparr>input := ls\<rparr>)))"

definition dbgConsoleGetchar :: "dbg \<Rightarrow> (char \<times> dbg) option" where
  "dbgConsoleGetchar d = (case answers d of [] \<Rightarrow> None | c # cs \<Rightarrow> Some (c, d\<lparr>answers := cs\<rparr>))"

definition dbgRead6502 :: "machine \<Rightarrow> u16 \<Rightarrow> u8" where
  "dbgRead6502 m a = (case simReadMem a m of Some v \<Rightarrow> v | None \<Rightarrow> 0xFF)"

definition x4 :: "u16 \<Rightarrow> string" where "x4 a = fmt_x 4 (unat a)"
definition x2 :: "u8 \<Rightarrow> string" where "x2 a = fmt_x 2 (unat a)"

section \<open>Terminal pane\<close>

definition dbgTerminalPutchar :: "u8 \<Rightarrow> dbg \<Rightarrow> dbg" where
  "dbgTerminalPutchar c d = (if c = 0x0D then d else d\<lparr>terminal := terminal d @ [char_of (unat c)]\<rparr>)"

definition dbgOnTx :: "u8 \<Rightarrow> dbg \<Rightarrow> dbg" where
  "dbgOnTx c d =
     (if \<not> initialised d then d
      else let d = (dbgTerminalPutchar c d)\<lparr>termDirty := True\<rparr> in
        if dmode d \<noteq> DBG_RUNNING then d\<lparr>termDirty := False\<rparr> else d)"

definition dbgOnFault :: "u16 \<Rightarrow> int \<Rightarrow> u32 \<Rightarrow> dbg \<Rightarrow> dbg" where
  "dbgOnFault addr we paddr d =
     (if \<not> initialised d then d
      else echo (TAB @ ''[mmu] FAULT  AB='' @ x4 addr @ ''  WE='' @ fmt_d we @ ''  paddr='' @ fmt_x 5 (unat paddr)
             @ ''  (pc '' @ x4 (dpc d) @ '')'' @ NL) d)"

definition DBG_KEY_CTRL_C :: int where "DBG_KEY_CTRL_C = 3"

definition key_code :: "int \<Rightarrow> int \<Rightarrow> int \<Rightarrow> nat option" where
  "key_code enter bs k =
     (if k = 10 \<or> k = enter then Some 13
      else if k = bs \<or> k = 127 then Some 8
      else if 0 \<le> k \<and> k < 128 then Some (nat k)
      else None)"

definition dbgSendKey :: "int \<Rightarrow> dbg \<Rightarrow> dbg" where
  "dbgSendKey k d = (case key_code (keyEnter d) (keyBackspace d) k of
      None \<Rightarrow> d
    | Some c \<Rightarrow> if rx_opens d then d\<lparr>rx_file := rx_file d @ [c]\<rparr> else d)"

fun poll_loop :: "int list \<Rightarrow> dbg \<Rightarrow> dbg" where
  "poll_loop [] d = d\<lparr>tkeys := []\<rparr>"
| "poll_loop (k # ks) d =
     (if k = DBG_KEY_CTRL_C then d\<lparr>interrupted := True, tkeys := ks\<rparr> else poll_loop ks (dbgSendKey k d))"

definition dbgPollTerminal :: "dbg \<Rightarrow> dbg" where
  "dbgPollTerminal d =
     (let d = poll_loop (tkeys d @ arrive d (polls d)) (d\<lparr>polls := polls d + 1\<rparr>) in d\<lparr>termDirty := False\<rparr>)"

section \<open>Memory and register views\<close>

fun row_loop :: "machine \<Rightarrow> u16 \<Rightarrow> u16 \<Rightarrow> nat \<Rightarrow> nat \<Rightarrow> dbg \<Rightarrow> dbg" where
  "row_loop m addr endaddr off 0 d = d"
| "row_loop m addr endaddr off (Suc n) d =
     (let cur = addr + word_of_nat off in
      if cur < addr \<or> cur > endaddr then d
      else row_loop m addr endaddr (off + 1) n
             (case simReadMem cur m of Some v \<Rightarrow> echo (fmt_X 2 (unat v) @ '' '') d | None \<Rightarrow> echo ''.. '' d))"

lemma unat_plus_16: "unat (a :: u16) + 16 < 65536 \<Longrightarrow> unat (a + 16) = unat a + 16"
  by (simp add: unat_word_ariths)

function show_loop :: "machine \<Rightarrow> u16 \<Rightarrow> u16 \<Rightarrow> dbg \<Rightarrow> dbg" where
  "show_loop m addr endaddr d =
     (let d = echo NL (row_loop m addr endaddr 0 16 (echo (fmt_X 4 (unat addr) @ '': '') d)) in
      if unat endaddr < 16 \<or> unat addr > unat endaddr - 16 then d
      else show_loop m (addr + 16) endaddr d)"
  by pat_completeness auto
termination
proof (relation "measure (\<lambda>(m, addr, endaddr, d). 65536 - unat addr)", goal_cases)
  case (2 m addr endaddr d x)
  then have "unat addr + 16 < 65536" using unat_u16_lt [of endaddr] by linarith
  then show ?case by (simp add: unat_plus_16)
qed simp

declare show_loop.simps [simp del]

definition dbgShowMem :: "machine \<Rightarrow> u16 \<Rightarrow> u16 \<Rightarrow> dbg \<Rightarrow> dbg" where
  "dbgShowMem m startaddr endaddr d = show_loop m startaddr endaddr d"

definition dbgReadHexU16 :: "dbg \<Rightarrow> (u16 option \<times> dbg) option" where
  "dbgReadHexU16 d = do {
     (buf, d) \<leftarrow> dbgConsoleGetCmd 32 d;
     if buf = [] \<or> hd buf = CHR 0x0A then Some (None, echo (TAB @ ''Input error'' @ NL) d)
     else case strtoul 0 buf of
       None \<Rightarrow> Some (None, echo (''Invalid hex number'' @ NL) d)
     | Some (value, errno) \<Rightarrow>
         if errno then Some (None, echo (''Invalid hex number'' @ NL) d)
         else if value > 0xFFFF then Some (None, echo (''Value out of 16-bit range'' @ NL) d)
         else Some (Some (ucast value), d)
   }"

definition show_checked :: "machine \<Rightarrow> u16 \<Rightarrow> u16 \<Rightarrow> dbg \<Rightarrow> dbg" where
  "show_checked m startAddr endAddr d =
     (if endAddr < startAddr then echo (''Invalid input '' @ x4 endAddr @ NL) d else dbgShowMem m startAddr endAddr d)"

definition arg_addr :: "string \<Rightarrow> u16 option" where
  "arg_addr s = (case strtoul 0 s of None \<Rightarrow> None | Some (v, errno) \<Rightarrow> if errno then None else Some (ucast v))"

definition ask_end :: "machine \<Rightarrow> u16 \<Rightarrow> dbg \<Rightarrow> dbg option" where
  "ask_end m startAddr d = do {
     (e, d) \<leftarrow> dbgReadHexU16 (echo ''Give the ending address in hex [0x...]: '' d);
     (case e of None \<Rightarrow> Some d | Some endAddr \<Rightarrow> Some (show_checked m startAddr endAddr d))
   }"

definition dbgPrintMemRange :: "machine \<Rightarrow> string list \<Rightarrow> dbg \<Rightarrow> dbg option" where
  "dbgPrintMemRange m toks d =
     (if length toks < 2 then do {
        (s, d) \<leftarrow> dbgReadHexU16 (echo ''Give the starting address in hex [0x...]: '' d);
        (case s of None \<Rightarrow> Some d | Some startAddr \<Rightarrow> ask_end m startAddr d)
      }
      else if length toks = 2 then
        (case arg_addr (toks ! 1) of
           None \<Rightarrow> Some (echo (''Invalid hex number'' @ NL) d)
         | Some startAddr \<Rightarrow> ask_end m startAddr d)
      else
        (case arg_addr (toks ! 1) of
           None \<Rightarrow> Some (echo (''Invalid hex number'' @ NL) d)
         | Some startAddr \<Rightarrow> (case arg_addr (toks ! 2) of
             None \<Rightarrow> Some (echo (''Invalid hex number'' @ NL) d)
           | Some endAddr \<Rightarrow> Some (show_checked m startAddr endAddr d))))"

definition flag_text :: "u8 \<Rightarrow> string" where
  "flag_text p = map (\<lambda>i. if (p AND drop_bit i 0x80) \<noteq> 0 then ''NV-BDIZC'' ! i else CHR ''.'') [0..<8]"

definition ppn_text :: "machine \<Rightarrow> nat \<Rightarrow> string" where
  "ppn_text m i =
     (if i mod 8 = 0 then (if i = 0 then '' '' else ''  '') @ ''['' @ fmt_u 2 i @ ''..'' @ fmt_u 2 (i + 7) @ '']'' else [])
     @ '' '' @ fmt_u 2 (unat (simMmuPpn i m))"

definition dbgPrintRegisters :: "machine \<Rightarrow> dbg \<Rightarrow> dbg" where
  "dbgPrintRegisters m d =
     (let r = sim_regs d;
          d = echo (''PC='' @ x4 (dpc d) @ '' SP='' @ x2 (rSP r) @ '' A='' @ x2 (rA r) @ '' X='' @ x2 (rX r) @ '' Y='' @ x2 (rY r)
                @ '' status='' @ x2 (rP r) @ NL) d;
          d = echo (''flags='' @ flag_text (rP r) @ ''  MMU='' @ (if simMmuIsKernel m then ''kernel'' else ''user'') @ NL) d;
          d = echo ''PPN'' d;
          d = fold (\<lambda>i. echo (ppn_text m i)) [0..<SIM_MMU_NPAGES] d
      in echo NL d)"

section \<open>Commands\<close>

definition disasm :: "machine \<Rightarrow> u16 \<Rightarrow> string \<times> nat" where
  "disasm m pc = dbgDisasmInstrFromPc pc (dbgRead6502 m)"

definition show_instr :: "machine \<Rightarrow> u16 \<Rightarrow> dbg \<Rightarrow> dbg" where
  "show_instr m pc d = echo (TAB @ x4 pc @ TAB @ fst (disasm m pc) @ NL) d"

fun dis_loop :: "machine \<Rightarrow> nat \<Rightarrow> u16 \<Rightarrow> dbg \<Rightarrow> dbg" where
  "dis_loop m 0 pc d = d"
| "dis_loop m (Suc n) pc d = dis_loop m n (pc + word_of_nat (snd (disasm m pc))) (show_instr m pc d)"

definition parse_err :: "string list \<Rightarrow> dbg \<Rightarrow> dbg" where
  "parse_err toks d = echo (''cmd parsing err... '' @ toks ! 0 @ '' '' @ toks ! 1 @ NL) d"

definition dbgDisasmInstr :: "machine \<Rightarrow> string list \<Rightarrow> dbg \<Rightarrow> dbg" where
  "dbgDisasmInstr m toks d =
     (if length toks < 2 then dis_loop m 5 (dpc d) d
      else case dbgStrToInt (toks ! 1) of
        None \<Rightarrow> parse_err toks d
      | Some n \<Rightarrow> dis_loop m (nat n) (dpc d) d)"

definition set_bp :: "u16 \<Rightarrow> string option \<Rightarrow> dbg \<Rightarrow> dbg option" where
  "set_bp a nm d = do {
     (ok, b) \<leftarrow> dbgSetBp (heap d) (heap d) a nm (bplist d);
     (let d = d\<lparr>bplist := b\<rparr> in
      Some (if ok then d else echo (''setBreakpoint: out of memory, breakpoint not set'' @ NL) d))
   }"

definition number_arg :: "string \<Rightarrow> u16" where
  "number_arg s = (case strtoul 0 s of None \<Rightarrow> 0 | Some (v, _) \<Rightarrow> ucast v)"

definition lookup_sym :: "string \<Rightarrow> symtab \<Rightarrow> u16 option" where
  "lookup_sym s t = map_of (dbgSymbols t) s"

definition dbgAddBp :: "string list \<Rightarrow> dbg \<Rightarrow> dbg option" where
  "dbgAddBp toks d =
     (if length toks < 2 then set_bp (dpc d) None (echo (''  Setting new breakpoint at 0x'' @ x4 (dpc d) @ NL) d)
      else if dbg_strStartsWith ''0x'' (toks ! 1) then
        (let bp = number_arg (toks ! 1) in set_bp bp None (echo (TAB @ ''Setting new breakpoint at 0x'' @ x4 bp @ NL) d))
      else case lookup_sym (toks ! 1) (syms d) of
        Some a \<Rightarrow> set_bp a (Some (toks ! 1))
                    (echo (TAB @ ''Setting new breakpoint at name='' @ toks ! 1 @ '', addr=0x'' @ x4 a @ NL) d)
      | None \<Rightarrow> Some (echo (TAB @ ''symbol='' @ toks ! 1 @ '' not found!'' @ NL) d))"

definition remove_bp :: "u16 \<Rightarrow> string \<Rightarrow> dbg \<Rightarrow> dbg option" where
  "remove_bp a what d = do {
     (found, b) \<leftarrow> dbgRmvBp a (bplist d);
     Some (echo (TAB @ (if found then ''Removed breakpoint at '' else ''No breakpoint at '') @ what @ ''addr=0x'' @ x4 a @ NL)
             (d\<lparr>bplist := b\<rparr>))
   }"

definition dbgRemoveBreakpoint :: "string list \<Rightarrow> dbg \<Rightarrow> dbg option" where
  "dbgRemoveBreakpoint toks d =
     (if length toks < 2 then Some (echo (TAB @ ''usage: rb(or alternate command) <symbol/0x(address)>'' @ NL) d)
      else if dbg_strStartsWith ''0x'' (toks ! 1) then remove_bp (number_arg (toks ! 1)) [] d
      else case lookup_sym (toks ! 1) (syms d) of
        Some a \<Rightarrow> remove_bp a (''name='' @ toks ! 1 @ '', '') d
      | None \<Rightarrow> Some (echo (TAB @ ''symbol='' @ toks ! 1 @ '' not found!'' @ NL) d))"

definition dbgRunDbgCont :: "dbg \<Rightarrow> dbg" where
  "dbgRunDbgCont d =
     (echo (NL @ TAB @ ''Going into continuous execution'' @ NL) (d\<lparr>interrupted := False\<rparr>))\<lparr>dmode := DBG_RUNNING\<rparr>"

definition dbgBackIntoDebugger :: "dbg \<Rightarrow> dbg" where
  "dbgBackIntoDebugger d =
     (if dmode d = DBG_RUNNING then echo (NL @ TAB @ ''Back into debugger'' @ NL) (d\<lparr>termDirty := False\<rparr>) else d)
       \<lparr>dmode := DBG_STOPPED\<rparr>"

fun list_loop :: "machine \<Rightarrow> nat \<Rightarrow> nat \<Rightarrow> dbg \<Rightarrow> dbg option" where
  "list_loop m i 0 d = Some d"
| "list_loop m i (Suc n) d = (case cell (bplist d) i of
      None \<Rightarrow> None
    | Some e \<Rightarrow> list_loop m (i + 1) n
        (echo (TAB @ (case symbol e of Some s \<Rightarrow> s @ '':'' | None \<Rightarrow> []) @ TAB @ ''0x'' @ x4 (address e) @ TAB
           @ fst (disasm m (address e)) @ NL) d))"

definition dbgListBps :: "machine \<Rightarrow> dbg \<Rightarrow> dbg option" where
  "dbgListBps m d =
     (if nofBps (bplist d) = 0 then Some (echo (TAB @ ''No breakpoints set'' @ NL) d)
      else list_loop m 0 (nofBps (bplist d)) d)"

definition dbgStep6502 :: "string list \<Rightarrow> dbg \<Rightarrow> dbg" where
  "dbgStep6502 toks d =
     (let go = (\<lambda>n. d\<lparr>stepsLeft := n, stepFirst := True, dmode := DBG_STEPPING\<rparr>) in
      if length toks < 2 then go 1
      else case dbgStrToInt (toks ! 1) of
        None \<Rightarrow> parse_err toks d
      | Some n \<Rightarrow> if n < 1 then parse_err toks d else go n)"

definition dbgResetMachine :: "dbg \<Rightarrow> dbg" where
  "dbgResetMachine d =
     (echo (TAB @ ''Resetting; will stop at the first instruction'' @ NL) d)
       \<lparr>reset_req := True, dmode := DBG_STEPPING, stepsLeft := 0\<rparr>"

definition help_text :: string where
  "help_text =
     ''Help : -'' @ NL @
     ''b [./addr/symbol]: Create a breakpoint at [curr instr/addr/symbol]'' @ NL @
     ''rb <addr/symbol>: Remove a breakpoint'' @ NL @
     ''c: Continue the program from current state (Ctrl-C in the terminal pane stops it)'' @ NL @
     ''d [n]: Disassemble next 5/[n] instructions'' @ NL @
     ''h: Display this help'' @ NL @
     ''l: List all breakpoints'' @ NL @
     ''m [start] [end]: Display memory contents from a start location to an end location'' @ NL @
     ''r: Display the register contents, MMU mode and page table'' @ NL @
     ''s [n]: Step the program with one/[n] instruction'' @ NL @
     ''reset: Reset the machine and stop at the first instruction'' @ NL @
     ''q: Quit (ends the simulation)'' @ NL @ NL"

definition dbgDisplayHelp :: "dbg \<Rightarrow> dbg" where
  "dbgDisplayHelp d = echo help_text d"

definition run_command :: "machine \<Rightarrow> string list \<Rightarrow> dbg \<Rightarrow> dbg option" where
  "run_command m toks d =
     (case dbgParseCommand (toks ! 0) of
        CMD_BREAKPOINT \<Rightarrow> dbgAddBp toks d
      | CMD_CONTINUE \<Rightarrow> Some (dbgRunDbgCont d)
      | CMD_DISASSEMBLE \<Rightarrow> Some (dbgDisasmInstr m toks d)
      | CMD_HELP \<Rightarrow> Some (dbgDisplayHelp d)
      | CMD_LISTBREAKPOINTS \<Rightarrow> dbgListBps m d
      | CMD_MEMORY \<Rightarrow> dbgPrintMemRange m toks d
      | CMD_REGISTERS \<Rightarrow> Some (dbgPrintRegisters m d)
      | CMD_STEP \<Rightarrow> Some (dbgStep6502 toks d)
      | CMD_QUIT \<Rightarrow> Some ((echo (TAB @ ''Ending simulation'' @ NL) d)\<lparr>quitting := True, dmode := DBG_RUNNING, finished := True\<rparr>)
      | CMD_REMOVEBP \<Rightarrow> dbgRemoveBreakpoint toks d
      | CMD_RESET \<Rightarrow> Some (dbgResetMachine d)
      | CMD_LOADSRC \<Rightarrow> Some (echo (TAB @ ''Source view is not implemented yet'' @ NL) d)
      | _ \<Rightarrow> Some (echo (TAB @ ''Unknown command '' @ [CHR 0x27] @ toks ! 0 @ [CHR 0x27] @ '' (h for help)'' @ NL) d))"

partial_function (option) command_loop :: "machine \<Rightarrow> dbg \<Rightarrow> dbg option" where
  "command_loop m d =
     (if dmode d \<noteq> DBG_STOPPED then Some d
      else do {
        (line, d) \<leftarrow> dbgConsoleGetCmd 100 d;
        if line = [] \<or> hd line = CHR 0x0A then command_loop m d
        else let toks = dbgGetCmdTokens line 10 in
          if toks = [] then command_loop m d
          else do { d \<leftarrow> run_command m toks d; command_loop m d }
      })"

definition dbgCommandLoop :: "machine \<Rightarrow> dbg \<Rightarrow> dbg option" where
  "dbgCommandLoop m d = command_loop m (show_instr m (dpc d) d)"

section \<open>The state machine\<close>

definition dbgHandleStp :: "dbg \<Rightarrow> (bool \<times> dbg) option" where
  "dbgHandleStp d = do {
     (c, d) \<leftarrow> dbgConsoleGetchar
        (echo (NL @ TAB @ ''Program exited (STP at '' @ x4 (dpc d) @ ''). Restart/Exit? [r/E] :'') (dbgBackIntoDebugger d));
     (let d = echo NL d in
      Some (True, if c = CHR ''r'' then dbgResetMachine d else d\<lparr>quitting := True, dmode := DBG_RUNNING, finished := True\<rparr>))
   }"

definition dbgEchoStep :: "machine \<Rightarrow> dbg \<Rightarrow> dbg option" where
  "dbgEchoStep m d = do {
     hit \<leftarrow> (if stepFirst d then dbgCheckIfAtBp (dpc d) 0 (bplist d) else Some None);
     (let d = (if hit \<noteq> None then echo (TAB @ ''Stepping through breakpoint...'' @ NL) d else d)
      in Some ((show_instr m (dpc d) (d\<lparr>stepFirst := False\<rparr>))\<lparr>stepsLeft := stepsLeft d - 1\<rparr>))
   }"

definition bp_name :: "breakpoint_t \<Rightarrow> string" where
  "bp_name e = (case symbol e of Some s \<Rightarrow> s | None \<Rightarrow> [])"

definition should_stop_running :: "machine \<Rightarrow> dbg \<Rightarrow> (bool \<times> dbg) option" where
  "should_stop_running m d =
     (let d = (if unat (fetchCount d) mod 512 = 0 then dbgPollTerminal d else d) in
      if interrupted d then Some (True, echo (TAB @ ''Interrupted (Ctrl-C)'' @ NL) (dbgBackIntoDebugger (d\<lparr>interrupted := False\<rparr>)))
      else do {
        hit \<leftarrow> dbgCheckIfAtBp (dpc d) 0 (bplist d);
        (case hit of
           None \<Rightarrow> Some (False, d)
         | Some i \<Rightarrow> do {
             e \<leftarrow> cell (bplist d) i;
             Some (True, echo (TAB @ ''Breakpoint ['' @ fmt_d (int i) @ '']:'' @ bp_name e @ '' at addr '' @ x4 (address e) @ '': ''
                 @ fst (disasm m (dpc d)) @ NL) (dbgBackIntoDebugger d))
           })
      })"

definition should_stop_stepping :: "machine \<Rightarrow> dbg \<Rightarrow> (bool \<times> dbg) option" where
  "should_stop_stepping m d =
     (if stepsLeft d \<le> 0 then Some (True, d\<lparr>dmode := DBG_STOPPED\<rparr>)
      else do {
        hit \<leftarrow> dbgCheckIfAtBp (dpc d) (snd (disasm m (dpc d))) (bplist d);
        (case hit of
           None \<Rightarrow> do { d \<leftarrow> dbgEchoStep m d; Some (False, d) }
         | Some i \<Rightarrow> do {
             e \<leftarrow> cell (bplist d) i;
             Some (True, (echo (TAB @ ''At Breakpoint ['' @ fmt_d (int i) @ ''] '' @ bp_name e @ '': '' @ x4 (dpc d) @ ''   ''
                 @ fst (disasm m (dpc d)) @ NL) d)\<lparr>dmode := DBG_STOPPED\<rparr>)
           })
      })"

definition dbgShouldStop :: "machine \<Rightarrow> u8 \<Rightarrow> dbg \<Rightarrow> (bool \<times> dbg) option" where
  "dbgShouldStop m opcode d =
     (if opcode = 0xDB then do { (r, d) \<leftarrow> dbgHandleStp d; Some (\<not> r, d) }
      else case dmode d of
        DBG_STOPPED \<Rightarrow> Some (True, d)
      | DBG_RUNNING \<Rightarrow> should_stop_running m d
      | DBG_STEPPING \<Rightarrow> should_stop_stepping m d)"

definition dbgOnFetch :: "machine \<Rightarrow> u16 \<Rightarrow> u8 \<Rightarrow> dbg \<Rightarrow> dbg option" where
  "dbgOnFetch m pc opcode d =
     (if \<not> initialised d \<or> quitting d then Some d
      else do {
        (stop, d) \<leftarrow> dbgShouldStop m opcode (d\<lparr>dpc := pc, fetchCount := fetchCount d + 1\<rparr>);
        if \<not> stop then Some d
        else do {
          d \<leftarrow> dbgCommandLoop m d;
          if dmode d = DBG_STEPPING \<and> stepsLeft d > 0 then dbgEchoStep m d else Some d
        }
      })"

section \<open>Start and end\<close>

text \<open>
  \<open>dbgInit\<close> with the symbol files as name, contents (\<open>None\<close> if it cannot be opened) and the text of
  the error; whether the display can be set up is an argument. \<open>dbgCleanup\<close> frees and closes.
\<close>

definition load_file :: "string \<times> string option \<times> string \<Rightarrow> dbg \<Rightarrow> dbg" where
  "load_file f d =
     (case f of (name, content, err) \<Rightarrow>
        let d = echo (''Loading debug symbols from '' @ name @ NL) d;
            d = (if content = None then echo (''symload: Cannot open '' @ [CHR 0x22] @ name @ [CHR 0x22] @ '': '' @ err @ NL) d else d)
        in d\<lparr>syms := dbgReadDbgSyms (\<lambda>_. heap d) content (syms d)\<rparr>)"

definition dbgInit :: "bool \<Rightarrow> (string \<times> string option \<times> string) list \<Rightarrow> string option \<Rightarrow> dbg \<Rightarrow> bool \<times> dbg" where
  "dbgInit display files srcfile d =
     (if \<not> display then (False, d)
      else let d = fold load_file files d;
               d = echo (''Loaded '' @ fmt_d (int (length (dbgSymbols (syms d)))) @ '' symbols total'' @ NL) d;
               d = (case srcfile of Some f \<Rightarrow> echo (''Source view is not implemented yet ('' @ f @ '')'' @ NL) d | None \<Rightarrow> d);
               d = echo (''Stopped before the first instruction. Type h for help.'' @ NL) d
           in (True, d\<lparr>dmode := DBG_STOPPED, quitting := False, initialised := True\<rparr>))"

definition dbgCleanup :: "dbg \<Rightarrow> dbg" where
  "dbgCleanup d = (if \<not> initialised d then d else d\<lparr>initialised := False\<rparr>)"

end
