(* ===== verification/Session.thy ===== *)
theory Session
  imports Debugger
begin

text \<open>
  How a debugging session behaves: the commands and the entry points of \<open>Debugger\<close> over sequences
  of instruction fetches.
\<close>

section \<open>Output\<close>

lemma echo_fields [simp]:
  "initialised (echo s d) = initialised d" "quitting (echo s d) = quitting d" "stepFirst (echo s d) = stepFirst d"
  "termDirty (echo s d) = termDirty d" "interrupted (echo s d) = interrupted d" "dmode (echo s d) = dmode d"
  "stepsLeft (echo s d) = stepsLeft d" "fetchCount (echo s d) = fetchCount d" "dpc (echo s d) = dpc d"
  "bplist (echo s d) = bplist d" "syms (echo s d) = syms d" "console (echo s d) = console d @ s"
  "terminal (echo s d) = terminal d" "input (echo s d) = input d" "answers (echo s d) = answers d"
  "tkeys (echo s d) = tkeys d" "arrive (echo s d) = arrive d" "polls (echo s d) = polls d"
  "rx_opens (echo s d) = rx_opens d" "rx_file (echo s d) = rx_file d" "reset_req (echo s d) = reset_req d"
  "finished (echo s d) = finished d" "heap (echo s d) = heap d" "sim_regs (echo s d) = sim_regs d"
  "keyEnter (echo s d) = keyEnter d" "keyBackspace (echo s d) = keyBackspace d"
  by (simp_all add: echo_def)

lemma echo_echo [simp]: "echo t (echo s d) = echo (s @ t) d"
  by (simp add: echo_def)

lemma echo_nil [simp]: "echo [] d = d"
  by (simp add: echo_def)

lemma row_loop_echo: "\<exists>s. row_loop m a e off n d = echo s d"
proof (induction m a e off n d rule: row_loop.induct)
  case (1 m a e off d)
  then show ?case by (intro exI [of _ "[]"]) simp
next
  case (2 m a e off n d)
  show ?case
  proof (cases "a + word_of_nat off < a \<or> a + word_of_nat off > e")
    case True
    then show ?thesis by (intro exI [of _ "[]"]) (simp add: Let_def)
  next
    case False
    obtain s where "row_loop m a e (off + 1) n
        (case simReadMem (a + word_of_nat off) m of Some v \<Rightarrow> echo (fmt_X 2 (unat v) @ '' '') d | None \<Rightarrow> echo ''.. '' d)
      = echo s (case simReadMem (a + word_of_nat off) m of Some v \<Rightarrow> echo (fmt_X 2 (unat v) @ '' '') d | None \<Rightarrow> echo ''.. '' d)"
      using 2 [OF refl False] by blast
    then show ?thesis using False by (auto simp: Let_def split: option.splits)
  qed
qed

lemma show_loop_echo: "\<exists>s. show_loop m a e d = echo s d"
proof (induction m a e d rule: show_loop.induct)
  case (1 m a e d)
  let ?d = "echo NL (row_loop m a e 0 16 (echo (fmt_X 4 (unat a) @ '': '') d))"
  obtain s where s: "?d = echo s d"
    using row_loop_echo [of m a e 0 16 "echo (fmt_X 4 (unat a) @ '': '') d"] by auto
  show ?case
  proof (cases "unat e < 16 \<or> unat a > unat e - 16")
    case True
    then show ?thesis using s by (subst show_loop.simps) (auto simp: Let_def)
  next
    case False
    then show ?thesis using 1 [OF refl False] s by (subst show_loop.simps) (auto simp: Let_def)
  qed
qed

lemma show_checked_echo: "\<exists>s. show_checked m a e d = echo s d"
  using show_loop_echo by (auto simp: show_checked_def dbgShowMem_def)

lemma dis_loop_echo: "\<exists>s. dis_loop m n pc d = echo s d"
proof (induction n arbitrary: pc d)
  case 0
  show ?case by (intro exI [of _ "[]"]) simp
next
  case (Suc n)
  have "\<exists>s. dis_loop m n pc' (echo t d) = echo s d" for pc' t
    using Suc.IH [of pc' "echo t d"] by auto
  then show ?case by (simp add: show_instr_def)
qed

lemma fold_echo: "fold (\<lambda>i. echo (f i)) xs d = echo (concat (map f xs)) d"
  by (induction xs arbitrary: d) simp_all

lemma regs_echo: "\<exists>s. dbgPrintRegisters m d = echo s d"
  by (auto simp: dbgPrintRegisters_def Let_def fold_echo)

lemma disasm_cmd_echo: "\<exists>s. dbgDisasmInstr m toks d = echo s d"
  using dis_loop_echo by (auto simp: dbgDisasmInstr_def parse_err_def split: option.splits)

section \<open>Invariant\<close>

definition dbg_ok :: "dbg \<Rightarrow> bool" where
  "dbg_ok d \<longleftrightarrow> bps_ok (bplist d) \<and> symtab_ok (syms d) \<and> heap d"

lemma dbg_ok_echo [simp]: "dbg_ok (echo s d) = dbg_ok d"
  by (simp add: dbg_ok_def)

lemma dbg_ok_upd [simp]:
  "dbg_ok (d\<lparr>input := y1\<rparr>) = dbg_ok d" "dbg_ok (d\<lparr>answers := y2\<rparr>) = dbg_ok d" "dbg_ok (d\<lparr>dmode := y3\<rparr>) = dbg_ok d"
  "dbg_ok (d\<lparr>stepsLeft := y4\<rparr>) = dbg_ok d" "dbg_ok (d\<lparr>stepFirst := y5\<rparr>) = dbg_ok d" "dbg_ok (d\<lparr>interrupted := y6\<rparr>) = dbg_ok d"
  "dbg_ok (d\<lparr>termDirty := y7\<rparr>) = dbg_ok d" "dbg_ok (d\<lparr>quitting := y8\<rparr>) = dbg_ok d" "dbg_ok (d\<lparr>finished := y9\<rparr>) = dbg_ok d"
  "dbg_ok (d\<lparr>reset_req := y10\<rparr>) = dbg_ok d" "dbg_ok (d\<lparr>dpc := y11\<rparr>) = dbg_ok d" "dbg_ok (d\<lparr>fetchCount := y12\<rparr>) = dbg_ok d"
  "dbg_ok (d\<lparr>tkeys := y13\<rparr>) = dbg_ok d" "dbg_ok (d\<lparr>polls := y14\<rparr>) = dbg_ok d" "dbg_ok (d\<lparr>rx_file := y15\<rparr>) = dbg_ok d"
  "dbg_ok (d\<lparr>terminal := y16\<rparr>) = dbg_ok d" "dbg_ok (d\<lparr>initialised := y17\<rparr>) = dbg_ok d"
  by (simp_all add: dbg_ok_def)

lemma set_bp_ok:
  assumes "dbg_ok d"
  shows "\<exists>b. set_bp a nm d = Some (d\<lparr>bplist := b\<rparr>) \<and> bps_ok b \<and>
    entries b = entries (bplist d) @ [\<lparr>address = a, symbol = map_option (take 31) nm\<rparr>]"
  using bl.set_law [of "bplist d" a nm] assms by (auto simp: dbg_ok_def set_bp_def)

lemma remove_bp_ok:
  assumes "dbg_ok d"
  shows "\<exists>b s. remove_bp a w d = Some (echo s (d\<lparr>bplist := b\<rparr>)) \<and> bps_ok b \<and>
    entries b = filter (\<lambda>e. address e \<noteq> a) (entries (bplist d))"
proof -
  obtain r b where b: "dbgRmvBp a (bplist d) = Some (r, b)" "bps_ok b" "entries b = filter (\<lambda>e. address e \<noteq> a) (entries (bplist d))"
    using bl.rmv_law [of "bplist d" a] assms by (auto simp: dbg_ok_def)
  then show ?thesis by (intro exI [of _ b] exI) (simp add: remove_bp_def)
qed

lemma add_bp_ok:
  assumes "dbg_ok d"
  shows "\<exists>d'. dbgAddBp toks d = Some d' \<and> dbg_ok d' \<and> input d' = input d"
proof -
  have "\<exists>d'. set_bp a nm (echo s d) = Some d' \<and> dbg_ok d' \<and> input d' = input d" for a nm s
    using set_bp_ok [of "echo s d" a nm] assms by (auto simp: dbg_ok_def)
  then show ?thesis using assms by (auto simp: dbgAddBp_def Let_def split: option.splits)
qed

lemma rmv_cmd_ok:
  assumes "dbg_ok d"
  shows "\<exists>d'. dbgRemoveBreakpoint toks d = Some d' \<and> dbg_ok d' \<and> input d' = input d"
proof -
  have "\<exists>d'. remove_bp a w d = Some d' \<and> dbg_ok d' \<and> input d' = input d" for a w
    using remove_bp_ok [OF assms, of a w] assms by (auto simp: dbg_ok_def)
  then show ?thesis using assms by (auto simp: dbgRemoveBreakpoint_def split: option.splits)
qed

lemma list_loop_ok:
  assumes "bps_ok (bplist d)" "i + n \<le> nofBps (bplist d)"
  shows "\<exists>s. list_loop m i n d = Some (echo s d)"
  using assms
proof (induction n arbitrary: i d)
  case 0
  show ?case by (intro exI [of _ "[]"]) simp
next
  case (Suc n)
  then have c: "cell (bplist d) i = Some (entries (bplist d) ! i)" by (intro cell_entry) simp_all
  have "\<exists>s. list_loop m (i + 1) n (echo t d) = Some (echo s d)" for t
    using Suc.IH [of "echo t d" "i + 1"] Suc.prems by auto
  then show ?case using c by simp
qed

lemma list_cmd_ok: "dbg_ok d \<Longrightarrow> \<exists>s. dbgListBps m d = Some (echo s d)"
  using list_loop_ok [of d 0 "nofBps (bplist d)" m] by (auto simp: dbgListBps_def dbg_ok_def)

lemma read_hex_ok:
  assumes "input d = l # ls"
  shows "\<exists>r s. dbgReadHexU16 d = Some (r, echo s (d\<lparr>input := ls\<rparr>))"
  using assms by (auto simp: dbgReadHexU16_def dbgConsoleGetCmd_def split: option.splits)

lemma ask_end_ok:
  assumes "input d = l # ls"
  shows "\<exists>s. ask_end m a d = Some (echo s (d\<lparr>input := ls\<rparr>))"
proof -
  obtain r s where r: "dbgReadHexU16 (echo ''Give the ending address in hex [0x...]: '' d) = Some (r, echo s (d\<lparr>input := ls\<rparr>))"
    using read_hex_ok [of "echo ''Give the ending address in hex [0x...]: '' d" l ls] assms by (auto simp: echo_def)
  then show ?thesis using show_checked_echo [of m a _ "echo s (d\<lparr>input := ls\<rparr>)"]
    by (cases r) (auto simp: ask_end_def)
qed

lemma mem_cmd_ok:
  assumes "input d = l1 # l2 # ls"
  shows "\<exists>s ins. dbgPrintMemRange m toks d = Some (echo s (d\<lparr>input := ins\<rparr>)) \<and> ins \<in> {l1 # l2 # ls, l2 # ls, ls}"
proof -
  have same: "d = echo [] (d\<lparr>input := l1 # l2 # ls\<rparr>)" using assms by simp
  consider (none) "length toks < 2" | (one) "length toks = 2" | (both) "2 < length toks" by linarith
  then show ?thesis
  proof cases
    case none
    let ?q = "echo ''Give the starting address in hex [0x...]: '' d"
    obtain r s where r: "dbgReadHexU16 ?q = Some (r, echo s (?q\<lparr>input := l2 # ls\<rparr>))"
      using read_hex_ok [of ?q l1 "l2 # ls"] assms by auto
    let ?d = "echo s (?q\<lparr>input := l2 # ls\<rparr>)"
    have q: "echo t (?q\<lparr>input := i\<rparr>) = echo (''Give the starting address in hex [0x...]: '' @ t) (d\<lparr>input := i\<rparr>)" for t i
      by (simp add: echo_def)
    show ?thesis
    proof (cases r)
      case None
      have "dbgPrintMemRange m toks d = Some (echo s (?q\<lparr>input := l2 # ls\<rparr>))" using none r None by (simp add: dbgPrintMemRange_def)
      also note q
      finally show ?thesis by blast
    next
      case (Some a)
      have "dbgPrintMemRange m toks d = ask_end m a ?d" using none r Some by (simp add: dbgPrintMemRange_def)
      also obtain t where "ask_end m a ?d = Some (echo t (?d\<lparr>input := ls\<rparr>))" using ask_end_ok [of ?d l2 ls] by auto
      also have "echo t (?d\<lparr>input := ls\<rparr>) = echo (s @ t) (?q\<lparr>input := ls\<rparr>)" by (simp add: echo_def)
      also note q
      finally show ?thesis by blast
    qed
  next
    case one
    show ?thesis
    proof (cases "arg_addr (toks ! 1)")
      case None
      then have "dbgPrintMemRange m toks d = Some (echo (''Invalid hex number'' @ NL) (d\<lparr>input := l1 # l2 # ls\<rparr>))"
        using one assms by (simp add: dbgPrintMemRange_def)
      then show ?thesis by blast
    next
      case (Some a)
      then have "dbgPrintMemRange m toks d = ask_end m a d" using one by (simp add: dbgPrintMemRange_def)
      then show ?thesis using ask_end_ok [OF assms, of m a] by auto
    qed
  next
    case both
    have "\<exists>s. dbgPrintMemRange m toks d = Some (echo s d)"
      using both show_checked_echo by (auto simp: dbgPrintMemRange_def split: option.splits)
    then obtain s where s: "dbgPrintMemRange m toks d = Some (echo s d)" by blast
    have "d = d\<lparr>input := l1 # l2 # ls\<rparr>" using same by simp
    then have "echo s d = echo s (d\<lparr>input := l1 # l2 # ls\<rparr>)" by (rule arg_cong)
    with s show ?thesis by auto
  qed
qed

lemma run_command_ok:
  assumes "dbg_ok d" "2 \<le> length (input d)"
  shows "\<exists>d' k. run_command m toks d = Some d' \<and> dbg_ok d' \<and> k \<le> 2 \<and> input d' = drop k (input d)"
proof -
  have view: ?thesis if "run_command m toks d = Some d'" "dbg_ok d'" "input d' = input d" for d'
    using that by (intro exI [of _ d'] exI [of _ 0]) simp
  obtain l1 l2 ls where i: "input d = l1 # l2 # ls" using assms(2) by (auto simp: Suc_le_length_iff numeral_2_eq_2)
  show ?thesis
  proof (cases "dbgParseCommand (toks ! 0)")
    case CMD_BREAKPOINT
    then show ?thesis using add_bp_ok [OF assms(1), of toks] view by (auto simp: run_command_def)
  next
    case CMD_REMOVEBP
    then show ?thesis using rmv_cmd_ok [OF assms(1), of toks] view by (auto simp: run_command_def)
  next
    case CMD_LISTBREAKPOINTS
    then obtain s where "run_command m toks d = Some (echo s d)" using list_cmd_ok [OF assms(1), of m] by (auto simp: run_command_def)
    then show ?thesis using view [of "echo s d"] assms(1) by simp
  next
    case CMD_MEMORY
    obtain s ins where r: "dbgPrintMemRange m toks d = Some (echo s (d\<lparr>input := ins\<rparr>))" "ins \<in> {l1 # l2 # ls, l2 # ls, ls}"
      using mem_cmd_ok [OF i, of m toks] by blast
    then have "\<exists>k \<le> 2. ins = drop k (input d)"
      using i by (elim insertE emptyE) (auto intro: exI [of _ 0] exI [of _ 1] exI [of _ 2])
    then show ?thesis using r assms(1) CMD_MEMORY by (auto simp: run_command_def)
  next
    case CMD_DISASSEMBLE
    obtain s where "dbgDisasmInstr m toks d = echo s d" using disasm_cmd_echo by blast
    then show ?thesis using CMD_DISASSEMBLE view [of "echo s d"] assms(1) by (simp add: run_command_def)
  next
    case CMD_REGISTERS
    obtain s where "dbgPrintRegisters m d = echo s d" using regs_echo by blast
    then show ?thesis using CMD_REGISTERS view [of "echo s d"] assms(1) by (simp add: run_command_def)
  next
    case CMD_STEP
    have "dbg_ok (dbgStep6502 toks d) \<and> input (dbgStep6502 toks d) = input d"
      using assms(1) by (auto simp: dbgStep6502_def Let_def parse_err_def split: option.splits)
    then show ?thesis using CMD_STEP view by (simp add: run_command_def)
  next
    case CMD_CONTINUE
    then show ?thesis using view [of "dbgRunDbgCont d"] assms(1) by (simp add: run_command_def dbgRunDbgCont_def)
  next
    case CMD_RESET
    then show ?thesis using view [of "dbgResetMachine d"] assms(1) by (simp add: run_command_def dbgResetMachine_def)
  next
    case CMD_HELP
    then show ?thesis using view [of "dbgDisplayHelp d"] assms(1) by (simp add: run_command_def dbgDisplayHelp_def)
  next
    case CMD_QUIT
    then show ?thesis using view [OF _] assms(1) by (simp add: run_command_def)
  next
    case CMD_LOADSRC
    then show ?thesis using view [OF _] assms(1) by (simp add: run_command_def)
  next
    case CMD_INVALIDCMD
    then show ?thesis using view [OF _] assms(1) by (simp add: run_command_def)
  next
    case CMD_LOADSYMS
    then show ?thesis using view [OF _] assms(1) by (simp add: run_command_def)
  qed
qed

section \<open>The command loop returns\<close>

lemma get_cmd: "input d = l # ls \<Longrightarrow> dbgConsoleGetCmd n d = Some (take (n - 1) l, echo ''>>'' (d\<lparr>input := ls\<rparr>))"
  by (simp add: dbgConsoleGetCmd_def)

lemma loop_done: "dmode d \<noteq> DBG_STOPPED \<Longrightarrow> command_loop m d = Some d"
  by (subst command_loop.simps) simp

lemma loop_line:
  assumes "dmode d = DBG_STOPPED" "input d = l # ls" "length l \<le> 99"
  shows "command_loop m d =
    (let d' = echo ''>>'' (d\<lparr>input := ls\<rparr>); toks = dbgGetCmdTokens l 10 in
     if l = [] \<or> hd l = CHR 0x0A \<or> toks = [] then command_loop m d'
     else do { d' \<leftarrow> run_command m toks d'; command_loop m d' })"
  using assms by (subst command_loop.simps) (auto simp: get_cmd Let_def)

lemma loop_cmd:
  assumes "dmode d = DBG_STOPPED" "input d = l # ls" "length l \<le> 99" "l \<noteq> []" "hd l \<noteq> CHR 0x0A"
    "dbgGetCmdTokens l 10 = toks" "toks \<noteq> []" "run_command m toks (echo ''>>'' (d\<lparr>input := ls\<rparr>)) = Some d'"
  shows "command_loop m d = command_loop m d'"
  using assms by (simp add: loop_line Let_def)

lemma tok_c: "dbgGetCmdTokens ''c'' 10 = [''c'']" "dbgParseCommand ''c'' = CMD_CONTINUE"
  by code_simp+

lemma loop_c:
  assumes "dmode d = DBG_STOPPED" "input d = ''c'' # ls"
  shows "command_loop m d = Some (dbgRunDbgCont (echo ''>>'' (d\<lparr>input := ls\<rparr>)))"
proof -
  have "run_command m [''c''] (echo ''>>'' (d\<lparr>input := ls\<rparr>)) = Some (dbgRunDbgCont (echo ''>>'' (d\<lparr>input := ls\<rparr>)))"
    by (simp add: run_command_def tok_c)
  from loop_cmd [OF assms _ _ _ tok_c(1) _ this] show ?thesis
    by (simp add: loop_done dbgRunDbgCont_def)
qed

lemma loop_resumes:
  assumes "dbg_ok d" "input d = ls @ replicate j ''c'' @ rest" "1 \<le> j" "ls = [] \<or> 3 \<le> j"
    "\<forall>l \<in> set ls. length l \<le> 99"
  shows "\<exists>d'. command_loop m d = Some d' \<and> dbg_ok d' \<and> dmode d' \<noteq> DBG_STOPPED"
  using assms
proof (induction "length ls" arbitrary: d ls j rule: less_induct)
  case less
  consider (running) "dmode d \<noteq> DBG_STOPPED" | (c) "dmode d = DBG_STOPPED" "ls = []"
    | (line) l ls' where "dmode d = DBG_STOPPED" "ls = l # ls'" by (cases ls) auto
  then show ?case
  proof cases
    case running
    then show ?thesis using less.prems(1) loop_done by blast
  next
    case c
    then obtain k where "input d = ''c'' # replicate k ''c'' @ rest" using less.prems(2,3) by (cases j) auto
    from loop_c [OF c(1) this] show ?thesis using less.prems(1) by (simp add: dbgRunDbgCont_def)
  next
    case line
    let ?t = "replicate j ''c'' @ rest"
    let ?d = "echo ''>>'' (d\<lparr>input := ls' @ ?t\<rparr>)"
    have j: "3 \<le> j" and i: "input d = l # ls' @ ?t" and l: "length l \<le> 99" "\<forall>l \<in> set ls'. length l \<le> 99"
      using less.prems line by auto
    note eq = loop_line [OF line(1) i l(1), of m]
    show ?thesis
    proof (cases "l = [] \<or> hd l = CHR 0x0A \<or> dbgGetCmdTokens l 10 = []")
      case True
      then have "command_loop m d = command_loop m ?d" using eq by (auto simp: Let_def)
      then show ?thesis using less.hyps [of ls' ?d j] less.prems(1) line(2) j l(2) by auto
    next
      case False
      have "2 \<le> length (input ?d)" using j by simp
      from run_command_ok [OF _ this, of m "dbgGetCmdTokens l 10"] less.prems(1)
      obtain d' k where d': "run_command m (dbgGetCmdTokens l 10) ?d = Some d'" "dbg_ok d'" "k \<le> 2"
          "input d' = drop k (ls' @ ?t)" by auto
      have "command_loop m d = command_loop m d'" using eq False d'(1) by (simp add: Let_def)
      moreover have "\<exists>d''. command_loop m d' = Some d'' \<and> dbg_ok d'' \<and> dmode d'' \<noteq> DBG_STOPPED"
      proof (cases "k \<le> length ls'")
        case True
        then have "input d' = drop k ls' @ ?t" using d'(4) by simp
        moreover have "\<forall>l \<in> set (drop k ls'). length l \<le> 99" using l(2) by (meson in_set_dropD)
        ultimately show ?thesis using less.hyps [of "drop k ls'" d' j] d'(2) j line(2) by simp
      next
        case k: False
        let ?k = "k - length ls'"
        have "?k \<le> 2" using d'(3) by simp
        then have "input d' = [] @ replicate (j - ?k) ''c'' @ rest" using d'(4) k j by simp
        then show ?thesis using less.hyps [of "[]" d' "j - ?k"] d'(2) j line(2) \<open>?k \<le> 2\<close> by auto
      qed
      ultimately show ?thesis by simp
    qed
  qed
qed

end
