(* ===== verification/Runs.thy ===== *)
theory Runs
  imports Session
begin

text \<open>
  Debugging sessions as sequences of instruction fetches: stepping, running to a breakpoint,
  interrupting with Ctrl-C and quitting.
\<close>

section \<open>Sequences of fetches\<close>

type_synonym fetch = "machine \<times> u16 \<times> u8"  \<comment> \<open>the machine, the address and the opcode fetched\<close>

fun run_fetches :: "fetch list \<Rightarrow> dbg \<Rightarrow> dbg option" where
  "run_fetches [] d = Some d"
| "run_fetches ((m, pc, opcode) # fs) d = do { d \<leftarrow> dbgOnFetch m pc opcode d; run_fetches fs d }"

definition at_fetch :: "u16 \<Rightarrow> dbg \<Rightarrow> dbg" where
  "at_fetch pc d = d\<lparr>dpc := pc, fetchCount := fetchCount d + 1\<rparr>"

definition live :: "runmode_t \<Rightarrow> dbg \<Rightarrow> bool" where
  "live rm d \<longleftrightarrow> dbg_ok d \<and> initialised d \<and> \<not> quitting d \<and> dmode d = rm"

lemma at_fetch_fields [simp]:
  "dmode (at_fetch pc d) = dmode d" "bplist (at_fetch pc d) = bplist d" "input (at_fetch pc d) = input d"
  "stepsLeft (at_fetch pc d) = stepsLeft d" "stepFirst (at_fetch pc d) = stepFirst d" "dpc (at_fetch pc d) = pc"
  "fetchCount (at_fetch pc d) = fetchCount d + 1" "dbg_ok (at_fetch pc d) = dbg_ok d" "initialised (at_fetch pc d) = initialised d"
  "quitting (at_fetch pc d) = quitting d" "interrupted (at_fetch pc d) = interrupted d" "tkeys (at_fetch pc d) = tkeys d"
  "arrive (at_fetch pc d) = arrive d" "polls (at_fetch pc d) = polls d" "console (at_fetch pc d) = console d"
  by (simp_all add: at_fetch_def)

lemma onfetch:
  "initialised d \<Longrightarrow> \<not> quitting d \<Longrightarrow> dbgOnFetch m pc opcode d = do {
     (stop, d) \<leftarrow> dbgShouldStop m opcode (at_fetch pc d);
     if \<not> stop then Some d
     else do {
       d \<leftarrow> dbgCommandLoop m d;
       if dmode d = DBG_STEPPING \<and> stepsLeft d > 0 then dbgEchoStep m d else Some d
     }
   }"
  by (simp add: dbgOnFetch_def at_fetch_def)

lemma run_append: "run_fetches (fs @ gs) d = do { d \<leftarrow> run_fetches fs d; run_fetches gs d }"
  by (induction fs d rule: run_fetches.induct) (auto split: bind_splits)

lemma bp_none:
  assumes "dbg_ok d" "\<forall>e \<in> set (entries (bplist d)). address e \<noteq> pc"
  shows "dbgCheckIfAtBp pc 0 (bplist d) = Some None"
  using bl.at_exact [of "bplist d" pc] assms by (simp add: dbg_ok_def first_at_None)

lemma bp_some:
  assumes "dbg_ok d" "e \<in> set (entries (bplist d))" "address e = pc"
  shows "\<exists>i e'. dbgCheckIfAtBp pc 0 (bplist d) = Some (Some i) \<and> cell (bplist d) i = Some e' \<and> address e' = pc"
proof -
  have ok: "bps_ok (bplist d)" using assms(1) by (simp add: dbg_ok_def)
  obtain i where i: "first_at (\<lambda>e. address e = pc) (entries (bplist d)) = Some i"
    using assms(2,3) first_at_None [of "\<lambda>e. address e = pc" "entries (bplist d)"] by fastforce
  then have "i < nofBps (bplist d)" "address (entries (bplist d) ! i) = pc"
    using length_entries [OF ok] by (auto simp: first_at_Some)
  then show ?thesis using bl.at_exact [OF ok, of pc] cell_entry [OF ok] i by auto
qed

lemma echo_push [dbg_simps]:
  "(echo s d)\<lparr>stepsLeft := n\<rparr> = echo s (d\<lparr>stepsLeft := n\<rparr>)" "(echo s d)\<lparr>stepFirst := b\<rparr> = echo s (d\<lparr>stepFirst := b\<rparr>)"
  "(echo s d)\<lparr>dmode := rm\<rparr> = echo s (d\<lparr>dmode := rm\<rparr>)" "(echo s d)\<lparr>bplist := bs\<rparr> = echo s (d\<lparr>bplist := bs\<rparr>)"
  "(echo s d)\<lparr>input := ls\<rparr> = echo s (d\<lparr>input := ls\<rparr>)" "(echo s d)\<lparr>interrupted := i\<rparr> = echo s (d\<lparr>interrupted := i\<rparr>)"
  by (simp_all add: echo_def)

lemma echo_step_ok:
  assumes "dbg_ok d"
  shows "\<exists>s. dbgEchoStep m d = Some (echo s (d\<lparr>stepFirst := False, stepsLeft := stepsLeft d - 1\<rparr>))"
proof -
  obtain hit where "dbgCheckIfAtBp (dpc d) 0 (bplist d) = Some hit"
    using bl.at_law assms by (auto simp: dbg_ok_def)
  then show ?thesis by (auto simp: dbgEchoStep_def show_instr_def dbg_simps Let_def)
qed

section \<open>Stepping\<close>

definition step_quiet :: "dbg \<Rightarrow> fetch \<Rightarrow> bool" where
  "step_quiet d f \<longleftrightarrow> (case f of (m, pc, opcode) \<Rightarrow>
     opcode \<noteq> 0xDB \<and> dbgCheckIfAtBp pc (snd (disasm m pc)) (bplist d) = Some None)"

lemma step_fetch:
  assumes "live DBG_STEPPING d" "0 < stepsLeft d" "step_quiet d (m, pc, opcode)"
  shows "\<exists>s. dbgOnFetch m pc opcode d = Some (echo s ((at_fetch pc d)\<lparr>stepFirst := False, stepsLeft := stepsLeft d - 1\<rparr>))"
proof -
  obtain s where "dbgEchoStep m (at_fetch pc d) = Some (echo s ((at_fetch pc d)\<lparr>stepFirst := False, stepsLeft := stepsLeft d - 1\<rparr>))"
    using echo_step_ok [of "at_fetch pc d" m] assms(1) by (auto simp: live_def)
  then have "dbgShouldStop m opcode (at_fetch pc d) =
      Some (False, echo s ((at_fetch pc d)\<lparr>stepFirst := False, stepsLeft := stepsLeft d - 1\<rparr>))"
    using assms by (simp add: dbgShouldStop_def should_stop_stepping_def live_def step_quiet_def)
  then show ?thesis using assms(1) by (auto simp: onfetch live_def)
qed

lemma step_run:
  assumes "live DBG_STEPPING d" "int (length fs) \<le> stepsLeft d" "\<forall>f \<in> set fs. step_quiet d f"
  shows "\<exists>d'. run_fetches fs d = Some d' \<and> live DBG_STEPPING d' \<and> stepsLeft d' = stepsLeft d - int (length fs) \<and>
    input d' = input d \<and> bplist d' = bplist d"
  using assms
proof (induction fs arbitrary: d)
  case (Cons f fs)
  obtain m pc opcode where f: "f = (m, pc, opcode)" by (cases f)
  obtain s where s: "dbgOnFetch m pc opcode d = Some (echo s ((at_fetch pc d)\<lparr>stepFirst := False, stepsLeft := stepsLeft d - 1\<rparr>))"
    using step_fetch [of d m pc opcode] Cons.prems f by auto
  let ?d = "echo s ((at_fetch pc d)\<lparr>stepFirst := False, stepsLeft := stepsLeft d - 1\<rparr>)"
  have "live DBG_STEPPING ?d" "int (length fs) \<le> stepsLeft ?d" "\<forall>f \<in> set fs. step_quiet ?d f"
    using Cons.prems by (simp_all add: live_def step_quiet_def)
  from Cons.IH [OF this] show ?case using s f by auto
qed simp

lemma step_end:
  assumes "live DBG_STEPPING d" "stepsLeft d = 0" "opcode \<noteq> 0xDB"
  shows "dbgShouldStop m opcode (at_fetch pc d) = Some (True, (at_fetch pc d)\<lparr>dmode := DBG_STOPPED\<rparr>)"
  using assms by (simp add: dbgShouldStop_def should_stop_stepping_def live_def)

section \<open>Running\<close>

definition run_quiet :: "dbg \<Rightarrow> fetch \<Rightarrow> bool" where
  "run_quiet d f \<longleftrightarrow> (case f of (m, pc, opcode) \<Rightarrow> opcode \<noteq> 0xDB \<and> (\<forall>e \<in> set (entries (bplist d)). address e \<noteq> pc))"

definition no_keys :: "dbg \<Rightarrow> bool" where
  "no_keys d \<longleftrightarrow> tkeys d = [] \<and> arrive d = (\<lambda>_. []) \<and> \<not> interrupted d"

lemma poll_no_keys:
  assumes "no_keys d"
  shows "dbgPollTerminal d = d\<lparr>polls := polls d + 1, termDirty := False\<rparr>"
  using assms by (simp add: dbgPollTerminal_def no_keys_def)

lemma run_fetch:
  assumes "live DBG_RUNNING d" "no_keys d" "run_quiet d (m, pc, opcode)"
  shows "\<exists>d'. dbgOnFetch m pc opcode d = Some d' \<and> live DBG_RUNNING d' \<and> no_keys d' \<and> bplist d' = bplist d \<and>
    input d' = input d \<and> console d' = console d"
proof -
  let ?a = "at_fetch pc d"
  let ?d = "if unat (fetchCount ?a) mod 512 = 0 then dbgPollTerminal ?a else ?a"
  have k: "no_keys ?a" using assms(2) by (simp add: no_keys_def)
  have d: "live DBG_RUNNING ?d" "no_keys ?d" "bplist ?d = bplist d" "input ?d = input d" "console ?d = console d" "dpc ?d = pc"
    using assms(1,2) by (auto simp: poll_no_keys [OF k] live_def no_keys_def)
  have "dbgCheckIfAtBp pc 0 (bplist ?d) = Some None"
    by (rule bp_none) (use d assms(3) in \<open>auto simp: live_def run_quiet_def\<close>)
  then have "should_stop_running m ?a = Some (False, ?d)"
    using d(2,6) unfolding should_stop_running_def Let_def by (simp add: no_keys_def)
  then have "dbgShouldStop m opcode ?a = Some (False, ?d)"
    using assms by (simp add: dbgShouldStop_def live_def run_quiet_def)
  then show ?thesis using assms(1) d by (simp add: onfetch live_def)
qed

lemma run_run:
  assumes "live DBG_RUNNING d" "no_keys d" "\<forall>f \<in> set fs. run_quiet d f"
  shows "\<exists>d'. run_fetches fs d = Some d' \<and> live DBG_RUNNING d' \<and> no_keys d' \<and> bplist d' = bplist d \<and>
    input d' = input d \<and> console d' = console d"
  using assms
proof (induction fs arbitrary: d)
  case (Cons f fs)
  obtain m pc opcode where f: "f = (m, pc, opcode)" by (cases f)
  obtain d1 where d1: "dbgOnFetch m pc opcode d = Some d1" "live DBG_RUNNING d1" "no_keys d1" "bplist d1 = bplist d"
      "input d1 = input d" "console d1 = console d"
    using run_fetch [of d m pc opcode] Cons.prems f by auto
  have "\<forall>f \<in> set fs. run_quiet d1 f" using Cons.prems(3) d1(4) by (simp add: run_quiet_def)
  from Cons.IH [OF d1(2,3) this] show ?case using d1 f by auto
qed simp

lemma run_stops:
  assumes "live DBG_RUNNING d" "no_keys d" "opcode \<noteq> 0xDB" "e \<in> set (entries (bplist d))" "address e = pc"
  shows "\<exists>d'. dbgShouldStop m opcode (at_fetch pc d) = Some (True, d') \<and> dmode d' = DBG_STOPPED \<and> input d' = input d"
proof -
  let ?a = "at_fetch pc d"
  let ?d = "if unat (fetchCount ?a) mod 512 = 0 then dbgPollTerminal ?a else ?a"
  have k: "no_keys ?a" using assms(2) by (simp add: no_keys_def)
  have d: "dbg_ok ?d" "\<not> interrupted ?d" "bplist ?d = bplist d" "input ?d = input d" "dpc ?d = pc"
    using assms(1,2) by (auto simp: poll_no_keys [OF k] live_def no_keys_def)
  obtain i e' where i: "dbgCheckIfAtBp pc 0 (bplist ?d) = Some (Some i)" "cell (bplist ?d) i = Some e'"
    using bp_some [of ?d e pc] d assms(4,5) by auto
  have bk: "dmode (dbgBackIntoDebugger x) = DBG_STOPPED" "input (dbgBackIntoDebugger x) = input x" for x
    by (simp_all add: dbgBackIntoDebugger_def)
  show ?thesis
    using assms(1,3) d i unfolding dbgShouldStop_def should_stop_running_def Let_def
    by (simp add: live_def bk)
qed

section \<open>Ctrl-C\<close>

lemma count_step: "unat (c + 1 :: u32) mod 512 = (unat c + 1) mod 512"
  by (simp add: unat_word_ariths mod_mod_cancel)

lemma fetch_no_poll:
  assumes "live DBG_RUNNING d" "\<not> interrupted d" "run_quiet d (m, pc, opcode)" "unat (fetchCount d) mod 512 < 511"
  shows "dbgOnFetch m pc opcode d = Some (at_fetch pc d)"
proof -
  have "(unat (fetchCount d) + 1) mod 512 = unat (fetchCount d) mod 512 + 1"
    using assms(4) by (simp add: mod_Suc)
  then have "unat (fetchCount d + 1) mod 512 \<noteq> 0" by (simp add: count_step)
  moreover have "dbgCheckIfAtBp pc 0 (bplist d) = Some None"
    by (rule bp_none) (use assms in \<open>auto simp: live_def run_quiet_def\<close>)
  ultimately have "dbgShouldStop m opcode (at_fetch pc d) = Some (False, at_fetch pc d)"
    using assms by (simp add: dbgShouldStop_def should_stop_running_def live_def run_quiet_def Let_def)
  then show ?thesis using assms(1) by (simp add: onfetch live_def)
qed

lemma run_no_poll:
  assumes "live DBG_RUNNING d" "\<not> interrupted d" "\<forall>f \<in> set fs. run_quiet d f" "unat (fetchCount d) mod 512 + length fs \<le> 511"
  shows "\<exists>d'. run_fetches fs d = Some d' \<and> live DBG_RUNNING d' \<and> \<not> interrupted d' \<and> bplist d' = bplist d \<and>
    tkeys d' = tkeys d \<and> arrive d' = arrive d \<and> polls d' = polls d \<and> input d' = input d \<and>
    rx_file d' = rx_file d \<and> rx_opens d' = rx_opens d \<and>
    keyEnter d' = keyEnter d \<and> keyBackspace d' = keyBackspace d \<and>
    unat (fetchCount d') mod 512 = unat (fetchCount d) mod 512 + length fs"
  using assms
proof (induction fs arbitrary: d)
  case (Cons f fs)
  obtain m pc opcode where f: "f = (m, pc, opcode)" by (cases f)
  let ?d = "at_fetch pc d"
  have lt: "unat (fetchCount d) mod 512 < 511" using Cons.prems(4) by simp
  have "dbgOnFetch m pc opcode d = Some ?d"
    using fetch_no_poll [of d m pc opcode] Cons.prems lt f by simp
  moreover have c: "unat (fetchCount ?d) mod 512 = unat (fetchCount d) mod 512 + 1"
    using lt by (simp add: count_step mod_Suc)
  have "live DBG_RUNNING ?d" "\<not> interrupted ?d" "\<forall>f \<in> set fs. run_quiet ?d f"
      "unat (fetchCount ?d) mod 512 + length fs \<le> 511"
    using Cons.prems c by (simp_all add: live_def run_quiet_def)
  from Cons.IH [OF this] show ?case
    using calculation c f by (auto simp: at_fetch_def)
qed simp

lemma send_fields [simp]:
  "interrupted (dbgSendKey k d) = interrupted d" "bplist (dbgSendKey k d) = bplist d" "dmode (dbgSendKey k d) = dmode d"
  "input (dbgSendKey k d) = input d" "dpc (dbgSendKey k d) = dpc d" "rx_opens (dbgSendKey k d) = rx_opens d"
  "keyEnter (dbgSendKey k d) = keyEnter d" "keyBackspace (dbgSendKey k d) = keyBackspace d"
  "dbg_ok (dbgSendKey k d) = dbg_ok d"
  by (auto simp: dbgSendKey_def split: option.splits)

definition sent :: "int \<Rightarrow> int \<Rightarrow> int list \<Rightarrow> nat list" where
  "sent enter bs ks = List.map_filter (key_code enter bs) ks"

lemma poll_loop_ctrl_c:
  assumes "DBG_KEY_CTRL_C \<in> set ks"
  shows "interrupted (poll_loop ks d) \<and> dmode (poll_loop ks d) = dmode d \<and> bplist (poll_loop ks d) = bplist d \<and>
    input (poll_loop ks d) = input d \<and> dpc (poll_loop ks d) = dpc d \<and> dbg_ok (poll_loop ks d) = dbg_ok d \<and>
    (rx_opens d \<longrightarrow> rx_file (poll_loop ks d) = rx_file d @ sent (keyEnter d) (keyBackspace d) (takeWhile (\<lambda>k. k \<noteq> DBG_KEY_CTRL_C) ks))"
  using assms
proof (induction ks arbitrary: d)
  case (Cons k ks)
  show ?case
  proof (cases "k = DBG_KEY_CTRL_C")
    case True
    then show ?thesis by (simp add: sent_def)
  next
    case False
    then have "DBG_KEY_CTRL_C \<in> set ks" using Cons.prems by simp
    from Cons.IH [OF this, of "dbgSendKey k d"] False show ?thesis
      by (auto simp: sent_def dbgSendKey_def map_filter_simps split: option.splits)
  qed
qed simp

lemma interrupt_stops:
  assumes "live DBG_RUNNING d" "unat (fetchCount d) mod 512 = 511" "DBG_KEY_CTRL_C \<in> set (tkeys d @ arrive d (polls d))"
    "opcode \<noteq> 0xDB"
  shows "\<exists>d'. dbgShouldStop m opcode (at_fetch pc d) = Some (True, d') \<and> dmode d' = DBG_STOPPED \<and> \<not> interrupted d' \<and>
    (rx_opens d \<longrightarrow> rx_file d' = rx_file d @ sent (keyEnter d) (keyBackspace d)
       (takeWhile (\<lambda>k. k \<noteq> DBG_KEY_CTRL_C) (tkeys d @ arrive d (polls d))))"
proof -
  let ?a = "at_fetch pc d" and ?ks = "tkeys d @ arrive d (polls d)"
  have z: "unat (fetchCount ?a) mod 512 = 0" using assms(2) by (simp add: count_step mod_Suc)
  let ?p = "dbgPollTerminal ?a"
  have f: "rx_opens ?a = rx_opens d" "rx_file ?a = rx_file d" "keyEnter ?a = keyEnter d" "keyBackspace ?a = keyBackspace d"
    by (simp_all add: at_fetch_def)
  have p: "interrupted ?p" "rx_opens d \<longrightarrow> rx_file ?p = rx_file d @ sent (keyEnter d) (keyBackspace d) (takeWhile (\<lambda>k. k \<noteq> DBG_KEY_CTRL_C) ?ks)"
    using poll_loop_ctrl_c [OF assms(3), of "?a\<lparr>polls := polls ?a + 1\<rparr>"] by (simp_all add: dbgPollTerminal_def Let_def f)
  have bk: "dmode (dbgBackIntoDebugger x) = DBG_STOPPED" "interrupted (dbgBackIntoDebugger x) = interrupted x"
      "rx_file (dbgBackIntoDebugger x) = rx_file x" for x
    by (simp_all add: dbgBackIntoDebugger_def)
  have "dbgShouldStop m opcode ?a = should_stop_running m ?a"
    using assms(1,4) by (simp add: dbgShouldStop_def live_def)
  then show ?thesis using z p unfolding should_stop_running_def Let_def by (simp add: bk)
qed

section \<open>Typed commands\<close>

lemma digits_length:
  assumes "2 \<le> b" "n < b ^ k" "1 \<le> k"
  shows "length (digits ds b n) \<le> k"
  using assms(2,3)
proof (induction k arbitrary: n)
  case (Suc k)
  show ?case
  proof (cases "n < b")
    case True
    then show ?thesis by (subst digits.simps) simp
  next
    case False
    then have k: "1 \<le> k" using Suc.prems by (cases k) auto
    have "n div b < b ^ k" using Suc.prems(1) by (simp add: less_mult_imp_div_less mult.commute)
    then have "length (digits ds b (n div b)) \<le> k" using Suc.IH k by simp
    then show ?thesis using False by (subst digits.simps) simp
  qed
qed simp

lemma token_digits:
  assumes "list_all (\<lambda>c. \<not> is_delim c) ds" "2 \<le> b" "b \<le> length ds"
  shows "token (digits ds b n)"
  using assms digits_all [of ds "\<lambda>c. \<not> is_delim c" b _ n] by (auto simp: token_def list_all_iff)

lemma token_prefix: "\<forall>c \<in> set p. \<not> is_delim c \<Longrightarrow> token w \<Longrightarrow> token (p @ w)"
  by (auto simp: token_def)

lemma two_tokens:
  assumes "token c" "token w"
  shows "dbgGetCmdTokens (c @ '' '' @ w) 10 = [c, w]"
  using tok_loop_layout [of "[([], c), ('' '', w)]" "[]" 9] assms
  by (simp add: dbgGetCmdTokens_def gap_def is_delim_def)

lemma x4_token: "token (''0x'' @ x4 a)" "length (x4 a) = 4"
proof -
  have "token (digits ''0123456789abcdef'' 16 n)" for n
    by (rule token_digits) (simp_all add: is_delim_def)
  then have "token (replicate k CHR ''0'' @ digits ''0123456789abcdef'' 16 n)" for k n
    by (intro token_prefix) (simp_all add: is_delim_def)
  then show "token (''0x'' @ x4 a)"
    by (intro token_prefix) (simp_all add: x4_def fmt_x_def pad_def is_delim_def)
  show "length (x4 a) = 4" using unat_u16_lt [of a] by (simp add: x4_def fmt_x_hexw)
qed

lemma scan_zeros: "scan 16 0 (replicate k CHR ''0'' @ s) = scan 16 0 s"
  by (induction k) (simp_all add: digit_val_def isdigit_def ccode_def)

lemma x4_number: "strtoul 0 (''0x'' @ x4 a) = Some (word_of_nat (unat a), False)"
proof -
  let ?h = "digits ''0123456789abcdef'' 16 (unat a)"
  have p: "x4 a = replicate (4 - length ?h) CHR ''0'' @ ?h" by (simp add: x4_def fmt_x_def pad_def)
  have d: "digit_val (''0123456789abcdef'' ! k) = Some k" if "k < 16" for k using digit_alphabets(1) that by simp
  have "starts (is_digit 16) ?h" by (rule starts_digits) (simp_all add: is_digit_def d)
  then have st: "starts (is_digit 16) (x4 a)"
    unfolding p by (cases "4 - length ?h") (simp_all add: starts_def is_digit_def digit_val_def isdigit_def ccode_def)
  have sc: "scan 16 0 (x4 a) = (unat a, [])"
    using scan_digits [of 16 "''0123456789abcdef''" 0 "unat a" "[]"] d by (simp add: p scan_zeros)
  have sg: "sign (dropWhile isspace (''0x'' @ x4 a)) = (False, ''0x'' @ x4 a)"
    by (simp add: isspace_def ccode_def sign_def starts_def)
  have r: "radix 0 (''0x'' @ x4 a) = (16, x4 a)" using st by (simp add: radix_def has_0x_def)
  have "unat a < 2 ^ 64" using unat_u16_lt [of a] by simp
  then show ?thesis unfolding strtoul_def c_number_def sg prod.case r using st sc by simp
qed

lemma x4_arg: "number_arg (''0x'' @ x4 a) = a" "arg_addr (''0x'' @ x4 a) = Some a"
proof -
  have "(ucast (word_of_nat (unat a) :: u64) :: u16) = a"
    using unat_u16_lt [of a] by (simp add: word_unat_eq_iff unat_ucast_mod unat_of_nat)
  then show "number_arg (''0x'' @ x4 a) = a" "arg_addr (''0x'' @ x4 a) = Some a"
    unfolding number_arg_def arg_addr_def x4_number by simp_all
qed

lemma int_line:
  assumes "1 \<le> n" "n \<le> INT_MAX"
  shows "dbgGetCmdTokens (''s '' @ fmt_d n) 10 = [''s'', fmt_d n]" "length (''s '' @ fmt_d n) \<le> 99"
proof -
  have f: "fmt_d n = digits ''0123456789'' 10 (nat n)" using assms by (simp add: fmt_d_def)
  have "token (fmt_d n)" unfolding f by (rule token_digits) (simp_all add: is_delim_def)
  moreover have "token ''s''" by (simp add: token_def is_delim_def)
  ultimately show "dbgGetCmdTokens (''s '' @ fmt_d n) 10 = [''s'', fmt_d n]" using two_tokens [of "''s''" "fmt_d n"] by simp
  have "nat n < 10 ^ 10" using assms by (simp add: INT_MAX_def nat_less_iff)
  then have "length (fmt_d n) \<le> 10" unfolding f by (intro digits_length) simp_all
  then show "length (''s '' @ fmt_d n) \<le> 99" by simp
qed

lemma stopped_fetch:
  assumes "live DBG_STOPPED d" "opcode \<noteq> 0xDB"
  shows "dbgOnFetch m pc opcode d = do {
     d \<leftarrow> command_loop m (show_instr m pc (at_fetch pc d));
     if dmode d = DBG_STEPPING \<and> stepsLeft d > 0 then dbgEchoStep m d else Some d }"
  using assms by (simp add: onfetch live_def dbgShouldStop_def dbgCommandLoop_def)

lemma cmd_s: "dbgParseCommand ''s'' = CMD_STEP" "dbgParseCommand ''b'' = CMD_BREAKPOINT" "dbgParseCommand ''q'' = CMD_QUIT"
  by code_simp+

lemma step_command:
  assumes "live DBG_STOPPED d" "opcode \<noteq> 0xDB" "1 \<le> n" "n \<le> INT_MAX" "input d = (''s '' @ fmt_d n) # rest"
  shows "\<exists>d'. dbgOnFetch m pc opcode d = Some d' \<and> live DBG_STEPPING d' \<and> stepsLeft d' = n - 1 \<and> input d' = rest \<and>
    bplist d' = bplist d"
proof -
  let ?d = "show_instr m pc (at_fetch pc d)"
  let ?e = "echo ''>>'' (?d\<lparr>input := rest\<rparr>)"
  let ?s = "?e\<lparr>stepsLeft := n, stepFirst := True, dmode := DBG_STEPPING\<rparr>"
  have d: "dmode ?d = DBG_STOPPED" "input ?d = (''s '' @ fmt_d n) # rest"
    using assms(1,5) by (simp_all add: show_instr_def live_def)
  have "dbgStrToInt (fmt_d n) = Some n" using assms(3,4) by (simp add: str_to_int_fmt INT_MIN_def)
  then have r: "run_command m [''s'', fmt_d n] ?e = Some ?s"
    using assms(3) by (simp add: run_command_def cmd_s dbgStep6502_def Let_def)
  have "command_loop m ?d = Some ?s"
    using loop_cmd [OF d int_line(2) _ _ int_line(1) _ r] assms(3,4) by (simp add: loop_done)
  moreover obtain s where "dbgEchoStep m ?s = Some (echo s (?s\<lparr>stepFirst := False, stepsLeft := n - 1\<rparr>))"
    using echo_step_ok [of ?s m] assms(1) by (auto simp: live_def show_instr_def)
  ultimately show ?thesis
    using assms by (simp add: stopped_fetch) (simp add: live_def show_instr_def)
qed

lemma quit_command:
  assumes "live DBG_STOPPED d" "opcode \<noteq> 0xDB" "input d = ''q'' # rest"
  shows "\<exists>d'. dbgOnFetch m pc opcode d = Some d' \<and> finished d' \<and> quitting d'"
proof -
  let ?d = "show_instr m pc (at_fetch pc d)"
  let ?e = "echo ''>>'' (?d\<lparr>input := rest\<rparr>)"
  let ?s = "(echo (TAB @ ''Ending simulation'' @ NL) ?e)\<lparr>quitting := True, dmode := DBG_RUNNING, finished := True\<rparr>"
  have d: "dmode ?d = DBG_STOPPED" "input ?d = ''q'' # rest"
    using assms(1,3) by (simp_all add: show_instr_def live_def)
  have "run_command m [''q''] ?e = Some ?s" by (simp add: run_command_def cmd_s)
  moreover have "dbgGetCmdTokens ''q'' 10 = [''q'']" by code_simp
  ultimately have "command_loop m ?d = Some ?s" using loop_cmd [OF d, of "[''q'']" m ?s] by (simp add: loop_done)
  then show ?thesis using assms by (simp add: stopped_fetch)
qed

lemma quit_absorbs: "quitting d \<Longrightarrow> run_fetches fs d = Some d"
  by (induction fs) (auto simp: dbgOnFetch_def)

lemma break_and_continue:
  assumes "live DBG_STOPPED d" "opcode \<noteq> 0xDB" "input d = (''b 0x'' @ x4 a) # ''c'' # rest"
  shows "\<exists>d'. dbgOnFetch m pc opcode d = Some d' \<and> live DBG_RUNNING d' \<and> input d' = rest \<and> \<not> interrupted d' \<and>
    tkeys d' = tkeys d \<and> arrive d' = arrive d \<and>
    entries (bplist d') = entries (bplist d) @ [\<lparr>address = a, symbol = None\<rparr>]"
proof -
  let ?d = "show_instr m pc (at_fetch pc d)"
  let ?e = "echo ''>>'' (?d\<lparr>input := ''c'' # rest\<rparr>)"
  let ?l = "''b 0x'' @ x4 a"
  let ?t = "[''b'', ''0x'' @ x4 a]"
  have d: "dmode ?d = DBG_STOPPED" "input ?d = ?l # ''c'' # rest"
    using assms(1,3) by (simp_all add: show_instr_def live_def)
  have t: "dbgGetCmdTokens ?l 10 = ?t"
    using two_tokens [of "''b''", OF _ x4_token(1) [of a]] by (simp add: token_def is_delim_def)
  have sw: "dbg_strStartsWith ''0x'' (''0x'' @ x4 a)" by (simp add: starts_with_iff)
  define e1 where "e1 = echo (TAB @ ''Setting new breakpoint at 0x'' @ x4 a @ NL) ?e"
  have "dbg_ok e1" using assms(1) by (simp add: e1_def live_def show_instr_def)
  from set_bp_ok [OF this, of a None]
  obtain b where b: "set_bp a None e1 = Some (e1\<lparr>bplist := b\<rparr>)" "bps_ok b"
      "entries b = entries (bplist d) @ [\<lparr>address = a, symbol = None\<rparr>]"
    by (auto simp: e1_def show_instr_def)
  have r: "run_command m ?t ?e = Some (e1\<lparr>bplist := b\<rparr>)"
    using b(1) sw by (simp add: run_command_def cmd_s dbgAddBp_def x4_arg [unfolded append.simps] Let_def e1_def)
  have l: "length ?l \<le> 99" "?l \<noteq> []" "hd ?l \<noteq> CHR 0x0A" using x4_token(2) [of a] by simp_all
  have "command_loop m ?d = command_loop m (e1\<lparr>bplist := b\<rparr>)"
    by (rule loop_cmd [OF d l t _ r]) simp
  moreover have e: "dmode (e1\<lparr>bplist := b\<rparr>) = DBG_STOPPED" "input (e1\<lparr>bplist := b\<rparr>) = ''c'' # rest"
    using d(1) by (simp_all add: e1_def)
  ultimately have c: "command_loop m ?d = Some (dbgRunDbgCont (echo ''>>'' (e1\<lparr>bplist := b, input := rest\<rparr>)))"
    using loop_c [OF e, of m] by simp
  define d1 where "d1 = dbgRunDbgCont (echo ''>>'' (e1\<lparr>bplist := b, input := rest\<rparr>))"
  have f: "dmode d1 = DBG_RUNNING" "input d1 = rest" "\<not> interrupted d1" "tkeys d1 = tkeys d" "arrive d1 = arrive d"
      "bplist d1 = b" "initialised d1" "\<not> quitting d1" "syms d1 = syms d" "heap d1 = heap d"
    using assms(1) by (simp_all add: d1_def dbgRunDbgCont_def e1_def show_instr_def live_def at_fetch_def)
  have "dbgOnFetch m pc opcode d = Some d1"
    using stopped_fetch [OF assms(1,2), of m pc] c f(1) by (simp add: d1_def)
  then show ?thesis using f b assms(1) by (simp add: live_def dbg_ok_def)
qed


section \<open>Properties\<close>

text \<open>
  C20: a session always gets control back to the program. At a stop, whatever lines the user
  types (unknown commands, malformed arguments, prompts answered or not, any number of lines of up
  to 99 characters), three lines \<open>c\<close> after them make \<open>dbgOnFetch\<close> return with the machine no
  longer stopped; the data of the debugger stays well formed.
\<close>

theorem session_returns:
  assumes "live DBG_STOPPED d" "opcode \<noteq> 0xDB" "input d = ls @ [''c'', ''c'', ''c''] @ rest" "\<forall>l \<in> set ls. length l \<le> 99"
  shows "\<exists>d'. dbgOnFetch m pc opcode d = Some d' \<and> dmode d' \<noteq> DBG_STOPPED \<and> dbg_ok d'"
proof -
  let ?d = "show_instr m pc (at_fetch pc d)"
  have ok: "dbg_ok ?d" using assms(1) by (simp add: live_def show_instr_def)
  have i: "input ?d = ls @ replicate 3 ''c'' @ rest" using assms(3) by (simp add: show_instr_def numeral_3_eq_3)
  obtain d1 where "command_loop m ?d = Some d1" "dbg_ok d1" "dmode d1 \<noteq> DBG_STOPPED"
    using loop_resumes [OF ok i _ _ assms(4)] by auto
  moreover from this obtain s where "dbgEchoStep m d1 = Some (echo s (d1\<lparr>stepFirst := False, stepsLeft := stepsLeft d1 - 1\<rparr>))"
    using echo_step_ok by blast
  ultimately show ?thesis using stopped_fetch [OF assms(1,2), of m pc] by auto
qed

text \<open>A debugger before initialisation, for the witnesses: the lines are what the user will type.\<close>

definition demo_dbg :: "string list \<Rightarrow> dbg" where
  "demo_dbg ls = \<lparr>initialised = False, quitting = False, stepFirst = False, termDirty = False, interrupted = False,
     dmode = DBG_STOPPED, stepsLeft = 0, fetchCount = 0, dpc = 0, bplist = no_bps, syms = no_syms, console = [],
     terminal = [], input = ls, answers = [], tkeys = [], arrive = (\<lambda>_. []), polls = 0, rx_opens = True, rx_file = [],
     reset_req = False, finished = False, heap = True, keyEnter = 343, keyBackspace = 263, sim_regs = simGetRegs (\<lambda>_. 0) 0\<rparr>"

definition demo_session :: "string list \<Rightarrow> dbg" where
  "demo_session ls = snd (dbgInit True [] None (demo_dbg ls))"

definition demo_machine :: machine where
  "demo_machine = power_on (\<lambda>_. 0) (\<lambda>_. 0xEA) (\<lambda>_. 0) None (\<lambda>_. None) (\<lambda>_. 0)"

lemma demo_live: "live DBG_STOPPED (demo_session ls)" "input (demo_session ls) = ls" "entries (bplist (demo_session ls)) = []"
  "tkeys (demo_session ls) = []" "arrive (demo_session ls) = (\<lambda>_. [])" "bplist (demo_session ls) = no_bps"
  "fetchCount (demo_session ls) = 0"
  using no_bps_ok by (simp_all add: demo_session_def demo_dbg_def dbgInit_def live_def dbg_ok_def symtab_ok_def no_syms_def)

theorem session_returns_witness:
  "\<exists>d'. dbgOnFetch demo_machine 0x8100 0xEA (demo_session [''frob'', ''m'', ''zz'', [], ''b main'', ''c'', ''c'', ''c'']) = Some d'
     \<and> dmode d' \<noteq> DBG_STOPPED \<and> dbg_ok d'"
  using session_returns [where d = "demo_session [''frob'', ''m'', ''zz'', [], ''b main'', ''c'', ''c'', ''c'']"
      and ls = "[''frob'', ''m'', ''zz'', [], ''b main'']" and rest = "[]" and opcode = "0xEA"] by (simp add: demo_live)

text \<open>
  C24: \<open>s n\<close> steps exactly \<open>n\<close> instructions. From a stop, the command lets the instruction the
  debugger stands on and the next \<open>n - 1\<close> run (none of them \<open>STP\<close> or in reach of a breakpoint), and
  at the instruction after them the debugger stops again.
\<close>

theorem step_n_instructions:
  assumes "live DBG_STOPPED d" "opcode \<noteq> 0xDB" "1 \<le> n" "n \<le> INT_MAX" "input d = (''s '' @ fmt_d n) # rest"
    "int (length fs) = n - 1" "\<forall>f \<in> set fs. step_quiet d f" "opcode' \<noteq> 0xDB"
  shows "\<exists>d1 d2. run_fetches ((m, pc, opcode) # fs) d = Some d1 \<and> dmode d1 = DBG_STEPPING \<and> input d1 = rest \<and>
    dbgShouldStop m' opcode' (at_fetch pc' d1) = Some (True, d2) \<and> dmode d2 = DBG_STOPPED"
proof -
  obtain d0 where d0: "dbgOnFetch m pc opcode d = Some d0" "live DBG_STEPPING d0" "stepsLeft d0 = n - 1" "input d0 = rest"
      "bplist d0 = bplist d"
    using step_command [OF assms(1-5)] by blast
  have "\<forall>f \<in> set fs. step_quiet d0 f" using assms(7) d0(5) by (simp add: step_quiet_def)
  from step_run [OF d0(2) _ this] obtain d1 where
    "run_fetches fs d0 = Some d1" "live DBG_STEPPING d1" "stepsLeft d1 = 0" "input d1 = rest"
    using d0(3,4) assms(6) by auto
  then show ?thesis using d0(1) step_end [of d1 opcode' m' pc'] assms(8) by (auto simp: live_def)
qed

lemma demo_quiet: "dbgCheckIfAtBp pc n no_bps = Some None"
  by (simp add: dbgCheckIfAtBp_def no_bps_def check_loop.simps)

theorem step_n_instructions_witness:
  "\<exists>d1 d2. run_fetches [(demo_machine, 0x8100, 0xEA), (demo_machine, 0x8101, 0xEA), (demo_machine, 0x8102, 0xEA)]
       (demo_session [''s 3'']) = Some d1 \<and> dmode d1 = DBG_STEPPING \<and> input d1 = [] \<and>
     dbgShouldStop demo_machine 0xEA (at_fetch 0x8103 d1) = Some (True, d2) \<and> dmode d2 = DBG_STOPPED"
proof -
  have "fmt_d 3 = ''3''" by code_simp
  then show ?thesis
    using step_n_instructions [where d = "demo_session [''s 3'']" and opcode = "0xEA" and n = 3 and rest = "[]"
        and fs = "[(demo_machine, 0x8101, 0xEA), (demo_machine, 0x8102, 0xEA)]" and opcode' = "0xEA"]
    by (simp add: demo_live INT_MAX_def step_quiet_def demo_quiet)
qed



text \<open>
  C17: a breakpoint stops the program. From a stop, \<open>b 0xADDR\<close> and \<open>c\<close> let the program run over
  any number of instructions that are neither at a breakpoint nor \<open>STP\<close>, however often the terminal
  is polled meanwhile; when the instruction at the address is fetched the debugger stops before it.
\<close>

theorem breakpoint_stops:
  assumes "live DBG_STOPPED d" "opcode \<noteq> 0xDB" "input d = (''b 0x'' @ x4 a) # ''c'' # rest" "tkeys d = []" "arrive d = (\<lambda>_. [])"
    "\<forall>(m, pc, opcode) \<in> set fs. opcode \<noteq> 0xDB \<and> pc \<noteq> a \<and> (\<forall>e \<in> set (entries (bplist d)). address e \<noteq> pc)"
    "opcode' \<noteq> 0xDB"
  shows "\<exists>d1 d2. run_fetches ((m, pc, opcode) # fs) d = Some d1 \<and> dmode d1 = DBG_RUNNING \<and> input d1 = rest \<and>
    dbgShouldStop m' opcode' (at_fetch a d1) = Some (True, d2) \<and> dmode d2 = DBG_STOPPED"
proof -
  obtain d0 where d0: "dbgOnFetch m pc opcode d = Some d0" "live DBG_RUNNING d0" "input d0 = rest" "no_keys d0"
      "entries (bplist d0) = entries (bplist d) @ [\<lparr>address = a, symbol = None\<rparr>]"
    using break_and_continue [OF assms(1-3), of m pc] assms(4,5) by (auto simp: no_keys_def)
  have "\<forall>f \<in> set fs. run_quiet d0 f" using assms(6) d0(5) by (fastforce simp: run_quiet_def)
  from run_run [OF d0(2,4) this] obtain d1 where d1: "run_fetches fs d0 = Some d1" "live DBG_RUNNING d1" "no_keys d1"
      "bplist d1 = bplist d0" "input d1 = rest"
    using d0(3) by auto
  have "\<lparr>address = a, symbol = None\<rparr> \<in> set (entries (bplist d1))" using d0(5) d1(4) by simp
  from run_stops [OF d1(2,3) assms(7) this] show ?thesis using d0(1) d1 by (auto simp: live_def)
qed

theorem breakpoint_stops_witness:
  "\<exists>d1 d2. run_fetches [(demo_machine, 0x8100, 0xEA), (demo_machine, 0x8101, 0xEA)]
       (demo_session [''b 0x0300'', ''c'', ''q'']) = Some d1 \<and> dmode d1 = DBG_RUNNING \<and> input d1 = [''q''] \<and>
     dbgShouldStop demo_machine 0xA9 (at_fetch 0x0300 d1) = Some (True, d2) \<and> dmode d2 = DBG_STOPPED"
proof -
  have "x4 0x0300 = ''0300''" by code_simp
  then show ?thesis
    using breakpoint_stops [where d = "demo_session [''b 0x0300'', ''c'', ''q'']" and opcode = "0xEA" and a = "0x0300" and
        rest = "[''q'']" and fs = "[(demo_machine, 0x8101, 0xEA)]" and opcode' = "0xA9"]
    by (simp add: demo_live no_bps_ok)
qed

text \<open>
  C25: Ctrl-C stops a running program. If a Ctrl-C is among the keys that reach the terminal pane,
  the program stops at the next poll, the fetch whose number is a multiple of 512: after at
  most 511 further instructions. The keys typed before it have been sent to the machine, those
  after it have not.
\<close>

theorem ctrl_c_stops:
  assumes "live DBG_RUNNING d" "\<not> interrupted d" "\<forall>f \<in> set fs. run_quiet d f"
    "length fs = 511 - unat (fetchCount d) mod 512" "DBG_KEY_CTRL_C \<in> set (tkeys d @ arrive d (polls d))" "opcode \<noteq> 0xDB"
  shows "\<exists>d1 d2. run_fetches fs d = Some d1 \<and> dbgShouldStop m opcode (at_fetch pc d1) = Some (True, d2) \<and>
    dmode d2 = DBG_STOPPED \<and> \<not> interrupted d2 \<and>
    (rx_opens d \<longrightarrow> rx_file d2 = rx_file d @ sent (keyEnter d) (keyBackspace d)
       (takeWhile (\<lambda>k. k \<noteq> DBG_KEY_CTRL_C) (tkeys d @ arrive d (polls d))))"
proof -
  have "unat (fetchCount d) mod 512 + length fs = 511" using assms(4) by simp
  then obtain d1 where d1: "run_fetches fs d = Some d1" "live DBG_RUNNING d1" "unat (fetchCount d1) mod 512 = 511"
      "tkeys d1 @ arrive d1 (polls d1) = tkeys d @ arrive d (polls d)" "rx_opens d1 = rx_opens d" "rx_file d1 = rx_file d"
      "keyEnter d1 = keyEnter d" "keyBackspace d1 = keyBackspace d"
    using run_no_poll [OF assms(1-3)] by auto
  then show ?thesis using interrupt_stops [of d1 opcode m pc] assms(5,6) by auto
qed

definition demo_running :: dbg where
  "demo_running = (demo_session [])\<lparr>dmode := DBG_RUNNING, fetchCount := 509, tkeys := [104, 10, 3, 105]\<rparr>"

theorem ctrl_c_stops_witness:
  "\<exists>d1 d2. run_fetches [(demo_machine, 0x8100, 0xEA), (demo_machine, 0x8101, 0xEA)] demo_running = Some d1 \<and>
     dbgShouldStop demo_machine 0xEA (at_fetch 0x8102 d1) = Some (True, d2) \<and> dmode d2 = DBG_STOPPED \<and>
     \<not> interrupted d2 \<and> rx_file d2 = [104, 13]"
proof -
  have d: "live DBG_RUNNING demo_running" "\<not> interrupted demo_running" "fetchCount demo_running = 509"
      "tkeys demo_running @ arrive demo_running (polls demo_running) = [104, 10, 3, 105]" "entries (bplist demo_running) = []"
      "rx_opens demo_running" "rx_file demo_running = []" "keyEnter demo_running = 343" "keyBackspace demo_running = 263"
    using demo_live(1) [of "[]"] no_bps_ok
    by (simp_all add: demo_running_def live_def demo_session_def demo_dbg_def dbgInit_def dbg_ok_def)
  then show ?thesis
    using ctrl_c_stops [OF d(1,2), where fs = "[(demo_machine, 0x8100, 0xEA), (demo_machine, 0x8101, 0xEA)]" and opcode = "0xEA"]
    by (simp add: run_quiet_def DBG_KEY_CTRL_C_def sent_def map_filter_simps key_code_def)
qed

text \<open>
  After \<open>q\<close> the debugger is out of the way: the simulation is asked to finish, and however
  many instructions are still fetched, and whatever input there is, nothing more is read, shown or
  changed.
\<close>

theorem quit_is_final:
  assumes "live DBG_STOPPED d" "opcode \<noteq> 0xDB" "input d = ''q'' # rest"
  shows "\<exists>d'. finished d' \<and> (\<forall>fs. run_fetches ((m, pc, opcode) # fs) d = Some d')"
  using quit_command [OF assms, of m pc] quit_absorbs by auto

theorem quit_is_final_witness:
  "\<exists>d'. finished d' \<and> (\<forall>fs. run_fetches ((demo_machine, 0x8100, 0xEA) # fs) (demo_session [''q'', ''c'']) = Some d')"
  using quit_is_final [OF demo_live(1) _ demo_live(2), where opcode = "0xEA"] by simp

end
