(* ===== verification/Hooks.thy ===== *)
theory Hooks
  imports Runs
begin

text \<open>
  The debugger's hooks in the test bench (\<^verbatim>\<open>rtl/tb.v\<close> under \<^verbatim>\<open>BBDBG\<close>): the latch of the opcode fetch, the
  call of the debugger on the falling edge after it, and the reset that the debugger requests. What the
  CPU core drives in a cycle (\<open>sync\<close>, \<open>RDY\<close>, the address and the data it reads) is an argument. The
  request bit \<open>dbg_reset_req\<close> is the field \<open>reset_req\<close> of the debugger, which writes it through VPI.
\<close>

section \<open>The code\<close>

record hooks =
  dbg_pc :: u16
  dbg_op :: u8
  dbg_fetch :: bool
  dbg_rst_cnt :: int
  rst :: bool

definition hooks_start :: hooks where
  "hooks_start = \<lparr>dbg_pc = 0, dbg_op = 0, dbg_fetch = False, dbg_rst_cnt = 0, rst = True\<rparr>"

text \<open>A cycle: the machine as the debugger finds it, \<open>sync\<close>, \<open>RDY\<close>, \<open>AB\<close> and \<open>DI\<close>.\<close>

type_synonym hook_input = "machine \<times> bool \<times> bool \<times> u16 \<times> u8"

definition latch_block :: "hook_input \<Rightarrow> bool \<Rightarrow> hooks \<Rightarrow> hooks \<Rightarrow> hooks" where
  "latch_block x req h h' =
     (case x of (m, sync, rdy, ab, di) \<Rightarrow>
        let h' = h'\<lparr>dbg_fetch := sync \<and> rdy \<and> \<not> rst h \<and> \<not> req \<and> dbg_rst_cnt h = 0\<rparr>
        in if sync \<and> rdy then h'\<lparr>dbg_pc := ab, dbg_op := di\<rparr> else h')"

definition reset_block :: "bool \<Rightarrow> hooks \<Rightarrow> hooks \<Rightarrow> bool \<times> hooks" where
  "reset_block req h h' =
     (if req then (False, h'\<lparr>dbg_rst_cnt := 16, rst := True\<rparr>)
      else if dbg_rst_cnt h = 1 then (req, h'\<lparr>dbg_rst_cnt := 0, rst := False\<rparr>)
      else if dbg_rst_cnt h > 1 then (req, h'\<lparr>dbg_rst_cnt := dbg_rst_cnt h - 1\<rparr>)
      else (req, h'))"

text \<open>The rising edge: both blocks read the registers as they were before it.\<close>

definition hook_posedge :: "hook_input \<Rightarrow> bool \<Rightarrow> hooks \<Rightarrow> bool \<times> hooks" where
  "hook_posedge x req h = reset_block req h (latch_block x req h h)"

definition hook_cycle :: "hook_input \<Rightarrow> hooks \<times> dbg \<Rightarrow> (hooks \<times> dbg) option" where
  "hook_cycle x s =
     (case s of (h, d) \<Rightarrow> case hook_posedge x (reset_req d) h of (req, h) \<Rightarrow>
        let d = d\<lparr>reset_req := req\<rparr> in
        if dbg_fetch h then do { d \<leftarrow> dbgOnFetch (fst x) (dbg_pc h) (dbg_op h) d; Some (h, d) } else Some (h, d))"

fun hook_cycles :: "hook_input list \<Rightarrow> hooks \<times> dbg \<Rightarrow> (hooks \<times> dbg) option" where
  "hook_cycles [] s = Some s"
| "hook_cycles (x # xs) s = do { s \<leftarrow> hook_cycle x s; hook_cycles xs s }"

section \<open>Facts\<close>

lemma hook_cycles_append: "hook_cycles (xs @ ys) s = do { s \<leftarrow> hook_cycles xs s; hook_cycles ys s }"
  by (induction xs s rule: hook_cycles.induct) (auto split: bind_splits)

text \<open>While the reset is counted the debugger is not called.\<close>

definition counting :: "nat \<Rightarrow> hooks \<Rightarrow> bool" where
  "counting n h \<longleftrightarrow> dbg_rst_cnt h = int n \<and> rst h = (0 < n) \<and> \<not> dbg_fetch h"

lemma request_cycle:
  assumes "reset_req d"
  shows "\<exists>h'. hook_cycle x (h, d) = Some (h', d\<lparr>reset_req := False\<rparr>) \<and> counting 16 h'"
  using assms by (cases x) (auto simp: hook_cycle_def hook_posedge_def latch_block_def reset_block_def counting_def Let_def)

lemma count_cycle:
  assumes "counting (Suc n) h" "\<not> reset_req d"
  shows "\<exists>h'. hook_cycle x (h, d) = Some (h', d) \<and> counting n h'"
proof -
  have "d\<lparr>reset_req := False\<rparr> = d" using assms(2) by simp
  then show ?thesis
    using assms by (cases x; cases "n = 0") (auto simp: hook_cycle_def hook_posedge_def latch_block_def reset_block_def counting_def Let_def)
qed

lemma count_cycles:
  assumes "counting k h" "\<not> reset_req d" "length xs \<le> k"
  shows "\<exists>h'. hook_cycles xs (h, d) = Some (h', d) \<and> counting (k - length xs) h'"
  using assms
proof (induction xs arbitrary: h k)
  case (Cons x xs)
  obtain j where k: "k = Suc j" using Cons.prems(3) by (cases k) simp_all
  obtain h1 where h1: "hook_cycle x (h, d) = Some (h1, d)" "counting j h1" using count_cycle [of j h d x] Cons.prems k by auto
  show ?case using Cons.IH [OF h1(2) Cons.prems(2)] Cons.prems(3) h1(1) k by simp
qed simp

text \<open>The whole pulse, from the request on.\<close>

lemma pulse:
  assumes "reset_req d" "xs \<noteq> []" "length xs \<le> 17"
  shows "\<exists>h'. hook_cycles xs (h, d) = Some (h', d\<lparr>reset_req := False\<rparr>) \<and> counting (17 - length xs) h'"
proof -
  obtain x ys where xs: "xs = x # ys" using assms(2) by (cases xs) auto
  obtain h1 where h1: "hook_cycle x (h, d) = Some (h1, d\<lparr>reset_req := False\<rparr>)" "counting 16 h1" using request_cycle [OF assms(1)] by blast
  have "\<not> reset_req (d\<lparr>reset_req := False\<rparr>)" "length ys \<le> 16" using assms(3) xs by simp_all
  from count_cycles [OF h1(2) this] show ?thesis using h1(1) xs by simp
qed

text \<open>Out of reset, a cycle without a fetch does nothing, and one with a fetch calls the debugger on it.\<close>

definition idle :: "hook_input \<Rightarrow> bool" where
  "idle x \<longleftrightarrow> (case x of (m, sync, rdy, ab, di) \<Rightarrow> \<not> (sync \<and> rdy))"

lemma idle_cycles:
  assumes "counting 0 h" "\<not> reset_req d" "list_all idle xs"
  shows "\<exists>h'. hook_cycles xs (h, d) = Some (h', d) \<and> counting 0 h'"
  using assms(1,3)
proof (induction xs arbitrary: h)
  case (Cons x xs)
  have "d\<lparr>reset_req := False\<rparr> = d" using assms(2) by simp
  then obtain h1 where "hook_cycle x (h, d) = Some (h1, d)" "counting 0 h1"
    using Cons.prems assms(2) by (cases x) (auto simp: hook_cycle_def hook_posedge_def latch_block_def reset_block_def counting_def idle_def Let_def)
  then show ?case using Cons by simp
qed simp

lemma fetch_cycle:
  assumes "counting 0 h" "\<not> reset_req d"
  shows "hook_cycle (m, True, True, ab, di) (h, d) =
    do { d \<leftarrow> dbgOnFetch m ab di d; Some (h\<lparr>dbg_fetch := True, dbg_pc := ab, dbg_op := di\<rparr>, d) }"
proof -
  have e: "d\<lparr>reset_req := False\<rparr> = d" using assms(2) by simp
  show ?thesis
    using assms by (simp add: e hook_cycle_def hook_posedge_def latch_block_def reset_block_def counting_def Let_def
)
qed

text \<open>The command \<open>reset\<close> at the prompt.\<close>

lemma reset_command:
  assumes "live DBG_STOPPED d" "opcode \<noteq> 0xDB" "input d = ''reset'' # rest"
  shows "\<exists>d'. dbgOnFetch m pc opcode d = Some d' \<and> live DBG_STEPPING d' \<and> stepsLeft d' = 0 \<and> reset_req d' \<and> input d' = rest \<and>
    bplist d' = bplist d"
proof -
  let ?d = "show_instr m pc (at_fetch pc d)"
  let ?e = "echo ''>>'' (?d\<lparr>input := rest\<rparr>)"
  have d: "dmode ?d = DBG_STOPPED" "input ?d = ''reset'' # rest"
    using assms(1,3) by (simp_all add: show_instr_def live_def)
  have "run_command m [''reset''] ?e = Some (dbgResetMachine ?e)" by (simp add: run_command_def dbgParseCommand_def)
  moreover have "dbgGetCmdTokens ''reset'' 10 = [''reset'']" by code_simp
  ultimately have "command_loop m ?d = Some (dbgResetMachine ?e)"
    using loop_cmd [OF d, of "[''reset'']" m "dbgResetMachine ?e"] by (simp add: loop_done dbgResetMachine_def)
  then show ?thesis
    using assms by (simp add: stopped_fetch) (simp add: live_def show_instr_def dbgResetMachine_def)
qed

section \<open>Properties\<close>

text \<open>
  C35: \<open>reset\<close> resets the machine and stops at its first instruction. After the command at the prompt, and
  whatever the CPU drives meanwhile, the reset line is high for exactly 16 cycles and the debugger is not
  called in them nor in the next; then, after any number of cycles without a fetch, the first instruction
  fetched (unless it is \<open>STP\<close>) finds the debugger stopped before it.
\<close>

theorem reset_restarts:
  assumes "live DBG_STOPPED d" "opcode \<noteq> 0xDB" "input d = ''reset'' # rest" "length xs = 17" "list_all idle ys" "op \<noteq> 0xDB"
  shows "\<exists>d1 d2. dbgOnFetch m pc opcode d = Some d1 \<and> input d2 = rest \<and>
    (\<forall>n. 1 \<le> n \<and> n \<le> 17 \<longrightarrow> (\<exists>h'. hook_cycles (take n xs) (h, d1) = Some (h', d2) \<and> rst h' = (n \<le> 16) \<and> \<not> dbg_fetch h')) \<and>
    (\<exists>h'. hook_cycles (xs @ ys) (h, d1) = Some (h', d2) \<and> 
       hook_cycle (m', True, True, ab, op) (h', d2) =
         do { d \<leftarrow> dbgOnFetch m' ab op d2; Some (h'\<lparr>dbg_fetch := True, dbg_pc := ab, dbg_op := op\<rparr>, d) }) \<and>
    (\<exists>d3. dbgShouldStop m' op (at_fetch ab d2) = Some (True, d3) \<and> dmode d3 = DBG_STOPPED)"
proof -
  obtain d1 where d1: "dbgOnFetch m pc opcode d = Some d1" "live DBG_STEPPING d1" "stepsLeft d1 = 0" "reset_req d1" "input d1 = rest"
    using reset_command [OF assms(1-3), of m pc] by blast
  let ?d2 = "d1\<lparr>reset_req := False\<rparr>"
  have l: "live DBG_STEPPING ?d2" "stepsLeft ?d2 = 0" "\<not> reset_req ?d2" "input ?d2 = rest" using d1 by (simp_all add: live_def)
  have p: "\<exists>h'. hook_cycles (take n xs) (h, d1) = Some (h', ?d2) \<and> rst h' = (n \<le> 16) \<and> \<not> dbg_fetch h'" if "1 \<le> n" "n \<le> 17" for n
  proof -
    have ne: "take n xs \<noteq> []" and len: "length (take n xs) = n" using that assms(4) by auto
    have "length (take n xs) \<le> 17" unfolding len by (rule that(2))
    from pulse [OF d1(4) ne this, of h, unfolded len]
    obtain h' where "hook_cycles (take n xs) (h, d1) = Some (h', ?d2)" "counting (17 - n) h'" by blast
    then show ?thesis using that by (intro exI [of _ h']) (auto simp: counting_def)
  qed
  obtain h1 where h1: "hook_cycles xs (h, d1) = Some (h1, ?d2)" "counting 0 h1"
    using pulse [OF d1(4), of xs h] assms(4) by fastforce
  obtain h2 where h2: "hook_cycles ys (h1, ?d2) = Some (h2, ?d2)" "counting 0 h2"
    using idle_cycles [OF h1(2) l(3) assms(5)] by blast
  show ?thesis
    using d1(1) l(4) p h1(1) h2(1) fetch_cycle [OF h2(2) l(3), of m' ab op] step_end [OF l(1,2) assms(6), of m' ab]
    by (intro exI [of _ d1] exI [of _ ?d2]) (auto simp: hook_cycles_append)
qed

theorem reset_restarts_witness:
  "\<exists>d1 d2 h'. dbgOnFetch demo_machine 0x8100 0xEA (demo_session [''reset'', ''q'']) = Some d1 \<and>
     hook_cycles (replicate 17 (demo_machine, True, True, 0xFFFC, 0)) (hooks_start, d1) = Some (h', d2) \<and> \<not> rst h' \<and>
     (\<exists>d3. dbgShouldStop demo_machine 0x78 (at_fetch 0x8103 d2) = Some (True, d3) \<and> dmode d3 = DBG_STOPPED)"
proof -
  let ?xs = "replicate 17 (demo_machine, True, True, 0xFFFC :: u16, 0 :: u8)"
  have l: "length ?xs = 17" "list_all idle []" "(0xEA :: u8) \<noteq> 0xDB" "(0x78 :: u8) \<noteq> 0xDB" by simp_all
  obtain d1 d2 where d: "dbgOnFetch demo_machine 0x8100 0xEA (demo_session [''reset'', ''q'']) = Some d1"
      "\<forall>n. 1 \<le> n \<and> n \<le> 17 \<longrightarrow> (\<exists>h'. hook_cycles (take n ?xs) (hooks_start, d1) = Some (h', d2) \<and> rst h' = (n \<le> 16) \<and> \<not> dbg_fetch h')"
      "\<exists>d3. dbgShouldStop demo_machine 0x78 (at_fetch 0x8103 d2) = Some (True, d3) \<and> dmode d3 = DBG_STOPPED"
    using reset_restarts [OF demo_live(1) l(3) demo_live(2) l(1,2,4), where m = demo_machine and pc = "0x8100" and h = hooks_start and m' = demo_machine and ab = "0x8103"] by blast
  then obtain h' where "hook_cycles (take 17 ?xs) (hooks_start, d1) = Some (h', d2)" "rst h' = False" by fastforce
  then show ?thesis using d(1,3) by auto
qed

end
