(* ===== verification/Bbx.thy ===== *)
theory Bbx
  imports Clib Load
begin

text \<open>
  The program checker \<^verbatim>\<open>tools/mkbbx.c\<close>: it reads the six header bytes of a file and says whether
  the file is a BBX program. The file system is an argument: the contents of a file, or the text of
  the error. The result is the exit status and what is written to the standard and error output.
\<close>

section \<open>The code\<close>

definition eol :: string where "eol = [CHR 0x0A]"

definition mkbbx :: "string list \<Rightarrow> (string \<Rightarrow> string + u8 list) \<Rightarrow> nat \<times> string \<times> string" where
  "mkbbx argv fopen =
     (if length argv \<noteq> 2 then
        (1, [], ''Usage: '' @ argv ! 0 @ '' <file.bbx>'' @ eol @ ''Verifies BBX header on stdin/file.'' @ eol)
      else case fopen (argv ! 1) of
        Inl err \<Rightarrow> (1, [], ''open: '' @ err @ eol)
      | Inr f \<Rightarrow>
        let hdr = take 6 f in
        if length hdr \<noteq> 6 then (1, [], ''file too short'' @ eol)
        else if hdr ! 0 \<noteq> 0x42 \<or> hdr ! 1 \<noteq> 0x58 then
          (1, [], ''bad magic: '' @ fmt_x 2 (unat (hdr ! 0)) @ '' '' @ fmt_x 2 (unat (hdr ! 1)) @ '' (expected 42 58)'' @ eol)
        else
          let load = (ucast (hdr ! 2) OR push_bit 8 (ucast (hdr ! 3)) :: u32);
              entry = (ucast (hdr ! 4) OR push_bit 8 (ucast (hdr ! 5)) :: u32)
          in (0, ''BBX valid:  load=$'' @ fmt_X 4 (unat load) @ ''  entry=$'' @ fmt_X 4 (unat entry) @ eol, []))"

section \<open>Agreement with the kernel\<close>

lemma u32_le16: "unat (ucast l OR push_bit 8 (ucast h) :: u32) = unat (le16 (l :: u8) h)"
proof -
  have "(ucast l OR push_bit 8 (ucast h) :: u32) = ucast (le16 l h)"
    by (rule bit_word_eqI) (auto simp: le16_def bit_simps dest: bit_imp_le_length)
  then show ?thesis using unat_u16_lt [of "le16 l h"] by (simp add: unat_ucast_mod)
qed

lemma sector_head: "6 \<le> length f \<Longrightarrow> i < 6 \<Longrightarrow> sector_of f 0 ! i = f ! i"
  by (simp add: sector_of_def)

text \<open>
  The checker accepts exactly the files that \<open>spawn_bbx\<close> loads (of those long enough to have a
  header), and the entry point it prints is the one the kernel puts into the program's first
  frame.
\<close>

theorem mkbbx_agrees:
  assumes "length argv = 2" "fopen (argv ! 1) = Inr f" "6 \<le> length f"
  shows "fst (mkbbx argv fopen) = 0 \<longleftrightarrow> valid_bbx (sector_of f 0)"
    "valid_bbx (sector_of f 0) \<Longrightarrow> fst (snd (mkbbx argv fopen)) = ''BBX valid:  load=$'' @ fmt_X 4 (unat (le16 (f ! 2) (f ! 3)))
       @ ''  entry=$'' @ fmt_X 4 (unat (le16 (sector_of f 0 ! 4) (sector_of f 0 ! 5))) @ eol"
  using assms by (auto simp: mkbbx_def valid_bbx_def sector_head u32_le16 Let_def)

text \<open>Every other call fails with status 1, a message, and nothing on the standard output.\<close>

theorem mkbbx_fails:
  "fst (mkbbx argv fopen) \<noteq> 0 \<Longrightarrow> fst (mkbbx argv fopen) = 1 \<and> fst (snd (mkbbx argv fopen)) = [] \<and> snd (snd (mkbbx argv fopen)) \<noteq> []"
  by (auto simp: mkbbx_def Let_def eol_def split: sum.splits if_splits)

end
