(* ===== verification/Dump.thy ===== *)
theory Dump
  imports Runs
begin

text \<open>
  The memory view (\<open>dbgShowMem\<close>) against a reference: the text of the rows of an address range.
\<close>

section \<open>Memory dump\<close>

definition mem_cell :: "machine \<Rightarrow> nat \<Rightarrow> string" where
  "mem_cell m a = (case simReadMem (word_of_nat a) m of Some v \<Rightarrow> fmt_X 2 (unat v) @ '' '' | None \<Rightarrow> ''.. '')"

definition dump_row :: "machine \<Rightarrow> nat \<Rightarrow> nat \<Rightarrow> string" where
  "dump_row m a e = fmt_X 4 a @ '': '' @ concat (map (mem_cell m) [a ..< min (a + 16) (e + 1)]) @ NL"

definition dump :: "machine \<Rightarrow> nat \<Rightarrow> nat \<Rightarrow> string" where
  "dump m a e = concat (map (\<lambda>i. dump_row m (a + 16 * i) e) [0 ..< (e - a) div 16 + 1])"

lemma row_loop_text:
  assumes "unat a + off \<le> unat e + 1" "off + n \<le> 16"
  shows "row_loop m a e off n d = echo (concat (map (mem_cell m) [unat a + off ..< min (unat a + off + n) (unat e + 1)])) d"
  using assms
proof (induction m a e off n d rule: row_loop.induct)
  case (2 m a e off n d)
  let ?cur = "a + word_of_nat off"
  show ?case
  proof (cases "unat a + off \<le> unat e")
    case True
    then have off: "unat a + off < 65536" using unat_u16_lt [of e] by linarith
    then have c: "unat ?cur = unat a + off" by (simp add: unat_word_ariths unat_of_nat)
    then have w: "word_of_nat (unat a + off) = ?cur" by simp
    have n: "\<not> (?cur < a \<or> ?cur > e)" using True c by (simp add: word_less_nat_alt)
    define hi where "hi = min (unat a + off + Suc n) (unat e + 1)"
    have hi: "min (unat a + (off + 1) + n) (unat e + 1) = hi" by (simp add: hi_def)
    have "unat a + off < hi" using True by (simp add: hi_def)
    then have up: "[unat a + off ..< hi] = (unat a + off) # [unat a + (off + 1) ..< hi]" by (simp add: upt_conv_Cons)
    have v: "(case simReadMem ?cur m of Some v \<Rightarrow> echo (fmt_X 2 (unat v) @ '' '') d | None \<Rightarrow> echo ''.. '' d)
        = echo (mem_cell m (unat a + off)) d"
      unfolding mem_cell_def w by (simp split: option.split)
    have "row_loop m a e (off + 1) n (echo (mem_cell m (unat a + off)) d)
        = echo (concat (map (mem_cell m) [unat a + (off + 1) ..< hi])) (echo (mem_cell m (unat a + off)) d)"
      using 2(1) [OF refl n] True 2(3) unfolding v hi by simp
    then show ?thesis using n v up unfolding hi_def [symmetric] by (simp add: Let_def)
  next
    case False
    then have eq: "unat a + off = unat e + 1" using 2(2) by simp
    have "?cur < a \<or> ?cur > e"
    proof (cases "unat e + 1 < 65536")
      case True
      then have "unat ?cur = unat e + 1" using eq by (simp add: unat_word_ariths unat_of_nat)
      then show ?thesis by (simp add: word_less_nat_alt)
    next
      case f: False
      then have "unat e + 1 = 65536" using unat_u16_lt [of e] by simp
      then have "65520 \<le> unat a" "unat ?cur = 0" using eq 2(3) by (simp_all add: unat_word_ariths unat_of_nat)
      then show ?thesis by (simp add: word_less_nat_alt)
    qed
    then show ?thesis using eq by (simp add: Let_def)
  qed
qed simp


lemma fmt_X_row: "echo NL (row_loop m a e 0 16 (echo (fmt_X 4 (unat a) @ '': '') d)) = echo (dump_row m (unat a) (unat e)) d"
  if "unat a \<le> unat e"
  using row_loop_text [of a 0 e 16 m] that by (simp add: dump_row_def)

lemma dump_last: "a \<le> e \<Longrightarrow> e < a + 16 \<Longrightarrow> dump m a e = dump_row m a e"
  by (simp add: dump_def)

lemma dump_more:
  assumes "a + 16 \<le> e"
  shows "dump m a e = dump_row m a e @ dump m (a + 16) e"
proof -
  have "Suc ((e - a) div 16) = Suc (Suc ((e - (a + 16)) div 16))" using assms by (simp add: le_div_geq)
  moreover have "map (\<lambda>i. dump_row m (a + 16 * i) e) [0 ..< Suc k] =
      dump_row m a e # map (\<lambda>i. dump_row m (a + 16 + 16 * i) e) [0 ..< k]" for k
    by (simp add: upt_conv_Cons map_Suc_upt [symmetric] o_def add.assoc del: upt_Suc)
  ultimately show ?thesis by (simp add: dump_def del: upt_Suc)
qed

lemma show_loop_text:
  assumes "unat a \<le> unat e"
  shows "show_loop m a e d = echo (dump m (unat a) (unat e)) d"
  using assms
proof (induction m a e d rule: show_loop.induct)
  case (1 m a e d)
  show ?case
  proof (cases "unat e < 16 \<or> unat a > unat e - 16")
    case True
    then have "unat e < unat a + 16" by linarith
    then show ?thesis using True 1(2) by (subst show_loop.simps) (simp add: Let_def fmt_X_row dump_last)
  next
    case False
    then have le: "unat a + 16 \<le> unat e" by linarith
    then have a: "unat (a + 16) = unat a + 16" using unat_u16_lt [of e] by (intro unat_plus_16) linarith
    then show ?thesis using 1(1) [OF refl False] le 1(2) False
      by (subst show_loop.simps) (simp add: Let_def fmt_X_row dump_more)
  qed
qed


section \<open>Properties\<close>

text \<open>
  C38: the memory view shows exactly the addresses asked for. \<open>m\<close> over a valid range prints the
  text \<open>dump\<close>, one row of up to 16 bytes per 16 addresses from the start on, each byte as the CPU
  would read it and two dots for an address in the I/O window; it ends for every range, also one
  that reaches \<open>$FFFF\<close>.
\<close>

theorem memory_dump:
  assumes "startaddr \<le> endaddr"
  shows "dbgShowMem m startaddr endaddr d = echo (dump m (unat startaddr) (unat endaddr)) d"
  unfolding dbgShowMem_def using assms by (intro show_loop_text) (simp add: word_le_nat_alt)

lemma map_upt_const: "(\<And>n. a \<le> n \<Longrightarrow> n < b \<Longrightarrow> f n = c) \<Longrightarrow> map f [a ..< b] = replicate (b - a) c"
  by (rule nth_equalityI) simp_all

theorem memory_dump_witness:
  "console (dbgShowMem demo_machine 0xFFEE 0xFFFF (demo_dbg []))
     = ''FFEE: EA EA EA EA EA EA EA EA EA EA EA EA EA EA EA EA '' @ NL @ ''FFFE: EA EA '' @ NL"
proof -
  have "simReadMem (word_of_nat n) demo_machine = Some 0xEA" if "65518 \<le> n" "n < 65536" for n
  proof -
    have "\<not> (word_of_nat n :: u16) < 0x8000" "\<not> (word_of_nat n :: u16) < 0x8100"
      using that by (simp_all add: word_less_nat_alt unat_of_nat)
    then show ?thesis by (simp add: simReadMem_def ROM_BASE_def demo_machine_def not_less)
  qed
  moreover have "fmt_X 2 234 = ''EA''" "fmt_X 4 65518 = ''FFEE''" "fmt_X 4 65534 = ''FFFE''"
    by (simp_all add: fmt_X_def pad_def digits.simps)
  ultimately have cell: "mem_cell demo_machine n = ''EA ''" if "65518 \<le> n" "n < 65536" for n
    using that by (simp add: mem_cell_def)
  have row: "map (mem_cell demo_machine) [a ..< b] = replicate (b - a) ''EA ''" if "65518 \<le> a" "b \<le> 65536" for a b
    by (rule map_upt_const, rule cell) (use that in simp_all)
  have "dump_row demo_machine 65518 65535 = fmt_X 4 65518 @ '': '' @ concat (replicate 16 ''EA '') @ NL"
    "dump_row demo_machine 65534 65535 = fmt_X 4 65534 @ '': '' @ concat (replicate 2 ''EA '') @ NL"
    by (simp_all add: dump_row_def row del: upt_rec_numeral)
  moreover have "dump demo_machine 65518 65535 = dump_row demo_machine 65518 65535 @ dump_row demo_machine 65534 65535"
    by (simp add: dump_more dump_last)
  moreover have "concat (replicate 16 ''EA '') = ''EA EA EA EA EA EA EA EA EA EA EA EA EA EA EA EA ''" "concat (replicate 2 ''EA '') = ''EA EA ''"
    by code_simp+
  ultimately have "dump demo_machine 65518 65535
      = ''FFEE: EA EA EA EA EA EA EA EA EA EA EA EA EA EA EA EA '' @ NL @ ''FFFE: EA EA '' @ NL"
    using \<open>fmt_X 4 65518 = ''FFEE''\<close> \<open>fmt_X 4 65534 = ''FFFE''\<close> by simp
  then show ?thesis using memory_dump [of "0xFFEE" "0xFFFF" demo_machine "demo_dbg []"] by (simp add: demo_dbg_def)
qed

end
