(* ===== verification/Events.thy ===== *)
theory Events
  imports Runs
begin

text \<open>
  The debugger under any sequence of the simulator's callbacks: its invariant.
\<close>

section \<open>Events\<close>

text \<open>
  The debugger between initialisation and the end of the simulation, for any machine, any typed
  lines and any keys: the callbacks of the simulator are its steps.
\<close>

definition dbg_loaded :: "dbg \<Rightarrow> bool" where
  "dbg_loaded d \<longleftrightarrow> bplist d = no_bps \<and> syms d = no_syms \<and> heap d \<and> rx_file d = [] \<and> \<not> finished d"

inductive dbg_step :: "dbg \<Rightarrow> dbg \<Rightarrow> bool" where
  on_fetch: "dbgOnFetch m pc opcode d = Some d' \<Longrightarrow> dbg_step d d'"
| on_tx: "dbg_step d (dbgOnTx c d)"
| on_fault: "dbg_step d (dbgOnFault addr we paddr d)"

definition steady :: "dbg \<Rightarrow> bool" where
  "steady d \<longleftrightarrow> dbg_ok d \<and> initialised d \<and> (finished d \<longleftrightarrow> quitting d) \<and> (\<forall>c \<in> set (rx_file d). c < 128)"

lemma steady_echo [simp]: "steady (echo s d) = steady d"
  by (simp add: steady_def)

lemma steady_upd [simp]:
  "steady (d\<lparr>input := y1\<rparr>) = steady d" "steady (d\<lparr>answers := y2\<rparr>) = steady d" "steady (d\<lparr>dmode := y3\<rparr>) = steady d"
  "steady (d\<lparr>stepsLeft := y4\<rparr>) = steady d" "steady (d\<lparr>stepFirst := y5\<rparr>) = steady d" "steady (d\<lparr>interrupted := y6\<rparr>) = steady d"
  "steady (d\<lparr>termDirty := y7\<rparr>) = steady d" "steady (d\<lparr>reset_req := y8\<rparr>) = steady d" "steady (d\<lparr>dpc := y9\<rparr>) = steady d"
  "steady (d\<lparr>fetchCount := y10\<rparr>) = steady d" "steady (d\<lparr>tkeys := y11\<rparr>) = steady d" "steady (d\<lparr>polls := y12\<rparr>) = steady d"
  "steady (d\<lparr>terminal := y13\<rparr>) = steady d"
  by (simp_all add: steady_def)

lemma steady_quit [simp]: "steady d \<Longrightarrow> steady (d\<lparr>quitting := True, dmode := rm, finished := True\<rparr>)"
  by (simp add: steady_def)

lemma steady_bps: "steady d \<Longrightarrow> bps_ok b \<Longrightarrow> steady (d\<lparr>bplist := b\<rparr>)"
  by (simp add: steady_def dbg_ok_def)

lemma get_cmd_steady: "dbgConsoleGetCmd n d = Some (l, d') \<Longrightarrow> \<exists>s ins. d' = echo s (d\<lparr>input := ins\<rparr>)"
  by (auto simp: dbgConsoleGetCmd_def split: list.splits)

lemma read_hex_steady: "steady d \<Longrightarrow> dbgReadHexU16 d = Some (r, d') \<Longrightarrow> steady d'"
  by (auto simp: dbgReadHexU16_def split: bind_splits if_splits option.splits dest!: get_cmd_steady)

lemma show_checked_steady: "steady d \<Longrightarrow> steady (show_checked m a e d)"
  using show_checked_echo [of m a e d] by auto

lemma ask_end_steady: "steady d \<Longrightarrow> ask_end m a d = Some d' \<Longrightarrow> steady d'"
  by (auto simp: ask_end_def split: bind_splits option.splits
      dest!: read_hex_steady [rotated] intro: show_checked_steady)

lemma mem_steady: "steady d \<Longrightarrow> dbgPrintMemRange m toks d = Some d' \<Longrightarrow> steady d'"
  by (auto simp: dbgPrintMemRange_def split: bind_splits option.splits if_splits
      dest!: read_hex_steady [rotated] intro: ask_end_steady show_checked_steady)

lemma set_bp_steady:
  assumes "steady d" "set_bp a nm d = Some d'"
  shows "steady d'"
proof -
  obtain b where "set_bp a nm d = Some (d\<lparr>bplist := b\<rparr>)" "bps_ok b"
    using set_bp_ok [of d a nm] assms(1) by (auto simp: steady_def)
  then show ?thesis using assms steady_bps by auto
qed

lemma remove_bp_steady:
  assumes "steady d" "remove_bp a w d = Some d'"
  shows "steady d'"
proof -
  obtain b s where "remove_bp a w d = Some (echo s (d\<lparr>bplist := b\<rparr>))" "bps_ok b"
    using remove_bp_ok [of d a w] assms(1) by (auto simp: steady_def)
  then show ?thesis using assms steady_bps by auto
qed

lemma run_command_steady:
  assumes "steady d" "run_command m toks d = Some d'"
  shows "steady d'"
proof (cases "dbgParseCommand (toks ! 0)")
  case CMD_BREAKPOINT
  then show ?thesis using assms
    by (auto simp: run_command_def dbgAddBp_def Let_def split: if_splits option.splits dest: set_bp_steady [rotated])
next
  case CMD_REMOVEBP
  then show ?thesis using assms
    by (auto simp: run_command_def dbgRemoveBreakpoint_def split: if_splits option.splits dest: remove_bp_steady [rotated])
next
  case CMD_LISTBREAKPOINTS
  then show ?thesis using assms list_cmd_ok [of d m] by (auto simp: run_command_def steady_def)
next
  case CMD_MEMORY
  then show ?thesis using assms mem_steady by (auto simp: run_command_def)
next
  case CMD_DISASSEMBLE
  then show ?thesis using assms disasm_cmd_echo [of m toks d] by (auto simp: run_command_def)
next
  case CMD_REGISTERS
  then show ?thesis using assms regs_echo [of m d] by (auto simp: run_command_def)
next
  case CMD_STEP
  then show ?thesis using assms
    by (auto simp: run_command_def dbgStep6502_def Let_def parse_err_def split: if_splits option.splits)
qed (use assms in \<open>auto simp: run_command_def dbgRunDbgCont_def dbgResetMachine_def dbgDisplayHelp_def\<close>)

lemma command_loop_steady:
  "command_loop m d = Some d' \<Longrightarrow> steady d \<Longrightarrow> steady d' \<and> dmode d' \<noteq> DBG_STOPPED"
proof (induction rule: command_loop.raw_induct [rotated 1, consumes 1, case_names step])
  case (step loop m d d')
  show ?case
  proof (cases "dmode d = DBG_STOPPED")
    case True
    then have body: "(dbgConsoleGetCmd 100 d \<bind> (\<lambda>(line, d).
        if line = [] \<or> hd line = CHR 0x0A then loop m d
        else let toks = dbgGetCmdTokens line 10 in
          if toks = [] then loop m d else run_command m toks d \<bind> loop m)) = Some d'"
      using step.hyps by simp
    then obtain l d1 where l: "dbgConsoleGetCmd 100 d = Some (l, d1)" by (cases "dbgConsoleGetCmd 100 d") auto
    then have d1: "steady d1" using get_cmd_steady [OF l] step.prems by auto
    have "loop m d1 = Some d' \<or> run_command m (dbgGetCmdTokens l 10) d1 \<bind> loop m = Some d'"
      using body unfolding l Let_def by (simp split: if_splits)
    then show ?thesis
    proof
      assume "loop m d1 = Some d'"
      then show ?thesis using step.IH d1 by blast
    next
      assume "run_command m (dbgGetCmdTokens l 10) d1 \<bind> loop m = Some d'"
      then obtain d2 where "run_command m (dbgGetCmdTokens l 10) d1 = Some d2" "loop m d2 = Some d'"
        by (cases "run_command m (dbgGetCmdTokens l 10) d1") auto
      then show ?thesis using step.IH run_command_steady d1 by blast
    qed
  next
    case False
    then show ?thesis using step by simp
  qed
qed


lemma send_key_steady: "steady d \<Longrightarrow> steady (dbgSendKey k d)"
  by (auto simp: steady_def dbgSendKey_def dbg_ok_def key_code_def split: option.splits if_splits)

lemma poll_steady: "steady d \<Longrightarrow> steady (dbgPollTerminal d)"
proof -
  have "steady d \<Longrightarrow> steady (poll_loop ks d)" for ks d
    by (induction ks d rule: poll_loop.induct) (auto intro: send_key_steady)
  then show "steady d \<Longrightarrow> steady (dbgPollTerminal d)" by (simp add: dbgPollTerminal_def Let_def)
qed

lemma back_steady [simp]: "steady (dbgBackIntoDebugger d) = steady d"
  by (simp add: dbgBackIntoDebugger_def)

lemma echo_step_steady:
  assumes "steady d" "dbgEchoStep m d = Some d'"
  shows "steady d' \<and> dmode d' = dmode d"
  using echo_step_ok [of d m] assms by (auto simp: steady_def)

lemma stp_steady:
  "steady d \<Longrightarrow> dbgHandleStp d = Some (r, d') \<Longrightarrow> r \<and> steady d' \<and> dmode d' \<noteq> DBG_STOPPED"
  by (auto simp: dbgHandleStp_def dbgConsoleGetchar_def dbgResetMachine_def Let_def split: bind_splits list.splits if_splits)

lemma running_steady:
  assumes "steady d" "dmode d = DBG_RUNNING" "should_stop_running m d = Some (stop, d')"
  shows "steady d' \<and> (\<not> stop \<longrightarrow> dmode d' \<noteq> DBG_STOPPED)"
proof -
  define p where "p = (if unat (fetchCount d) mod 512 = 0 then dbgPollTerminal d else d)"
  have md: "dmode (poll_loop ks x) = dmode x" for ks x by (induction ks x rule: poll_loop.induct) auto
  have p: "steady p" "dmode p = DBG_RUNNING"
    using assms(1,2) poll_steady by (auto simp: p_def dbgPollTerminal_def Let_def md)
  show ?thesis using assms(3) p unfolding should_stop_running_def Let_def p_def [symmetric]
    by (auto split: if_splits bind_splits option.splits)
qed

lemma stepping_steady:
  assumes "steady d" "dmode d = DBG_STEPPING" "should_stop_stepping m d = Some (stop, d')"
  shows "steady d' \<and> (\<not> stop \<longrightarrow> dmode d' \<noteq> DBG_STOPPED)"
  using assms echo_step_steady [OF assms(1)] unfolding should_stop_stepping_def
  by (auto split: if_splits bind_splits option.splits)

lemma on_fetch_steady:
  assumes "steady d" "dbgOnFetch m pc opcode d = Some d'"
  shows "steady d' \<and> (\<not> quitting d \<longrightarrow> dmode d' \<noteq> DBG_STOPPED)"
proof (cases "quitting d")
  case False
  then have "initialised d" using assms(1) by (simp add: steady_def)
  from assms(2) [unfolded onfetch [OF this False]]
  obtain stop d1 where d1: "dbgShouldStop m opcode (at_fetch pc d) = Some (stop, d1)"
      "(if \<not> stop then Some d1 else dbgCommandLoop m d1 \<bind> (\<lambda>d. if dmode d = DBG_STEPPING \<and> stepsLeft d > 0 then dbgEchoStep m d else Some d))
         = Some d'"
    by (cases "dbgShouldStop m opcode (at_fetch pc d)") auto
  have a: "steady (at_fetch pc d)" using assms(1) by (simp add: at_fetch_def)
  have s1: "steady d1 \<and> (\<not> stop \<longrightarrow> dmode d1 \<noteq> DBG_STOPPED)"
    using d1(1) a stp_steady [OF a] running_steady [OF a] stepping_steady [OF a] unfolding dbgShouldStop_def
    by (cases "dmode (at_fetch pc d)") (auto split: if_splits bind_splits)
  show ?thesis
  proof (cases stop)
    case True
    then obtain d2 where d2: "dbgCommandLoop m d1 = Some d2"
        "(if dmode d2 = DBG_STEPPING \<and> stepsLeft d2 > 0 then dbgEchoStep m d2 else Some d2) = Some d'"
      using d1(2) by (cases "dbgCommandLoop m d1") auto
    have "steady d2 \<and> dmode d2 \<noteq> DBG_STOPPED"
      using command_loop_steady d2(1) s1 by (auto simp: dbgCommandLoop_def show_instr_def)
    then show ?thesis using d2(2) echo_step_steady by (auto split: if_splits)
  next
    case f: False
    then show ?thesis using d1(2) s1 by auto
  qed
qed (use assms in \<open>auto simp: dbgOnFetch_def\<close>)

lemma init_steady:
  assumes "dbg_loaded d" "dbgInit True files src d = (True, d')"
  shows "steady d'"
proof -
  let ?same = "\<lambda>x. bplist x = no_bps \<and> symtab_ok (syms x) \<and> heap x \<and> rx_file x = [] \<and> \<not> finished x"
  have "?same (load_file f x)" if "?same x" for f x
    using that read_syms_ok by (auto simp: load_file_def Let_def split: prod.split)
  then have f: "?same x \<Longrightarrow> ?same (fold load_file files x)" for x
    by (induction files arbitrary: x) auto
  have "symtab_ok no_syms" by (simp add: symtab_ok_def no_syms_def)
  then have "?same (fold load_file files d)" using f [of d] assms(1) by (simp add: dbg_loaded_def)
  then show ?thesis using assms(2) no_bps_ok(1)
    by (auto simp: dbgInit_def Let_def steady_def dbg_ok_def split: option.splits)
qed

interpretation dbgs: invariant_system dbg_step steady
proof unfold_locales
  fix d d'
  assume "dbg_step d d'" "steady d"
  then show "steady d'"
  proof (induction rule: dbg_step.induct)
    case (on_fetch m pc opcode d d')
    then show ?case using on_fetch_steady by blast
  next
    case (on_tx d c)
    then show ?case by (auto simp: dbgOnTx_def dbgTerminalPutchar_def Let_def)
  next
    case (on_fault d addr we paddr)
    then show ?case by (auto simp: dbgOnFault_def)
  qed
qed

section \<open>Properties\<close>

text \<open>
  C18: the debugger's state stays well formed. In every state that the simulator's callbacks can
  lead to from a successful initialisation, for any machine, input, keys and symbol files: the
  breakpoint and symbol tables are consistent, the simulation has been asked to finish exactly if
  the user has quit, and only 7-bit codes were sent to the machine. A fetch handled in such a state
  never leaves the machine stopped while the simulation goes on.
\<close>

theorem debugger_invariant:
  assumes "dbg_loaded d0" "dbgInit True files src d0 = (True, d1)" "dbg_step\<^sup>*\<^sup>* d1 d"
  shows "bps_ok (bplist d) \<and> symtab_ok (syms d) \<and> (finished d \<longleftrightarrow> quitting d) \<and> (\<forall>c \<in> set (rx_file d). c < 128) \<and>
    (\<forall>m pc opcode d'. \<not> quitting d \<and> dbgOnFetch m pc opcode d = Some d' \<longrightarrow> dmode d' \<noteq> DBG_STOPPED)"
proof -
  have st: "steady d" by (rule dbgs.steps_inv [OF assms(3) init_steady [OF assms(1,2)]])
  then have "dmode d' \<noteq> DBG_STOPPED" if "\<not> quitting d" "dbgOnFetch m pc opcode d = Some d'" for m pc opcode d'
    using on_fetch_steady [OF st that(2)] that(1) by blast
  then show ?thesis using st by (auto simp: steady_def dbg_ok_def)
qed

theorem debugger_invariant_witness:
  "\<exists>d. dbg_step\<^sup>*\<^sup>* (demo_session [''q'']) d \<and> finished d \<and> quitting d \<and> bps_ok (bplist d)"
proof -
  have l: "dbg_loaded (demo_dbg [''q''])" by (simp add: dbg_loaded_def demo_dbg_def)
  have i: "dbgInit True [] None (demo_dbg [''q'']) = (True, demo_session [''q''])"
    by (simp add: demo_session_def dbgInit_def Let_def)
  obtain d where d: "dbgOnFetch demo_machine 0x8100 0xEA (demo_session [''q'']) = Some d" "quitting d"
    using quit_command [OF demo_live(1) _ demo_live(2), where opcode = "0xEA" and rest = "[]"] by auto
  have r: "dbg_step\<^sup>*\<^sup>* (demo_session [''q'']) d" using dbg_step.on_fetch [OF d(1)] by simp
  show ?thesis using debugger_invariant [OF l i r] d(2) r by blast
qed

end
