(* ===== verification/Bridge.thy ===== *)
theory Bridge
  imports Session
begin

text \<open>
  The debugger's side of the simulator interface (\<^verbatim>\<open>rtl/dbg/bbdbg_vpi.c\<close>): the system tasks the
  test bench calls, the callbacks at the start and the end of the simulation, and the caches of VPI
  handles. VPI itself is outside: which signals exist, which allocations succeed, the arguments of
  the command line and the files are arguments of the model, and \<open>by_index\<close> is the handle that
  \<open>vpi_handle_by_index\<close> makes for an index.
\<close>

section \<open>The code\<close>

text \<open>\<open>readInt\<close> is a 32-bit integer; the tasks cut it to the width of their argument.\<close>

definition fetchCalltf :: "int \<Rightarrow> int \<Rightarrow> machine \<Rightarrow> dbg \<Rightarrow> dbg option" where
  "fetchCalltf pc opcode m d = dbgOnFetch m (word_of_int pc) (word_of_int opcode) d"

definition txCalltf :: "int \<Rightarrow> dbg \<Rightarrow> dbg" where
  "txCalltf c d = dbgOnTx (word_of_int c) d"

definition faultCalltf :: "int \<Rightarrow> int \<Rightarrow> int \<Rightarrow> dbg \<Rightarrow> dbg" where
  "faultCalltf addr we paddr d = dbgOnFault (word_of_int addr) we (word_of_int paddr) d"

definition wordOf :: "(nat \<Rightarrow> 'h) \<Rightarrow> nat \<Rightarrow> (nat \<Rightarrow> 'h option) \<Rightarrow> 'h \<times> (nat \<Rightarrow> 'h option)" where
  "wordOf by_index idx cache =
     (let cache = (case cache idx of None \<Rightarrow> cache(idx \<mapsto> by_index idx) | Some _ \<Rightarrow> cache)
      in (the (cache idx), cache))"

definition lookup :: "(string \<Rightarrow> bool) \<Rightarrow> string \<Rightarrow> string \<times> bool \<Rightarrow> string \<times> bool" where
  "lookup known name st =
     (if \<not> known name then
        (fst st @ ''[bbdbg] signal '' @ name @ '' not found (was tb.v built with -DBBDBG?)'' @ NL, False)
      else st)"

definition signals :: "string list" where
  "signals = [''tb.ram'', ''tb.rom'', ''tb.dut.regfile.regs'', ''tb.dut.P'', ''tb.mmu.kernel'', ''tb.mmu.ppn'', ''tb.dbg_reset_req'']"

text \<open>
  \<open>alloc\<close> says whether both caches could be allocated, \<open>args\<close> is the command line (\<open>None\<close> if VPI does
  not give it) and \<open>files\<close> what opening a file yields: its contents or the text of the error. The
  result is what is printed, whether the simulation is told to finish, and the debugger.
\<close>

definition startOfSim ::
  "(string \<Rightarrow> bool) \<Rightarrow> bool \<Rightarrow> string list option \<Rightarrow> bool \<Rightarrow> (string \<Rightarrow> string option \<times> string) \<Rightarrow> dbg \<Rightarrow> string \<times> bool \<times> dbg" where
  "startOfSim known alloc args display files d =
     (let (log, ok) = fold (lookup known) signals ([], True) in
      if \<not> ok \<or> \<not> alloc then (log, True, d)
      else let (syms, src) = (case args of None \<Rightarrow> ([], None) | Some as \<Rightarrow> parsePlusargs as ([], None));
               (up, d) = dbgInit display (map (\<lambda>f. (f, files f)) syms) src d
           in if \<not> up then (log @ ''[bbdbg] debugger UI failed to start'' @ NL, True, d) else (log, False, d))"

definition endOfSim :: "dbg \<Rightarrow> dbg" where
  "endOfSim d = dbgCleanup d"

section \<open>What holds of it\<close>

text \<open>However often words are looked up, each lookup gives the word's own handle.\<close>

definition coherent :: "(nat \<Rightarrow> 'h) \<Rightarrow> (nat \<Rightarrow> 'h option) \<Rightarrow> bool" where
  "coherent by_index cache \<longleftrightarrow> (\<forall>i h. cache i = Some h \<longrightarrow> h = by_index i)"

lemma wordOf_coherent:
  assumes "coherent by_index cache" "wordOf by_index idx cache = (h, cache')"
  shows "h = by_index idx \<and> coherent by_index cache'"
  using assms by (auto simp: wordOf_def coherent_def Let_def split: option.splits if_splits)

fun wordsOf :: "(nat \<Rightarrow> 'h) \<Rightarrow> nat list \<Rightarrow> (nat \<Rightarrow> 'h option) \<Rightarrow> 'h list" where
  "wordsOf by_index [] cache = []"
| "wordsOf by_index (i # is) cache = (case wordOf by_index i cache of (h, cache) \<Rightarrow> h # wordsOf by_index is cache)"

theorem cached_handles: "wordsOf by_index is (\<lambda>_. None) = map by_index is"
proof -
  have "coherent by_index c \<Longrightarrow> wordsOf by_index is c = map by_index is" for c
    by (induction "is" arbitrary: c) (auto dest: wordOf_coherent split: prod.splits)
  then show ?thesis by (simp add: coherent_def)
qed

lemma lookups:
  "fold (lookup known) ns (log, ok) = (log @ concat (map (\<lambda>n. if known n then [] else fst (lookup known n ([], True))) ns),
     ok \<and> (\<forall>n \<in> set ns. known n))"
  by (induction ns arbitrary: log ok) (auto simp: lookup_def)

text \<open>
  The simulation goes on after \<open>startOfSim\<close> exactly if every signal exists, the caches could be
  allocated and the display is up; then the debugger stands before the first instruction, and in
  every other case it stays off, so that the tasks the test bench calls do nothing.
\<close>

theorem start_of_sim:
  assumes "startOfSim known alloc args display files d = (log, fin, d')" "\<not> initialised d"
  shows "\<not> fin \<longleftrightarrow> (\<forall>n \<in> set signals. known n) \<and> alloc \<and> display"
    "\<not> fin \<Longrightarrow> initialised d' \<and> dmode d' = DBG_STOPPED \<and> \<not> quitting d'"
    "fin \<Longrightarrow> \<not> initialised d' \<and> fetchCalltf pc opcode m d' = Some d' \<and> txCalltf c d' = d' \<and> faultCalltf a we p d' = d'"
  using assms
  by (auto simp: startOfSim_def lookups dbgInit_def Let_def fetchCalltf_def dbgOnFetch_def txCalltf_def dbgOnTx_def
      faultCalltf_def dbgOnFault_def split: if_splits prod.splits)

end
