(* ===== verification/Layout.thy ===== *)
theory Layout
  imports Main
begin

text \<open>
  The debugger's screen (\<open>dbgInitDisplay\<close> of \<^verbatim>\<open>rtl/dbg/debugger.c\<close>): the sizes and places of its
  three panes for a terminal of given size, and the calls that can fail before. Each pane is a
  window of text inside a frame one cell wider on every side. Drawing and the modes of the
  terminal are ncurses calls without a result and are not modelled.
\<close>

section \<open>The code\<close>

record window_t =
  winw :: int
  winh :: int
  winx :: int
  winy :: int

record panes =
  dbgWin :: window_t
  termWin :: window_t
  srcWin :: window_t

text \<open>C's integer division agrees with \<open>div\<close> on the sizes of a terminal, which are not negative.\<close>

definition pane_layout :: "int \<Rightarrow> int \<Rightarrow> panes" where
  "pane_layout lines cols =
     (let d = \<lparr>winw = cols - 2, winh = lines - (lines div 2) - 3, winx = 1, winy = (lines div 2) + 2\<rparr>;
          t = \<lparr>winw = cols - (cols div 2) - 2, winh = lines - (lines div 2) - 2, winx = 1, winy = 1\<rparr>;
          s = \<lparr>winw = cols - (cols div 2) - 2, winh = lines - (lines div 2) - 2, winx = winx t + winw t + 2, winy = 1\<rparr>
      in \<lparr>dbgWin = d, termWin = t, srcWin = s\<rparr>)"

text \<open>\<open>tty\<close> and \<open>scr\<close> tell whether /dev/tty opens and newterm succeeds.\<close>

fun dbgInitDisplay :: "bool \<Rightarrow> bool \<Rightarrow> int \<times> int \<Rightarrow> panes option" where
  "dbgInitDisplay tty scr (lines, cols) = (if \<not> tty then None else if \<not> scr then None else Some (pane_layout lines cols))"

section \<open>Where the panes lie\<close>

text \<open>The cells of a pane with its frame: rows and columns, from the top left.\<close>

definition frame :: "window_t \<Rightarrow> (int \<times> int) set" where
  "frame w = {(y, x). winy w - 1 \<le> y \<and> y < winy w + winh w + 1 \<and> winx w - 1 \<le> x \<and> x < winx w + winw w + 1}"

text \<open>No pane covers another, whatever the size of the terminal.\<close>

theorem panes_disjoint:
  "let p = pane_layout lines cols in
     frame (dbgWin p) \<inter> frame (termWin p) = {} \<and> frame (dbgWin p) \<inter> frame (srcWin p) = {} \<and>
     frame (termWin p) \<inter> frame (srcWin p) = {}"
  by (auto simp: pane_layout_def frame_def Let_def)

text \<open>
  All panes lie on the screen if it has an even number of columns. With an odd number the frame of
  the source pane ends one column past the right edge.
\<close>

theorem panes_on_screen:
  assumes "0 \<le> lines" "0 \<le> cols" "p = pane_layout lines cols"
  shows "frame (dbgWin p) \<union> frame (termWin p) \<subseteq> {0..<lines} \<times> {0..<cols}"
    "frame (srcWin p) \<subseteq> {0..<lines} \<times> {0..<cols + cols mod 2}"
  using assms by (auto simp: pane_layout_def frame_def Let_def) (presburger | linarith)+

theorem source_pane_overhangs:
  assumes "odd cols" "1 < cols" "2 \<le> lines"
  shows "(0, cols) \<in> frame (srcWin (pane_layout lines cols))"
proof -
  have "2 * (cols div 2) = cols - 1" using assms(1) by presburger
  moreover have "lines div 2 \<le> lines - 1" using assms(3) by presburger
  ultimately show ?thesis using assms by (auto simp: pane_layout_def frame_def Let_def)
qed

end
