(* ===== verification/Gpu.thy ===== *)
theory Gpu
  imports Prelude "HOL-Library.Monad_Syntax"
begin

text \<open>
  The monitor window (\<^verbatim>\<open>tools/gpu.c\<close>): the 80 by 25 text screen that interprets the bytes the CPU
  writes to the GPU port, and the translation of key presses into the bytes appended to the input
  file. A write outside the screen array makes the operation \<open>None\<close>. SDL (window, font, events)
  is not modelled: an event is its kind and payload.
\<close>

section \<open>The code\<close>

definition COLS :: nat where "COLS = 80"
definition ROWS :: nat where "ROWS = 25"

record gpu =
  screen :: "char list list"
  cur_row :: nat
  cur_col :: nat

definition NUL :: char where "NUL = CHR 0x00"

definition blank :: "char list" where
  "blank = replicate COLS NUL"

definition gpu_init :: gpu where
  "gpu_init = \<lparr>screen = replicate ROWS blank, cur_row = 0, cur_col = 0\<rparr>"

definition set_cell :: "nat \<Rightarrow> nat \<Rightarrow> char \<Rightarrow> gpu \<Rightarrow> gpu option" where
  "set_cell r c v g =
     (if r < ROWS \<and> c < COLS then Some (g\<lparr>screen := (screen g)[r := (screen g ! r)[c := v]]\<rparr>) else None)"

definition scroll_if_needed :: "gpu \<Rightarrow> gpu" where
  "scroll_if_needed g =
     (if cur_row g \<ge> ROWS then g\<lparr>screen := drop 1 (screen g) @ [blank], cur_row := ROWS - 1\<rparr> else g)"

definition printable :: "char \<Rightarrow> bool" where
  "printable c \<longleftrightarrow> 32 \<le> (of_char c :: nat) \<and> (of_char c :: nat) < 127"

definition put_char :: "char \<Rightarrow> gpu \<Rightarrow> gpu option" where
  "put_char c g =
     map_option scroll_if_needed
       (if c = CHR 0x0A then Some (g\<lparr>cur_row := cur_row g + 1, cur_col := 0\<rparr>)
        else if c = CHR 0x0D then Some (g\<lparr>cur_col := 0\<rparr>)
        else if c = CHR 0x08 then
          (if cur_col g > 0 then set_cell (cur_row g) (cur_col g - 1) CHR '' '' (g\<lparr>cur_col := cur_col g - 1\<rparr>) else Some g)
        else if c = CHR 0x0C then Some (g\<lparr>screen := replicate ROWS blank, cur_row := 0, cur_col := 0\<rparr>)
        else if printable c then
          map_option (\<lambda>g. let g = g\<lparr>cur_col := cur_col g + 1\<rparr> in
              if cur_col g \<ge> COLS then g\<lparr>cur_row := cur_row g + 1, cur_col := 0\<rparr> else g)
            (set_cell (cur_row g) (cur_col g) c g)
        else Some g)"

fun put_chars :: "string \<Rightarrow> gpu \<Rightarrow> gpu option" where
  "put_chars [] g = Some g"
| "put_chars (c # cs) g = do { g \<leftarrow> put_char c g; put_chars cs g }"

text \<open>The text \<open>render\<close> draws for a row.\<close>

definition render_row :: "char list \<Rightarrow> string" where
  "render_row row = map (\<lambda>c. if c = NUL then CHR '' '' else c) row"

datatype key = Letter nat | Return | Backspace | Tab | Escape | OtherKey
datatype event = TextInput string | KeyDown bool key  \<comment> \<open>with Ctrl held\<close>

definition key_byte :: "bool \<Rightarrow> key \<Rightarrow> nat" where
  "key_byte ctrl k =
     (if ctrl then (case k of Letter i \<Rightarrow> i + 1 | _ \<Rightarrow> 0)
      else (case k of Return \<Rightarrow> 13 | Backspace \<Rightarrow> 8 | Tab \<Rightarrow> 9 | Escape \<Rightarrow> 27 | _ \<Rightarrow> 0))"

fun event_bytes :: "event \<Rightarrow> nat list" where
  "event_bytes (TextInput s) = map of_char (filter (\<lambda>c. (of_char c :: nat) < 128) s)"
| "event_bytes (KeyDown ctrl k) = (let ch = key_byte ctrl k in if ch \<noteq> 0 then [ch] else [])"

section \<open>The terminal it implements\<close>

text \<open>
  An endless roll of paper: the rows written so far and the column in the last one. The screen
  is its last 25 rows.
\<close>

record paper =
  sheet :: "char list list"  \<comment> \<open>the rows above the cursor's\<close>
  line :: "char list"
  col :: nat

definition new_line :: "paper \<Rightarrow> paper" where
  "new_line p = \<lparr>sheet = sheet p @ [line p], line = blank, col = 0\<rparr>"

definition type_char :: "char \<Rightarrow> paper \<Rightarrow> paper" where
  "type_char c p =
     (if c = CHR 0x0A then new_line p
      else if c = CHR 0x0D then p\<lparr>col := 0\<rparr>
      else if c = CHR 0x08 then (if col p > 0 then p\<lparr>line := (line p)[col p - 1 := CHR '' ''], col := col p - 1\<rparr> else p)
      else if c = CHR 0x0C then \<lparr>sheet = [], line = blank, col = 0\<rparr>
      else if printable c then
        (let p = p\<lparr>line := (line p)[col p := c], col := col p + 1\<rparr> in if col p = COLS then new_line p else p)
      else p)"

definition window :: "char list list \<Rightarrow> char list list" where
  "window rows = (let r = drop (length rows - ROWS) rows in r @ replicate (ROWS - length r) blank)"

definition displays :: "gpu \<Rightarrow> paper \<Rightarrow> bool" where
  "displays g p \<longleftrightarrow> screen g = window (sheet p @ [line p]) \<and> cur_row g = min (length (sheet p)) (ROWS - 1) \<and>
     cur_col g = col p \<and> col p < COLS \<and> length (line p) = COLS"

lemma dims [simp]: "0 < ROWS" "0 < COLS" "length blank = COLS" "Suc 0 - ROWS = 0" "Suc (Suc 0) - ROWS = 0" "2 - ROWS = 0"
  by (simp_all add: ROWS_def COLS_def blank_def)

lemma displays_init: "displays gpu_init \<lparr>sheet = [], line = blank, col = 0\<rparr>"
proof -
  have "replicate ROWS blank = blank # replicate (ROWS - Suc 0) blank"
    by (metis Suc_diff_1 One_nat_def dims(1) replicate_Suc)
  then show ?thesis by (simp add: displays_def gpu_init_def window_def)
qed

lemma window_line:
  assumes "row = min (length s) (ROWS - 1)"
  shows "(window (s @ [l]))[row := l'] = window (s @ [l'])" "window (s @ [l]) ! row = l"
proof -
  let ?d = "length s + 1 - ROWS"
  have d: "?d \<le> length s" "length (drop ?d s) = row" using assms by (auto simp: min_def ROWS_def)
  then have w: "window (s @ [l]) = drop ?d s @ l # replicate (ROWS - length (drop ?d s) - 1) blank" for l
    by (simp add: window_def)
  show "(window (s @ [l]))[row := l'] = window (s @ [l'])" "window (s @ [l]) ! row = l"
    unfolding w using d(2) by (simp_all add: list_update_append nth_append)
qed

lemma displays_new_line:
  assumes "displays g p"
  shows "displays (scroll_if_needed (g\<lparr>cur_row := cur_row g + 1, cur_col := 0\<rparr>)) (new_line p)"
proof (cases "length (sheet p) < ROWS - 1")
  case True
  let ?n = "ROWS - Suc (length (sheet p))"
  have "replicate ?n blank = blank # replicate (?n - 1) blank" using True by (cases ?n) auto
  then show ?thesis using True assms by (simp add: displays_def new_line_def scroll_if_needed_def window_def)
next
  case False
  then have l: "length (sheet p) + 1 - ROWS \<le> length (sheet p)" "ROWS \<le> length (sheet p) + 1" by (auto simp: ROWS_def)
  then show ?thesis using False assms
    by (simp add: displays_def new_line_def scroll_if_needed_def window_def Suc_diff_le)
qed

lemma no_scroll: "displays g p \<Longrightarrow> scroll_if_needed g = g"
  by (simp add: displays_def scroll_if_needed_def ROWS_def)

lemma set_cell_displays:
  assumes "displays g p" "c < COLS" "c' < COLS"
  shows "\<exists>g'. set_cell (cur_row g) c v g = Some g' \<and> displays (g'\<lparr>cur_col := c'\<rparr>) (p\<lparr>line := (line p)[c := v], col := c'\<rparr>)
    \<and> cur_col g' = cur_col g \<and> cur_row g' = cur_row g"
proof -
  note d = assms(1) [unfolded displays_def]
  have "cur_row g < ROWS" using d dims(1) by (simp add: min_def ROWS_def)
  then show ?thesis
    using assms d window_line(1) [of "cur_row g" "sheet p" "line p" "(line p)[c := v]"] window_line(2) [of "cur_row g" "sheet p" "line p"]
    by (simp add: set_cell_def displays_def)
qed

lemma put_char_displays:
  assumes "displays g p"
  shows "\<exists>g'. put_char c g = Some g' \<and> displays g' (type_char c p)"
proof -
  note d = assms [unfolded displays_def]
  consider (nl) "c = CHR 0x0A" | (cr) "c = CHR 0x0D" | (bs) "c = CHR 0x08" | (ff) "c = CHR 0x0C"
    | (pr) "c \<notin> {CHR 0x0A, CHR 0x0D, CHR 0x08, CHR 0x0C}" "printable c"
    | (ot) "c \<notin> {CHR 0x0A, CHR 0x0D, CHR 0x08, CHR 0x0C}" "\<not> printable c" by blast
  then show ?thesis
  proof cases
    case nl
    then show ?thesis using displays_new_line [OF assms] by (simp add: put_char_def type_char_def)
  next
    case cr
    have "displays (g\<lparr>cur_col := 0\<rparr>) (p\<lparr>col := 0\<rparr>)" using d by (simp add: displays_def)
    then show ?thesis using cr no_scroll by (simp add: put_char_def type_char_def)
  next
    case bs
    show ?thesis
    proof (cases "cur_col g > 0")
      case True
      then have c: "col p - 1 < COLS" using d by (simp add: less_imp_diff_less)
      obtain g' where g': "set_cell (cur_row g) (col p - 1) CHR '' '' g = Some g'"
          "displays (g'\<lparr>cur_col := col p - 1\<rparr>) (p\<lparr>line := (line p)[col p - 1 := CHR '' ''], col := col p - 1\<rparr>)"
        using set_cell_displays [OF assms c c] by blast
      then have "set_cell (cur_row g) (col p - 1) CHR '' '' (g\<lparr>cur_col := col p - 1\<rparr>) = Some (g'\<lparr>cur_col := col p - 1\<rparr>)"
        by (auto simp: set_cell_def split: if_splits)
      then show ?thesis using bs g'(2) d True no_scroll [OF g'(2)] by (simp add: put_char_def type_char_def)
    next
      case False
      then show ?thesis using bs assms d no_scroll by (simp add: put_char_def type_char_def)
    qed
  next
    case ff
    then show ?thesis using displays_init no_scroll [OF displays_init] by (cases g) (simp add: put_char_def type_char_def gpu_init_def)
  next
    case pr
    let ?p = "p\<lparr>line := (line p)[col p := c], col := col p + 1\<rparr>"
    have c: "col p < COLS" "cur_col g = col p" using d by simp_all
    show ?thesis
    proof (cases "col p + 1 = COLS")
      case True
      obtain g' where g': "set_cell (cur_row g) (col p) c g = Some g'" "cur_col g' = cur_col g" "cur_row g' = cur_row g"
          "displays (g'\<lparr>cur_col := 0\<rparr>) (p\<lparr>line := (line p)[col p := c], col := 0\<rparr>)"
        using set_cell_displays [OF assms c(1) dims(2)] by blast
      have "new_line (p\<lparr>line := (line p)[col p := c], col := 0\<rparr>) = new_line ?p" by (simp add: new_line_def)
      then show ?thesis using displays_new_line [OF g'(4)] g' True pr c(2)
        by (simp add: put_char_def type_char_def Let_def)
    next
      case False
      then have c': "col p + 1 < COLS" using c(1) by simp
      obtain g' where g': "set_cell (cur_row g) (col p) c g = Some g'" "cur_col g' = cur_col g" "cur_row g' = cur_row g"
          "displays (g'\<lparr>cur_col := col p + 1\<rparr>) ?p"
        using set_cell_displays [OF assms c(1) c'] by blast
      then show ?thesis using no_scroll [OF g'(4)] False pr c c'
        by (simp add: put_char_def type_char_def Let_def)
    qed
  next
    case ot
    then show ?thesis using assms no_scroll by (simp add: put_char_def type_char_def)
  qed
qed

interpretation screen: simulation put_char type_char displays
  by unfold_locales (rule put_char_displays)

lemma put_chars_run: "put_chars s g = run_ops put_char s g"
proof (induction s arbitrary: g)
  case (Cons c s)
  then show ?case by (cases "put_char c g") simp_all
qed simp

lemma put_chars_displays: "displays g p \<Longrightarrow> \<exists>g'. put_chars s g = Some g' \<and> displays g' (fold type_char s p)"
  unfolding put_chars_run by (rule screen.run_sim)

lemma type_text:
  assumes "\<forall>c \<in> set s. printable c" "col p + length s < COLS" "length (line p) = COLS"
  shows "fold type_char s p = p\<lparr>line := take (col p) (line p) @ s @ drop (col p + length s) (line p), col := col p + length s\<rparr>"
  using assms
proof (induction s arbitrary: p)
  case (Cons c s)
  have "printable c" using Cons.prems by simp
  then have n: "c \<noteq> CHR 0x0A" "c \<noteq> CHR 0x0D" "c \<noteq> CHR 0x08" "c \<noteq> CHR 0x0C" by (auto simp: printable_def)
  let ?p = "p\<lparr>line := (line p)[col p := c], col := col p + 1\<rparr>"
  have "type_char c p = ?p" using n Cons.prems by (simp add: type_char_def)
  moreover have "fold type_char s ?p = ?p\<lparr>line := take (col ?p) (line ?p) @ s @ drop (col ?p + length s) (line ?p), col := col ?p + length s\<rparr>"
    by (rule Cons.IH) (use Cons.prems in simp_all)
  ultimately show ?case using Cons.prems by (simp add: take_Suc_conv_app_nth)
qed simp

section \<open>Properties\<close>

text \<open>
  C16: \<open>put_char\<close> implements a terminal with an endless roll of paper. Whatever bytes arrive,
  no write leaves the screen array, and the 25 rows of the screen and the cursor are those of the
  end of the roll: the rows that scrolled off are the only difference.
\<close>

theorem screen_refines_terminal:
  "\<exists>g. put_chars s gpu_init = Some g \<and> displays g (fold type_char s \<lparr>sheet = [], line = blank, col = 0\<rparr>) \<and>
     cur_row g < ROWS \<and> cur_col g < COLS"
proof -
  obtain g where g: "put_chars s gpu_init = Some g" "displays g (fold type_char s \<lparr>sheet = [], line = blank, col = 0\<rparr>)"
    using put_chars_displays [OF displays_init] by blast
  then have "cur_row g < ROWS" "cur_col g < COLS" by (simp_all add: displays_def min_def ROWS_def)
  with g show ?thesis by blast
qed

text \<open>
  A line of text printed from the start of a row, shorter than the screen is wide and ended
  by CR LF, is drawn on the row above the cursor, filled with blanks, whatever was printed before.
\<close>

theorem text_line_shown:
  assumes "\<forall>c \<in> set t. printable c" "length t < COLS"
  shows "\<exists>g. put_chars (s @ [CHR 0x0A] @ t @ [CHR 0x0D, CHR 0x0A]) gpu_init = Some g \<and> cur_col g = 0 \<and> 0 < cur_row g \<and>
    render_row (screen g ! (cur_row g - 1)) = t @ replicate (COLS - length t) CHR '' ''"
proof -
  let ?p0 = "\<lparr>sheet = [], line = blank, col = 0\<rparr>"
  let ?s = "s @ [CHR 0x0A] @ t @ [CHR 0x0D, CHR 0x0A]"
  define p where "p = new_line (fold type_char s ?p0)"
  have p: "line p = blank" "col p = 0" by (simp_all add: p_def new_line_def)
  define l where "l = t @ drop (length t) blank"
  have "fold type_char t p = p\<lparr>line := l, col := length t\<rparr>"
    using type_text [OF assms(1), of p] assms(2) p by (simp add: l_def)
  moreover have "fold type_char ?s ?p0 = fold type_char [CHR 0x0D, CHR 0x0A] (fold type_char t p)"
    by (simp add: p_def type_char_def [of "CHR 0x0A"])
  ultimately have f: "fold type_char ?s ?p0 = \<lparr>sheet = sheet p @ [l], line = blank, col = 0\<rparr>"
    by (simp add: type_char_def new_line_def)
  obtain g where g: "put_chars ?s gpu_init = Some g" "displays g \<lparr>sheet = sheet p @ [l], line = blank, col = 0\<rparr>"
    using put_chars_displays [OF displays_init, of ?s] unfolding f by blast
  then have r: "cur_row g = min (length (sheet p) + 1) (ROWS - 1)" "cur_col g = 0"
      "screen g = window (sheet p @ [l, blank])" by (simp_all add: displays_def)
  let ?d = "length (sheet p) + 2 - ROWS"
  have "?d \<le> length (sheet p)" "cur_row g - 1 = length (sheet p) - ?d" "0 < cur_row g"
    using r(1) by (auto simp: ROWS_def)
  then have "screen g ! (cur_row g - 1) = l"
    by (simp add: r(3) window_def nth_append)
  moreover have "\<forall>c \<in> set t. c \<noteq> NUL" using assms(1) by (auto simp: printable_def NUL_def)
  then have "render_row l = t @ replicate (COLS - length t) CHR '' ''"
    by (simp add: l_def render_row_def blank_def map_idI)
  ultimately show ?thesis using g(1) r(2) \<open>0 < cur_row g\<close> by auto
qed

theorem text_line_shown_witness:
  "\<exists>g. put_chars ([] @ [CHR 0x0A] @ ''hello'' @ [CHR 0x0D, CHR 0x0A]) gpu_init = Some g \<and>
     render_row (screen g ! (cur_row g - 1)) = ''hello'' @ replicate 75 CHR '' ''"
  using text_line_shown [of "''hello''" "[]"] by (simp add: printable_def COLS_def) blast

end
