(* ===== verification/Monitor.thy ===== *)
theory Monitor
  imports Gpu
begin

text \<open>
  The main loop of the monitor (\<^verbatim>\<open>main\<close> of \<^verbatim>\<open>tools/gpu.c\<close>) between its start and its end: each turn
  handles the pending window events, then shows up to 512 bytes of what the FIFO holds. What
  happens outside is input: for every turn the events SDL has queued and the bytes the simulation
  has written to the FIFO since the turn before. The input file is open (\<open>main\<close> ends otherwise);
  its writes are taken to succeed. Drawing is a function of the screen (\<open>render_row\<close>).
\<close>

section \<open>The loop\<close>

datatype sdl_event = Quit | Key event

record monitor =
  running :: bool
  in_file :: "nat list"
  fifo :: string
  shown :: gpu

definition send_bytes :: "nat list \<Rightarrow> monitor \<Rightarrow> monitor" where
  "send_bytes cs w = w\<lparr>in_file := in_file w @ cs\<rparr>"

fun poll_events :: "sdl_event list \<Rightarrow> monitor \<Rightarrow> monitor" where
  "poll_events [] w = w"
| "poll_events (Quit # es) w = poll_events es (w\<lparr>running := False\<rparr>)"
| "poll_events (Key e # es) w = poll_events es (send_bytes (event_bytes e) w)"

definition read_gpu :: "monitor \<Rightarrow> monitor option" where
  "read_gpu w = do {
     g \<leftarrow> put_chars (take 512 (fifo w)) (shown w);
     Some (w\<lparr>shown := g, fifo := drop 512 (fifo w)\<rparr>)
   }"

fun main_loop :: "(sdl_event list \<times> string) list \<Rightarrow> monitor \<Rightarrow> monitor option" where
  "main_loop [] w = Some w"
| "main_loop ((es, bs) # ts) w =
     (if \<not> running w then Some w
      else do { w \<leftarrow> read_gpu (poll_events es (w\<lparr>fifo := fifo w @ bs\<rparr>)); main_loop ts w })"

definition monitor_start :: monitor where
  "monitor_start = \<lparr>running = True, in_file = [], fifo = [], shown = gpu_init\<rparr>"

section \<open>Nothing is lost\<close>

fun sent_by :: "sdl_event \<Rightarrow> nat list" where
  "sent_by Quit = []"
| "sent_by (Key e) = event_bytes e"

lemma poll_events_fields [simp]:
  "fifo (poll_events es w) = fifo w" "shown (poll_events es w) = shown w"
  "in_file (poll_events es w) = in_file w @ concat (map sent_by es)"
  "running (poll_events es w) \<longleftrightarrow> running w \<and> Quit \<notin> set es"
  by (induction es w rule: poll_events.induct) (auto simp: send_bytes_def)

lemma put_chars_append: "put_chars (s @ t) g = do { g \<leftarrow> put_chars s g; put_chars t g }"
proof (induction s arbitrary: g)
  case (Cons c s)
  then show ?case by (cases "put_char c g") simp_all
qed simp

definition quiet :: "(sdl_event list \<times> string) list \<Rightarrow> bool" where
  "quiet ts \<longleftrightarrow> (\<forall>t \<in> set ts. Quit \<notin> set (fst t))"

lemma main_loop_keeps:
  assumes "put_chars s gpu_init = Some (shown w)" "running w" "quiet ts"
  shows "\<exists>w' s'. main_loop ts w = Some w' \<and> running w' \<and> put_chars s' gpu_init = Some (shown w') \<and>
    s' @ fifo w' = s @ fifo w @ concat (map snd ts) \<and> in_file w' = in_file w @ concat (map sent_by (concat (map fst ts)))"
  using assms
proof (induction ts arbitrary: s w)
  case (Cons t ts)
  obtain es bs where t: "t = (es, bs)" by (cases t)
  let ?w = "poll_events es (w\<lparr>fifo := fifo w @ bs\<rparr>)"
  let ?s = "s @ take 512 (fifo w @ bs)"
  obtain g where "put_chars ?s gpu_init = Some g" using put_chars_displays [OF displays_init] by blast
  then have g: "put_chars (take 512 (fifo w @ bs)) (shown w) = Some g" "put_chars ?s gpu_init = Some g"
    using Cons.prems(1) by (simp_all add: put_chars_append)
  let ?w1 = "?w\<lparr>shown := g, fifo := drop 512 (fifo w @ bs)\<rparr>"
  have r: "read_gpu ?w = Some ?w1" using g(1) by (simp add: read_gpu_def)
  have "put_chars ?s gpu_init = Some (shown ?w1)" "running ?w1" "quiet ts"
    using g(2) Cons.prems(2,3) t by (simp_all add: quiet_def)
  from Cons.IH [OF this] obtain w' s' where w': "main_loop ts ?w1 = Some w'" "running w'" "put_chars s' gpu_init = Some (shown w')"
      "s' @ fifo w' = ?s @ fifo ?w1 @ concat (map snd ts)"
      "in_file w' = in_file ?w1 @ concat (map sent_by (concat (map fst ts)))" by blast
  have f: "s' @ fifo w' = s @ fifo w @ concat (map snd (t # ts))" using w'(4) append_take_drop_id [of 512 "fifo w @ bs"] t
    by (simp del: take_append drop_append append_take_drop_id)
  then show ?case using w'(1,2,3,5) r Cons.prems(2) t by (intro exI [of _ w'] exI [of _ s']) simp
qed simp

lemma drain_turns:
  assumes "put_chars s gpu_init = Some (shown w)" "running w" "length (fifo w) \<le> 512 * k"
  shows "\<exists>w'. main_loop (replicate k ([], [])) w = Some w' \<and> fifo w' = []"
  using assms
proof (induction k arbitrary: s w)
  case (Suc k)
  let ?s = "s @ take 512 (fifo w)"
  obtain g where "put_chars ?s gpu_init = Some g" using put_chars_displays [OF displays_init] by blast
  then have g: "put_chars (take 512 (fifo w)) (shown w) = Some g" "put_chars ?s gpu_init = Some g"
    using Suc.prems(1) by (simp_all add: put_chars_append)
  let ?w1 = "w\<lparr>shown := g, fifo := drop 512 (fifo w)\<rparr>"
  have "main_loop (replicate (Suc k) ([], [])) w = main_loop (replicate k ([], [])) ?w1"
    using g(1) Suc.prems(2) by (simp add: read_gpu_def)
  then show ?case using Suc.IH [of ?s ?w1] g(2) Suc.prems by simp
qed simp

lemma main_loop_append:
  "main_loop ts w = Some w' \<Longrightarrow> quiet ts \<Longrightarrow> running w \<Longrightarrow> main_loop (ts @ us) w = main_loop us w'"
proof (induction ts w rule: main_loop.induct)
  case (2 es bs ts w)
  let ?w = "poll_events es (w\<lparr>fifo := fifo w @ bs\<rparr>)"
  obtain w1 where w1: "read_gpu ?w = Some w1" "main_loop ts w1 = Some w'" using 2 by (auto split: bind_splits)
  have "running w1" using w1(1) 2 by (auto simp: read_gpu_def quiet_def split: bind_splits)
  then show ?case using 2 w1 by (simp add: quiet_def)
qed simp

text \<open>
  While the window is open no byte is lost, repeated or reordered between the simulation and the
  screen, and no key between the window and the input file, however the bytes and keys fall to the
  turns; and once the FIFO gets no more, every byte is on the screen after a turn per 512 bytes.
\<close>

theorem monitor_loses_nothing:
  assumes "quiet ts"
  shows "\<exists>w s. main_loop ts monitor_start = Some w \<and> put_chars s gpu_init = Some (shown w) \<and>
    s @ fifo w = concat (map snd ts) \<and> in_file w = concat (map sent_by (concat (map fst ts)))"
  using main_loop_keeps [of "[]" monitor_start ts] assms by (auto simp: monitor_start_def)

theorem monitor_catches_up:
  assumes "quiet ts" "length (concat (map snd ts)) \<le> 512 * k"
  shows "\<exists>w. main_loop (ts @ replicate k ([], [])) monitor_start = Some w \<and>
    put_chars (concat (map snd ts)) gpu_init = Some (shown w)"
proof -
  have st: "put_chars [] gpu_init = Some (shown monitor_start)" "running monitor_start" by (simp_all add: monitor_start_def)
  obtain w s where w: "main_loop ts monitor_start = Some w" "running w" "put_chars s gpu_init = Some (shown w)"
      "s @ fifo w = concat (map snd ts)"
    using main_loop_keeps [OF st assms(1)] by (auto simp: monitor_start_def)
  have "length (fifo w) \<le> 512 * k" using assms(2) unfolding w(4) [symmetric] by simp
  then obtain w1 where w1: "main_loop (replicate k ([], [])) w = Some w1" "fifo w1 = []" using drain_turns [OF w(3,2)] by blast
  have "quiet (replicate k ([], []))" by (simp add: quiet_def)
  from main_loop_keeps [OF w(3,2) this] w1 obtain s' where "put_chars s' gpu_init = Some (shown w1)" "s' = concat (map snd ts)"
    using w(4) by auto
  then show ?thesis using main_loop_append [OF w(1) assms(1) st(2)] w1(1) by auto
qed

end
